(* ===== verification/Prelude.thy ===== *)
theory Prelude
  imports Main "HOL-Library.AList" "HOL-Library.Char_ord" "HOL-Library.List_Lexorder"
    "HOL-Library.Word"
begin

text \<open>
  What every component of the control plane shares: the Go types the model reads
  as HOL types, the clock arithmetic of package time, the wrap-around of a 64-bit
  int, and generic lemmas about lists and sums. Strings are byte lists
  (\<^typ>\<open>string\<close>, each \<^typ>\<open>char\<close> one byte), as in Go, where len counts bytes.

  A \<open>time.Time\<close> is the number of nanoseconds since Go's zero Time (1 January of
  year 1), so that the zero value of the type is \<^term>\<open>0::int\<close>. A
  \<open>time.Duration\<close> is an int64 number of nanoseconds, read as \<^typ>\<open>int\<close>; the one
  operation of the program that can leave its range is \<open>Time.Sub\<close>, which Go
  saturates and so does \<open>time_Sub\<close>. The readings of a component's injected
  clock are arguments of its operations.
\<close>

named_theorems go_simps \<open>evaluation and rewriting of the modelled Go library operations\<close>
named_theorems inv_intros \<open>preservation lemmas of the component invariants\<close>

type_synonym time = int
type_synonym duration = int
type_synonym byte = "8 word"

definition max_duration :: duration where
  "max_duration = 2 ^ 63 - 1"

definition min_duration :: duration where
  "min_duration = - (2 ^ 63)"

definition time_Sub :: "time \<Rightarrow> time \<Rightarrow> duration" where
  "time_Sub t u = max min_duration (min max_duration (t - u))"

definition time_Add :: "time \<Rightarrow> duration \<Rightarrow> time" where
  "time_Add t d = t + d"

text \<open>
  The zero time has no reading of a real clock near it: year 1 lies about 1969 years
  before 1970, in seconds:
\<close>

definition unix_epoch_seconds :: int where
  "unix_epoch_seconds = 62135596800"

definition second :: duration where
  "second = 1000000000"

definition minute :: duration where
  "minute = 60 * second"

definition time_Unix :: "time \<Rightarrow> int" where
  "time_Unix t = t div second - unix_epoch_seconds"

text \<open>An int of the target is 64 bits wide; a product that leaves the range wraps.\<close>

definition int64 :: "int \<Rightarrow> int" where
  "int64 x = signed_take_bit 63 x"

lemma int64_id: "- (2 ^ 63) \<le> x \<Longrightarrow> x < 2 ^ 63 \<Longrightarrow> int64 x = x"
  by (simp add: int64_def signed_take_bit_int_eq_self)

lemma int64_range: "- (2 ^ 63) \<le> int64 x \<and> int64 x < 2 ^ 63"
  using signed_take_bit_int_greater_eq_minus_exp [of 63 x] signed_take_bit_int_less_exp [of 63 x]
  by (simp add: int64_def)

lemma time_Sub_range: "min_duration \<le> time_Sub t u \<and> time_Sub t u \<le> max_duration"
  by (auto simp: time_Sub_def min_duration_def max_duration_def)

lemma time_Sub_mono: "t \<le> t' \<Longrightarrow> time_Sub t u \<le> time_Sub t' u"
  by (auto simp: time_Sub_def)

lemma time_Sub_antimono: "u \<le> u' \<Longrightarrow> time_Sub t u' \<le> time_Sub t u"
  by (auto simp: time_Sub_def)

lemma time_Sub_self [simp]: "time_Sub t t = 0"
  by (simp add: time_Sub_def min_duration_def max_duration_def)

lemma time_Sub_nonneg: "u \<le> t \<Longrightarrow> 0 \<le> time_Sub t u"
  by (simp add: time_Sub_def min_duration_def max_duration_def)

lemma time_Sub_gt:
  "min_duration \<le> d \<Longrightarrow> d < max_duration \<Longrightarrow> (d < time_Sub t u) = (d < t - u)"
  by (auto simp: time_Sub_def)

text \<open>
  For a duration at or above the int64 minimum, exceeding it in saturated
  arithmetic implies exceeding it exactly.
\<close>

lemma time_Sub_gtD: "d < time_Sub t u \<Longrightarrow> min_duration \<le> d \<Longrightarrow> d < t - u"
  by (auto simp: time_Sub_def)

section \<open>Lists\<close>

lemma card_filter_distinct:
  "distinct xs \<Longrightarrow> card {x \<in> set xs. P x} = length (filter P xs)"
  by (simp add: distinct_card [symmetric])

lemma distinct_set_eq_length:
  "distinct xs \<Longrightarrow> distinct ys \<Longrightarrow> set xs = set ys \<Longrightarrow> length xs = length ys"
  by (metis distinct_card)

text \<open>Counting the matches of a predicate as an accumulating loop does.\<close>

lemma foldl_count:
  "foldl (\<lambda>n x. if P x then n + (1::int) else n) k xs = k + int (length (filter P xs))"
  by (induction xs arbitrary: k) auto

end
