(* ===== verification/Go_Map.thy ===== *)
theory Go_Map
  imports Prelude
begin

text \<open>
  Go maps. A \<open>map[K]V\<close> is an association list with distinct keys: \<open>m[k]\<close> is
  \<open>map_of m k\<close>, assignment is \<open>mput\<close>, \<open>delete\<close> is \<open>mdel\<close>, \<open>len\<close> is
  \<open>length\<close>. The order a \<open>range\<close> loop visits the keys in is unspecified in Go: an
  operation that ranges over a map takes a \<open>range_order\<close>, any function that
  permutes the list of keys, and its theorems hold for every one.

  The interface the rest of the development relies on is the locale \<open>go_map\<close>; its
  lemmas (the length of a map is the number of its keys, what a write or a delete
  does to it) are proved once from the laws, and the association lists interpret it.
\<close>

type_synonym ('k, 'v) gomap = "('k \<times> 'v) list"
type_synonym 'k range_order = "'k list \<Rightarrow> 'k list"

definition mput :: "'k \<Rightarrow> 'v \<Rightarrow> ('k, 'v) gomap \<Rightarrow> ('k, 'v) gomap" where
  "mput k v m = AList.update k v m"

definition mdel :: "'k \<Rightarrow> ('k, 'v) gomap \<Rightarrow> ('k, 'v) gomap" where
  "mdel k m = AList.delete k m"

definition mkeys :: "('k, 'v) gomap \<Rightarrow> 'k list" where
  "mkeys m = map fst m"

definition mwf :: "('k, 'v) gomap \<Rightarrow> bool" where
  "mwf m \<longleftrightarrow> distinct (map fst m)"

definition range_ok :: "'k range_order \<Rightarrow> bool" where
  "range_ok ord \<longleftrightarrow> (\<forall>ks. distinct ks \<longrightarrow> distinct (ord ks) \<and> set (ord ks) = set ks)"

lemma range_okD:
  assumes "range_ok ord" and "distinct ks"
  shows "distinct (ord ks)" and "set (ord ks) = set ks"
  using assms by (auto simp: range_ok_def)

lemma range_ok_id [simp]: "range_ok (\<lambda>ks. ks)"
  by (simp add: range_ok_def)

lemma range_ok_rev [simp]: "range_ok rev"
  by (simp add: range_ok_def)

section \<open>The interface of a map\<close>

locale go_map =
  fixes get :: "'m \<Rightarrow> 'k \<Rightarrow> 'v option"
    and put :: "'k \<Rightarrow> 'v \<Rightarrow> 'm \<Rightarrow> 'm"
    and del :: "'k \<Rightarrow> 'm \<Rightarrow> 'm"
    and keys :: "'m \<Rightarrow> 'k list"
    and len :: "'m \<Rightarrow> nat"
    and wf :: "'m \<Rightarrow> bool"
  assumes get_put: "get (put k v m) = (get m)(k \<mapsto> v)"
    and get_del: "get (del k m) = (get m)(k := None)"
    and keys_dom: "set (keys m) = dom (get m)"
    and len_keys: "len m = length (keys m)"
    and wf_keys: "wf m \<Longrightarrow> distinct (keys m)"
    and wf_put: "wf m \<Longrightarrow> wf (put k v m)"
    and wf_del: "wf m \<Longrightarrow> wf (del k m)"
begin

lemma finite_dom: "finite (dom (get m))"
  using keys_dom [of m, symmetric] by simp

lemma len_card: "wf m \<Longrightarrow> len m = card (dom (get m))"
  using distinct_card [OF wf_keys] by (simp add: len_keys keys_dom)

lemma len_put:
  "wf m \<Longrightarrow> len (put k v m) = (if get m k = None then Suc (len m) else len m)"
  by (auto simp: len_card wf_put get_put finite_dom insert_absorb domIff)

lemma len_del:
  "wf m \<Longrightarrow> len (del k m) = (if get m k = None then len m else len m - 1)"
  by (auto simp: len_card wf_del get_del finite_dom domIff)

lemma len_del_le: "wf m \<Longrightarrow> len (del k m) \<le> len m"
  by (simp add: len_del)

lemma len_pos: "wf m \<Longrightarrow> get m k = Some v \<Longrightarrow> 0 < len m"
  using finite_dom by (auto simp: len_card card_gt_0_iff)

lemma len_mono:
  assumes "wf m" and "wf m'" and "dom (get m) \<subseteq> dom (get m')"
  shows "len m \<le> len m'"
  using assms by (simp add: len_card card_mono finite_dom)

lemma len_zero: "wf m \<Longrightarrow> len m = 0 \<longleftrightarrow> get m = Map.empty"
  using finite_dom by (simp add: len_card)

end

lemma map_of_mput [simp, go_simps]: "map_of (mput k v m) = (map_of m)(k \<mapsto> v)"
  by (simp add: mput_def update_conv')

lemma map_of_mdel [simp, go_simps]: "map_of (mdel k m) = (map_of m)(k := None)"
  by (simp add: mdel_def delete_conv')

lemma set_mkeys [simp]: "set (mkeys m) = dom (map_of m)"
  by (simp add: mkeys_def dom_map_of_conv_image_fst)

lemma length_mkeys [simp]: "length (mkeys m) = length m"
  by (simp add: mkeys_def)

lemma mwf_Nil [simp, intro]: "mwf []"
  by (simp add: mwf_def)

lemma mwf_mkeys [intro]: "mwf m \<Longrightarrow> distinct (mkeys m)"
  by (simp add: mwf_def mkeys_def)

lemma mwf_mput [simp, intro]: "mwf m \<Longrightarrow> mwf (mput k v m)"
  by (simp add: mwf_def mput_def distinct_update)

lemma mwf_mdel [simp, intro]: "mwf m \<Longrightarrow> mwf (mdel k m)"
  by (simp add: mwf_def mdel_def distinct_delete)

interpretation gm: go_map map_of mput mdel mkeys length mwf
  by unfold_locales auto

lemmas mlen_simps = gm.len_put gm.len_del

text \<open>Counting the entries of a map that pass a test, entry by entry and key by key.\<close>

lemma map_filter_card:
  assumes "mwf m"
  shows "length (filter (\<lambda>(_, v). p v) m) = card {k. \<exists>v. map_of m k = Some v \<and> p v}"
proof -
  have "distinct (map fst (filter (\<lambda>(_, v). p v) m))"
    using assms by (simp add: mwf_def distinct_map_filter)
  moreover have "set (map fst (filter (\<lambda>(_, v). p v) m)) = {k. \<exists>v. map_of m k = Some v \<and> p v}"
    using assms by (force simp: mwf_def dest: map_of_SomeD intro: map_of_is_SomeI)
  ultimately show ?thesis
    using distinct_card [of "map fst (filter (\<lambda>(_, v). p v) m)"] by simp
qed

section \<open>Pruning a map while ranging over it\<close>

text \<open>
  The loop \<open>for k, v := range m { if p(k, v) { delete(m, k); removed = append(removed, k) } }\<close>,
  over the keys in the order the range visits them.
\<close>

fun map_prune ::
  "('k \<Rightarrow> 'v \<Rightarrow> bool) \<Rightarrow> 'k list \<Rightarrow> ('k, 'v) gomap \<Rightarrow> ('k, 'v) gomap \<times> 'k list" where
  "map_prune p [] m = (m, [])"
| "map_prune p (k # ks) m =
     (case map_of m k of
        Some v \<Rightarrow>
          if p k v then (let (m', removed) = map_prune p ks (mdel k m) in (m', k # removed))
          else map_prune p ks m
      | None \<Rightarrow> map_prune p ks m)"

lemma map_prune_get:
  "map_of (fst (map_prune p ks m)) x =
     (case map_of m x of Some v \<Rightarrow> if x \<in> set ks \<and> p x v then None else Some v | None \<Rightarrow> None)"
  by (induction p ks m rule: map_prune.induct)
    (auto simp: split_beta Let_def split: option.splits)

lemma map_prune_removed:
  "distinct ks \<Longrightarrow>
   snd (map_prune p ks m) = filter (\<lambda>k. \<exists>v. map_of m k = Some v \<and> p k v) ks"
proof (induction ks arbitrary: m)
  case Nil
  then show ?case by simp
next
  case (Cons k ks)
  have "filter (\<lambda>k'. \<exists>v. map_of (mdel k m) k' = Some v \<and> p k' v) ks =
      filter (\<lambda>k'. \<exists>v. map_of m k' = Some v \<and> p k' v) ks"
    using Cons.prems by (intro filter_cong) auto
  then show ?case
    using Cons by (auto simp: split_beta Let_def split: option.splits)
qed

lemma mwf_map_prune [intro]: "mwf m \<Longrightarrow> mwf (fst (map_prune p ks m))"
  by (induction p ks m rule: map_prune.induct)
    (auto simp: split_beta Let_def split: option.splits)

lemma map_prune_length: "mwf m \<Longrightarrow> length (fst (map_prune p ks m)) \<le> length m"
  by (rule gm.len_mono) (auto simp: map_prune_get split: option.splits if_splits)

text \<open>Ranging over a whole map, in any order, keeps exactly the entries that fail the test.\<close>

lemma map_prune_all:
  assumes "range_ok ord" and "mwf m"
  shows "map_of (fst (map_prune p (ord (mkeys m)) m)) x =
     (case map_of m x of Some v \<Rightarrow> if p x v then None else Some v | None \<Rightarrow> None)"
  using range_okD [OF assms(1) mwf_mkeys [OF assms(2)]]
  by (auto simp: map_prune_get split: option.splits)

lemma map_prune_all_removed:
  assumes "range_ok ord" and "mwf m"
  shows "distinct (snd (map_prune p (ord (mkeys m)) m))"
    and "set (snd (map_prune p (ord (mkeys m)) m)) = {k. \<exists>v. map_of m k = Some v \<and> p k v}"
  using range_okD [OF assms(1) mwf_mkeys [OF assms(2)]]
  by (auto simp: map_prune_removed)

end
