(* ===== verification/Go_Text.thy ===== *)
theory Go_Text
  imports Prelude "HOL-Library.Sublist"
begin

text \<open>
  The functions of Go's strings package the program uses, on byte strings.
  \<open>TrimSpace\<close> strips the UTF-8 encodings of the Unicode white-space characters from
  both ends, \<open>Contains\<close>, \<open>Split\<close>, \<open>Cut\<close>, \<open>CutPrefix\<close> and \<open>EqualFold\<close> are
  as documented for the arguments the program passes (one-byte separators; a fold
  against a word whose letters have only their two ASCII cases).
\<close>

section \<open>TrimSpace\<close>

text \<open>The white space of \<open>unicode.IsSpace\<close>, each character as its UTF-8 bytes.\<close>

definition space_runes :: "string list" where
  "space_runes =
     [[CHR 0x09], [CHR 0x0A], [CHR 0x0B], [CHR 0x0C], [CHR 0x0D], [CHR 0x20],
      [CHR 0xC2, CHR 0x85], [CHR 0xC2, CHR 0xA0],
      [CHR 0xE1, CHR 0x9A, CHR 0x80],
      [CHR 0xE2, CHR 0x80, CHR 0x80], [CHR 0xE2, CHR 0x80, CHR 0x81],
      [CHR 0xE2, CHR 0x80, CHR 0x82], [CHR 0xE2, CHR 0x80, CHR 0x83],
      [CHR 0xE2, CHR 0x80, CHR 0x84], [CHR 0xE2, CHR 0x80, CHR 0x85],
      [CHR 0xE2, CHR 0x80, CHR 0x86], [CHR 0xE2, CHR 0x80, CHR 0x87],
      [CHR 0xE2, CHR 0x80, CHR 0x88], [CHR 0xE2, CHR 0x80, CHR 0x89],
      [CHR 0xE2, CHR 0x80, CHR 0x8A], [CHR 0xE2, CHR 0x80, CHR 0xA8],
      [CHR 0xE2, CHR 0x80, CHR 0xA9], [CHR 0xE2, CHR 0x80, CHR 0xAF],
      [CHR 0xE2, CHR 0x81, CHR 0x9F], [CHR 0xE3, CHR 0x80, CHR 0x80]]"

definition lead_rune :: "string list \<Rightarrow> string \<Rightarrow> nat" where
  "lead_rune runes s =
     (case find (\<lambda>r. prefix r s) runes of Some r \<Rightarrow> length r | None \<Rightarrow> 0)"

lemma lead_rune_le: "lead_rune runes s \<le> length s"
  by (auto simp: lead_rune_def find_Some_iff prefix_length_le split: option.splits)

function strip_runes :: "string list \<Rightarrow> string \<Rightarrow> string" where
  "strip_runes runes s =
     (let n = lead_rune runes s in if n = 0 then s else strip_runes runes (drop n s))"
  by pat_completeness auto
termination
proof (relation "measure (\<lambda>(runes, s). length s)", goal_cases)
  case 1
  show ?case by simp
next
  case (2 runes s n)
  then show ?case using lead_rune_le [of runes s] by simp
qed

declare strip_runes.simps [simp del]

definition TrimSpace :: "string \<Rightarrow> string" where
  "TrimSpace s =
     rev (strip_runes (map rev space_runes) (rev (strip_runes space_runes s)))"

lemma strip_runes_stop: "lead_rune runes s = 0 \<Longrightarrow> strip_runes runes s = s"
  by (subst strip_runes.simps) simp

lemma lead_rune_strip: "lead_rune runes (strip_runes runes s) = 0"
proof (induction runes s rule: strip_runes.induct)
  case (1 runes s)
  then show ?case
    by (cases "lead_rune runes s = 0") (simp_all add: strip_runes.simps [of runes s] Let_def)
qed

lemma strip_runes_suffix: "suffix (strip_runes runes s) s"
proof (induction runes s rule: strip_runes.induct)
  case (1 runes s)
  show ?case
  proof (cases "lead_rune runes s = 0")
    case True
    then show ?thesis by (simp add: strip_runes_stop)
  next
    case False
    then have "suffix (strip_runes runes (drop (lead_rune runes s) s)) (drop (lead_rune runes s) s)"
      using 1 by simp
    then show ?thesis
      using False suffix_drop [of "lead_rune runes s" s]
      by (subst strip_runes.simps) (auto simp: Let_def intro: suffix_order.trans)
  qed
qed

lemma lead_rune_zero_iff:
  assumes "[] \<notin> set runes"
  shows "lead_rune runes s = 0 \<longleftrightarrow> (\<forall>r \<in> set runes. \<not> prefix r s)"
proof (cases "find (\<lambda>r. prefix r s) runes")
  case None
  then have "\<forall>r \<in> set runes. \<not> prefix r s" by (simp add: find_None_iff)
  with None show ?thesis by (simp add: lead_rune_def)
next
  case (Some r)
  then have "r \<in> set runes" and "prefix r s" by (auto simp: find_Some_iff)
  with Some assms show ?thesis by (auto simp: lead_rune_def)
qed

lemma lead_rune_prefix:
  assumes "[] \<notin> set runes" and "lead_rune runes s = 0" and "prefix t s"
  shows "lead_rune runes t = 0"
  using assms by (auto simp: lead_rune_zero_iff dest: prefix_order.trans)

lemma space_runes_nonempty: "[] \<notin> set space_runes" "[] \<notin> set (map rev space_runes)"
  by (simp_all add: space_runes_def)

lemma TrimSpace_leads:
  shows "lead_rune space_runes (TrimSpace s) = 0"
    and "lead_rune (map rev space_runes) (rev (TrimSpace s)) = 0"
proof -
  let ?t = "strip_runes space_runes s"
  have "suffix (strip_runes (map rev space_runes) (rev ?t)) (rev ?t)"
    by (rule strip_runes_suffix)
  then have "prefix (TrimSpace s) ?t"
    by (simp add: TrimSpace_def suffix_to_prefix)
  then show "lead_rune space_runes (TrimSpace s) = 0"
    by (rule lead_rune_prefix [OF space_runes_nonempty(1) lead_rune_strip])
  show "lead_rune (map rev space_runes) (rev (TrimSpace s)) = 0"
    by (simp add: TrimSpace_def lead_rune_strip)
qed

lemma TrimSpace_fixed:
  "lead_rune space_runes s = 0 \<Longrightarrow> lead_rune (map rev space_runes) (rev s) = 0 \<Longrightarrow> TrimSpace s = s"
  by (simp add: TrimSpace_def strip_runes_stop)

lemma TrimSpace_idem [simp]: "TrimSpace (TrimSpace s) = TrimSpace s"
  by (rule TrimSpace_fixed) (rule TrimSpace_leads)+

lemma TrimSpace_Nil [simp]: "TrimSpace [] = []"
proof -
  have "lead_rune runes [] = 0" for runes
    using lead_rune_le [of runes "[]"] by simp
  then show ?thesis by (simp add: TrimSpace_fixed)
qed

lemma TrimSpace_set: "set (TrimSpace s) \<subseteq> set s"
proof -
  have "set (strip_runes r u) \<subseteq> set u" for r u
    using strip_runes_suffix [of r u] by (rule set_mono_suffix)
  then show ?thesis
    unfolding TrimSpace_def by (metis set_rev subset_trans)
qed

text \<open>
  A string none of whose bytes is ASCII white space or part of a multi-byte
  character is its own trimming: the identifiers of the program are of this kind.
\<close>

definition plain_char :: "char \<Rightarrow> bool" where
  "plain_char c \<longleftrightarrow> (of_char c :: nat) \<in> {33..<128}"

definition starts_plain :: "string \<Rightarrow> bool" where
  "starts_plain r = (case r of [] \<Rightarrow> True | c # _ \<Rightarrow> plain_char c)"

lemma space_runes_not_plain:
  "\<forall>r \<in> set space_runes. \<not> starts_plain r"
  "\<forall>r \<in> set (map rev space_runes). \<not> starts_plain r"
  by (simp_all add: space_runes_def starts_plain_def plain_char_def)

lemma lead_rune_plain:
  assumes "\<forall>r \<in> set runes. \<not> starts_plain r" and "\<forall>c \<in> set s. plain_char c"
  shows "lead_rune runes s = 0"
proof -
  have "[] \<notin> set runes" using assms(1) by (auto simp: starts_plain_def)
  moreover have "\<not> prefix r s" if "r \<in> set runes" for r
    using assms(1) [rule_format, OF that] assms(2)
    by (cases r) (auto simp: prefix_def starts_plain_def)
  ultimately show ?thesis by (simp add: lead_rune_zero_iff)
qed

lemma TrimSpace_plain: "\<forall>c \<in> set s. plain_char c \<Longrightarrow> TrimSpace s = s"
  by (intro TrimSpace_fixed lead_rune_plain space_runes_not_plain) simp_all

end
