(* ===== verification/Registry.thy ===== *)
theory Registry
  imports Go_Map Go_Text
begin

text \<open>
  internal/registry/registry.go: which peers are reachable right now. The state of a
  peer is derived from its silence and never stored. Each operation is one critical
  section of the source's mutex, with the reading of the injected clock it makes as
  its argument \<open>now\<close>, and, where it ranges over the map, the order of that range.
\<close>

section \<open>Data\<close>

datatype peer_state = Online | Suspect | Gone

record peer =
  peer_ID :: string
  peer_RegisteredAt :: time
  peer_LastSeen :: time
  peer_State :: peer_state

record peer_record =
  rec_registeredAt :: time
  rec_lastSeen :: time

record registry_options =
  ro_HeartbeatInterval :: duration
  ro_SuspectAfter :: duration
  ro_OfflineAfter :: duration
  ro_MaxPeers :: int

definition DefaultMaxPeers :: int where
  "DefaultMaxPeers = 10000"

record registry =
  reg_peers :: "(string, peer_record) gomap"
  reg_heartbeat :: duration
  reg_suspect :: duration
  reg_offline :: duration
  reg_ceiling :: int

datatype registry_error =
    HeartbeatNotPositive
  | SuspectNotLonger duration duration
  | OfflineNotLonger duration duration
  | NoPeerIdentifier
  | ErrNotRegistered
  | ErrRegistryFull

section \<open>Operations\<close>

definition registry_New :: "registry_options \<Rightarrow> registry_error list + registry" where
  "registry_New opts =
     (let problems =
        (if ro_HeartbeatInterval opts \<le> 0 then [HeartbeatNotPositive]
         else if ro_SuspectAfter opts \<le> ro_HeartbeatInterval opts
         then [SuspectNotLonger (ro_SuspectAfter opts) (ro_HeartbeatInterval opts)]
         else []) @
        (if ro_OfflineAfter opts \<le> ro_SuspectAfter opts
         then [OfflineNotLonger (ro_OfflineAfter opts) (ro_SuspectAfter opts)]
         else [])
      in if problems \<noteq> [] then Inl problems
         else Inr
           \<lparr>reg_peers = [],
            reg_heartbeat = ro_HeartbeatInterval opts,
            reg_suspect = ro_SuspectAfter opts,
            reg_offline = ro_OfflineAfter opts,
            reg_ceiling = (if ro_MaxPeers opts \<le> 0 then DefaultMaxPeers else ro_MaxPeers opts)\<rparr>)"

definition registry_HeartbeatInterval :: "registry \<Rightarrow> duration" where
  "registry_HeartbeatInterval r = reg_heartbeat r"

definition stateOf :: "registry \<Rightarrow> peer_record \<Rightarrow> time \<Rightarrow> peer_state" where
  "stateOf r held now =
     (let silence = time_Sub now (rec_lastSeen held)
      in if silence > reg_offline r then Gone
         else if silence > reg_suspect r then Suspect
         else Online)"

definition expireLocked ::
  "string range_order \<Rightarrow> time \<Rightarrow> registry \<Rightarrow> registry \<times> string list" where
  "expireLocked ord now r =
     (let (peers, removed) =
        map_prune (\<lambda>_ held. stateOf r held now = Gone) (ord (mkeys (reg_peers r))) (reg_peers r)
      in (r\<lparr>reg_peers := peers\<rparr>, removed))"

definition registry_Register ::
  "string range_order \<Rightarrow> time \<Rightarrow> string \<Rightarrow> registry \<Rightarrow> registry \<times> (registry_error + peer)" where
  "registry_Register ord now id0 r =
     (let id = TrimSpace id0
      in if id = [] then (r, Inl NoPeerIdentifier)
         else
           let existing = map_of (reg_peers r) id;
               at_ceiling = (existing = None \<and> int (length (reg_peers r)) \<ge> reg_ceiling r);
               r1 = (if at_ceiling then fst (expireLocked ord now r) else r)
           in if at_ceiling \<and> int (length (reg_peers r1)) \<ge> reg_ceiling r1
              then (r1, Inl ErrRegistryFull)
              else
                let registeredAt =
                      (case existing of Some e \<Rightarrow> rec_registeredAt e | None \<Rightarrow> now)
                in (r1\<lparr>reg_peers := mput id \<lparr>rec_registeredAt = registeredAt, rec_lastSeen = now\<rparr>
                                      (reg_peers r1)\<rparr>,
                    Inr \<lparr>peer_ID = id, peer_RegisteredAt = registeredAt, peer_LastSeen = now,
                         peer_State = Online\<rparr>))"

definition registry_Heartbeat ::
  "time \<Rightarrow> string \<Rightarrow> registry \<Rightarrow> registry \<times> (registry_error + peer)" where
  "registry_Heartbeat now pid r =
     (case map_of (reg_peers r) pid of
        None \<Rightarrow> (r\<lparr>reg_peers := mdel pid (reg_peers r)\<rparr>, Inl ErrNotRegistered)
      | Some held \<Rightarrow>
          if stateOf r held now = Gone
          then (r\<lparr>reg_peers := mdel pid (reg_peers r)\<rparr>, Inl ErrNotRegistered)
          else
            (r\<lparr>reg_peers := mput pid (held\<lparr>rec_lastSeen := now\<rparr>) (reg_peers r)\<rparr>,
             Inr \<lparr>peer_ID = pid, peer_RegisteredAt = rec_registeredAt held,
                  peer_LastSeen = now, peer_State = Online\<rparr>))"

definition registry_Deregister :: "string \<Rightarrow> registry \<Rightarrow> registry" where
  "registry_Deregister pid r = r\<lparr>reg_peers := mdel pid (reg_peers r)\<rparr>"

definition registry_Lookup :: "time \<Rightarrow> string \<Rightarrow> registry \<Rightarrow> peer option" where
  "registry_Lookup now pid r =
     (case map_of (reg_peers r) pid of
        None \<Rightarrow> None
      | Some held \<Rightarrow>
          let state = stateOf r held now
          in if state = Gone then None
             else Some \<lparr>peer_ID = pid, peer_RegisteredAt = rec_registeredAt held,
                        peer_LastSeen = rec_lastSeen held, peer_State = state\<rparr>)"

record counts =
  counts_Online :: int
  counts_Suspect :: int
  counts_Total :: int

definition registry_Count :: "time \<Rightarrow> registry \<Rightarrow> counts" where
  "registry_Count now r =
     foldl
       (\<lambda>c (_, held).
          case stateOf r held now of
            Online \<Rightarrow> c\<lparr>counts_Online := counts_Online c + 1\<rparr>
          | Suspect \<Rightarrow> c\<lparr>counts_Suspect := counts_Suspect c + 1\<rparr>
          | Gone \<Rightarrow> c)
       \<lparr>counts_Online = 0, counts_Suspect = 0, counts_Total = int (length (reg_peers r))\<rparr>
       (reg_peers r)"

definition registry_Expire ::
  "string range_order \<Rightarrow> time \<Rightarrow> registry \<Rightarrow> registry \<times> string list" where
  "registry_Expire ord now r = expireLocked ord now r"

text \<open>
  Sweep is a loop over its ticker that Expires and hands what went to its callback. A
  run of it is the list of ticks before the context is cancelled: the clock reading
  and the order of the range at each, and the callback's effect on its own state.
\<close>

fun registry_Sweep ::
  "(string list \<Rightarrow> 's \<Rightarrow> 's) option \<Rightarrow> (string range_order \<times> time) list \<Rightarrow> registry \<times> 's \<Rightarrow> registry \<times> 's"
where
  "registry_Sweep onExpired [] (r, s) = (r, s)"
| "registry_Sweep onExpired ((ord, now) # ticks) (r, s) =
     (let (r', removed) = registry_Expire ord now r;
          s' = (case onExpired of
                  Some f \<Rightarrow> if removed \<noteq> [] then f removed s else s
                | None \<Rightarrow> s)
      in registry_Sweep onExpired ticks (r', s'))"

definition sweep_every :: "duration \<Rightarrow> registry \<Rightarrow> duration" where
  "sweep_every every r = (if every \<le> 0 then reg_heartbeat r else every)"

section \<open>The invariant\<close>

text \<open>
  What New establishes and every operation keeps: one record per identifier, windows
  in order, and never more records than the ceiling.
\<close>

definition registry_wf :: "registry \<Rightarrow> bool" where
  "registry_wf r \<longleftrightarrow>
     mwf (reg_peers r) \<and> 0 < reg_heartbeat r \<and> reg_heartbeat r < reg_suspect r \<and>
     reg_suspect r < reg_offline r \<and> 0 < reg_ceiling r \<and>
     int (length (reg_peers r)) \<le> reg_ceiling r"

text \<open>The records the registry still answers for: those not past the offline window.\<close>

definition live_peers :: "registry \<Rightarrow> time \<Rightarrow> string \<Rightarrow> peer_record option" where
  "live_peers r now k =
     (case map_of (reg_peers r) k of
        Some held \<Rightarrow> if stateOf r held now = Gone then None else Some held
      | None \<Rightarrow> None)"

lemma stateOf_peers [simp]: "stateOf (r\<lparr>reg_peers := m\<rparr>) held now = stateOf r held now"
  by (simp add: stateOf_def Let_def)

lemma stateOf_gone: "stateOf r held now = Gone \<longleftrightarrow> reg_offline r < time_Sub now (rec_lastSeen held)"
  by (simp add: stateOf_def Let_def)

lemma stateOf_gone_mono:
  "stateOf r held t = Gone \<Longrightarrow> t \<le> t' \<Longrightarrow> stateOf r held t' = Gone"
  using time_Sub_mono [of t t' "rec_lastSeen held"] by (simp add: stateOf_gone)

lemma stateOf_fresh:
  "registry_wf r \<Longrightarrow> rec_lastSeen held = now \<Longrightarrow> stateOf r held now = Online"
  by (simp add: stateOf_def registry_wf_def)

lemma expireLocked_frame [simp]:
  "reg_heartbeat (fst (expireLocked ord now r)) = reg_heartbeat r"
  "reg_suspect (fst (expireLocked ord now r)) = reg_suspect r"
  "reg_offline (fst (expireLocked ord now r)) = reg_offline r"
  "reg_ceiling (fst (expireLocked ord now r)) = reg_ceiling r"
  "stateOf (fst (expireLocked ord now r)) held t = stateOf r held t"
  by (simp_all add: expireLocked_def split_beta)

lemma expireLocked_get:
  "range_ok ord \<Longrightarrow> mwf (reg_peers r) \<Longrightarrow>
   map_of (reg_peers (fst (expireLocked ord now r))) = live_peers r now"
  by (rule ext) (simp add: expireLocked_def split_beta map_prune_all live_peers_def)

lemma expireLocked_mwf [simp]:
  "mwf (reg_peers r) \<Longrightarrow> mwf (reg_peers (fst (expireLocked ord now r)))"
  by (simp add: expireLocked_def split_beta mwf_map_prune)

lemma expireLocked_length:
  "mwf (reg_peers r) \<Longrightarrow> length (reg_peers (fst (expireLocked ord now r))) \<le> length (reg_peers r)"
  by (simp add: expireLocked_def split_beta map_prune_length)

lemma finite_live [simp]: "finite (dom (live_peers r now))"
  by (rule finite_subset [OF _ gm.finite_dom [of "reg_peers r"]])
    (auto simp: live_peers_def split: option.splits)

lemma expireLocked_card:
  "range_ok ord \<Longrightarrow> mwf (reg_peers r) \<Longrightarrow>
   length (reg_peers (fst (expireLocked ord now r))) = card (dom (live_peers r now))"
  by (simp add: gm.len_card expireLocked_get)

lemma live_card_le:
  "mwf (reg_peers r) \<Longrightarrow> card (dom (live_peers r now)) \<le> length (reg_peers r)"
  using expireLocked_card [OF range_ok_id] expireLocked_length by metis

lemma registry_New_wf: "registry_New opts = Inr r \<Longrightarrow> registry_wf r"
  by (auto simp: registry_New_def registry_wf_def DefaultMaxPeers_def Let_def split: if_splits)

lemma expireLocked_wf: "registry_wf r \<Longrightarrow> registry_wf (fst (expireLocked ord now r))"
  using expireLocked_length [of r ord now] by (auto simp: registry_wf_def)

lemma registry_Register_wf:
  assumes "registry_wf r"
  shows "registry_wf (fst (registry_Register ord now pid r))"
proof -
  let ?r1 = "fst (expireLocked ord now r)"
  have "registry_wf ?r1" using assms by (rule expireLocked_wf)
  then show ?thesis
    using assms
    by (auto simp: registry_Register_def registry_wf_def Let_def mlen_simps split: option.splits)
qed

lemma registry_Heartbeat_wf:
  "registry_wf r \<Longrightarrow> registry_wf (fst (registry_Heartbeat now pid r))"
  by (auto simp: registry_Heartbeat_def registry_wf_def mlen_simps split: option.splits)

lemma registry_Deregister_wf: "registry_wf r \<Longrightarrow> registry_wf (registry_Deregister pid r)"
  by (auto simp: registry_Deregister_def registry_wf_def mlen_simps)

lemma registry_Expire_wf: "registry_wf r \<Longrightarrow> registry_wf (fst (registry_Expire ord now r))"
  by (simp add: registry_Expire_def expireLocked_wf)

lemmas registry_wf_ops [inv_intros] =
  registry_Register_wf registry_Heartbeat_wf registry_Deregister_wf registry_Expire_wf

section \<open>The functional behaviour of each operation on the live records\<close>

lemma registry_Lookup_live:
  "registry_Lookup now pid r =
     map_option (\<lambda>held. \<lparr>peer_ID = pid, peer_RegisteredAt = rec_registeredAt held,
        peer_LastSeen = rec_lastSeen held, peer_State = stateOf r held now\<rparr>) (live_peers r now pid)"
  by (simp add: registry_Lookup_def live_peers_def Let_def split: option.splits)

lemma live_peers_mono:
  assumes "t \<le> t'"
  shows "live_peers r t' k =
     (case live_peers r t k of
        Some held \<Rightarrow> if stateOf r held t' = Gone then None else Some held | None \<Rightarrow> None)"
  using stateOf_gone_mono [OF _ assms] by (auto simp: live_peers_def split: option.splits)

lemma live_peers_Expire:
  assumes "range_ok ord" and "mwf (reg_peers r)" and "now \<le> t"
  shows "live_peers (fst (registry_Expire ord now r)) t = live_peers r t"
proof
  fix k
  show "live_peers (fst (registry_Expire ord now r)) t k = live_peers r t k"
    using assms(1,2) live_peers_mono [OF assms(3), of r k]
    by (simp add: live_peers_def [of "fst (expireLocked ord now r)"] registry_Expire_def
        expireLocked_get split: option.splits)
qed

lemma live_peers_Deregister:
  "live_peers (registry_Deregister pid r) t = (live_peers r t)(pid := None)"
  by (rule ext) (simp add: live_peers_def registry_Deregister_def split: option.splits)

lemma live_peers_Heartbeat:
  assumes "registry_wf r"
  shows "live_peers (fst (registry_Heartbeat now pid r)) now =
     (case live_peers r now pid of
        Some held \<Rightarrow> (live_peers r now)(pid \<mapsto> held\<lparr>rec_lastSeen := now\<rparr>)
      | None \<Rightarrow> live_peers r now)"
  using assms stateOf_fresh [OF assms, of _ now]
  by (auto simp: live_peers_def registry_Heartbeat_def fun_eq_iff split: option.splits)

lemma registry_Heartbeat_answer:
  "snd (registry_Heartbeat now pid r) =
     (case live_peers r now pid of
        Some held \<Rightarrow> Inr \<lparr>peer_ID = pid, peer_RegisteredAt = rec_registeredAt held,
                          peer_LastSeen = now, peer_State = Online\<rparr>
      | None \<Rightarrow> Inl ErrNotRegistered)"
  by (simp add: live_peers_def registry_Heartbeat_def split: option.splits)

text \<open>
  Whether a registration is refused depends on the live records alone: a full
  registry first drops what is past the window, and an identifier still held, live or
  not, is never refused.
\<close>

lemma card_live_held_gone:
  assumes "registry_wf r" and "map_of (reg_peers r) k = Some held" and "live_peers r now k = None"
  shows "int (card (dom (live_peers r now))) < reg_ceiling r"
proof -
  have "dom (live_peers r now) \<subset> dom (map_of (reg_peers r))"
    using assms(2,3) by (auto simp: live_peers_def psubset_eq dom_def split: option.splits if_splits)
  then have "card (dom (live_peers r now)) < card (dom (map_of (reg_peers r)))"
    by (intro psubset_card_mono gm.finite_dom)
  with assms(1) show ?thesis by (auto simp: registry_wf_def gm.len_card)
qed

lemma registry_Register_full:
  assumes "registry_wf r" and "range_ok ord" and "TrimSpace pid \<noteq> []"
  shows "snd (registry_Register ord now pid r) = Inl ErrRegistryFull \<longleftrightarrow>
     live_peers r now (TrimSpace pid) = None \<and> reg_ceiling r \<le> int (card (dom (live_peers r now)))"
    (is "?full \<longleftrightarrow> ?none \<and> ?ceil")
proof (cases "map_of (reg_peers r) (TrimSpace pid)")
  case None
  then have "?none" by (simp add: live_peers_def)
  moreover have "card (dom (live_peers r now)) \<le> length (reg_peers r)"
    using assms(1) by (intro live_card_le) (simp add: registry_wf_def)
  ultimately show ?thesis
    using None assms by (auto simp: registry_Register_def Let_def registry_wf_def expireLocked_card)
next
  case (Some held)
  then have "\<not> ?full" using assms(3) by (simp add: registry_Register_def Let_def)
  then show ?thesis using card_live_held_gone [OF assms(1) Some, of now] by auto
qed

lemma registry_Register_error:
  "snd (registry_Register ord now pid r) = Inl e \<Longrightarrow> e = NoPeerIdentifier \<and> TrimSpace pid = [] \<or>
     e = ErrRegistryFull \<and> TrimSpace pid \<noteq> []"
  by (auto simp: registry_Register_def Let_def split: if_splits)

lemma live_peers_Register:
  assumes wf: "registry_wf r" and ord: "range_ok ord"
  shows "live_peers (fst (registry_Register ord now pid r)) now =
     (case snd (registry_Register ord now pid r) of
        Inl _ \<Rightarrow> live_peers r now
      | Inr p \<Rightarrow> (live_peers r now)(peer_ID p \<mapsto>
          \<lparr>rec_registeredAt = peer_RegisteredAt p, rec_lastSeen = now\<rparr>))"
proof -
  let ?r1 = "fst (expireLocked ord now r)"
  have m: "mwf (reg_peers r)" using wf by (simp add: registry_wf_def)
  have live1: "live_peers ?r1 now = live_peers r now"
    using live_peers_Expire [OF ord m order_refl] by (simp add: registry_Expire_def)
  have put: "live_peers (r'\<lparr>reg_peers := mput k h (reg_peers r')\<rparr>) now = (live_peers r' now)(k \<mapsto> h)"
    if "registry_wf r'" and "rec_lastSeen h = now" for r' k h
    using stateOf_fresh [OF that] by (auto simp: live_peers_def fun_eq_iff split: option.splits)
  show ?thesis
    using put [OF wf] put [OF expireLocked_wf [OF wf]] live1
    by (auto simp: registry_Register_def Let_def)
qed

lemma registry_Register_ok:
  "snd (registry_Register ord now pid r) = Inr p \<Longrightarrow>
     peer_ID p = TrimSpace pid \<and> TrimSpace pid \<noteq> [] \<and> peer_LastSeen p = now \<and> peer_State p = Online"
  by (auto simp: registry_Register_def Let_def split: if_splits)

section \<open>Histories of operations\<close>

text \<open>
  A history is a list of operations, each with the clock reading it makes and the
  order of any range it performs. Time never runs backwards in a history that is
  \<open>timely\<close>.
\<close>

datatype registry_op =
    RegisterOp string | HeartbeatOp string | DeregisterOp string | LookupOp string | ExpireOp

datatype registry_answer =
    Registered "registry_error + peer"
  | Reported "registry_error + peer"
  | Deregistered
  | Found "peer option"
  | Expired "string list"

type_synonym registry_event = "time \<times> string range_order \<times> registry_op"

fun registry_step :: "registry_event \<Rightarrow> registry \<Rightarrow> registry \<times> registry_answer" where
  "registry_step (now, ord, RegisterOp k) r = map_prod (\<lambda>r. r) Registered (registry_Register ord now k r)"
| "registry_step (now, ord, HeartbeatOp k) r = map_prod (\<lambda>r. r) Reported (registry_Heartbeat now k r)"
| "registry_step (now, ord, DeregisterOp k) r = (registry_Deregister k r, Deregistered)"
| "registry_step (now, ord, LookupOp k) r = (r, Found (registry_Lookup now k r))"
| "registry_step (now, ord, ExpireOp) r = map_prod (\<lambda>r. r) Expired (registry_Expire ord now r)"

fun registry_run :: "registry_event list \<Rightarrow> registry \<Rightarrow> registry \<times> registry_answer list" where
  "registry_run [] r = (r, [])"
| "registry_run (e # es) r =
     (let (r1, a) = registry_step e r; (r2, as) = registry_run es r1 in (r2, a # as))"

fun timely :: "time \<Rightarrow> registry_event list \<Rightarrow> bool" where
  "timely t [] \<longleftrightarrow> True"
| "timely t ((now, ord, op) # es) \<longleftrightarrow> t \<le> now \<and> range_ok ord \<and> timely now es"

text \<open>An answer as a caller of the HTTP surface sees it: without the registration time.\<close>

definition hide_registered :: "peer \<Rightarrow> peer" where
  "hide_registered p = p\<lparr>peer_RegisteredAt := 0\<rparr>"

fun observe :: "registry_answer \<Rightarrow> registry_answer" where
  "observe (Registered x) = Registered (map_sum (\<lambda>e. e) hide_registered x)"
| "observe (Reported x) = Reported (map_sum (\<lambda>e. e) hide_registered x)"
| "observe (Found x) = Found (map_option hide_registered x)"
| "observe Deregistered = Deregistered"
| "observe (Expired ks) = Expired ks"

fun is_expiry :: "registry_event \<Rightarrow> bool" where
  "is_expiry (now, ord, op) = (op = ExpireOp)"

fun is_expired :: "registry_answer \<Rightarrow> bool" where
  "is_expired (Expired ks) = True"
| "is_expired _ = False"

lemma registry_step_wf: "registry_wf r \<Longrightarrow> registry_wf (fst (registry_step e r))"
  by (cases "(e, r)" rule: registry_step.cases) (auto intro: inv_intros)

lemma registry_run_wf: "registry_wf r \<Longrightarrow> registry_wf (fst (registry_run es r))"
  by (induction es arbitrary: r) (auto simp: split_beta Let_def registry_step_wf)

lemma is_expired_step: "is_expired (snd (registry_step e r)) = is_expiry e"
  by (cases "(e, r)" rule: registry_step.cases) auto

text \<open>Two registries that answer alike from a moment on.\<close>

definition answers_alike :: "time \<Rightarrow> registry \<Rightarrow> registry \<Rightarrow> bool" where
  "answers_alike t r1 r2 \<longleftrightarrow>
     registry_wf r1 \<and> registry_wf r2 \<and> reg_heartbeat r1 = reg_heartbeat r2 \<and>
     reg_suspect r1 = reg_suspect r2 \<and> reg_offline r1 = reg_offline r2 \<and>
     reg_ceiling r1 = reg_ceiling r2 \<and>
     (\<forall>k. map_option rec_lastSeen (live_peers r1 t k) = map_option rec_lastSeen (live_peers r2 t k))"

lemma answers_alike_refl: "registry_wf r \<Longrightarrow> answers_alike t r r"
  by (simp add: answers_alike_def)

lemma stateOf_alike:
  assumes "reg_suspect r1 = reg_suspect r2" and "reg_offline r1 = reg_offline r2"
    and "rec_lastSeen h1 = rec_lastSeen h2"
  shows "stateOf r1 h1 t = stateOf r2 h2 t"
  using assms by (simp add: stateOf_def Let_def)

lemma answers_alike_live:
  assumes "answers_alike t r1 r2"
  shows "live_peers r1 t k = None \<longleftrightarrow> live_peers r2 t k = None"
    and "live_peers r1 t k = Some h1 \<Longrightarrow> live_peers r2 t k = Some h2 \<Longrightarrow>
           rec_lastSeen h1 = rec_lastSeen h2 \<and> stateOf r1 h1 t' = stateOf r2 h2 t'"
proof -
  have eq: "map_option rec_lastSeen (live_peers r1 t k) = map_option rec_lastSeen (live_peers r2 t k)"
    using assms by (simp add: answers_alike_def)
  then show "live_peers r1 t k = None \<longleftrightarrow> live_peers r2 t k = None"
    by (metis map_option_is_None)
  assume "live_peers r1 t k = Some h1" and "live_peers r2 t k = Some h2"
  with eq show "rec_lastSeen h1 = rec_lastSeen h2 \<and> stateOf r1 h1 t' = stateOf r2 h2 t'"
    using assms by (auto simp: answers_alike_def intro: stateOf_alike)
qed

lemma answers_alike_dom:
  "answers_alike t r1 r2 \<Longrightarrow> dom (live_peers r1 t) = dom (live_peers r2 t)"
  using answers_alike_live(1) by (auto simp: dom_def)

lemma answers_alike_mono:
  assumes "answers_alike t r1 r2" and "t \<le> t'"
  shows "answers_alike t' r1 r2"
proof -
  have "map_option rec_lastSeen (live_peers r1 t' k) = map_option rec_lastSeen (live_peers r2 t' k)" for k
  proof (cases "live_peers r1 t k")
    case None
    then show ?thesis
      using answers_alike_live(1) [OF assms(1), of k] by (simp add: live_peers_mono [OF assms(2)])
  next
    case (Some h1)
    then obtain h2 where h2: "live_peers r2 t k = Some h2"
      using answers_alike_live(1) [OF assms(1), of k] by auto
    show ?thesis
      using answers_alike_live(2) [OF assms(1) Some h2, of t'] Some h2
      by (simp add: live_peers_mono [OF assms(2)])
  qed
  with assms(1) show ?thesis by (simp add: answers_alike_def)
qed

lemma answers_alike_Expire:
  assumes "answers_alike t r1 r2" and "range_ok ord"
  shows "answers_alike t (fst (registry_Expire ord t r1)) r2"
proof -
  have "mwf (reg_peers r1)" using assms(1) by (simp add: answers_alike_def registry_wf_def)
  then have "live_peers (fst (registry_Expire ord t r1)) t = live_peers r1 t"
    by (intro live_peers_Expire assms(2)) simp_all
  with assms(1) show ?thesis
    by (simp add: answers_alike_def registry_Expire_def expireLocked_wf)
qed

lemma answers_alike_Register:
  assumes alike: "answers_alike t r1 r2" and o1: "range_ok o1" and o2: "range_ok o2"
  shows "map_sum (\<lambda>e. e) hide_registered (snd (registry_Register o1 t k r1)) =
           map_sum (\<lambda>e. e) hide_registered (snd (registry_Register o2 t k r2))"
    and "answers_alike t (fst (registry_Register o1 t k r1)) (fst (registry_Register o2 t k r2))"
proof -
  have wf: "registry_wf r1" "registry_wf r2" and ceil: "reg_ceiling r1 = reg_ceiling r2"
    using alike by (auto simp: answers_alike_def)
  have full: "snd (registry_Register o1 t k r1) = Inl ErrRegistryFull \<longleftrightarrow>
      snd (registry_Register o2 t k r2) = Inl ErrRegistryFull" if "TrimSpace k \<noteq> []"
    using that registry_Register_full [OF wf(1) o1] registry_Register_full [OF wf(2) o2]
      answers_alike_live(1) [OF alike] answers_alike_dom [OF alike] ceil by simp
  have blank: "snd (registry_Register od t k r) = Inl NoPeerIdentifier" if "TrimSpace k = []" for od r
    using that by (simp add: registry_Register_def)
  show ans: "map_sum (\<lambda>e. e) hide_registered (snd (registry_Register o1 t k r1)) =
      map_sum (\<lambda>e. e) hide_registered (snd (registry_Register o2 t k r2))"
  proof (cases "TrimSpace k = [] \<or> snd (registry_Register o1 t k r1) = Inl ErrRegistryFull")
    case True
    then show ?thesis using full blank by (cases "TrimSpace k = []") auto
  next
    case False
    then obtain p1 p2 where p: "snd (registry_Register o1 t k r1) = Inr p1"
        "snd (registry_Register o2 t k r2) = Inr p2"
      using full registry_Register_error by (metis sum.exhaust)
    then show ?thesis
      using registry_Register_ok [OF p(1)] registry_Register_ok [OF p(2)]
      by (simp add: hide_registered_def)
  qed
  have frame: "reg_heartbeat (fst (registry_Register od t k r)) = reg_heartbeat r \<and>
      reg_suspect (fst (registry_Register od t k r)) = reg_suspect r \<and>
      reg_offline (fst (registry_Register od t k r)) = reg_offline r \<and>
      reg_ceiling (fst (registry_Register od t k r)) = reg_ceiling r" for od r
    by (simp add: registry_Register_def Let_def)
  show "answers_alike t (fst (registry_Register o1 t k r1)) (fst (registry_Register o2 t k r2))"
    using alike ans live_peers_Register [OF wf(1) o1, of t k] live_peers_Register [OF wf(2) o2, of t k]
      frame wf
    by (cases "snd (registry_Register o1 t k r1)"; cases "snd (registry_Register o2 t k r2)")
      (auto simp: answers_alike_def registry_Register_wf hide_registered_def
        dest!: registry_Register_ok)
qed

lemma answers_alike_Heartbeat:
  assumes alike: "answers_alike t r1 r2"
  shows "map_sum (\<lambda>e. e) hide_registered (snd (registry_Heartbeat t k r1)) =
           map_sum (\<lambda>e. e) hide_registered (snd (registry_Heartbeat t k r2))"
    and "answers_alike t (fst (registry_Heartbeat t k r1)) (fst (registry_Heartbeat t k r2))"
proof -
  have wf: "registry_wf r1" "registry_wf r2" using alike by (auto simp: answers_alike_def)
  have frame: "reg_heartbeat (fst (registry_Heartbeat t k r)) = reg_heartbeat r \<and>
      reg_suspect (fst (registry_Heartbeat t k r)) = reg_suspect r \<and>
      reg_offline (fst (registry_Heartbeat t k r)) = reg_offline r \<and>
      reg_ceiling (fst (registry_Heartbeat t k r)) = reg_ceiling r" for r
    by (simp add: registry_Heartbeat_def split: option.splits)
  show "map_sum (\<lambda>e. e) hide_registered (snd (registry_Heartbeat t k r1)) =
      map_sum (\<lambda>e. e) hide_registered (snd (registry_Heartbeat t k r2))"
    using answers_alike_live(1) [OF alike, of k]
    by (auto simp: registry_Heartbeat_answer hide_registered_def split: option.splits)
  show "answers_alike t (fst (registry_Heartbeat t k r1)) (fst (registry_Heartbeat t k r2))"
    using alike wf frame answers_alike_live(1) [OF alike, of k]
    by (auto simp: answers_alike_def live_peers_Heartbeat registry_Heartbeat_wf split: option.splits)
qed

lemma answers_alike_Deregister:
  "answers_alike t r1 r2 \<Longrightarrow> answers_alike t (registry_Deregister k r1) (registry_Deregister k r2)"
  by (auto simp: answers_alike_def live_peers_Deregister registry_Deregister_wf)
    (simp_all add: registry_Deregister_def)

lemma answers_alike_Lookup:
  assumes "answers_alike t r1 r2"
  shows "map_option hide_registered (registry_Lookup t k r1) = map_option hide_registered (registry_Lookup t k r2)"
proof (cases "live_peers r1 t k")
  case None
  then show ?thesis
    using answers_alike_live(1) [OF assms, of k] by (simp add: registry_Lookup_live)
next
  case (Some h1)
  then obtain h2 where h2: "live_peers r2 t k = Some h2"
    using answers_alike_live(1) [OF assms, of k] by auto
  show ?thesis
    using answers_alike_live(2) [OF assms Some h2, of t] Some h2
    by (simp add: registry_Lookup_live hide_registered_def)
qed

lemma answers_alike_step:
  assumes alike: "answers_alike now r1 r2" and ord: "range_ok ord" and op: "op \<noteq> ExpireOp"
  shows "observe (snd (registry_step (now, ord, op) r1)) = observe (snd (registry_step (now, ord, op) r2)) \<and>
    answers_alike now (fst (registry_step (now, ord, op) r1)) (fst (registry_step (now, ord, op) r2))"
proof (cases op)
  case (RegisterOp k)
  then show ?thesis using answers_alike_Register [OF alike ord ord, of k] by simp
next
  case (HeartbeatOp k)
  then show ?thesis using answers_alike_Heartbeat [OF alike, of k] by simp
next
  case (DeregisterOp k)
  then show ?thesis using answers_alike_Deregister [OF alike] by simp
next
  case (LookupOp k)
  then show ?thesis using answers_alike_Lookup [OF alike, of k] alike by simp
qed (use op in simp)

lemma answers_alike_run:
  assumes "answers_alike t r1 r2" and "timely t es"
  shows "map observe (filter (\<lambda>a. \<not> is_expired a) (snd (registry_run es r1))) =
         map observe (snd (registry_run (filter (\<lambda>e. \<not> is_expiry e) es) r2))"
  using assms
proof (induction es arbitrary: t r1 r2)
  case Nil
  then show ?case by simp
next
  case (Cons e es)
  obtain now ord op where e: "e = (now, ord, op)" by (cases e)
  have alike: "answers_alike now r1 r2" and ord: "range_ok ord" and later: "timely now es"
    using Cons.prems by (auto simp: e intro: answers_alike_mono)
  show ?case
  proof (cases "op = ExpireOp")
    case True
    then show ?thesis
      using Cons.IH [OF answers_alike_Expire [OF alike ord] later]
      by (simp add: e split_beta Let_def)
  next
    case False
    then show ?thesis
      using Cons.IH [OF conjunct2 [OF answers_alike_step [OF alike ord False]] later]
        answers_alike_step [OF alike ord False]
        is_expired_step [of "(now, ord, op)" r1]
      by (simp add: e split_beta Let_def)
  qed
qed

lemma registry_Count_eq:
  "registry_Count now r =
     \<lparr>counts_Online = int (length (filter (\<lambda>(_, held). stateOf r held now = Online) (reg_peers r))),
      counts_Suspect = int (length (filter (\<lambda>(_, held). stateOf r held now = Suspect) (reg_peers r))),
      counts_Total = int (length (reg_peers r))\<rparr>"
proof -
  have "foldl (\<lambda>c (_, held).
          case stateOf r held now of
            Online \<Rightarrow> c\<lparr>counts_Online := counts_Online c + 1\<rparr>
          | Suspect \<Rightarrow> c\<lparr>counts_Suspect := counts_Suspect c + 1\<rparr>
          | Gone \<Rightarrow> c) \<lparr>counts_Online = a, counts_Suspect = b, counts_Total = n\<rparr> m =
      \<lparr>counts_Online = a + int (length (filter (\<lambda>(_, held). stateOf r held now = Online) m)),
       counts_Suspect = b + int (length (filter (\<lambda>(_, held). stateOf r held now = Suspect) m)),
       counts_Total = n\<rparr>" for a b n and m :: "(string \<times> peer_record) list"
    by (induction m arbitrary: a b) (auto split: peer_state.splits)
  then show ?thesis by (simp add: registry_Count_def)
qed

lemma registry_Register_stores:
  assumes "snd (registry_Register ord now pid r) = Inr p"
  shows "map_of (reg_peers (fst (registry_Register ord now pid r))) (TrimSpace pid) =
           Some \<lparr>rec_registeredAt = peer_RegisteredAt p, rec_lastSeen = now\<rparr>"
    and "reg_suspect (fst (registry_Register ord now pid r)) = reg_suspect r"
    and "reg_offline (fst (registry_Register ord now pid r)) = reg_offline r"
  using assms by (auto simp: registry_Register_def Let_def split: if_splits)

section \<open>Properties\<close>

text \<open>A registry with a ceiling of two, for the concrete instances below.\<close>

definition sample_options :: registry_options where
  "sample_options = \<lparr>ro_HeartbeatInterval = 15 * second, ro_SuspectAfter = 30 * second,
     ro_OfflineAfter = 60 * second, ro_MaxPeers = 2\<rparr>"

definition sample_registry :: registry where
  "sample_registry = \<lparr>reg_peers = [(''a'', \<lparr>rec_registeredAt = 0, rec_lastSeen = 0\<rparr>)],
     reg_heartbeat = 15 * second, reg_suspect = 30 * second, reg_offline = 60 * second,
     reg_ceiling = 2\<rparr>"

lemma sample_registry_wf: "registry_wf sample_registry"
  by (simp add: registry_wf_def sample_registry_def mwf_def second_def)

lemma sample_trim: "TrimSpace ''a'' = ''a''" "TrimSpace ''b'' = ''b''" "TrimSpace ''c'' = ''c''"
  by (simp_all add: TrimSpace_plain plain_char_def)

text \<open>
  C22: A registry that New accepts has its windows in order, one record per identifier
  and never more records than its ceiling, after any sequence of registrations,
  reports, deregistrations, lookups and sweeps, whatever the clock reads and whatever
  order the maps are ranged in.
\<close>

theorem registry_history_invariant:
  assumes "registry_New opts = Inr r0"
  shows "registry_wf (fst (registry_run es r0))"
  using registry_New_wf [OF assms] by (rule registry_run_wf)

theorem registry_history_invariant_witness:
  "registry_wf (fst (registry_run
      [(0, rev, RegisterOp ''a''), (5, rev, RegisterOp ''b''), (61 * second, rev, RegisterOp ''c'')]
      \<lparr>reg_peers = [], reg_heartbeat = 15 * second, reg_suspect = 30 * second,
        reg_offline = 60 * second, reg_ceiling = 2\<rparr>))"
  by (rule registry_history_invariant [of sample_options])
    (simp add: registry_New_def sample_options_def second_def)



text \<open>
  Registration, on every branch. It is refused exactly when the peer is not live
  and as many peers as the ceiling are, so a live peer is never evicted to make room;
  when it succeeds the peer is online as of now and every other live record is
  untouched; when it is refused every live record is untouched.
\<close>

theorem registry_Register_spec:
  assumes "registry_wf r" and "range_ok ord" and "TrimSpace pid \<noteq> []"
  shows "case registry_Register ord now pid r of
      (r', Inl e) \<Rightarrow> e = ErrRegistryFull \<and> live_peers r now (TrimSpace pid) = None \<and>
        reg_ceiling r \<le> int (card (dom (live_peers r now))) \<and> live_peers r' now = live_peers r now
    | (r', Inr p) \<Rightarrow>
        \<not> (live_peers r now (TrimSpace pid) = None \<and>
           reg_ceiling r \<le> int (card (dom (live_peers r now)))) \<and>
        peer_ID p = TrimSpace pid \<and> peer_LastSeen p = now \<and> peer_State p = Online \<and>
        live_peers r' now = (live_peers r now)(TrimSpace pid \<mapsto>
          \<lparr>rec_registeredAt = peer_RegisteredAt p, rec_lastSeen = now\<rparr>)"
  using registry_Register_full [OF assms, of now] live_peers_Register [OF assms(1,2), of now pid]
    registry_Register_error [of ord now pid r] registry_Register_ok [of ord now pid r] assms(3)
  by (auto split: prod.split sum.split)

theorem registry_Register_spec_witness:
  "case registry_Register rev 1 ''b'' sample_registry of
      (r', Inl e) \<Rightarrow> False
    | (r', Inr p) \<Rightarrow> live_peers r' 1 = (live_peers sample_registry 1)(''b'' \<mapsto>
          \<lparr>rec_registeredAt = peer_RegisteredAt p, rec_lastSeen = 1\<rparr>)"
  using registry_Register_spec [OF sample_registry_wf range_ok_rev, of "''b''" 1]
  by (simp add: sample_trim registry_Register_def sample_registry_def Let_def split: prod.splits sum.splits)

text \<open>
  The windows. A peer that registered at t and is heard from no more is answered
  for as online while its silence is at most the suspect window, as suspect while it
  is past that and at most the offline window, and not at all beyond it.
\<close>

theorem registry_Lookup_windows:
  assumes "registry_wf r" and "reg_offline r < max_duration"
    and "registry_Register ord t pid r = (r', Inr p)" and "t \<le> t'"
  shows "registry_Lookup t' (TrimSpace pid) r' =
     (if t' - t > reg_offline r then None
      else Some (p\<lparr>peer_State := if t' - t > reg_suspect r then Suspect else Online\<rparr>))"
proof -
  have snd: "snd (registry_Register ord t pid r) = Inr p" and r': "r' = fst (registry_Register ord t pid r)"
    using assms(3) by simp_all
  have p: "p = \<lparr>peer_ID = TrimSpace pid, peer_RegisteredAt = peer_RegisteredAt p, peer_LastSeen = t,
      peer_State = Online\<rparr>"
    using registry_Register_ok [OF snd] by simp
  have "min_duration \<le> reg_suspect r" "reg_suspect r < reg_offline r"
    using assms(1) by (auto simp: registry_wf_def min_duration_def)
  then have "stateOf r' \<lparr>rec_registeredAt = x, rec_lastSeen = t\<rparr> t' =
      (if t' - t > reg_offline r then Gone else if t' - t > reg_suspect r then Suspect else Online)" for x
    using assms(2) registry_Register_stores(2,3) [OF snd]
    by (simp add: r' stateOf_def Let_def time_Sub_gt)
  then show ?thesis
    using registry_Register_stores(1) [OF snd] by (subst p) (simp add: r' registry_Lookup_def Let_def)
qed

theorem registry_Lookup_windows_witness:
  "registry_Lookup (31 * second) ''b'' (fst (registry_Register rev 0 ''b'' sample_registry)) =
     Some \<lparr>peer_ID = ''b'', peer_RegisteredAt = 0, peer_LastSeen = 0, peer_State = Suspect\<rparr>"
  using registry_Lookup_windows [OF sample_registry_wf, of rev 0 "''b''" _ _ "31 * second"]
  by (simp add: sample_trim registry_Register_def sample_registry_def second_def max_duration_def Let_def)

text \<open>
  A report. It is answered with an instruction to register again exactly when the
  peer is not live, whether it never registered or has gone, and then no record of it
  is left; otherwise the peer is online as of now, with its registration time kept. No
  other peer's record changes.
\<close>

theorem registry_Heartbeat_spec:
  assumes "registry_wf r"
  shows "case registry_Heartbeat now pid r of
      (r', Inl e) \<Rightarrow> e = ErrNotRegistered \<and> live_peers r now pid = None \<and>
        map_of (reg_peers r') = (map_of (reg_peers r))(pid := None)
    | (r', Inr p) \<Rightarrow> (\<exists>held. live_peers r now pid = Some held \<and>
        p = \<lparr>peer_ID = pid, peer_RegisteredAt = rec_registeredAt held, peer_LastSeen = now,
             peer_State = Online\<rparr> \<and>
        registry_Lookup now pid r' = Some p \<and>
        map_of (reg_peers r') = (map_of (reg_peers r))(pid \<mapsto> held\<lparr>rec_lastSeen := now\<rparr>))"
  using stateOf_fresh [OF assms, of _ now]
  by (auto simp: registry_Heartbeat_def live_peers_def registry_Lookup_def Let_def split: option.splits)

theorem registry_Heartbeat_spec_witness:
  "snd (registry_Heartbeat (61 * second) ''a'' sample_registry) = Inl ErrNotRegistered \<and>
   snd (registry_Heartbeat (40 * second) ''a'' sample_registry) =
     Inr \<lparr>peer_ID = ''a'', peer_RegisteredAt = 0, peer_LastSeen = 40 * second, peer_State = Online\<rparr>"
  using registry_Heartbeat_spec [OF sample_registry_wf, of "61 * second" "''a''"]
    registry_Heartbeat_spec [OF sample_registry_wf, of "40 * second" "''a''"]
  by (simp add: sample_registry_def registry_Heartbeat_def live_peers_def stateOf_def time_Sub_def
      second_def max_duration_def min_duration_def)

text \<open>
  A sweep reports each held peer that is past the offline window exactly once and
  nobody else, leaves exactly the live records, and changes no lookup, then or later.
\<close>

theorem registry_Expire_spec:
  assumes "registry_wf r" and "range_ok ord" and "registry_Expire ord now r = (r', removed)"
  shows "distinct removed \<and>
     set removed = {k. \<exists>held. map_of (reg_peers r) k = Some held \<and> stateOf r held now = Gone} \<and>
     map_of (reg_peers r') = live_peers r now \<and>
     (\<forall>t k. now \<le> t \<longrightarrow> registry_Lookup t k r' = registry_Lookup t k r)"
proof -
  have m: "mwf (reg_peers r)" using assms(1) by (simp add: registry_wf_def)
  have r': "r' = fst (expireLocked ord now r)" and rem: "removed = snd (expireLocked ord now r)"
    using assms(3) by (simp_all add: registry_Expire_def)
  have "registry_Lookup t k r' = registry_Lookup t k r" if "now \<le> t" for t k
    using live_peers_Expire [OF assms(2) m that]
    by (simp add: r' registry_Lookup_live registry_Expire_def)
  then show ?thesis
    using map_prune_all_removed [OF assms(2) m, of "\<lambda>_ held. stateOf r held now = Gone"]
    by (simp add: r' rem expireLocked_get [OF assms(2) m]) (simp add: expireLocked_def split_beta)
qed

theorem registry_Expire_spec_witness:
  "set (snd (registry_Expire rev (61 * second) sample_registry)) = {''a''}"
  using registry_Expire_spec [OF sample_registry_wf range_ok_rev, of "61 * second"]
  by (simp add: sample_registry_def registry_Expire_def expireLocked_def mkeys_def stateOf_def
      time_Sub_def second_def max_duration_def min_duration_def split_beta)

text \<open>
  The counts of the health endpoint. Online and Suspect count the peers held in
  those states, together they are the live peers, and Total is what the map holds,
  live or not.
\<close>

theorem registry_Count_spec:
  assumes "registry_wf r"
  shows "counts_Online (registry_Count now r) =
      int (card {k. \<exists>held. map_of (reg_peers r) k = Some held \<and> stateOf r held now = Online}) \<and>
    counts_Suspect (registry_Count now r) =
      int (card {k. \<exists>held. map_of (reg_peers r) k = Some held \<and> stateOf r held now = Suspect}) \<and>
    counts_Online (registry_Count now r) + counts_Suspect (registry_Count now r) =
      int (card (dom (live_peers r now))) \<and>
    counts_Total (registry_Count now r) = int (card (dom (map_of (reg_peers r))))"
proof -
  have m: "mwf (reg_peers r)" using assms by (simp add: registry_wf_def)
  let ?S = "\<lambda>s. {k. \<exists>held. map_of (reg_peers r) k = Some held \<and> stateOf r held now = s}"
  have fin: "finite (?S s)" for s
    by (rule finite_subset [OF _ gm.finite_dom [of "reg_peers r"]]) auto
  have "dom (live_peers r now) = ?S Online \<union> ?S Suspect"
    by (auto simp: live_peers_def split: option.splits if_splits)
      (use peer_state.exhaust in blast)
  moreover have "?S Online \<inter> ?S Suspect = {}" by auto
  ultimately have "card (dom (live_peers r now)) = card (?S Online) + card (?S Suspect)"
    using card_Un_disjoint [OF fin fin] by simp
  then show ?thesis
    by (simp add: registry_Count_eq map_filter_card [OF m] gm.len_card [OF m])
qed

theorem registry_Count_spec_witness:
  "counts_Total (registry_Count (31 * second) sample_registry) = 1 \<and>
   counts_Suspect (registry_Count (31 * second) sample_registry) = 1"
  using registry_Count_spec [OF sample_registry_wf, of "31 * second"]
  by (simp add: registry_Count_def sample_registry_def stateOf_def time_Sub_def second_def
      max_duration_def min_duration_def)

text \<open>
  The registration time is the one thing a sweep can be seen through: a peer that had
  gone, and comes back before the sweep, keeps the registration time of its earlier
  stay; after the sweep it does not.
\<close>

lemma registration_time_survives_absence:
  "registry_Lookup (100 * second) ''a'' sample_registry = None \<and>
   map_sum (\<lambda>e. e) peer_RegisteredAt (snd (registry_Register rev (100 * second) ''a'' sample_registry)) = Inr 0 \<and>
   map_sum (\<lambda>e. e) peer_RegisteredAt (snd (registry_Register rev (100 * second) ''a''
     (fst (registry_Expire rev (100 * second) sample_registry)))) = Inr (100 * second)"
  by (simp add: sample_registry_def registry_Lookup_def registry_Register_def registry_Expire_def
      expireLocked_def mkeys_def stateOf_def time_Sub_def second_def max_duration_def min_duration_def
      sample_trim Let_def split_beta mdel_def)

end
