(* ===== verification/Go_Base64.thy ===== *)
theory Go_Base64
  imports Prelude
begin

text \<open>
  The two base64 encodings of Go's encoding/base64 the program uses:
  \<open>RawURLEncoding\<close> (URL alphabet, no padding) for identifiers and key names, and
  \<open>StdEncoding\<close> (standard alphabet, padded with =) for the relay password and the
  signing key's seed; and their decoders, which skip line breaks.
\<close>

definition b64_std :: string where
  "b64_std = ''ABCDEFGHIJKLMNOPQRSTUVWXYZabcdefghijklmnopqrstuvwxyz0123456789+/''"

definition b64_url :: string where
  "b64_url = ''ABCDEFGHIJKLMNOPQRSTUVWXYZabcdefghijklmnopqrstuvwxyz0123456789-_''"

text \<open>The six-bit groups of a byte string, as indices into the alphabet.\<close>

fun b64_groups :: "byte list \<Rightarrow> nat list" where
  "b64_groups (a # b # c # xs) =
     [unat a div 4, (unat a mod 4) * 16 + unat b div 16,
      (unat b mod 16) * 4 + unat c div 64, unat c mod 64] @ b64_groups xs"
| "b64_groups [a, b] =
     [unat a div 4, (unat a mod 4) * 16 + unat b div 16, (unat b mod 16) * 4]"
| "b64_groups [a] = [unat a div 4, (unat a mod 4) * 16]"
| "b64_groups [] = []"

definition RawURLEncoding_EncodeToString :: "byte list \<Rightarrow> string" where
  "RawURLEncoding_EncodeToString bs = map (\<lambda>i. b64_url ! i) (b64_groups bs)"

definition StdEncoding_EncodeToString :: "byte list \<Rightarrow> string" where
  "StdEncoding_EncodeToString bs =
     map (\<lambda>i. b64_std ! i) (b64_groups bs) @
     replicate (case length bs mod 3 of 0 \<Rightarrow> 0 | Suc 0 \<Rightarrow> 2 | _ \<Rightarrow> 1) (CHR ''='')"

text \<open>The bytes of a string, as Go's conversion []byte(s) gives them.\<close>

definition string_bytes :: "string \<Rightarrow> byte list" where
  "string_bytes s = map of_char s"

lemma byte_bound: "unat (a :: byte) < 256"
  using unsigned_less [of a, where ?'a = nat] by simp

lemma b64_groups_bound: "i \<in> set (b64_groups bs) \<Longrightarrow> i < 64"
proof (induction bs rule: b64_groups.induct)
  case (1 a b c xs)
  then show ?case
    using byte_bound [of a] byte_bound [of b] byte_bound [of c] by auto
next
  case (2 a b)
  then show ?case using byte_bound [of a] byte_bound [of b] by auto
next
  case (3 a)
  then show ?case using byte_bound [of a] by auto
qed simp

lemma split_base:
  fixes x y x' y' m :: nat
  assumes "x * m + y = x' * m + y'" and "y < m" and "y' < m"
  shows "x = x' \<and> y = y'"
proof -
  have "(x * m + y) div m = x \<and> (x * m + y) mod m = y" if "y < m" for x y :: nat
    using that by simp
  with assms show ?thesis by metis
qed

text \<open>The groups determine the bytes.\<close>

lemma b64_groups_inj: "b64_groups xs = b64_groups ys \<Longrightarrow> xs = ys"
proof (induction xs arbitrary: ys rule: b64_groups.induct)
  case (1 a b c xs)
  then obtain a' b' c' ys' where ys: "ys = a' # b' # c' # ys'"
    by (cases ys rule: b64_groups.cases) auto
  note eq = "1.prems" [unfolded ys b64_groups.simps append.simps list.inject]
  have "unat b div 16 < 16" "unat b' div 16 < 16" "unat c div 64 < 4" "unat c' div 64 < 4"
    using byte_bound [of b] byte_bound [of b'] byte_bound [of c] byte_bound [of c'] by auto
  then have "unat a mod 4 = unat a' mod 4" "unat b div 16 = unat b' div 16"
      "unat b mod 16 = unat b' mod 16" "unat c div 64 = unat c' div 64"
    using eq split_base [of "unat a mod 4" 16] split_base [of "unat b mod 16" 4] by metis+
  with eq have "unat a = unat a'" "unat b = unat b'" "unat c = unat c'"
    by (metis div_mult_mod_eq)+
  then show ?case using eq "1.IH" by (simp add: ys word_unat_eq_iff)
next
  case (2 a b)
  then obtain a' b' where ys: "ys = [a', b']"
    by (cases ys rule: b64_groups.cases) auto
  note eq = "2.prems" [unfolded ys b64_groups.simps list.inject]
  have "unat b div 16 < 16" "unat b' div 16 < 16"
    using byte_bound [of b] byte_bound [of b'] by auto
  then have "unat a mod 4 = unat a' mod 4" "unat b div 16 = unat b' div 16"
    using eq split_base [of "unat a mod 4" 16] by metis+
  moreover from eq have "unat b mod 16 = unat b' mod 16" by simp
  ultimately have "unat a = unat a'" "unat b = unat b'"
    using eq by (metis div_mult_mod_eq)+
  then show ?case by (simp add: ys word_unat_eq_iff)
next
  case (3 a)
  then obtain a' where ys: "ys = [a']"
    by (cases ys rule: b64_groups.cases) auto
  with 3 have "unat a = unat a'" by simp (metis div_mult_mod_eq)
  then show ?case by (simp add: ys word_unat_eq_iff)
next
  case 4
  then show ?case by (cases ys rule: b64_groups.cases) auto
qed

lemma b64_url_distinct: "distinct b64_url" "length b64_url = 64"
  by (simp_all add: b64_url_def)

lemma b64_std_distinct: "distinct b64_std" "length b64_std = 64"
  by (simp_all add: b64_std_def)

lemma map_nth_inj:
  assumes "distinct al" and "set is \<subseteq> {..<length al}" and "set js \<subseteq> {..<length al}"
    and "map (\<lambda>i. al ! i) is = map (\<lambda>i. al ! i) js"
  shows "is = js"
proof -
  have "inj_on (\<lambda>i. al ! i) {..<length al}"
    using assms(1) by (auto simp: inj_on_def nth_eq_iff_index_eq)
  then show ?thesis
    using assms(2-4) by (intro map_inj_on [of "\<lambda>i. al ! i" "is" js]) (auto intro: inj_on_subset)
qed

lemma RawURLEncoding_inj:
  assumes "RawURLEncoding_EncodeToString xs = RawURLEncoding_EncodeToString ys"
  shows "xs = ys"
proof (rule b64_groups_inj, rule map_nth_inj [OF b64_url_distinct(1)])
  show "map (\<lambda>i. b64_url ! i) (b64_groups xs) = map (\<lambda>i. b64_url ! i) (b64_groups ys)"
    using assms by (simp add: RawURLEncoding_EncodeToString_def)
qed (auto simp: b64_url_distinct b64_groups_bound)

section \<open>Decoding\<close>

fun index_in :: "string \<Rightarrow> char \<Rightarrow> nat option" where
  "index_in [] c = None"
| "index_in (x # xs) c = (if x = c then Some 0 else map_option Suc (index_in xs c))"

text \<open>
  The bytes of six-bit groups; a last group of two or three leaves its low bits unread,
  as the decoder that is not strict does, and a last group of one is corrupt.
\<close>

fun decode_groups :: "nat list \<Rightarrow> byte list option" where
  "decode_groups (a # b # c # d # gs) =
     map_option (\<lambda>bs. [word_of_nat (a * 4 + b div 16), word_of_nat (b mod 16 * 16 + c div 4),
                       word_of_nat (c mod 4 * 64 + d)] @ bs) (decode_groups gs)"
| "decode_groups [a, b, c] = Some [word_of_nat (a * 4 + b div 16), word_of_nat (b mod 16 * 16 + c div 4)]"
| "decode_groups [a, b] = Some [word_of_nat (a * 4 + b div 16)]"
| "decode_groups [a] = None"
| "decode_groups [] = Some []"

definition without_breaks :: "string \<Rightarrow> string" where
  "without_breaks s = filter (\<lambda>c. c \<noteq> CHR 0x0A \<and> c \<noteq> CHR 0x0D) s"

definition decode_with :: "string \<Rightarrow> string \<Rightarrow> byte list option" where
  "decode_with al s = Option.bind (those (map (index_in al) s)) decode_groups"

definition RawURLEncoding_DecodeString :: "string \<Rightarrow> byte list option" where
  "RawURLEncoding_DecodeString s = decode_with b64_url (without_breaks s)"

text \<open>With padding, whole quanta only, and padding only at the end.\<close>

definition StdEncoding_DecodeString :: "string \<Rightarrow> byte list option" where
  "StdEncoding_DecodeString s0 =
     (let s = without_breaks s0; n = length s
      in if n mod 4 \<noteq> 0 then None
         else if drop (n - 2) s = ''=='' \<and> 0 < n then decode_with b64_std (take (n - 2) s)
         else if drop (n - 1) s = ''='' then decode_with b64_std (take (n - 1) s)
         else decode_with b64_std s)"

lemma index_in_nth: "distinct al \<Longrightarrow> i < length al \<Longrightarrow> index_in al (al ! i) = Some i"
proof (induction al arbitrary: i)
  case (Cons x al)
  then show ?case by (cases i) auto
qed simp

lemma those_map_Some: "\<forall>x \<in> set xs. f x = Some (g x) \<Longrightarrow> those (map f xs) = Some (map g xs)"
  by (induction xs) auto

lemma decode_with_encoded:
  assumes "distinct al" and "\<forall>i \<in> set gs. i < length al"
  shows "decode_with al (map (\<lambda>i. al ! i) gs) = decode_groups gs"
proof -
  have "those (map (\<lambda>i. index_in al (al ! i)) gs) = Some (map (\<lambda>i. i) gs)"
    using assms by (intro those_map_Some) (simp add: index_in_nth)
  then show ?thesis by (simp add: decode_with_def comp_def)
qed

lemma decode_b64_groups: "decode_groups (b64_groups bs) = Some bs"
proof (induction bs rule: b64_groups.induct)
  case (1 a b c xs)
  have "unat b div 16 < 16" "unat c div 64 < 4" using byte_bound [of b] byte_bound [of c] by auto
  with 1 show ?case by simp
next
  case (2 a b)
  have "unat b div 16 < 16" using byte_bound [of b] by auto
  then show ?case by simp
qed simp_all

lemma url_chars_plain: "c \<in> set b64_url \<Longrightarrow> c \<noteq> CHR 0x0A \<and> c \<noteq> CHR 0x0D"
  by (auto simp: b64_url_def)

lemma RawURLEncoding_decode_encode:
  "RawURLEncoding_DecodeString (RawURLEncoding_EncodeToString bs) = Some bs"
proof -
  have in_al: "\<forall>i \<in> set (b64_groups bs). i < length b64_url"
    using b64_groups_bound by (auto simp: b64_url_distinct)
  then have "without_breaks (RawURLEncoding_EncodeToString bs) = RawURLEncoding_EncodeToString bs"
    unfolding without_breaks_def filter_id_conv RawURLEncoding_EncodeToString_def
    using url_chars_plain by auto
  then show ?thesis
    using decode_with_encoded [OF b64_url_distinct(1) in_al]
    by (simp add: RawURLEncoding_DecodeString_def) (simp add: RawURLEncoding_EncodeToString_def decode_b64_groups)
qed

end
