(* ===== verification/Session_Store.thy ===== *)
theory Session_Store
  imports Go_Map Go_Text Go_Base64
begin

text \<open>
  internal/session/session.go: the record that two peers are trying to reach each
  other, or have. The store keeps the sessions, an index of the live session of each
  pair, a live counter, an index of the live sessions of each peer, and the ended
  sessions in the order they ended. Each exported operation is one critical section
  of the store's mutex; its clock reading is the argument \<open>now\<close>, its random bytes the
  argument \<open>rand\<close> (None: the source of randomness failed), the orders of its ranges
  over maps the arguments named \<open>ord\<close>.
\<close>

section \<open>Data\<close>

datatype sess_state = Negotiating | Connected | Failed | Closed

datatype sess_path = PathUnknown | Direct | Relayed

datatype session_error =
    NoCaller
  | NoCallee
  | ErrSelf
  | ErrNotAllowed
  | ErrNotFound
  | ErrFull
  | ErrTooManyForPeer
  | ErrBadTransition
  | IdentifierFailure
  | TimeoutNotPositive
  | RetentionNegative

record session =
  sess_ID :: string
  sess_Caller :: string
  sess_Callee :: string
  sess_State :: sess_state
  sess_Path :: sess_path
  sess_OpenedAt :: time
  sess_ChangedAt :: time

definition session_Live :: "session \<Rightarrow> bool" where
  "session_Live s \<longleftrightarrow> sess_State s = Negotiating \<or> sess_State s = Connected"

definition session_Has :: "session \<Rightarrow> string \<Rightarrow> bool" where
  "session_Has s peerID \<longleftrightarrow> peerID = sess_Caller s \<or> peerID = sess_Callee s"

definition session_Other :: "session \<Rightarrow> string \<Rightarrow> string" where
  "session_Other s peerID = (if peerID = sess_Caller s then sess_Callee s else sess_Caller s)"

type_synonym authorizer = "string \<Rightarrow> string \<Rightarrow> bool"

definition AllowAll_Allows :: authorizer where
  "AllowAll_Allows caller callee = True"

record session_options =
  so_NegotiationTimeout :: duration
  so_Retention :: duration
  so_MaxSessions :: int
  so_MaxSessionsPerPeer :: int
  so_Authorizer :: "authorizer option"

definition DefaultMaxSessions :: int where
  "DefaultMaxSessions = 10000"

definition DefaultMaxSessionsPerPeer :: int where
  "DefaultMaxSessionsPerPeer = 64"

definition retainedPerLive :: int where
  "retainedPerLive = 4"

record store =
  st_sessions :: "(string, session) gomap"
  st_pairs :: "(string, string) gomap"
  st_live :: int
  st_perPeer :: "(string, (string, bool) gomap) gomap"
  st_ended :: "string list"
  st_timeout :: duration
  st_retention :: duration
  st_ceiling :: int
  st_perPeerCap :: int
  st_authorizer :: authorizer

abbreviation st_sess :: "store \<Rightarrow> string \<Rightarrow> session option" where
  "st_sess st \<equiv> map_of (st_sessions st)"

definition store_New :: "session_options \<Rightarrow> session_error + store" where
  "store_New opts =
     (if so_NegotiationTimeout opts \<le> 0 then Inl TimeoutNotPositive
      else if so_Retention opts < 0 then Inl RetentionNegative
      else Inr
        \<lparr>st_sessions = [], st_pairs = [], st_live = 0, st_perPeer = [], st_ended = [],
         st_timeout = so_NegotiationTimeout opts,
         st_retention = so_Retention opts,
         st_ceiling = (if so_MaxSessions opts \<le> 0 then DefaultMaxSessions else so_MaxSessions opts),
         st_perPeerCap =
           (if so_MaxSessionsPerPeer opts \<le> 0 then DefaultMaxSessionsPerPeer
            else so_MaxSessionsPerPeer opts),
         st_authorizer = (case so_Authorizer opts of Some a \<Rightarrow> a | None \<Rightarrow> AllowAll_Allows)\<rparr>)"

section \<open>Helpers\<close>

definition canMove :: "sess_state \<Rightarrow> sess_state \<Rightarrow> bool" where
  "canMove from to =
     (case from of
        Negotiating \<Rightarrow> to = Connected \<or> to = Failed \<or> to = Closed
      | Connected \<Rightarrow> to = Closed \<or> to = Failed
      | Failed \<Rightarrow> False
      | Closed \<Rightarrow> False)"

definition pairKey :: "string \<Rightarrow> string \<Rightarrow> string" where
  "pairKey a b = (let pair = sort [a, b] in pair ! 0 @ [CHR 0x00] @ pair ! 1)"

definition newID :: "byte list option \<Rightarrow> session_error + string" where
  "newID rand =
     (case rand of
        None \<Rightarrow> Inl IdentifierFailure
      | Some buf \<Rightarrow> Inr (RawURLEncoding_EncodeToString buf))"

definition perPeer_len :: "store \<Rightarrow> string \<Rightarrow> nat" where
  "perPeer_len st peerID =
     (case map_of (st_perPeer st) peerID of Some held \<Rightarrow> length held | None \<Rightarrow> 0)"

definition trackLocked :: "string \<Rightarrow> string \<Rightarrow> store \<Rightarrow> store" where
  "trackLocked peerID sid st =
     (let held = (case map_of (st_perPeer st) peerID of Some held \<Rightarrow> held | None \<Rightarrow> [])
      in st\<lparr>st_perPeer := mput peerID (mput sid True held) (st_perPeer st)\<rparr>)"

definition untrackLocked :: "string \<Rightarrow> string \<Rightarrow> store \<Rightarrow> store" where
  "untrackLocked peerID sid st =
     (case map_of (st_perPeer st) peerID of
        None \<Rightarrow> st
      | Some held \<Rightarrow>
          let held' = mdel sid held
          in if length held' = 0
             then st\<lparr>st_perPeer := mdel peerID (st_perPeer st)\<rparr>
             else st\<lparr>st_perPeer := mput peerID held' (st_perPeer st)\<rparr>)"

definition endedLocked :: "session \<Rightarrow> store \<Rightarrow> store" where
  "endedLocked held st =
     (let st1 = st\<lparr>st_live := st_live st - 1\<rparr>;
          st2 = untrackLocked (sess_Caller held) (sess_ID held) st1;
          st3 = untrackLocked (sess_Callee held) (sess_ID held) st2;
          st4 = st3\<lparr>st_pairs := mdel (pairKey (sess_Caller held) (sess_Callee held)) (st_pairs st3)\<rparr>
      in st4\<lparr>st_ended := st_ended st4 @ [sess_ID held]\<rparr>)"

definition settleLocked :: "time \<Rightarrow> session \<Rightarrow> store \<Rightarrow> store \<times> session" where
  "settleLocked now held st =
     (if sess_State held \<noteq> Negotiating \<or> time_Sub now (sess_OpenedAt held) \<le> st_timeout st
      then (st, held)
      else
        let held' = held\<lparr>sess_State := Failed,
                         sess_ChangedAt := time_Add (sess_OpenedAt held) (st_timeout st)\<rparr>
        in (endedLocked held'
              (st\<lparr>st_sessions := mput (sess_ID held') held' (st_sessions st)\<rparr>), held'))"

definition forgetLocked :: "string \<Rightarrow> session \<Rightarrow> store \<Rightarrow> store" where
  "forgetLocked sid held st =
     (let st1 = st\<lparr>st_sessions := mdel sid (st_sessions st)\<rparr>;
          key = pairKey (sess_Caller held) (sess_Callee held)
      in if map_of (st_pairs st1) key = Some sid
         then st1\<lparr>st_pairs := mdel key (st_pairs st1)\<rparr>
         else st1)"

definition pairLocked :: "string \<Rightarrow> string \<Rightarrow> time \<Rightarrow> store \<Rightarrow> store \<times> session option" where
  "pairLocked a b now st =
     (let key = pairKey a b
      in case map_of (st_pairs st) key of
           None \<Rightarrow> (st, None)
         | Some sid \<Rightarrow>
             (case map_of (st_sessions st) sid of
                None \<Rightarrow> (st\<lparr>st_pairs := mdel key (st_pairs st)\<rparr>, None)
              | Some held \<Rightarrow>
                  let (st1, held1) = settleLocked now held st
                  in if \<not> session_Live held1 then (st1, None) else (st1, Some held1)))"

fun settle_ids :: "time \<Rightarrow> string \<Rightarrow> string list \<Rightarrow> store \<Rightarrow> store" where
  "settle_ids now peerID [] st = st"
| "settle_ids now peerID (sid # sids) st =
     (case map_of (st_sessions st) sid of
        None \<Rightarrow> settle_ids now peerID sids (untrackLocked peerID sid st)
      | Some held \<Rightarrow> settle_ids now peerID sids (fst (settleLocked now held st)))"

definition settlePeerLocked :: "string range_order \<Rightarrow> string \<Rightarrow> time \<Rightarrow> store \<Rightarrow> store" where
  "settlePeerLocked ord peerID now st =
     (let ids = (case map_of (st_perPeer st) peerID of Some held \<Rightarrow> ord (mkeys held) | None \<Rightarrow> [])
      in settle_ids now peerID ids st)"

text \<open>
  The loop of trimLocked: its guard reads the number of sessions and the rest of the
  ended list, which the loop shortens by one each time round.
\<close>

fun trim_loop :: "int \<Rightarrow> string list \<Rightarrow> store \<Rightarrow> store" where
  "trim_loop bound [] st = st\<lparr>st_ended := []\<rparr>"
| "trim_loop bound (oldest # rest) st =
     (if int (length (st_sessions st)) \<ge> bound then
        (let st1 = st\<lparr>st_ended := rest\<rparr>
         in case map_of (st_sessions st1) oldest of
              None \<Rightarrow> trim_loop bound rest st1
            | Some held \<Rightarrow>
                if session_Live held then trim_loop bound rest st1
                else trim_loop bound rest (forgetLocked oldest held st1))
      else st\<lparr>st_ended := oldest # rest\<rparr>)"

definition trimLocked :: "store \<Rightarrow> store" where
  "trimLocked st = trim_loop (int64 (st_ceiling st * retainedPerLive)) (st_ended st) st"

definition compactEndedLocked :: "store \<Rightarrow> store" where
  "compactEndedLocked st =
     st\<lparr>st_ended := filter (\<lambda>sid. map_of (st_sessions st) sid \<noteq> None) (st_ended st)\<rparr>"

section \<open>Operations\<close>

text \<open>
  The loop of Open over the caller and the callee: a peer under its cap passes; one at
  its cap has its sessions settled and is counted again.
\<close>

fun cap_check :: "(string \<Rightarrow> string range_order) \<Rightarrow> time \<Rightarrow> string list \<Rightarrow> store \<Rightarrow> store \<times> bool" where
  "cap_check ord now [] st = (st, True)"
| "cap_check ord now (peerID # rest) st =
     (if int (perPeer_len st peerID) < st_perPeerCap st then cap_check ord now rest st
      else
        let st1 = settlePeerLocked (ord peerID) peerID now st
        in if int (perPeer_len st1 peerID) \<ge> st_perPeerCap st1 then (st1, False)
           else cap_check ord now rest st1)"

definition open_new ::
  "(string \<Rightarrow> string range_order) \<Rightarrow> byte list option \<Rightarrow> time \<Rightarrow> string \<Rightarrow> string \<Rightarrow> store \<Rightarrow>
   store \<times> (session_error + session)"
where
  "open_new ord rand now caller callee st =
     (if st_live st \<ge> st_ceiling st then (st, Inl ErrFull)
      else
        let (st1, ok) = cap_check ord now [caller, callee] st
        in if \<not> ok then (st1, Inl ErrTooManyForPeer)
           else
             let st2 = trimLocked st1
             in case newID rand of
                  Inl e \<Rightarrow> (st2, Inl e)
                | Inr sid \<Rightarrow>
                    let created =
                          \<lparr>sess_ID = sid, sess_Caller = caller, sess_Callee = callee,
                           sess_State = Negotiating, sess_Path = PathUnknown,
                           sess_OpenedAt = now, sess_ChangedAt = now\<rparr>;
                        st3 = st2\<lparr>st_sessions := mput sid created (st_sessions st2),
                                  st_pairs := mput (pairKey caller callee) sid (st_pairs st2),
                                  st_live := st_live st2 + 1\<rparr>
                    in (trackLocked callee sid (trackLocked caller sid st3), Inr created))"

definition store_Open ::
  "(string \<Rightarrow> string range_order) \<Rightarrow> byte list option \<Rightarrow> time \<Rightarrow> string \<Rightarrow> string \<Rightarrow> store \<Rightarrow>
   store \<times> (session_error + session)"
where
  "store_Open ord rand now caller0 callee0 st =
     (let caller = TrimSpace caller0; callee = TrimSpace callee0
      in if caller = [] then (st, Inl NoCaller)
         else if callee = [] then (st, Inl NoCallee)
         else if caller = callee then (st, Inl ErrSelf)
         else if \<not> st_authorizer st caller callee then (st, Inl ErrNotAllowed)
         else
           (case pairLocked caller callee now st of
              (st1, Some existing) \<Rightarrow> (st1, Inr existing)
            | (st1, None) \<Rightarrow> open_new ord rand now caller callee st1))"

text \<open>
  Reachable asks the registry through an interface that may be absent; its answer at
  the moment of the call is the argument.
\<close>

definition store_Reachable :: "(string \<Rightarrow> bool) option \<Rightarrow> string \<Rightarrow> bool" where
  "store_Reachable peers peerID = (case peers of None \<Rightarrow> True | Some lookup \<Rightarrow> lookup peerID)"

definition store_Get :: "time \<Rightarrow> string \<Rightarrow> string \<Rightarrow> store \<Rightarrow> store \<times> (session_error + session)" where
  "store_Get now sid askedBy st =
     (case map_of (st_sessions st) sid of
        None \<Rightarrow> (st, Inl ErrNotFound)
      | Some found \<Rightarrow>
          if \<not> session_Has found askedBy then (st, Inl ErrNotFound)
          else let (st1, held) = settleLocked now found st in (st1, Inr held))"

definition store_Report ::
  "time \<Rightarrow> string \<Rightarrow> string \<Rightarrow> sess_state \<Rightarrow> sess_path \<Rightarrow> store \<Rightarrow> store \<times> (session_error + session)"
where
  "store_Report now sid reportedBy state path st =
     (case map_of (st_sessions st) sid of
        None \<Rightarrow> (st, Inl ErrNotFound)
      | Some found0 \<Rightarrow>
          if \<not> session_Has found0 reportedBy then (st, Inl ErrNotFound)
          else
            let (st1, found) = settleLocked now found0 st
            in if \<not> canMove (sess_State found) state then (st1, Inl ErrBadTransition)
               else
                 let wasLive = session_Live found;
                     found1 = found\<lparr>sess_State := state, sess_ChangedAt := now\<rparr>;
                     found2 = (if state = Connected then found1\<lparr>sess_Path := path\<rparr> else found1);
                     st2 = st1\<lparr>st_sessions := mput sid found2 (st_sessions st1)\<rparr>;
                     st3 = (if wasLive \<and> \<not> session_Live found2 then endedLocked found2 st2 else st2)
                 in (st3, Inr found2))"

fun close_ids :: "time \<Rightarrow> string \<Rightarrow> string list \<Rightarrow> store \<Rightarrow> store \<times> session list" where
  "close_ids now peerID [] st = (st, [])"
| "close_ids now peerID (sid # sids) st =
     (case map_of (st_sessions st) sid of
        None \<Rightarrow> close_ids now peerID sids st
      | Some held \<Rightarrow>
          if \<not> session_Has held peerID then close_ids now peerID sids st
          else
            let (st1, held1) = settleLocked now held st
            in if \<not> session_Live held1 then close_ids now peerID sids st1
               else
                 let held2 = held1\<lparr>sess_State := Closed, sess_ChangedAt := now\<rparr>;
                     st2 = endedLocked held2 (st1\<lparr>st_sessions := mput sid held2 (st_sessions st1)\<rparr>);
                     (st3, closed) = close_ids now peerID sids st2
                 in (st3, held2 # closed))"

definition store_ClosePeer :: "string range_order \<Rightarrow> time \<Rightarrow> string \<Rightarrow> store \<Rightarrow> store \<times> session list" where
  "store_ClosePeer ord now peerID st = close_ids now peerID (ord (mkeys (st_sessions st))) st"

definition store_Count :: "store \<Rightarrow> int" where
  "store_Count st = st_live st"

definition store_Held :: "store \<Rightarrow> int" where
  "store_Held st = int (length (st_sessions st))"

fun reap_ids :: "time \<Rightarrow> string list \<Rightarrow> store \<times> int \<times> int \<Rightarrow> store \<times> int \<times> int" where
  "reap_ids now [] (st, failed, forgotten) = (st, failed, forgotten)"
| "reap_ids now (sid # sids) (st, failed, forgotten) =
     (case map_of (st_sessions st) sid of
        None \<Rightarrow> reap_ids now sids (st, failed, forgotten)
      | Some held0 \<Rightarrow>
          let before = sess_State held0;
              (st1, held) = settleLocked now held0 st;
              failed1 = (if before = Negotiating \<and> sess_State held = Failed then failed + 1 else failed)
          in if \<not> session_Live held \<and> time_Sub now (sess_ChangedAt held) > st_retention st1
             then reap_ids now sids (forgetLocked sid held st1, failed1, forgotten + 1)
             else reap_ids now sids (st1, failed1, forgotten))"

definition store_Reap :: "string range_order \<Rightarrow> time \<Rightarrow> store \<Rightarrow> store \<times> int \<times> int" where
  "store_Reap ord now st =
     (let (st1, failed, forgotten) = reap_ids now (ord (mkeys (st_sessions st))) (st, 0, 0)
      in (compactEndedLocked st1, failed, forgotten))"

end
