(* ===== verification/Session_Inv.thy ===== *)
theory Session_Inv
  imports Session_Store
begin

text \<open>
  The invariant of the session store: the live counter, the pair index, the per-peer
  index and the ended list all agree with the sessions map. It is kept by three
  primitive moves (a live session ends, an ended one is forgotten, a new one is
  inserted), and the operations are made of those.
\<close>

section \<open>What the indexes mean\<close>

definition live_ids :: "store \<Rightarrow> string set" where
  "live_ids st = {sid. \<exists>h. st_sess st sid = Some h \<and> session_Live h}"

definition peer_live_ids :: "store \<Rightarrow> string \<Rightarrow> string set" where
  "peer_live_ids st p = {sid. \<exists>h. st_sess st sid = Some h \<and> session_Live h \<and> session_Has h p}"

definition ended_ids :: "store \<Rightarrow> string set" where
  "ended_ids st = {sid. \<exists>h. st_sess st sid = Some h \<and> \<not> session_Live h}"

definition row_ids :: "store \<Rightarrow> string \<Rightarrow> string set" where
  "row_ids st p = (case map_of (st_perPeer st) p of Some row \<Rightarrow> dom (map_of row) | None \<Rightarrow> {})"

definition rows_wf :: "store \<Rightarrow> bool" where
  "rows_wf st \<longleftrightarrow> mwf (st_perPeer st) \<and>
     (\<forall>p row. map_of (st_perPeer st) p = Some row \<longrightarrow> mwf row \<and> row \<noteq> [])"

definition sess_key :: "session \<Rightarrow> string" where
  "sess_key h = pairKey (sess_Caller h) (sess_Callee h)"

text \<open>The bound on the records held, as trimLocked computes it.\<close>

definition held_bound :: "store \<Rightarrow> int" where
  "held_bound st = int64 (st_ceiling st * retainedPerLive)"

text \<open>The part of the invariant that holds between any two steps of an operation.\<close>

definition store_indexed :: "store \<Rightarrow> bool" where
  "store_indexed st \<longleftrightarrow>
     mwf (st_sessions st) \<and> mwf (st_pairs st) \<and> rows_wf st \<and>
     (\<forall>sid h. st_sess st sid = Some h \<longrightarrow> sess_ID h = sid) \<and>
     st_live st = int (card (live_ids st)) \<and>
     (\<forall>key sid. map_of (st_pairs st) key = Some sid \<longleftrightarrow>
        (\<exists>h. st_sess st sid = Some h \<and> session_Live h \<and> sess_key h = key)) \<and>
     (\<forall>p. row_ids st p = peer_live_ids st p) \<and>
     distinct (st_ended st) \<and> ended_ids st \<subseteq> set (st_ended st) \<and>
     set (st_ended st) \<inter> live_ids st = {}"

text \<open>
  Between operations the ended list holds exactly the ended sessions, and the bounds
  of the configuration hold. \<open>session_fits\<close> is what every stored record satisfies on
  its own.
\<close>

definition session_fits :: "store \<Rightarrow> session \<Rightarrow> bool" where
  "session_fits st h \<longleftrightarrow>
     sess_Caller h \<noteq> sess_Callee h \<and> sess_Caller h \<noteq> [] \<and> sess_Callee h \<noteq> [] \<and>
     st_authorizer st (sess_Caller h) (sess_Callee h) \<and>
     (sess_State h = Negotiating \<longrightarrow> sess_Path h = PathUnknown)"

definition store_settings_ok :: "store \<Rightarrow> bool" where
  "store_settings_ok st \<longleftrightarrow>
     0 < st_timeout st \<and> 0 \<le> st_retention st \<and> 0 < st_ceiling st \<and>
     st_ceiling st < 2 ^ 61 \<and> 0 < st_perPeerCap st"

definition store_loose :: "store \<Rightarrow> bool" where
  "store_loose st \<longleftrightarrow>
     store_indexed st \<and> store_settings_ok st \<and>
     (\<forall>sid h. st_sess st sid = Some h \<longrightarrow> session_fits st h) \<and>
     st_live st \<le> st_ceiling st \<and>
     (\<forall>p. int (card (peer_live_ids st p)) \<le> st_perPeerCap st) \<and>
     int (length (st_sessions st)) \<le> held_bound st"

definition store_wf :: "store \<Rightarrow> bool" where
  "store_wf st \<longleftrightarrow> store_loose st \<and> set (st_ended st) = ended_ids st"

text \<open>The configuration, which no operation changes.\<close>

definition st_settings :: "store \<Rightarrow> duration \<times> duration \<times> int \<times> int \<times> authorizer" where
  "st_settings st = (st_timeout st, st_retention st, st_ceiling st, st_perPeerCap st, st_authorizer st)"

lemma finite_live_ids [simp]: "finite (live_ids st)"
  by (rule finite_subset [OF _ gm.finite_dom [of "st_sessions st"]]) (auto simp: live_ids_def)

lemma finite_peer_live_ids [simp]: "finite (peer_live_ids st p)"
  by (rule finite_subset [OF _ gm.finite_dom [of "st_sessions st"]]) (auto simp: peer_live_ids_def)

lemma peer_live_subset: "peer_live_ids st p \<subseteq> live_ids st"
  by (auto simp: peer_live_ids_def live_ids_def)

lemma perPeer_len_card:
  assumes "rows_wf st"
  shows "perPeer_len st p = card (row_ids st p)"
  using assms by (auto simp: perPeer_len_def row_ids_def rows_wf_def gm.len_card split: option.splits)

section \<open>The helpers, on the indexes\<close>

lemma st_fields_untrack [simp]:
  "st_sessions (untrackLocked p sid st) = st_sessions st"
  "st_pairs (untrackLocked p sid st) = st_pairs st"
  "st_live (untrackLocked p sid st) = st_live st"
  "st_ended (untrackLocked p sid st) = st_ended st"
  "st_timeout (untrackLocked p sid st) = st_timeout st"
  "st_retention (untrackLocked p sid st) = st_retention st"
  "st_ceiling (untrackLocked p sid st) = st_ceiling st"
  "st_perPeerCap (untrackLocked p sid st) = st_perPeerCap st"
  "st_authorizer (untrackLocked p sid st) = st_authorizer st"
  by (simp_all add: untrackLocked_def Let_def split: option.splits)

lemma st_fields_track [simp]:
  "st_sessions (trackLocked p sid st) = st_sessions st"
  "st_pairs (trackLocked p sid st) = st_pairs st"
  "st_live (trackLocked p sid st) = st_live st"
  "st_ended (trackLocked p sid st) = st_ended st"
  "st_timeout (trackLocked p sid st) = st_timeout st"
  "st_retention (trackLocked p sid st) = st_retention st"
  "st_ceiling (trackLocked p sid st) = st_ceiling st"
  "st_perPeerCap (trackLocked p sid st) = st_perPeerCap st"
  "st_authorizer (trackLocked p sid st) = st_authorizer st"
  by (simp_all add: trackLocked_def Let_def)

lemma st_fields_ended [simp]:
  "st_sessions (endedLocked h st) = st_sessions st"
  "st_pairs (endedLocked h st) = mdel (sess_key h) (st_pairs st)"
  "st_live (endedLocked h st) = st_live st - 1"
  "st_ended (endedLocked h st) = st_ended st @ [sess_ID h]"
  "st_timeout (endedLocked h st) = st_timeout st"
  "st_retention (endedLocked h st) = st_retention st"
  "st_ceiling (endedLocked h st) = st_ceiling st"
  "st_perPeerCap (endedLocked h st) = st_perPeerCap st"
  "st_authorizer (endedLocked h st) = st_authorizer st"
  by (simp_all add: endedLocked_def Let_def sess_key_def)

lemma st_fields_forget [simp]:
  "st_sessions (forgetLocked sid h st) = mdel sid (st_sessions st)"
  "st_perPeer (forgetLocked sid h st) = st_perPeer st"
  "st_live (forgetLocked sid h st) = st_live st"
  "st_ended (forgetLocked sid h st) = st_ended st"
  "st_timeout (forgetLocked sid h st) = st_timeout st"
  "st_retention (forgetLocked sid h st) = st_retention st"
  "st_ceiling (forgetLocked sid h st) = st_ceiling st"
  "st_perPeerCap (forgetLocked sid h st) = st_perPeerCap st"
  "st_authorizer (forgetLocked sid h st) = st_authorizer st"
  by (simp_all add: forgetLocked_def Let_def)

lemma row_ids_untrack:
  "row_ids (untrackLocked p sid st) q = (if q = p then row_ids st p - {sid} else row_ids st q)"
proof (cases "map_of (st_perPeer st) p")
  case None
  then show ?thesis by (simp add: row_ids_def untrackLocked_def)
next
  case (Some row)
  have d: "dom (map_of (mdel sid row)) = dom (map_of row) - {sid}" by auto
  show ?thesis
  proof (cases "mdel sid row = []")
    case True
    with d have "dom (map_of row) - {sid} = {}" by simp
    with Some True show ?thesis by (simp add: row_ids_def untrackLocked_def Let_def)
  next
    case False
    with Some d show ?thesis by (simp add: row_ids_def untrackLocked_def Let_def)
  qed
qed

lemma rows_wf_untrack: "rows_wf st \<Longrightarrow> rows_wf (untrackLocked p sid st)"
  by (auto simp: rows_wf_def untrackLocked_def Let_def split: option.splits if_splits)

lemma row_ids_track:
  "row_ids (trackLocked p sid st) q = (if q = p then insert sid (row_ids st p) else row_ids st q)"
  by (simp add: row_ids_def trackLocked_def Let_def split: option.splits)

lemma rows_wf_track:
  assumes "rows_wf st"
  shows "rows_wf (trackLocked p sid st)"
proof -
  have "mput sid True row \<noteq> []" for row
    by (simp add: mput_def)
  with assms show ?thesis
    by (auto simp: rows_wf_def trackLocked_def Let_def split: option.splits if_splits)
qed

lemma rows_frame [simp]:
  "row_ids (st\<lparr>st_sessions := a\<rparr>) p = row_ids st p"
  "row_ids (st\<lparr>st_pairs := b\<rparr>) p = row_ids st p"
  "row_ids (st\<lparr>st_live := c\<rparr>) p = row_ids st p"
  "row_ids (st\<lparr>st_ended := d\<rparr>) p = row_ids st p"
  "rows_wf (st\<lparr>st_sessions := a\<rparr>) = rows_wf st"
  "rows_wf (st\<lparr>st_pairs := b\<rparr>) = rows_wf st"
  "rows_wf (st\<lparr>st_live := c\<rparr>) = rows_wf st"
  "rows_wf (st\<lparr>st_ended := d\<rparr>) = rows_wf st"
  by (simp_all add: row_ids_def rows_wf_def)

lemma row_ids_ended:
  "row_ids (endedLocked h st) p =
     (if session_Has h p then row_ids st p - {sess_ID h} else row_ids st p)"
  by (auto simp: endedLocked_def Let_def row_ids_untrack session_Has_def)

lemma rows_wf_ended: "rows_wf st \<Longrightarrow> rows_wf (endedLocked h st)"
  by (simp add: endedLocked_def Let_def rows_wf_untrack)

lemma rows_forget [simp]:
  "row_ids (forgetLocked sid h st) p = row_ids st p"
  "rows_wf (forgetLocked sid h st) = rows_wf st"
  by (simp_all add: row_ids_def rows_wf_def)

lemma pairs_forget:
  "map_of (st_pairs (forgetLocked sid h st)) key =
     (if key = sess_key h \<and> map_of (st_pairs st) key = Some sid then None
      else map_of (st_pairs st) key)"
  by (auto simp: forgetLocked_def Let_def sess_key_def)

lemma mwf_pairs_forget: "mwf (st_pairs st) \<Longrightarrow> mwf (st_pairs (forgetLocked sid h st))"
  by (simp add: forgetLocked_def Let_def)

text \<open>The clauses of the invariant, one by one.\<close>

lemma indexed_clauses:
  assumes "store_indexed st"
  shows "mwf (st_sessions st)" and "mwf (st_pairs st)" and "rows_wf st"
    and "st_live st = int (card (live_ids st))" and "row_ids st p = peer_live_ids st p"
    and "distinct (st_ended st)" and "ended_ids st \<subseteq> set (st_ended st)"
    and "set (st_ended st) \<inter> live_ids st = {}"
  using assms by (simp_all add: store_indexed_def)

lemma store_indexedI:
  assumes "mwf (st_sessions st)" and "mwf (st_pairs st)" and "rows_wf st"
    and "\<And>sid h. st_sess st sid = Some h \<Longrightarrow> sess_ID h = sid"
    and "st_live st = int (card (live_ids st))"
    and "\<And>key sid. map_of (st_pairs st) key = Some sid \<longleftrightarrow>
        (\<exists>h. st_sess st sid = Some h \<and> session_Live h \<and> sess_key h = key)"
    and "\<And>p. row_ids st p = peer_live_ids st p"
    and "distinct (st_ended st)" and "ended_ids st \<subseteq> set (st_ended st)"
    and "set (st_ended st) \<inter> live_ids st = {}"
  shows "store_indexed st"
  using assms by (simp add: store_indexed_def)

lemma indexed_ID: "store_indexed st \<Longrightarrow> st_sess st sid = Some h \<Longrightarrow> sess_ID h = sid"
  by (simp add: store_indexed_def)

lemma indexed_pairI:
  "store_indexed st \<Longrightarrow> st_sess st sid = Some h \<Longrightarrow> session_Live h \<Longrightarrow> sess_key h = key \<Longrightarrow>
   map_of (st_pairs st) key = Some sid"
  unfolding store_indexed_def by blast

lemma indexed_pairE:
  assumes "store_indexed st" and "map_of (st_pairs st) key = Some sid"
  obtains h where "st_sess st sid = Some h" and "session_Live h" and "sess_key h = key"
  using assms unfolding store_indexed_def by blast

section \<open>The primitive moves keep the indexes\<close>

text \<open>A live session is rewritten as one that has ended, and its end is recorded.\<close>

lemma indexed_end:
  assumes ix: "store_indexed st" and h: "st_sess st sid = Some h" and live: "session_Live h"
    and h': "sess_ID h' = sid" "sess_Caller h' = sess_Caller h" "sess_Callee h' = sess_Callee h"
      "\<not> session_Live h'"
  defines "st' \<equiv> endedLocked h' (st\<lparr>st_sessions := mput sid h' (st_sessions st)\<rparr>)"
  shows "store_indexed st'"
    and "live_ids st' = live_ids st - {sid}"
    and "peer_live_ids st' p = peer_live_ids st p - {sid}"
    and "ended_ids st' = insert sid (ended_ids st)"
proof -
  have sess: "st_sess st' = (st_sess st)(sid \<mapsto> h')"
    by (simp add: st'_def)
  have key: "sess_key h' = sess_key h" using h' by (simp add: sess_key_def)
  have has: "session_Has h' q = session_Has h q" for q
    using h' by (simp add: session_Has_def)
  show live': "live_ids st' = live_ids st - {sid}"
    using h'(4) by (auto simp: live_ids_def sess)
  show peer': "peer_live_ids st' q = peer_live_ids st q - {sid}" for q
    using h'(4) by (auto simp: peer_live_ids_def sess)
  show ended': "ended_ids st' = insert sid (ended_ids st)"
    using h'(4) by (auto simp: ended_ids_def sess)
  have sid_live: "sid \<in> live_ids st" using h live by (auto simp: live_ids_def)
  have rows: "row_ids st' q = peer_live_ids st' q" for q
  proof -
    have "row_ids st' q = (if session_Has h q then row_ids st q - {sid} else row_ids st q)"
      by (simp add: st'_def row_ids_ended has h'(1))
    moreover have "sid \<notin> peer_live_ids st q" if "\<not> session_Has h q"
      using h that by (simp add: peer_live_ids_def)
    ultimately show ?thesis using ix by (simp add: peer' store_indexed_def)
  qed
  have pairs: "map_of (st_pairs st') k = Some i \<longleftrightarrow>
      (\<exists>h. st_sess st' i = Some h \<and> session_Live h \<and> sess_key h = k)" (is "?L \<longleftrightarrow> ?R") for k i
  proof -
    have pairs': "map_of (st_pairs st') k = (if k = sess_key h then None else map_of (st_pairs st) k)"
      by (simp add: st'_def key)
    show ?thesis
    proof
      assume ?L
      with pairs' have ne: "k \<noteq> sess_key h" and old: "map_of (st_pairs st) k = Some i"
        by (auto split: if_splits)
      obtain g where "st_sess st i = Some g" "session_Live g" "sess_key g = k"
        using indexed_pairE [OF ix old] .
      with ne h show ?R by (auto simp: sess)
    next
      assume ?R
      then obtain g where g: "i \<noteq> sid" "st_sess st i = Some g" "session_Live g" "sess_key g = k"
        using h'(4) by (auto simp: sess split: if_splits)
      have "map_of (st_pairs st) k = Some i" using ix g(2-4) by (rule indexed_pairI)
      moreover have "map_of (st_pairs st) (sess_key h) = Some sid"
        using ix h live refl by (rule indexed_pairI)
      ultimately show ?L using g(1) pairs' by auto
    qed
  qed
  have count: "st_live st' = int (card (live_ids st'))"
  proof -
    have "card (live_ids st) = Suc (card (live_ids st - {sid}))"
      by (rule card.remove [OF finite_live_ids sid_live])
    then show ?thesis
      using indexed_clauses(4) [OF ix] unfolding live' by (simp add: st'_def)
  qed
  have wfs: "mwf (st_sessions st')" "mwf (st_pairs st')" "rows_wf st'"
    using indexed_clauses [OF ix] by (auto simp: st'_def rows_wf_ended)
  have ids: "sess_ID g = i" if "st_sess st' i = Some g" for i g
    using that h'(1) indexed_ID [OF ix, of i g] by (auto simp: sess split: if_splits)
  have "st_ended st' = st_ended st @ [sid]" by (simp add: st'_def h'(1))
  then have list: "distinct (st_ended st')" "ended_ids st' \<subseteq> set (st_ended st')"
      "set (st_ended st') \<inter> live_ids st' = {}"
    using indexed_clauses(6-8) [OF ix] sid_live by (auto simp: ended' live')
  show "store_indexed st'"
    by (rule store_indexedI [OF wfs ids count pairs rows list])
qed

text \<open>A live session is rewritten as one that is still live between the same peers.\<close>

lemma indexed_update:
  assumes ix: "store_indexed st" and h: "st_sess st sid = Some h" and live: "session_Live h"
    and h': "sess_ID h' = sid" "sess_Caller h' = sess_Caller h" "sess_Callee h' = sess_Callee h"
      "session_Live h'"
  defines "st' \<equiv> st\<lparr>st_sessions := mput sid h' (st_sessions st)\<rparr>"
  shows "store_indexed st'"
    and "live_ids st' = live_ids st"
    and "peer_live_ids st' p = peer_live_ids st p"
    and "ended_ids st' = ended_ids st"
proof -
  have sess: "st_sess st' = (st_sess st)(sid \<mapsto> h')" by (simp add: st'_def)
  have key: "sess_key h' = sess_key h" using h' by (simp add: sess_key_def)
  have has: "session_Has h' q = session_Has h q" for q using h' by (simp add: session_Has_def)
  show live': "live_ids st' = live_ids st"
    using h live h'(4) by (auto simp: live_ids_def sess)
  show peer': "peer_live_ids st' q = peer_live_ids st q" for q
    using h live h'(4) by (auto simp: peer_live_ids_def sess has)
  show ended': "ended_ids st' = ended_ids st"
    using h live h'(4) by (auto simp: ended_ids_def sess)
  have pairs: "map_of (st_pairs st') k = Some i \<longleftrightarrow>
      (\<exists>h. st_sess st' i = Some h \<and> session_Live h \<and> sess_key h = k)" (is "?L \<longleftrightarrow> ?R") for k i
  proof
    assume ?L
    then have old: "map_of (st_pairs st) k = Some i" by (simp add: st'_def)
    obtain g where "st_sess st i = Some g" "session_Live g" "sess_key g = k"
      using indexed_pairE [OF ix old] .
    with h h'(4) key show ?R by (auto simp: sess)
  next
    assume ?R
    then obtain g where g: "st_sess st i = Some g" "session_Live g" "sess_key g = k"
      using h live key by (auto simp: sess split: if_splits)
    then have "map_of (st_pairs st) k = Some i" by (rule indexed_pairI [OF ix])
    then show ?L by (simp add: st'_def)
  qed
  have ids: "sess_ID g = i" if "st_sess st' i = Some g" for i g
    using that h'(1) indexed_ID [OF ix, of i g] by (auto simp: sess split: if_splits)
  have wfs: "mwf (st_sessions st')" "mwf (st_pairs st')" "rows_wf st'"
    using indexed_clauses(1-3) [OF ix] by (simp_all add: st'_def)
  have count: "st_live st' = int (card (live_ids st'))"
    using indexed_clauses(4) [OF ix] unfolding live' by (simp add: st'_def)
  have rows: "row_ids st' q = peer_live_ids st' q" for q
    using indexed_clauses(5) [OF ix] unfolding peer' by (simp add: st'_def)
  have "st_ended st' = st_ended st" by (simp add: st'_def)
  then have list: "distinct (st_ended st')" "ended_ids st' \<subseteq> set (st_ended st')"
      "set (st_ended st') \<inter> live_ids st' = {}"
    using indexed_clauses(6-8) [OF ix] unfolding live' ended' by simp_all
  show "store_indexed st'"
    by (rule store_indexedI [OF wfs ids count pairs rows list])
qed

text \<open>An ended session is forgotten; its identifier may stay in the ended list.\<close>

lemma indexed_forget:
  assumes ix: "store_indexed st" and h: "st_sess st sid = Some h" and dead: "\<not> session_Live h"
  defines "st' \<equiv> forgetLocked sid h st"
  shows "store_indexed st'"
    and "live_ids st' = live_ids st"
    and "peer_live_ids st' p = peer_live_ids st p"
    and "ended_ids st' = ended_ids st - {sid}"
proof -
  have sess: "st_sess st' = (st_sess st)(sid := None)" by (simp add: st'_def)
  show live': "live_ids st' = live_ids st"
    using h dead by (auto simp: live_ids_def sess)
  show peer': "peer_live_ids st' q = peer_live_ids st q" for q
    using h dead by (auto simp: peer_live_ids_def sess)
  show ended': "ended_ids st' = ended_ids st - {sid}"
    by (auto simp: ended_ids_def sess)
  have no_pair: "map_of (st_pairs st) k \<noteq> Some sid" for k
    using h dead by (auto elim: indexed_pairE [OF ix])
  have pairs': "map_of (st_pairs st') k = map_of (st_pairs st) k" for k
    using no_pair by (simp add: st'_def pairs_forget)
  have pairs: "map_of (st_pairs st') k = Some i \<longleftrightarrow>
      (\<exists>h. st_sess st' i = Some h \<and> session_Live h \<and> sess_key h = k)" (is "?L \<longleftrightarrow> ?R") for k i
  proof
    assume ?L
    then have old: "map_of (st_pairs st) k = Some i" by (simp add: pairs')
    with no_pair have "i \<noteq> sid" by auto
    moreover obtain g where "st_sess st i = Some g" "session_Live g" "sess_key g = k"
      using indexed_pairE [OF ix old] .
    ultimately show ?R by (auto simp: sess)
  next
    assume ?R
    then obtain g where "st_sess st i = Some g" "session_Live g" "sess_key g = k"
      by (auto simp: sess split: if_splits)
    then show ?L unfolding pairs' by (rule indexed_pairI [OF ix])
  qed
  have ids: "sess_ID g = i" if "st_sess st' i = Some g" for i g
    using that indexed_ID [OF ix, of i g] by (auto simp: sess split: if_splits)
  have wfs: "mwf (st_sessions st')" "mwf (st_pairs st')" "rows_wf st'"
    using indexed_clauses(1-3) [OF ix] by (simp_all add: st'_def mwf_pairs_forget)
  have count: "st_live st' = int (card (live_ids st'))"
    using indexed_clauses(4) [OF ix] unfolding live' by (simp add: st'_def)
  have rows: "row_ids st' q = peer_live_ids st' q" for q
    using indexed_clauses(5) [OF ix] unfolding peer' by (simp add: st'_def)
  have "st_ended st' = st_ended st" by (simp add: st'_def)
  then have list: "distinct (st_ended st')" "ended_ids st' \<subseteq> set (st_ended st')"
      "set (st_ended st') \<inter> live_ids st' = {}"
    using indexed_clauses(6-8) [OF ix] unfolding live' ended' by auto
  show "store_indexed st'"
    by (rule store_indexedI [OF wfs ids count pairs rows list])
qed

section \<open>The invariant under the primitive moves\<close>

lemma st_settings_prims [simp]:
  "st_settings (st\<lparr>st_sessions := a\<rparr>) = st_settings st"
  "st_settings (st\<lparr>st_pairs := b\<rparr>) = st_settings st"
  "st_settings (st\<lparr>st_live := c\<rparr>) = st_settings st"
  "st_settings (st\<lparr>st_ended := d\<rparr>) = st_settings st"
  "st_settings (untrackLocked p sid st) = st_settings st"
  "st_settings (trackLocked p sid st) = st_settings st"
  "st_settings (endedLocked h st) = st_settings st"
  "st_settings (forgetLocked sid h st) = st_settings st"
  by (simp_all add: st_settings_def)

lemma settings_transfer:
  assumes "st_settings st' = st_settings st"
  shows "store_settings_ok st' = store_settings_ok st" and "session_fits st' h = session_fits st h"
    and "held_bound st' = held_bound st"
  using assms by (simp_all add: st_settings_def store_settings_ok_def session_fits_def held_bound_def)

lemma store_loose_clauses:
  assumes "store_loose st"
  shows "store_indexed st" and "store_settings_ok st"
    and "st_sess st sid = Some h \<Longrightarrow> session_fits st h"
    and "st_live st \<le> st_ceiling st" and "int (card (peer_live_ids st p)) \<le> st_perPeerCap st"
    and "int (length (st_sessions st)) \<le> held_bound st"
  using assms by (simp_all add: store_loose_def)

lemma store_wf_loose: "store_wf st \<Longrightarrow> store_loose st"
  by (simp add: store_wf_def)

lemma store_wf_indexed: "store_wf st \<Longrightarrow> store_indexed st"
  by (simp add: store_wf_def store_loose_def)

lemma store_wf_ended: "store_wf st \<Longrightarrow> set (st_ended st) = ended_ids st"
  by (simp add: store_wf_def)

text \<open>A move that adds no live session and no record keeps the bounds.\<close>

lemma store_loose_shrink:
  assumes loose: "store_loose st" and ix: "store_indexed st'"
    and set: "st_settings st' = st_settings st"
    and fits: "\<And>sid h. st_sess st' sid = Some h \<Longrightarrow> session_fits st h"
    and live: "live_ids st' \<subseteq> live_ids st"
    and peer: "\<And>p. peer_live_ids st' p \<subseteq> peer_live_ids st p"
    and dom: "dom (st_sess st') \<subseteq> dom (st_sess st)"
  shows "store_loose st'"
proof -
  note old = store_loose_clauses [OF loose]
  have "st_live st' \<le> st_live st"
    using card_mono [OF finite_live_ids live] indexed_clauses(4) [OF ix] indexed_clauses(4) [OF old(1)]
    by simp
  moreover have "card (peer_live_ids st' p) \<le> card (peer_live_ids st p)" for p
    using card_mono [OF finite_peer_live_ids peer] .
  then have "int (card (peer_live_ids st' p)) \<le> st_perPeerCap st" for p
    by (rule order_trans [OF of_nat_mono old(5)])
  moreover have "length (st_sessions st') \<le> length (st_sessions st)"
    by (rule gm.len_mono [OF indexed_clauses(1) [OF ix] indexed_clauses(1) [OF old(1)] dom])
  moreover have "st_ceiling st' = st_ceiling st" "st_perPeerCap st' = st_perPeerCap st"
    using set by (simp_all add: st_settings_def)
  ultimately have "st_live st' \<le> st_ceiling st'" "int (card (peer_live_ids st' p)) \<le> st_perPeerCap st'"
      "int (length (st_sessions st')) \<le> held_bound st'" for p
    using old(4,6) settings_transfer(3) [OF set] by simp_all
  then show ?thesis
    unfolding store_loose_def settings_transfer(1,2) [OF set] using ix old(2) fits by blast
qed

lemma loose_end:
  assumes loose: "store_loose st" and h: "st_sess st sid = Some h" and live: "session_Live h"
    and h': "sess_ID h' = sid" "sess_Caller h' = sess_Caller h" "sess_Callee h' = sess_Callee h"
      "\<not> session_Live h'"
  defines "st' \<equiv> endedLocked h' (st\<lparr>st_sessions := mput sid h' (st_sessions st)\<rparr>)"
  shows "store_loose st'" and "st_sess st' = (st_sess st)(sid \<mapsto> h')"
    and "set (st_ended st) = ended_ids st \<Longrightarrow> set (st_ended st') = ended_ids st'"
proof -
  note ix = store_loose_clauses(1) [OF loose]
  note moved = indexed_end [OF ix h live h', folded st'_def]
  show sess: "st_sess st' = (st_sess st)(sid \<mapsto> h')" by (simp add: st'_def)
  have "session_fits st h'"
    using store_loose_clauses(3) [OF loose h] h' by (auto simp: session_fits_def session_Live_def)
  then have "session_fits st g" if "st_sess st' i = Some g" for i g
    using that store_loose_clauses(3) [OF loose, of i g] by (auto simp: sess split: if_splits)
  then show "store_loose st'"
    using moved h by (intro store_loose_shrink [OF loose]) (auto simp: sess, auto simp: st'_def)
  show "set (st_ended st') = ended_ids st'" if "set (st_ended st) = ended_ids st"
    using that moved(4) h'(1) by (simp add: st'_def)
qed

lemma loose_update:
  assumes loose: "store_loose st" and h: "st_sess st sid = Some h" and live: "session_Live h"
    and h': "sess_ID h' = sid" "sess_Caller h' = sess_Caller h" "sess_Callee h' = sess_Callee h"
      "session_Live h'"
    and path: "sess_State h' = Negotiating \<Longrightarrow> sess_Path h' = PathUnknown"
  defines "st' \<equiv> st\<lparr>st_sessions := mput sid h' (st_sessions st)\<rparr>"
  shows "store_loose st'" and "st_sess st' = (st_sess st)(sid \<mapsto> h')"
    and "set (st_ended st) = ended_ids st \<Longrightarrow> set (st_ended st') = ended_ids st'"
proof -
  note ix = store_loose_clauses(1) [OF loose]
  note moved = indexed_update [OF ix h live h', folded st'_def]
  show sess: "st_sess st' = (st_sess st)(sid \<mapsto> h')" by (simp add: st'_def)
  have "session_fits st h'"
    using store_loose_clauses(3) [OF loose h] h' path by (auto simp: session_fits_def)
  then have "session_fits st g" if "st_sess st' i = Some g" for i g
    using that store_loose_clauses(3) [OF loose, of i g] by (auto simp: sess split: if_splits)
  then show "store_loose st'"
    using moved h by (intro store_loose_shrink [OF loose]) (auto simp: sess, auto simp: st'_def)
  show "set (st_ended st') = ended_ids st'" if "set (st_ended st) = ended_ids st"
    using that moved(4) by (simp add: st'_def)
qed

lemma loose_forget:
  assumes loose: "store_loose st" and h: "st_sess st sid = Some h" and dead: "\<not> session_Live h"
  defines "st' \<equiv> forgetLocked sid h st"
  shows "store_loose st'" and "st_sess st' = (st_sess st)(sid := None)"
    and "ended_ids st' = ended_ids st - {sid}"
proof -
  note ix = store_loose_clauses(1) [OF loose]
  note moved = indexed_forget [OF ix h dead, folded st'_def]
  show sess: "st_sess st' = (st_sess st)(sid := None)" by (simp add: st'_def)
  have "session_fits st g" if "st_sess st' i = Some g" for i g
    using that store_loose_clauses(3) [OF loose, of i g] by (auto simp: sess split: if_splits)
  then show "store_loose st'"
    using moved by (intro store_loose_shrink [OF loose]) (auto simp: sess, auto simp: st'_def)
  show "ended_ids st' = ended_ids st - {sid}" by (rule moved(4))
qed

end
