(* ===== verification/Session_Ops.thy ===== *)
theory Session_Ops
  imports Session_Inv
begin

text \<open>
  What each operation of the session store does to the sessions, session by session,
  and that it keeps the invariant. The effect of an operation is a function of the
  stored record alone: settling, closing, reaping.
\<close>

section \<open>Settling\<close>

text \<open>The negotiation timeout, applied to one record.\<close>

definition settled :: "duration \<Rightarrow> time \<Rightarrow> session \<Rightarrow> session" where
  "settled timeout now h =
     (if sess_State h = Negotiating \<and> timeout < time_Sub now (sess_OpenedAt h)
      then h\<lparr>sess_State := Failed, sess_ChangedAt := time_Add (sess_OpenedAt h) timeout\<rparr>
      else h)"

lemma settled_fields [simp]:
  "sess_ID (settled d t h) = sess_ID h"
  "sess_Caller (settled d t h) = sess_Caller h"
  "sess_Callee (settled d t h) = sess_Callee h"
  "sess_OpenedAt (settled d t h) = sess_OpenedAt h"
  "sess_Path (settled d t h) = sess_Path h"
  "session_Has (settled d t h) p = session_Has h p"
  "sess_key (settled d t h) = sess_key h"
  by (simp_all add: settled_def session_Has_def sess_key_def)

lemma settled_dead: "\<not> session_Live h \<Longrightarrow> settled d t h = h"
  by (auto simp: settled_def session_Live_def)

lemma settled_live: "session_Live (settled d t h) \<Longrightarrow> settled d t h = h"
  by (auto simp: settled_def session_Live_def)

lemma settled_changed: "settled d t h \<noteq> h \<Longrightarrow> session_Live h \<and> \<not> session_Live (settled d t h)"
  by (auto simp: settled_def session_Live_def)

text \<open>When a session is settled does not show: it failed when its timeout passed.\<close>

lemma settled_settled [simp]: "t \<le> t' \<Longrightarrow> settled d t' (settled d t h) = settled d t' h"
  using time_Sub_mono [of t t' "sess_OpenedAt h"] by (auto simp: settled_def)

lemma settleLocked_result: "snd (settleLocked now h st) = settled (st_timeout st) now h"
  by (auto simp: settleLocked_def settled_def Let_def)

lemma settle_effect:
  fixes now :: time
  assumes loose: "store_loose st" and h: "st_sess st sid = Some h"
  defines "st' \<equiv> fst (settleLocked now h st)"
  shows "store_loose st'"
    and "st_sess st' = (st_sess st)(sid \<mapsto> settled (st_timeout st) now h)"
    and "st_settings st' = st_settings st"
    and "set (st_ended st) = ended_ids st \<Longrightarrow> set (st_ended st') = ended_ids st'"
proof -
  have ID: "sess_ID h = sid"
    using store_loose_clauses(1) [OF loose] h by (rule indexed_ID)
  let ?h' = "settled (st_timeout st) now h"
  have "store_loose st' \<and> st_sess st' = (st_sess st)(sid \<mapsto> ?h') \<and> st_settings st' = st_settings st \<and>
      (set (st_ended st) = ended_ids st \<longrightarrow> set (st_ended st') = ended_ids st')"
  proof (cases "?h' = h")
    case True
    then have "st' = st" by (auto simp: st'_def settleLocked_def settled_def dest: arg_cong [of _ _ sess_State])
    with loose True h show ?thesis by auto
  next
    case False
    then have live: "session_Live h" "\<not> session_Live ?h'" by (auto dest: settled_changed)
    have st': "st' = endedLocked ?h' (st\<lparr>st_sessions := mput sid ?h' (st_sessions st)\<rparr>)"
      using False ID by (auto simp: st'_def settleLocked_def settled_def Let_def split: if_splits)
    show ?thesis
      using loose_end [OF loose h live(1), of ?h'] live(2) ID by (simp add: st')
  qed
  then show "store_loose st'" "st_sess st' = (st_sess st)(sid \<mapsto> ?h')"
    "st_settings st' = st_settings st"
    "set (st_ended st) = ended_ids st \<Longrightarrow> set (st_ended st') = ended_ids st'" by simp_all
qed

lemma settle_wf:
  "store_wf st \<Longrightarrow> st_sess st sid = Some h \<Longrightarrow> store_wf (fst (settleLocked now h st))"
  using settle_effect [of st sid h now] by (simp add: store_wf_def)

lemma settings_fields:
  assumes "st_settings st' = st_settings st"
  shows "st_timeout st' = st_timeout st" and "st_retention st' = st_retention st"
    and "st_ceiling st' = st_ceiling st" and "st_perPeerCap st' = st_perPeerCap st"
    and "st_authorizer st' = st_authorizer st"
  using assms by (simp_all add: st_settings_def)

section \<open>Get and Report\<close>

lemma store_Get_wf: "store_wf st \<Longrightarrow> store_wf (fst (store_Get now sid p st))"
  by (auto simp: store_Get_def split_beta Let_def settle_wf split: option.splits)

lemma store_Get_effect:
  assumes "store_wf st"
  shows "snd (store_Get now sid p st) =
      (case st_sess st sid of
         Some h \<Rightarrow> if session_Has h p then Inr (settled (st_timeout st) now h) else Inl ErrNotFound
       | None \<Rightarrow> Inl ErrNotFound)"
    and "st_sess (fst (store_Get now sid p st)) =
      (case st_sess st sid of
         Some h \<Rightarrow> if session_Has h p then (st_sess st)(sid \<mapsto> settled (st_timeout st) now h) else st_sess st
       | None \<Rightarrow> st_sess st)"
    and "st_settings (fst (store_Get now sid p st)) = st_settings st"
  using settle_effect [OF store_wf_loose [OF assms], of sid _ now]
  by (auto simp: store_Get_def split_beta Let_def settleLocked_result split: option.splits)

text \<open>The record after a report that the state machine allows.\<close>

definition reported :: "time \<Rightarrow> sess_state \<Rightarrow> sess_path \<Rightarrow> session \<Rightarrow> session" where
  "reported now state path h =
     (let h1 = h\<lparr>sess_State := state, sess_ChangedAt := now\<rparr>
      in if state = Connected then h1\<lparr>sess_Path := path\<rparr> else h1)"

lemma canMove_live: "canMove (sess_State h) state \<Longrightarrow> session_Live h"
  by (cases "sess_State h") (auto simp: canMove_def session_Live_def)

lemma canMove_target: "canMove s state \<Longrightarrow> state \<noteq> Negotiating"
  by (cases s) (auto simp: canMove_def)

lemma store_Report_cases:
  fixes now :: time and sid p :: string and state :: sess_state and path :: sess_path
  assumes wf: "store_wf st"
  defines "r \<equiv> store_Report now sid p state path st"
  shows "(st_sess st sid = None \<or> (\<exists>h. st_sess st sid = Some h \<and> \<not> session_Has h p)) \<and>
           r = (st, Inl ErrNotFound)
       \<or> (\<exists>h. st_sess st sid = Some h \<and> session_Has h p \<and>
            \<not> canMove (sess_State (settled (st_timeout st) now h)) state \<and>
            r = (fst (settleLocked now h st), Inl ErrBadTransition))
       \<or> (\<exists>h h'. st_sess st sid = Some h \<and> session_Has h p \<and> canMove (sess_State h) state \<and>
            settled (st_timeout st) now h = h \<and> h' = reported now state path h \<and>
            store_wf (fst r) \<and> st_sess (fst r) = (st_sess st)(sid \<mapsto> h') \<and>
            st_settings (fst r) = st_settings st \<and> snd r = Inr h')"
proof (cases "st_sess st sid")
  case None
  then show ?thesis by (simp add: r_def store_Report_def)
next
  case (Some h)
  let ?g = "settled (st_timeout st) now h"
  consider "\<not> session_Has h p" | "session_Has h p" "\<not> canMove (sess_State ?g) state"
    | "session_Has h p" "canMove (sess_State ?g) state" by blast
  then show ?thesis
  proof cases
    case 1
    with Some show ?thesis by (simp add: r_def store_Report_def)
  next
    case 2
    with Some show ?thesis
      by (auto simp: r_def store_Report_def split_beta Let_def settleLocked_result)
  next
    case 3
    then have live: "session_Live h" and g: "?g = h"
      using settled_live settled_dead canMove_live by metis+
    have same: "fst (settleLocked now h st) = st"
      using g by (auto simp: settleLocked_def settled_def dest: arg_cong [of _ _ sess_State])
    let ?h' = "reported now state path h"
    have fields: "sess_ID ?h' = sess_ID h" "sess_Caller ?h' = sess_Caller h"
        "sess_Callee ?h' = sess_Callee h" "sess_State ?h' = state"
      by (simp_all add: reported_def Let_def)
    have ID: "sess_ID h = sid" using indexed_ID [OF store_wf_indexed [OF wf] Some] .
    let ?st2 = "st\<lparr>st_sessions := mput sid ?h' (st_sessions st)\<rparr>"
    have r: "r = (if session_Live ?h' then ?st2 else endedLocked ?h' ?st2, Inr ?h')"
      using 3 Some live g same
      by (simp add: r_def store_Report_def split_beta Let_def settleLocked_result reported_def)
    have "state \<noteq> Negotiating" using 3(2) by (rule canMove_target)
    have "store_wf (fst r) \<and> st_sess (fst r) = (st_sess st)(sid \<mapsto> ?h')"
      using loose_end [OF store_wf_loose [OF wf] Some live, of ?h'] fields ID
        loose_update [OF store_wf_loose [OF wf] Some live, of ?h'] \<open>state \<noteq> Negotiating\<close> store_wf_ended [OF wf]
      by (auto simp: r store_wf_def)
    moreover have "st_settings (fst r) = st_settings st" "snd r = Inr ?h'" by (simp_all add: r)
    ultimately show ?thesis using Some 3 g by auto
  qed
qed

lemma store_Report_wf: "store_wf st \<Longrightarrow> store_wf (fst (store_Report now sid p state path st))"
  using store_Report_cases [where st = st and now = now and sid = sid and p = p and state = state and path = path] by (auto simp: settle_wf)

lemma store_Report_settings:
  "store_wf st \<Longrightarrow> st_settings (fst (store_Report now sid p state path st)) = st_settings st"
  using store_Report_cases [where st = st and now = now and sid = sid and p = p and state = state and path = path] settle_effect(3) [OF store_wf_loose]
  by auto

section \<open>ClosePeer\<close>

text \<open>What closing a peer does to one record, and whether it is one of the sessions closed.\<close>

definition closes :: "duration \<Rightarrow> time \<Rightarrow> string \<Rightarrow> session \<Rightarrow> bool" where
  "closes timeout now p h \<longleftrightarrow> session_Has h p \<and> session_Live (settled timeout now h)"

definition closed_by :: "duration \<Rightarrow> time \<Rightarrow> string \<Rightarrow> session \<Rightarrow> session" where
  "closed_by timeout now p h =
     (if closes timeout now p h then h\<lparr>sess_State := Closed, sess_ChangedAt := now\<rparr>
      else if session_Has h p then settled timeout now h
      else h)"

text \<open>The session the pass over the map reports for one identifier, if any.\<close>

definition closed_entry ::
  "duration \<Rightarrow> time \<Rightarrow> string \<Rightarrow> (string \<Rightarrow> session option) \<Rightarrow> string \<Rightarrow> session option" where
  "closed_entry timeout now p m i =
     (case m i of
        Some h \<Rightarrow> if closes timeout now p h then Some (closed_by timeout now p h) else None
      | None \<Rightarrow> None)"

lemma map_filter_cong:
  "(\<And>i. i \<in> set xs \<Longrightarrow> f i = g i) \<Longrightarrow> List.map_filter f xs = List.map_filter g xs"
  by (induction xs) (auto simp: map_filter_simps split: option.splits)

lemma closed_entry_upd: "i \<noteq> sid \<Longrightarrow> closed_entry d now p (m(sid := x)) i = closed_entry d now p m i"
  by (simp add: closed_entry_def)

lemma close_step:
  fixes now :: time and p :: string
  assumes wf: "store_wf st" and h: "st_sess st sid = Some h" and cl: "closes (st_timeout st) now p h"
  defines "h2 \<equiv> h\<lparr>sess_State := Closed, sess_ChangedAt := now\<rparr>"
  defines "st2 \<equiv> endedLocked h2 (st\<lparr>st_sessions := mput sid h2 (st_sessions st)\<rparr>)"
  shows "settleLocked now h st = (st, h)" and "store_wf st2"
    and "st_sess st2 = (st_sess st)(sid \<mapsto> closed_by (st_timeout st) now p h)"
    and "st_settings st2 = st_settings st"
proof -
  have g: "settled (st_timeout st) now h = h" and live: "session_Live h"
    using cl settled_live [of "st_timeout st" now h] by (auto simp: closes_def)
  have "fst (settleLocked now h st) = st"
    using g by (auto simp: settleLocked_def settled_def dest: arg_cong [of _ _ sess_State])
  then show "settleLocked now h st = (st, h)"
    using g settleLocked_result [of now h st] by (metis prod.collapse)
  have "sess_ID h = sid" using indexed_ID [OF store_wf_indexed [OF wf] h] .
  then show "store_wf st2" "st_sess st2 = (st_sess st)(sid \<mapsto> closed_by (st_timeout st) now p h)"
    using loose_end [OF store_wf_loose [OF wf] h live, of h2] store_wf_ended [OF wf] cl
    by (simp_all add: h2_def st2_def session_Live_def store_wf_def closed_by_def)
  show "st_settings st2 = st_settings st" by (simp add: st2_def)
qed

lemma close_ids_effect:
  assumes "store_wf st" and "distinct sids"
  shows "store_wf (fst (close_ids now p sids st)) \<and>
     st_settings (fst (close_ids now p sids st)) = st_settings st \<and>
     st_sess (fst (close_ids now p sids st)) =
       (\<lambda>i. if i \<in> set sids then map_option (closed_by (st_timeout st) now p) (st_sess st i) else st_sess st i) \<and>
     snd (close_ids now p sids st) =
       List.map_filter (closed_entry (st_timeout st) now p (st_sess st)) sids"
  using assms
proof (induction sids arbitrary: st)
  case Nil
  then show ?case by (simp add: map_filter_simps)
next
  case (Cons sid sids)
  have rest: "List.map_filter (closed_entry d now p ((st_sess st)(sid := x))) sids =
      List.map_filter (closed_entry d now p (st_sess st)) sids" for d x
    using Cons.prems(2) by (intro map_filter_cong closed_entry_upd) auto
  note rest' = rest [unfolded fun_upd_def]
  show ?case
  proof (cases "st_sess st sid")
    case None
    with Cons show ?thesis by (auto simp: map_filter_simps closed_entry_def [of _ _ _ _ sid] fun_eq_iff)
  next
    case (Some h)
    consider (other) "\<not> session_Has h p"
      | (dead) "session_Has h p" "\<not> session_Live (settled (st_timeout st) now h)"
      | (close) "closes (st_timeout st) now p h" by (auto simp: closes_def)
    then show ?thesis
    proof cases
      case other
      then have "closed_by (st_timeout st) now p h = h" "\<not> closes (st_timeout st) now p h"
        by (auto simp: closed_by_def closes_def)
      with Cons Some other show ?thesis by (auto simp: map_filter_simps closed_entry_def [of _ _ _ _ sid] fun_eq_iff)
    next
      case dead
      let ?st1 = "fst (settleLocked now h st)"
      note eff = settle_effect [OF store_wf_loose [OF Cons.prems(1)] Some, of now]
      have cb: "closed_by (st_timeout st) now p h = settled (st_timeout st) now h"
          "\<not> closes (st_timeout st) now p h"
        using dead by (auto simp: closed_by_def closes_def)
      have "close_ids now p (sid # sids) st = close_ids now p sids ?st1"
        using Some dead by (simp add: split_beta Let_def settleLocked_result)
      then show ?thesis
        using Cons.IH [of ?st1] Cons.prems settle_wf [OF Cons.prems(1) Some, of now] Some cb
        by (auto simp: eff(2,3) settings_fields(1) [OF eff(3)] rest rest' map_filter_simps
            closed_entry_def [of _ _ _ _ sid] intro!: ext)
    next
      case close
      let ?h2 = "h\<lparr>sess_State := Closed, sess_ChangedAt := now\<rparr>"
      let ?st2 = "endedLocked ?h2 (st\<lparr>st_sessions := mput sid ?h2 (st_sessions st)\<rparr>)"
      note step = close_step [OF Cons.prems(1) Some close]
      have live: "session_Live h" "session_Has h p"
        using close settled_live [of "st_timeout st" now h] by (auto simp: closes_def)
      have "close_ids now p (sid # sids) st =
          (fst (close_ids now p sids ?st2), ?h2 # snd (close_ids now p sids ?st2))"
        using Some live by (simp add: split_beta Let_def step(1))
      then show ?thesis
        using Cons.IH [of ?st2] Cons.prems step(2) Some close
        by (auto simp: step(3,4) settings_fields(1) [OF step(4)] rest rest' map_filter_simps
            closed_entry_def [of _ _ _ _ sid] closed_by_def intro!: ext)
    qed
  qed
qed

lemma store_ClosePeer_effect:
  assumes "store_wf st" and "range_ok ord"
  shows "store_wf (fst (store_ClosePeer ord now p st))"
    and "st_settings (fst (store_ClosePeer ord now p st)) = st_settings st"
    and "st_sess (fst (store_ClosePeer ord now p st)) i =
           map_option (closed_by (st_timeout st) now p) (st_sess st i)"
    and "snd (store_ClosePeer ord now p st) =
           List.map_filter (closed_entry (st_timeout st) now p (st_sess st)) (ord (mkeys (st_sessions st)))"
proof -
  let ?ids = "ord (mkeys (st_sessions st))"
  have ids: "distinct ?ids" "set ?ids = dom (st_sess st)"
    using range_okD [OF assms(2) mwf_mkeys [OF indexed_clauses(1) [OF store_wf_indexed [OF assms(1)]]]]
    by simp_all
  note eff = close_ids_effect [OF assms(1) ids(1), of now p, folded store_ClosePeer_def]
  then show "store_wf (fst (store_ClosePeer ord now p st))"
    "st_settings (fst (store_ClosePeer ord now p st)) = st_settings st"
    "snd (store_ClosePeer ord now p st) =
       List.map_filter (closed_entry (st_timeout st) now p (st_sess st)) ?ids" by simp_all
  show "st_sess (fst (store_ClosePeer ord now p st)) i =
      map_option (closed_by (st_timeout st) now p) (st_sess st i)"
    using eff ids(2) by (cases "st_sess st i") auto
qed

section \<open>Reap\<close>

definition reaps :: "duration \<Rightarrow> duration \<Rightarrow> time \<Rightarrow> session \<Rightarrow> bool" where
  "reaps timeout retention now h \<longleftrightarrow>
     \<not> session_Live (settled timeout now h) \<and>
     retention < time_Sub now (sess_ChangedAt (settled timeout now h))"

definition reaped :: "duration \<Rightarrow> duration \<Rightarrow> time \<Rightarrow> session \<Rightarrow> session option" where
  "reaped timeout retention now h =
     (if reaps timeout retention now h then None else Some (settled timeout now h))"

lemma indexed_new_ended:
  assumes ix: "store_indexed st" and e: "distinct e" "ended_ids st \<subseteq> set e" "set e \<inter> live_ids st = {}"
  shows "store_indexed (st\<lparr>st_ended := e\<rparr>)"
proof -
  have "live_ids (st\<lparr>st_ended := e\<rparr>) = live_ids st" "ended_ids (st\<lparr>st_ended := e\<rparr>) = ended_ids st"
    "peer_live_ids (st\<lparr>st_ended := e\<rparr>) p = peer_live_ids st p" for p
    by (simp_all add: live_ids_def ended_ids_def peer_live_ids_def)
  with assms show ?thesis by (simp add: store_indexed_def)
qed

lemma loose_new_ended:
  assumes "store_loose st" and "distinct e" "ended_ids st \<subseteq> set e" "set e \<inter> live_ids st = {}"
  shows "store_loose (st\<lparr>st_ended := e\<rparr>)"
  by (rule store_loose_shrink [OF assms(1) indexed_new_ended [OF store_loose_clauses(1) [OF assms(1)] assms(2-4)]])
    (use store_loose_clauses(3) [OF assms(1)] in \<open>auto simp: live_ids_def peer_live_ids_def\<close>)

lemma ended_ids_st_ended [simp]: "ended_ids (st\<lparr>st_ended := e\<rparr>) = ended_ids st"
  by (simp add: ended_ids_def)

lemma ended_or_live: "dom (st_sess st) = ended_ids st \<union> live_ids st"
  by (auto simp: ended_ids_def live_ids_def)

lemma compact_wf:
  assumes "store_loose st"
  shows "store_wf (compactEndedLocked st)" and "st_sess (compactEndedLocked st) = st_sess st"
    and "st_settings (compactEndedLocked st) = st_settings st"
proof -
  note ix = store_loose_clauses(1) [OF assms]
  let ?e = "filter (\<lambda>sid. st_sess st sid \<noteq> None) (st_ended st)"
  have "set ?e = set (st_ended st) \<inter> dom (st_sess st)" by auto
  then have eq: "set ?e = ended_ids st"
    using indexed_clauses(7,8) [OF ix] ended_or_live [of st] by auto
  moreover have "ended_ids st \<inter> live_ids st = {}" by (auto simp: ended_ids_def live_ids_def)
  ultimately have "store_loose (st\<lparr>st_ended := ?e\<rparr>)"
    using indexed_clauses(6) [OF ix] by (intro loose_new_ended [OF assms]) simp_all
  with eq show "store_wf (compactEndedLocked st)"
    by (simp add: store_wf_def compactEndedLocked_def)
qed (simp_all add: compactEndedLocked_def)

definition times_out :: "duration \<Rightarrow> time \<Rightarrow> session option \<Rightarrow> bool" where
  "times_out timeout now x \<longleftrightarrow> (case x of Some h \<Rightarrow> settled timeout now h \<noteq> h | None \<Rightarrow> False)"

definition is_reaped :: "duration \<Rightarrow> duration \<Rightarrow> time \<Rightarrow> session option \<Rightarrow> bool" where
  "is_reaped timeout retention now x \<longleftrightarrow>
     (case x of Some h \<Rightarrow> reaps timeout retention now h | None \<Rightarrow> False)"

lemma settled_failed_iff:
  "(sess_State h = Negotiating \<and> sess_State (settled d t h) = Failed) = (settled d t h \<noteq> h)"
  by (auto simp: settled_def dest: arg_cong [of _ _ sess_State])

lemma reap_ids_effect:
  assumes "store_loose st" and "distinct sids" and "reap_ids now sids (st, a, b) = (st', a', b')"
  shows "store_loose st' \<and> st_settings st' = st_settings st \<and>
     st_sess st' = (\<lambda>i. if i \<in> set sids
        then Option.bind (st_sess st i) (reaped (st_timeout st) (st_retention st) now) else st_sess st i) \<and>
     a' = a + int (length (filter (\<lambda>i. times_out (st_timeout st) now (st_sess st i)) sids)) \<and>
     b' = b + int (length (filter (\<lambda>i. is_reaped (st_timeout st) (st_retention st) now (st_sess st i)) sids))"
  using assms
proof (induction sids arbitrary: st a b)
  case Nil
  then show ?case by simp
next
  case (Cons sid sids)
  have cong: "filter (\<lambda>i. P (((st_sess st)(sid := x)) i)) sids = filter (\<lambda>i. P (st_sess st i)) sids" for P x
    using Cons.prems(2) by (intro filter_cong) auto
  note cong' = cong [unfolded fun_upd_def]
  show ?case
  proof (cases "st_sess st sid")
    case None
    then show ?thesis
      using Cons.IH [of st a b] Cons.prems by (auto simp: times_out_def is_reaped_def intro!: ext)
  next
    case (Some h)
    let ?d = "st_timeout st" and ?r = "st_retention st"
    let ?g = "settled ?d now h"
    let ?st1 = "fst (settleLocked now h st)"
    let ?a1 = "if ?g \<noteq> h then a + 1 else a"
    note eff = settle_effect [OF Cons.prems(1) Some, of now]
    have g1: "st_sess ?st1 sid = Some ?g" by (simp add: eff(2))
    have ret: "st_retention ?st1 = ?r" "st_timeout ?st1 = ?d"
      using settings_fields [OF eff(3)] by simp_all
    show ?thesis
    proof (cases "reaps ?d ?r now h")
      case True
      then have dead: "\<not> session_Live ?g" by (simp add: reaps_def)
      let ?st2 = "forgetLocked sid ?g ?st1"
      note fg = loose_forget [OF eff(1) g1 dead]
      have "reap_ids now (sid # sids) (st, a, b) = reap_ids now sids (?st2, ?a1, b + 1)"
        using Some True settled_failed_iff [of h ?d now]
        by (simp add: split_beta Let_def settleLocked_result reaps_def ret)
      moreover have "st_settings ?st2 = st_settings st" "st_retention ?st2 = ?r" "st_timeout ?st2 = ?d"
        by (simp_all add: eff(3) ret)
      moreover have "st_sess ?st2 = (st_sess st)(sid := None)" by (simp add: fg(2) eff(2))
      ultimately show ?thesis
        using Cons.IH [OF fg(1), of ?a1 "b + 1"] Cons.prems(2,3) Some True
        by (auto simp: cong cong' times_out_def [of _ _ "Some h"]
            is_reaped_def [of _ _ _ "Some h"] reaped_def [of _ _ _ h] intro!: ext)
    next
      case False
      have "reap_ids now (sid # sids) (st, a, b) = reap_ids now sids (?st1, ?a1, b)"
        using Some False settled_failed_iff [of h ?d now]
        by (auto simp add: split_beta Let_def settleLocked_result reaps_def ret)
      then show ?thesis
        using Cons.IH [OF eff(1), of ?a1 b] Cons.prems(2,3) Some False
        by (auto simp: eff(2,3) ret cong cong' times_out_def [of _ _ "Some h"]
            is_reaped_def [of _ _ _ "Some h"] reaped_def [of _ _ _ h] intro!: ext)
    qed
  qed
qed

lemma store_Reap_effect:
  assumes "store_wf st" and "range_ok ord" and "store_Reap ord now st = (st', failed, forgotten)"
  shows "store_wf st'" and "st_settings st' = st_settings st"
    and "st_sess st' i = Option.bind (st_sess st i) (reaped (st_timeout st) (st_retention st) now)"
    and "failed = int (card {i. times_out (st_timeout st) now (st_sess st i)})"
    and "forgotten = int (card {i. is_reaped (st_timeout st) (st_retention st) now (st_sess st i)})"
proof -
  let ?ids = "ord (mkeys (st_sessions st))"
  have ids: "distinct ?ids" "set ?ids = dom (st_sess st)"
    using range_okD [OF assms(2) mwf_mkeys [OF indexed_clauses(1) [OF store_wf_indexed [OF assms(1)]]]]
    by simp_all
  obtain st1 where run: "reap_ids now ?ids (st, 0, 0) = (st1, failed, forgotten)"
      and st': "st' = compactEndedLocked st1"
    using assms(3) by (auto simp: store_Reap_def split: prod.splits)
  note eff = reap_ids_effect [OF store_wf_loose [OF assms(1)] ids(1) run]
  then have loose: "store_loose st1" by simp
  show "store_wf st'" "st_settings st' = st_settings st"
    using eff compact_wf [OF loose] by (simp_all add: st')
  show "st_sess st' i = Option.bind (st_sess st i) (reaped (st_timeout st) (st_retention st) now)"
    using eff ids(2) compact_wf(2) [OF loose] by (cases "st_sess st i") (auto simp: st')
  have count: "length (filter (\<lambda>i. P (st_sess st i)) ?ids) = card {i. P (st_sess st i)}"
    if "\<not> P None" for P
  proof -
    have "{i. P (st_sess st i)} = set (filter (\<lambda>i. P (st_sess st i)) ?ids)"
      using that ids(2) by (auto simp: dom_def)
    then show ?thesis
      using distinct_card [OF distinct_filter [OF ids(1)], of "\<lambda>i. P (st_sess st i)"] by simp
  qed
  show "failed = int (card {i. times_out (st_timeout st) now (st_sess st i)})"
    using eff count [of "times_out (st_timeout st) now"] by (simp add: times_out_def)
  show "forgotten = int (card {i. is_reaped (st_timeout st) (st_retention st) now (st_sess st i)})"
    using eff count [of "is_reaped (st_timeout st) (st_retention st) now"] by (simp add: is_reaped_def)
qed

section \<open>Open\<close>

text \<open>
  What Open settles on its way: some of the records may have their timeout applied,
  and nothing else changes.
\<close>

definition settles_some :: "time \<Rightarrow> store \<Rightarrow> store \<Rightarrow> bool" where
  "settles_some now st st' \<longleftrightarrow>
     store_wf st' \<and> st_settings st' = st_settings st \<and>
     (\<forall>i. st_sess st' i = st_sess st i \<or>
          st_sess st' i = map_option (settled (st_timeout st) now) (st_sess st i))"

lemma settles_some_refl: "store_wf st \<Longrightarrow> settles_some now st st"
  by (simp add: settles_some_def)

lemma settles_some_trans:
  assumes "settles_some now st st'" and "settles_some now st' st''"
  shows "settles_some now st st''"
proof -
  have "st_timeout st' = st_timeout st"
    using assms(1) by (auto simp: settles_some_def intro: settings_fields(1))
  moreover have "map_option (settled d now) (map_option (settled d now) x) = map_option (settled d now) x"
    for d x by (cases x) simp_all
  ultimately show ?thesis using assms unfolding settles_some_def by (smt (verit))
qed

lemma settles_some_settle:
  assumes "store_wf st" and "st_sess st sid = Some h"
  shows "settles_some now st (fst (settleLocked now h st))"
  using settle_wf [OF assms] settle_effect(2,3) [OF store_wf_loose [OF assms(1)] assms(2), of now] assms(2)
  by (simp add: settles_some_def)

lemma settles_some_dom: "settles_some now st st' \<Longrightarrow> st_sess st' i = None \<longleftrightarrow> st_sess st i = None"
  unfolding settles_some_def by (metis map_option_is_None)

lemma settle_ids_effect:
  assumes "store_wf st" and "\<forall>i \<in> set sids. st_sess st i \<noteq> None"
  shows "settles_some now st (settle_ids now p sids st) \<and>
     (\<forall>i. st_sess (settle_ids now p sids st) i =
        (if i \<in> set sids then map_option (settled (st_timeout st) now) (st_sess st i) else st_sess st i))"
  using assms
proof (induction sids arbitrary: st)
  case Nil
  then show ?case by (simp add: settles_some_refl)
next
  case (Cons sid sids)
  then obtain h where h: "st_sess st sid = Some h" by auto
  let ?st1 = "fst (settleLocked now h st)"
  note eff = settle_effect [OF store_wf_loose [OF Cons.prems(1)] h, of now]
  note some = settles_some_settle [OF Cons.prems(1) h, of now]
  have d: "st_timeout ?st1 = st_timeout st" by (rule settings_fields(1) [OF eff(3)])
  have "\<forall>i \<in> set sids. st_sess ?st1 i \<noteq> None"
    using Cons.prems(2) by (auto simp: eff(2))
  note IH = Cons.IH [OF settle_wf [OF Cons.prems(1) h] this]
  show ?case
  proof (intro conjI allI)
    show "settles_some now st (settle_ids now p (sid # sids) st)"
      using settles_some_trans [OF some conjunct1 [OF IH]] h by simp
    fix i
    show "st_sess (settle_ids now p (sid # sids) st) i =
        (if i \<in> set (sid # sids) then map_option (settled (st_timeout st) now) (st_sess st i)
         else st_sess st i)"
      using conjunct2 [OF IH] h by (simp add: d eff(2))
  qed
qed

lemma row_mem:
  assumes "store_indexed st" and "map_of (st_perPeer st) p = Some row"
  shows "set (mkeys row) = peer_live_ids st p" and "distinct (mkeys row)"
proof -
  show "set (mkeys row) = peer_live_ids st p"
    using indexed_clauses(5) [OF assms(1), of p] assms(2) by (simp add: row_ids_def)
  show "distinct (mkeys row)"
    using indexed_clauses(3) [OF assms(1)] assms(2) by (auto simp: rows_wf_def)
qed

lemma settlePeer_effect:
  assumes wf: "store_wf st" and ord: "range_ok ord"
  shows "settles_some now st (settlePeerLocked ord p now st)"
    and "peer_live_ids (settlePeerLocked ord p now st) p =
           {i. \<exists>h. st_sess st i = Some h \<and> session_Has h p \<and> session_Live (settled (st_timeout st) now h)}"
proof -
  define ids where "ids = (case map_of (st_perPeer st) p of Some held \<Rightarrow> ord (mkeys held) | None \<Rightarrow> [])"
  have ids: "set ids = peer_live_ids st p"
  proof (cases "map_of (st_perPeer st) p")
    case None
    then show ?thesis
      using indexed_clauses(5) [OF store_wf_indexed [OF wf], of p] by (simp add: ids_def row_ids_def)
  next
    case (Some row)
    then show ?thesis
      using row_mem [OF store_wf_indexed [OF wf] Some] range_okD [OF ord] by (simp add: ids_def)
  qed
  have run: "settlePeerLocked ord p now st = settle_ids now p ids st"
    by (simp add: settlePeerLocked_def ids_def)
  have "\<forall>i \<in> set ids. st_sess st i \<noteq> None" by (auto simp: ids peer_live_ids_def)
  note eff = settle_ids_effect [OF wf this, of now p, folded run]
  then show "settles_some now st (settlePeerLocked ord p now st)" by simp
  show "peer_live_ids (settlePeerLocked ord p now st) p =
      {i. \<exists>h. st_sess st i = Some h \<and> session_Has h p \<and> session_Live (settled (st_timeout st) now h)}"
  proof (rule set_eqI)
    fix i
    show "i \<in> peer_live_ids (settlePeerLocked ord p now st) p \<longleftrightarrow>
        i \<in> {i. \<exists>h. st_sess st i = Some h \<and> session_Has h p \<and> session_Live (settled (st_timeout st) now h)}"
    proof (cases "st_sess st i")
      case None
      with eff show ?thesis by (simp add: peer_live_ids_def)
    next
      case (Some h)
      then have mem: "i \<in> set ids \<longleftrightarrow> session_Live h \<and> session_Has h p"
        by (simp add: ids peer_live_ids_def)
      have "session_Live (settled (st_timeout st) now h) \<Longrightarrow> session_Live h"
        using settled_live [of "st_timeout st" now h] by simp
      with eff Some mem show ?thesis by (auto simp: peer_live_ids_def)
    qed
  qed
qed

end
