(* ===== verification/Session_Open.thy ===== *)
theory Session_Open
  imports Session_Ops
begin

text \<open>
  Open of the session store: its passes over the pair index, the caps and the ended
  list, and the session it inserts. What a client may rely on is stated on
  \<open>live_view\<close>: the sessions that are live once their timeout is applied.
\<close>

section \<open>The sessions live at an instant\<close>

definition live_view :: "store \<Rightarrow> time \<Rightarrow> string \<Rightarrow> session option" where
  "live_view st now sid =
     (case st_sess st sid of
        Some h \<Rightarrow> if session_Live (settled (st_timeout st) now h) then Some h else None
      | None \<Rightarrow> None)"

text \<open>The live sessions of one peer, and of one pair, at an instant.\<close>

definition now_live_ids :: "store \<Rightarrow> time \<Rightarrow> string \<Rightarrow> string set" where
  "now_live_ids st now p = {sid. \<exists>h. live_view st now sid = Some h \<and> session_Has h p}"

definition pair_live :: "store \<Rightarrow> time \<Rightarrow> string \<Rightarrow> string \<Rightarrow> bool" where
  "pair_live st now a b \<longleftrightarrow> (\<exists>sid h. live_view st now sid = Some h \<and> sess_key h = pairKey a b)"

lemma live_viewD:
  assumes "live_view st now sid = Some h"
  shows "st_sess st sid = Some h" and "session_Live h" and "settled (st_timeout st) now h = h"
  using assms settled_live [of "st_timeout st" now h]
  by (auto simp: live_view_def split: option.splits if_splits)

lemma live_view_subset: "dom (live_view st now) \<subseteq> live_ids st"
  using live_viewD by (auto simp: live_ids_def)

lemma now_live_subset: "now_live_ids st now p \<subseteq> peer_live_ids st p"
  by (auto simp: now_live_ids_def peer_live_ids_def dest: live_viewD)

text \<open>Settling some sessions at an instant does not change what is live then.\<close>

lemma settles_some_view:
  assumes "settles_some now st st'"
  shows "live_view st' now = live_view st now" and "st_settings st' = st_settings st" and "store_wf st'"
proof -
  show "st_settings st' = st_settings st" "store_wf st'"
    using assms by (simp_all add: settles_some_def)
  then have d: "st_timeout st' = st_timeout st" by (intro settings_fields)
  show "live_view st' now = live_view st now"
  proof (rule ext)
    fix sid
    consider "st_sess st' sid = st_sess st sid"
      | "st_sess st' sid = map_option (settled (st_timeout st) now) (st_sess st sid)"
      using assms unfolding settles_some_def by blast
    then show "live_view st' now sid = live_view st now sid"
    proof cases
      case 1
      then show ?thesis unfolding live_view_def d by simp
    next
      case 2
      then show ?thesis using settled_live [of "st_timeout st" now]
        by (cases "st_sess st sid") (auto simp: live_view_def d)
    qed
  qed
qed

lemma settles_some_now_live:
  "settles_some now st st' \<Longrightarrow> now_live_ids st' now p = now_live_ids st now p"
  by (simp add: now_live_ids_def settles_some_view(1))

lemma settles_some_perPeerCap: "settles_some now st st' \<Longrightarrow> st_perPeerCap st' = st_perPeerCap st"
  by (rule settings_fields(4)) (rule settles_some_view(2))

section \<open>The pair\<close>

lemma settles_some_pair: "settles_some now st st' \<Longrightarrow> pair_live st' now a b = pair_live st now a b"
  by (simp add: pair_live_def settles_some_view(1))

lemma pairLocked_effect:
  assumes wf: "store_wf st" and run: "pairLocked a b now st = (st', r)"
  shows "settles_some now st st'"
    and "r = Some h \<Longrightarrow> live_view st now (sess_ID h) = Some h \<and> sess_key h = pairKey a b"
    and "r = None \<Longrightarrow> \<not> pair_live st now a b"
    and "r = None \<Longrightarrow> st_sess st' sid = Some g \<Longrightarrow> session_Live g \<Longrightarrow> sess_key g \<noteq> pairKey a b"
proof -
  note ix = store_wf_indexed [OF wf]
  have "settles_some now st st' \<and>
      (\<forall>h. r = Some h \<longrightarrow> live_view st now (sess_ID h) = Some h \<and> sess_key h = pairKey a b) \<and>
      (r = None \<longrightarrow> (\<forall>sid g. st_sess st' sid = Some g \<longrightarrow> session_Live g \<longrightarrow> sess_key g \<noteq> pairKey a b))"
  proof (cases "map_of (st_pairs st) (pairKey a b)")
    case None
    then have "sess_key g \<noteq> pairKey a b" if "st_sess st i = Some g" "session_Live g" for i g
      using indexed_pairI [OF ix that refl] by auto
    moreover have "st' = st" "r = None" using None run by (simp_all add: pairLocked_def Let_def)
    ultimately show ?thesis using settles_some_refl [OF wf] by auto
  next
    case (Some i)
    obtain h where h: "st_sess st i = Some h" "session_Live h" "sess_key h = pairKey a b"
      using indexed_pairE [OF ix Some] .
    have ID: "sess_ID h = i" using indexed_ID [OF ix h(1)] .
    let ?st1 = "fst (settleLocked now h st)" and ?g = "settled (st_timeout st) now h"
    note some = settles_some_settle [OF wf h(1), of now]
    have run': "st' = ?st1" "r = (if session_Live ?g then Some ?g else None)"
      using run Some h(1)
      by (auto simp: pairLocked_def Let_def split_beta settleLocked_result split: if_splits)
    have none: "sess_key g \<noteq> pairKey a b"
      if "\<not> session_Live ?g" "st_sess ?st1 j = Some g" "session_Live g" for j g
    proof
      assume key: "sess_key g = pairKey a b"
      have ix1: "store_indexed ?st1" using settle_wf [OF wf h(1)] by (rule store_wf_indexed)
      have sess1: "st_sess ?st1 = (st_sess st)(i \<mapsto> ?g)"
        by (rule settle_effect(2) [OF store_wf_loose [OF wf] h(1)])
      with that(1,2,3) have "j \<noteq> i" "st_sess st j = Some g" by (auto split: if_splits)
      with indexed_pairI [OF ix _ that(3) key] Some show False by auto
    qed
    show ?thesis
      using some none settled_live [of "st_timeout st" now h] h ID
      by (auto simp: run' live_view_def)
  qed
  then show "settles_some now st st'"
    and "r = Some h \<Longrightarrow> live_view st now (sess_ID h) = Some h \<and> sess_key h = pairKey a b"
    and "r = None \<Longrightarrow> \<not> pair_live st now a b"
    and "r = None \<Longrightarrow> st_sess st' sid = Some g \<Longrightarrow> session_Live g \<Longrightarrow> sess_key g \<noteq> pairKey a b"
    using settles_some_pair [of now st st' a b] by (auto simp: pair_live_def dest: live_viewD)
qed

section \<open>The caps\<close>

lemma perPeer_len_live: "store_wf st \<Longrightarrow> perPeer_len st p = card (peer_live_ids st p)"
  using indexed_clauses(3,5) [OF store_wf_indexed] by (simp add: perPeer_len_card)

lemma settlePeer_now_live:
  assumes "store_wf st" and "range_ok ord"
  shows "peer_live_ids (settlePeerLocked ord p now st) p = now_live_ids st now p"
  using settlePeer_effect(2) [OF assms] settled_live
  by (auto simp: now_live_ids_def live_view_def split: option.splits if_splits)

lemma cap_check_effect:
  assumes "store_wf st" and "\<And>p. range_ok (ord p)" and "cap_check ord now ps st = (st', ok)"
  shows "settles_some now st st'"
    and "ok \<longleftrightarrow> (\<forall>p \<in> set ps. int (card (now_live_ids st now p)) < st_perPeerCap st)"
    and "ok \<Longrightarrow> p \<in> set ps \<Longrightarrow> int (card (peer_live_ids st' p)) < st_perPeerCap st"
proof -
  have "settles_some now st st' \<and>
      (ok \<longleftrightarrow> (\<forall>p \<in> set ps. int (card (now_live_ids st now p)) < st_perPeerCap st)) \<and>
      (ok \<longrightarrow> (\<forall>p \<in> set ps. int (card (peer_live_ids st' p)) < st_perPeerCap st))"
    using assms(1,3)
  proof (induction ps arbitrary: st)
    case Nil
    then show ?case by (simp add: settles_some_refl)
  next
    case (Cons p ps)
    have keep: "int (card (peer_live_ids st' p)) < st_perPeerCap st"
      if some1: "settles_some now st1 st'" and room1: "int (card (peer_live_ids st1 p)) < st_perPeerCap st" for st1
    proof -
      have "peer_live_ids st' p \<subseteq> peer_live_ids st1 p"
      proof
        fix i
        assume "i \<in> peer_live_ids st' p"
        then obtain g where g: "st_sess st' i = Some g" "session_Live g" "session_Has g p"
          by (auto simp: peer_live_ids_def)
        have "st_sess st1 i \<noteq> None"
          using g(1) settles_some_dom [OF some1, of i] by simp
        then obtain f where f: "st_sess st1 i = Some f" by auto
        have "g = f \<or> g = settled (st_timeout st1) now f"
          using some1 g(1) f unfolding settles_some_def by (metis option.inject option.simps(9))
        then have "g = f" using g(2) settled_live by auto
        with f g show "i \<in> peer_live_ids st1 p" by (simp add: peer_live_ids_def)
      qed
      from card_mono [OF finite_peer_live_ids this] room1 show ?thesis by simp
    qed
    show ?case
    proof (cases "int (perPeer_len st p) < st_perPeerCap st")
      case True
      then have now: "int (card (now_live_ids st now p)) < st_perPeerCap st"
        using card_mono [OF finite_peer_live_ids now_live_subset, of st now p]
          perPeer_len_live [OF Cons.prems(1)] by simp
      have "cap_check ord now ps st = (st', ok)" using Cons.prems(2) True by simp
      from Cons.IH [OF Cons.prems(1) this] now True keep [of st] show ?thesis
        by (auto simp: perPeer_len_live [OF Cons.prems(1)])
    next
      case False
      let ?st1 = "settlePeerLocked (ord p) p now st"
      note some = settlePeer_effect(1) [OF Cons.prems(1) assms(2), of now p p]
      note wf1 = settles_some_view(3) [OF some]
      have len1: "int (perPeer_len ?st1 p) = int (card (now_live_ids st now p))"
        by (simp add: perPeer_len_live [OF wf1] settlePeer_now_live [OF Cons.prems(1) assms(2)])
      have cap1: "st_perPeerCap ?st1 = st_perPeerCap st" by (rule settles_some_perPeerCap [OF some])
      show ?thesis
      proof (cases "int (card (now_live_ids st now p)) < st_perPeerCap st")
        case full: False
        then have "st' = ?st1" "\<not> ok"
          using Cons.prems(2) False by (auto simp: len1 cap1 Let_def split: if_splits)
        with some full show ?thesis by auto
      next
        case room: True
        then have "cap_check ord now ps ?st1 = (st', ok)"
          using Cons.prems(2) False by (auto simp: len1 cap1 Let_def split: if_splits)
        note IH = Cons.IH [OF wf1 this]
        have "int (card (peer_live_ids ?st1 p)) < st_perPeerCap st"
          using room by (simp add: settlePeer_now_live [OF Cons.prems(1) assms(2)])
        with IH room keep [of ?st1] settles_some_trans [OF some, of st'] show ?thesis
          by (auto simp: cap1 settles_some_now_live [OF some])
      qed
    qed
  qed
  then show "settles_some now st st'"
    and "ok \<longleftrightarrow> (\<forall>p \<in> set ps. int (card (now_live_ids st now p)) < st_perPeerCap st)"
    and "ok \<Longrightarrow> p \<in> set ps \<Longrightarrow> int (card (peer_live_ids st' p)) < st_perPeerCap st" by blast+
qed

section \<open>The trim\<close>

text \<open>
  Trimming drops a prefix of the ended list, the sessions that ended first, and stops
  as soon as there is room or nothing has ended.
\<close>

definition trims :: "nat \<Rightarrow> store \<Rightarrow> store \<Rightarrow> bool" where
  "trims k st st' \<longleftrightarrow>
     store_wf st' \<and> st_settings st' = st_settings st \<and>
     st_ended st' = drop k (st_ended st) \<and>
     (\<forall>sid. st_sess st' sid = (if sid \<in> set (take k (st_ended st)) then None else st_sess st sid))"

lemma ended_live_disjoint: "ended_ids st \<inter> live_ids st = {}"
  by (auto simp: ended_ids_def live_ids_def)

lemma ended_member:
  assumes "store_wf st" and "sid \<in> set (st_ended st)"
  obtains h where "st_sess st sid = Some h" and "\<not> session_Live h"
  using assms store_wf_ended [OF assms(1)] by (auto simp: ended_ids_def)

lemma trim_one:
  assumes wf: "store_wf st" and e: "st_ended st = oldest # rest" and h: "st_sess st oldest = Some h"
    and dead: "\<not> session_Live h"
  defines "st1 \<equiv> forgetLocked oldest h (st\<lparr>st_ended := rest\<rparr>)"
  shows "store_wf st1" and "st_sess st1 = (st_sess st)(oldest := None)"
    and "st_settings st1 = st_settings st" and "st_ended st1 = rest"
    and "Suc (length (st_sessions st1)) = length (st_sessions st)"
proof -
  note ix = store_wf_indexed [OF wf]
  have dist: "distinct (oldest # rest)" using indexed_clauses(6) [OF ix] by (simp add: e)
  have st1: "st1 = (forgetLocked oldest h st)\<lparr>st_ended := rest\<rparr>"
    by (simp add: st1_def forgetLocked_def Let_def)
  note fg = loose_forget [OF store_wf_loose [OF wf] h dead]
  have ids: "ended_ids (forgetLocked oldest h st) = set rest"
    using fg(3) store_wf_ended [OF wf] dist by (auto simp: e)
  have "set rest \<inter> live_ids (forgetLocked oldest h st) = {}"
    using ended_live_disjoint [of "forgetLocked oldest h st"] by (simp add: ids)
  then show "store_wf st1"
    using loose_new_ended [OF fg(1), of rest] dist ids by (simp add: store_wf_def st1)
  show "st_sess st1 = (st_sess st)(oldest := None)" "st_settings st1 = st_settings st" "st_ended st1 = rest"
    by (simp_all add: st1)
  have m: "mwf (st_sessions st)" using indexed_clauses(1) [OF ix] .
  show "Suc (length (st_sessions st1)) = length (st_sessions st)"
    using gm.len_del [OF m, of oldest] gm.len_pos [OF m h] h by (simp add: st1)
qed

lemma trim_loop_effect:
  assumes "store_wf st"
  shows "\<exists>k. trims k st (trim_loop bound (st_ended st) st) \<and> k \<le> length (st_ended st) \<and>
     (int (length (st_sessions (trim_loop bound (st_ended st) st))) < bound \<or> k = length (st_ended st)) \<and>
     (k = 0 \<or> bound \<le> int (length (st_sessions st)) - int k + 1)"
  using assms
proof (induction "st_ended st" arbitrary: st)
  case Nil
  have run: "trim_loop bound (st_ended st) st = st" using Nil(1) by (cases st) simp
  show ?case using Nil unfolding run by (intro exI [of _ 0]) (simp add: trims_def)
next
  case (Cons oldest rest)
  note e = Cons.hyps(2) [symmetric]
  obtain h where h: "st_sess st oldest = Some h" "\<not> session_Live h"
    using ended_member [OF Cons.prems, of oldest] by (auto simp: e)
  show ?case
  proof (cases "int (length (st_sessions st)) \<ge> bound")
    case False
    then have "trim_loop bound (st_ended st) st = st" by (simp add: e)
    with Cons.prems False show ?thesis by (intro exI [of _ 0]) (simp add: trims_def)
  next
    case True
    let ?st1 = "forgetLocked oldest h (st\<lparr>st_ended := rest\<rparr>)"
    note one = trim_one [OF Cons.prems e h]
    have run: "trim_loop bound (st_ended st) st = trim_loop bound (st_ended ?st1) ?st1"
      using True h by (simp add: e Let_def)
    obtain k where k: "trims k ?st1 (trim_loop bound (st_ended ?st1) ?st1)" "k \<le> length rest"
        "int (length (st_sessions (trim_loop bound (st_ended ?st1) ?st1))) < bound \<or> k = length rest"
        "k = 0 \<or> bound \<le> int (length (st_sessions ?st1)) - int k + 1"
      using Cons.hyps(1) [of ?st1] one(1,4) by auto
    have "trims (Suc k) st (trim_loop bound (st_ended ?st1) ?st1)"
      using k(1) by (auto simp: trims_def one(2,3) e)
    moreover have "bound \<le> int (length (st_sessions st)) - int (Suc k) + 1"
      using k(4) one(5) True by auto
    ultimately show ?thesis
      using k(2,3) unfolding run by (intro exI [of _ "Suc k"]) (simp add: e)
  qed
qed

lemma trims_live:
  assumes "store_wf st" and "trims k st st'"
  shows "live_ids st' = live_ids st" and "peer_live_ids st' p = peer_live_ids st p"
    and "live_view st' now = live_view st now" and "dom (st_sess st') \<subseteq> dom (st_sess st)"
proof -
  have keep: "st_sess st' sid = st_sess st sid" if "st_sess st sid = Some h" "session_Live h" for sid h
  proof -
    have "sid \<notin> set (take k (st_ended st))"
      using ended_member [OF assms(1), of sid] that by (auto dest: in_set_takeD)
    then show ?thesis using assms(2) by (simp add: trims_def)
  qed
  have came: "st_sess st sid = Some h" if "st_sess st' sid = Some h" for sid h
    using that assms(2) by (auto simp: trims_def split: if_splits)
  have same: "st_sess st' sid = Some h \<and> session_Live h \<longleftrightarrow> st_sess st sid = Some h \<and> session_Live h"
    for sid h using keep [of sid h] came [of sid h] by auto
  show "live_ids st' = live_ids st" by (simp add: live_ids_def same)
  show "peer_live_ids st' p = peer_live_ids st p"
    unfolding peer_live_ids_def by (rule Collect_cong) (use same in blast)
  show "dom (st_sess st') \<subseteq> dom (st_sess st)"
  proof
    fix sid
    assume "sid \<in> dom (st_sess st')"
    then obtain h where "st_sess st' sid = Some h" by (auto simp: dom_def)
    from came [OF this] show "sid \<in> dom (st_sess st)" by (rule domI)
  qed
  have d: "st_timeout st' = st_timeout st"
    using assms(2) by (intro settings_fields) (simp add: trims_def)
  show "live_view st' now = live_view st now"
  proof (rule ext)
    fix sid
    show "live_view st' now sid = live_view st now sid"
    proof (cases "live_view st now sid")
      case (Some h)
      then have "st_sess st' sid = st_sess st sid" using keep live_viewD by metis
      then show ?thesis unfolding live_view_def d by simp
    next
      case None
      have False if "live_view st' now sid = Some g" for g
        using live_viewD [OF that] came [of sid g] None by (simp add: live_view_def d)
      with None show ?thesis by (cases "live_view st' now sid") auto
    qed
  qed
qed

lemma held_bound_ceiling:
  assumes "store_settings_ok st"
  shows "held_bound st = 4 * st_ceiling st"
  using assms int64_id [of "st_ceiling st * 4"]
  by (simp add: store_settings_ok_def held_bound_def retainedPerLive_def)

text \<open>After trimming there is room for one more record whenever there is room for one more live session.\<close>

lemma trimLocked_effect:
  assumes wf: "store_wf st" and room: "st_live st < st_ceiling st"
  shows "\<exists>k. trims k st (trimLocked st) \<and> k \<le> length (st_ended st) \<and>
     (k = 0 \<or> held_bound st \<le> int (length (st_sessions st)) - int k + 1)"
    and "int (length (st_sessions (trimLocked st))) < held_bound st"
proof -
  have run: "trimLocked st = trim_loop (held_bound st) (st_ended st) st"
    by (simp add: trimLocked_def held_bound_def)
  obtain k where k: "trims k st (trimLocked st)" "k \<le> length (st_ended st)"
      "int (length (st_sessions (trimLocked st))) < held_bound st \<or> k = length (st_ended st)"
      "k = 0 \<or> held_bound st \<le> int (length (st_sessions st)) - int k + 1"
    using trim_loop_effect [OF wf, of "held_bound st"] unfolding run by blast
  from k(1,2,4) show "\<exists>k. trims k st (trimLocked st) \<and> k \<le> length (st_ended st) \<and>
     (k = 0 \<or> held_bound st \<le> int (length (st_sessions st)) - int k + 1)" by blast
  show "int (length (st_sessions (trimLocked st))) < held_bound st"
  proof (cases "k = length (st_ended st)")
    case False
    with k(3) show ?thesis by simp
  next
    case True
    let ?st1 = "trimLocked st"
    have wf1: "store_wf ?st1" using k(1) by (simp add: trims_def)
    note ix1 = store_wf_indexed [OF wf1]
    have "st_ended ?st1 = []" using k(1) True by (simp add: trims_def)
    then have "ended_ids ?st1 = {}" using store_wf_ended [OF wf1] by simp
    then have "length (st_sessions ?st1) = card (live_ids ?st1)"
      using gm.len_card [OF indexed_clauses(1) [OF ix1]] ended_or_live [of ?st1] by simp
    then have "int (length (st_sessions ?st1)) = st_live st"
      using trims_live(1) [OF wf k(1)] indexed_clauses(4) [OF store_wf_indexed [OF wf]] by simp
    moreover have "store_settings_ok st" using store_loose_clauses(2) [OF store_wf_loose [OF wf]] .
    ultimately show ?thesis
      using room by (simp add: held_bound_ceiling store_settings_ok_def)
  qed
qed

section \<open>The insertion\<close>

definition new_session :: "time \<Rightarrow> string \<Rightarrow> string \<Rightarrow> string \<Rightarrow> session" where
  "new_session now sid caller callee =
     \<lparr>sess_ID = sid, sess_Caller = caller, sess_Callee = callee, sess_State = Negotiating,
      sess_Path = PathUnknown, sess_OpenedAt = now, sess_ChangedAt = now\<rparr>"

definition with_session :: "string \<Rightarrow> session \<Rightarrow> store \<Rightarrow> store" where
  "with_session sid h st =
     trackLocked (sess_Callee h) sid (trackLocked (sess_Caller h) sid
       (st\<lparr>st_sessions := mput sid h (st_sessions st),
           st_pairs := mput (sess_key h) sid (st_pairs st),
           st_live := st_live st + 1\<rparr>))"

lemma with_session_simps:
  "st_sess (with_session sid h st) = (st_sess st)(sid \<mapsto> h)"
  "st_settings (with_session sid h st) = st_settings st"
  "st_ended (with_session sid h st) = st_ended st"
  "st_live (with_session sid h st) = st_live st + 1"
  by (simp_all add: with_session_def)

lemma live_view_with_session:
  assumes "session_Live (settled (st_timeout st) now h)"
  shows "live_view (with_session sid h st) now = (live_view st now)(sid \<mapsto> h)"
proof (rule ext)
  fix i
  have d: "st_timeout (with_session sid h st) = st_timeout st" by (simp add: with_session_def)
  show "live_view (with_session sid h st) now i = ((live_view st now)(sid \<mapsto> h)) i"
    unfolding live_view_def d using assms by (simp add: with_session_simps(1))
qed

lemma indexed_insert:
  assumes ix: "store_indexed st" and fresh: "st_sess st sid = None" "sid \<notin> set (st_ended st)"
    and alone: "\<And>i g. st_sess st i = Some g \<Longrightarrow> session_Live g \<Longrightarrow> sess_key g \<noteq> sess_key h"
    and h: "sess_ID h = sid" "session_Live h"
  shows "store_indexed (with_session sid h st)" (is "store_indexed ?st")
    and "live_ids (with_session sid h st) = insert sid (live_ids st)"
    and "peer_live_ids (with_session sid h st) p =
           (if session_Has h p then insert sid (peer_live_ids st p) else peer_live_ids st p)"
    and "ended_ids (with_session sid h st) = ended_ids st"
proof -
  note sess = with_session_simps(1) [of sid h st]
  show live': "live_ids ?st = insert sid (live_ids st)"
    using h(2) by (auto simp: live_ids_def sess)
  show peer': "peer_live_ids ?st q =
      (if session_Has h q then insert sid (peer_live_ids st q) else peer_live_ids st q)" for q
    using h(2) fresh(1) by (auto simp: peer_live_ids_def sess)
  show ended': "ended_ids ?st = ended_ids st"
    using h(2) fresh(1) by (auto simp: ended_ids_def sess)
  have pairs: "map_of (st_pairs ?st) k = Some i \<longleftrightarrow>
      (\<exists>g. st_sess ?st i = Some g \<and> session_Live g \<and> sess_key g = k)" (is "?L \<longleftrightarrow> ?R") for k i
  proof -
    have p': "map_of (st_pairs ?st) k = (if k = sess_key h then Some sid else map_of (st_pairs st) k)"
      by (simp add: with_session_def)
    have old: "map_of (st_pairs st) k = Some i \<longleftrightarrow>
        (\<exists>g. st_sess st i = Some g \<and> session_Live g \<and> sess_key g = k)"
      using indexed_pairI [OF ix] by (auto elim: indexed_pairE [OF ix])
    show ?thesis
    proof (cases "k = sess_key h")
      case True
      with h(2) alone [of i] show ?thesis unfolding p' sess by (auto simp del: fun_upd_apply simp: fun_upd_def)
    next
      case False
      with fresh(1) show ?thesis unfolding p' sess by (auto simp: old)
    qed
  qed
  have rows: "row_ids ?st q = peer_live_ids ?st q" for q
  proof -
    have "row_ids ?st q = (if session_Has h q then insert sid (row_ids st q) else row_ids st q)"
      by (auto simp: with_session_def row_ids_track session_Has_def)
    then show ?thesis using indexed_clauses(5) [OF ix, of q] by (simp add: peer')
  qed
  have wfs: "mwf (st_sessions ?st)" "mwf (st_pairs ?st)" "rows_wf ?st"
    using indexed_clauses(1-3) [OF ix] by (simp_all add: with_session_def rows_wf_track)
  have ids: "sess_ID g = i" if "st_sess ?st i = Some g" for i g
    using that h(1) indexed_ID [OF ix, of i g] by (auto simp: sess split: if_splits)
  have "sid \<notin> live_ids st" using fresh(1) by (simp add: live_ids_def)
  then have count: "st_live ?st = int (card (live_ids ?st))"
    using indexed_clauses(4) [OF ix] by (simp add: live' with_session_simps)
  have list: "distinct (st_ended ?st)" "ended_ids ?st \<subseteq> set (st_ended ?st)"
      "set (st_ended ?st) \<inter> live_ids ?st = {}"
    using indexed_clauses(6-8) [OF ix] fresh(2) by (auto simp: ended' live' with_session_simps)
  show "store_indexed ?st"
    by (rule store_indexedI [OF wfs ids count pairs rows list])
qed

lemma wf_insert:
  assumes wf: "store_wf st" and fresh: "st_sess st sid = None"
    and alone: "\<And>i g. st_sess st i = Some g \<Longrightarrow> session_Live g \<Longrightarrow> sess_key g \<noteq> sess_key h"
    and h: "sess_ID h = sid" "session_Live h" "session_fits st h"
    and room: "st_live st < st_ceiling st" "int (length (st_sessions st)) < held_bound st"
      "\<And>p. session_Has h p \<Longrightarrow> int (card (peer_live_ids st p)) < st_perPeerCap st"
  shows "store_wf (with_session sid h st)" (is "store_wf ?st")
proof -
  note loose = store_loose_clauses [OF store_wf_loose [OF wf]]
  have "sid \<notin> set (st_ended st)" using fresh store_wf_ended [OF wf] by (simp add: ended_ids_def)
  note ins = indexed_insert [OF loose(1) fresh this alone h(1,2)]
  note set = with_session_simps(2) [of sid h st]
  have fits: "session_fits st g" if "st_sess ?st i = Some g" for i g
    using that h(3) loose(3) [of i g] by (auto simp: with_session_simps split: if_splits)
  have peers: "int (card (peer_live_ids ?st p)) \<le> st_perPeerCap st" for p
  proof (cases "session_Has h p")
    case True
    have "sid \<notin> peer_live_ids st p" using fresh by (simp add: peer_live_ids_def)
    with room(3) [OF True] True show ?thesis by (simp add: ins(3))
  next
    case False
    with loose(5) [of p] show ?thesis by (simp add: ins(3))
  qed
  have len: "length (st_sessions ?st) = Suc (length (st_sessions st))"
    using gm.len_put [OF indexed_clauses(1) [OF loose(1)], of sid h] fresh by (simp add: with_session_def)
  have "store_loose ?st"
    unfolding store_loose_def settings_transfer [OF set] settings_fields [OF set]
    using ins(1) loose(2) fits peers room len by (simp add: with_session_simps(4))
  then show ?thesis
    using store_wf_ended [OF wf] ins(4) by (simp add: store_wf_def with_session_simps(3))
qed

section \<open>Open\<close>

lemma sess_key_new [simp]: "sess_key (new_session now sid a b) = pairKey a b"
  by (simp add: sess_key_def new_session_def)

text \<open>
  The part of Open after the pair was found without a live session: the ceiling, the
  caps, the identifier and the insertion. \<open>st\<close> is the store after the pair was looked up.
\<close>

definition caps_ok :: "store \<Rightarrow> time \<Rightarrow> string list \<Rightarrow> bool" where
  "caps_ok st now ps \<longleftrightarrow> (\<forall>p \<in> set ps. int (card (now_live_ids st now p)) < st_perPeerCap st)"

lemma open_new_run:
  assumes "\<not> st_ceiling st \<le> st_live st" and "cap_check ord now [a, b] st = (st1, True)"
  shows "open_new ord rand now a b st =
     (case rand of
        None \<Rightarrow> (trimLocked st1, Inl IdentifierFailure)
      | Some buf \<Rightarrow>
          let sid = RawURLEncoding_EncodeToString buf; h = new_session now sid a b
          in (with_session sid h (trimLocked st1), Inr h))"
  using assms
  by (simp add: open_new_def Let_def newID_def with_session_def new_session_def sess_key_def
      split: option.splits)

lemma settles_some_live:
  assumes "store_wf st" and "settles_some now st st'"
  shows "st_live st' \<le> st_live st" and "live_ids st' \<subseteq> live_ids st"
proof -
  show sub: "live_ids st' \<subseteq> live_ids st"
  proof
    fix i
    assume "i \<in> live_ids st'"
    then obtain g where g: "st_sess st' i = Some g" "session_Live g" by (auto simp: live_ids_def)
    have "st_sess st i \<noteq> None" using g(1) settles_some_dom [OF assms(2), of i] by simp
    then obtain f where f: "st_sess st i = Some f" by auto
    have "g = f \<or> g = settled (st_timeout st) now f"
      using assms(2) g(1) f unfolding settles_some_def by (metis option.inject option.simps(9))
    then have "g = f" using g(2) settled_live by auto
    with f g show "i \<in> live_ids st" by (simp add: live_ids_def)
  qed
  have "store_wf st'" using assms(2) by (simp add: settles_some_def)
  then show "st_live st' \<le> st_live st"
    using card_mono [OF finite_live_ids sub] indexed_clauses(4) [OF store_wf_indexed]
      assms(1) by simp
qed

text \<open>
  What open may do to the records it does not create: leave them, apply their
  timeout, or drop them once they have ended.
\<close>

definition opens_around :: "time \<Rightarrow> string \<Rightarrow> store \<Rightarrow> store \<Rightarrow> bool" where
  "opens_around now sid st st' \<longleftrightarrow>
     (\<forall>i. i \<noteq> sid \<longrightarrow> st_sess st' i = st_sess st i \<or>
        st_sess st' i = map_option (settled (st_timeout st) now) (st_sess st i) \<or>
        st_sess st' i = None)"

lemma settles_some_around: "settles_some now st st' \<Longrightarrow> opens_around now sid st st'"
  unfolding settles_some_def opens_around_def by blast

lemma trims_around:
  assumes "settles_some now st st1" and "trims k st1 st2"
  shows "opens_around now sid st st2"
  using assms unfolding settles_some_def trims_def opens_around_def by metis

lemma open_new_effect:
  assumes wf: "store_wf st" and ord: "\<And>p. range_ok (ord p)"
    and ab: "a \<noteq> b" "a \<noteq> []" "b \<noteq> []" "st_authorizer st a b"
    and alone: "\<forall>i g. st_sess st i = Some g \<longrightarrow> session_Live g \<longrightarrow> sess_key g \<noteq> pairKey a b"
    and fresh: "\<And>buf. rand = Some buf \<Longrightarrow> st_sess st (RawURLEncoding_EncodeToString buf) = None"
    and run: "open_new ord rand now a b st = (st', r)"
  shows "store_wf st' \<and> st_settings st' = st_settings st \<and>
    (case r of
       Inl e \<Rightarrow>
         live_view st' now = live_view st now \<and> (\<forall>sid. opens_around now sid st st') \<and>
         e = (if st_ceiling st \<le> st_live st then ErrFull
              else if \<not> caps_ok st now [a, b] then ErrTooManyForPeer else IdentifierFailure) \<and>
         (e = IdentifierFailure \<longrightarrow> rand = None)
     | Inr h \<Rightarrow>
         st_live st < st_ceiling st \<and> caps_ok st now [a, b] \<and> st_sess st (sess_ID h) = None \<and>
         (\<exists>buf. rand = Some buf \<and> h = new_session now (RawURLEncoding_EncodeToString buf) a b) \<and>
         st_sess st' (sess_ID h) = Some h \<and> opens_around now (sess_ID h) st st' \<and>
         live_view st' now = (live_view st now)(sess_ID h \<mapsto> h))"
proof (cases "st_ceiling st \<le> st_live st")
  case True
  then have "st' = st" "r = Inl ErrFull" using run by (simp_all add: open_new_def)
  with wf True show ?thesis by (simp add: settles_some_around [OF settles_some_refl])
next
  case room: False
  obtain st1 ok where cap: "cap_check ord now [a, b] st = (st1, ok)" by fastforce
  note eff = cap_check_effect [OF wf ord cap]
  note view1 = settles_some_view [OF eff(1)]
  show ?thesis
  proof (cases ok)
    case False
    then have "st' = st1" "r = Inl ErrTooManyForPeer"
      using run room cap by (simp_all add: open_new_def Let_def)
    with room False eff(2) view1 settles_some_around [OF eff(1)] show ?thesis
      by (simp add: caps_ok_def)
  next
    case True
    with eff(2) have caps: "caps_ok st now [a, b]" by (simp add: caps_ok_def)
    have room1: "st_live st1 < st_ceiling st1"
      using settles_some_live(1) [OF wf eff(1)] room settings_fields(3) [OF view1(2)] by simp
    let ?st2 = "trimLocked st1"
    obtain k where k: "trims k st1 ?st2" using trimLocked_effect(1) [OF view1(3) room1] by blast
    note live2 = trims_live [OF view1(3) k]
    have wf2: "store_wf ?st2" and set2: "st_settings ?st2 = st_settings st"
      using k view1(2) by (simp_all add: trims_def)
    have view2: "live_view ?st2 now = live_view st now" by (simp add: live2(3) view1(1))
    have run2: "open_new ord rand now a b st = (case rand of
        None \<Rightarrow> (?st2, Inl IdentifierFailure)
      | Some buf \<Rightarrow>
          let sid = RawURLEncoding_EncodeToString buf; h = new_session now sid a b
          in (with_session sid h ?st2, Inr h))"
      using open_new_run [OF room] cap True by simp
    show ?thesis
    proof (cases rand)
      case None
      with run run2 have "st' = ?st2" "r = Inl IdentifierFailure" by simp_all
      with room caps None wf2 set2 view2 trims_around [OF eff(1) k] show ?thesis by simp
    next
      case (Some buf)
      let ?sid = "RawURLEncoding_EncodeToString buf"
      let ?h = "new_session now ?sid a b"
      have res: "st' = with_session ?sid ?h ?st2" "r = Inr ?h"
        using run run2 Some by (simp_all add: Let_def)
      have h: "sess_ID ?h = ?sid" "session_Live ?h" "session_fits ?st2 ?h"
        "settled d now ?h = ?h" "session_Has ?h p \<longleftrightarrow> p = a \<or> p = b" if "0 < d" for d p
        using ab settings_fields(5) [OF set2] that
        by (auto simp: new_session_def session_Live_def session_fits_def settled_def session_Has_def
            time_Sub_def max_duration_def min_duration_def)
      have d: "0 < st_timeout st"
        using store_loose_clauses(2) [OF store_wf_loose [OF wf]] by (simp add: store_settings_ok_def)
      have old: "st_sess st ?sid = None" by (rule fresh [OF Some])
      have around: "opens_around now ?sid st ?st2" by (rule trims_around [OF eff(1) k])
      have old1: "st_sess st1 ?sid = None" using settles_some_dom [OF eff(1), of ?sid] old by simp
      have old2: "st_sess ?st2 ?sid = None" using live2(4) old1 by (auto simp: dom_def)
      have alone2: "sess_key g \<noteq> sess_key ?h" if "st_sess ?st2 i = Some g" "session_Live g" for i g
      proof -
        have "i \<in> live_ids st"
          using that live2(1) settles_some_live(2) [OF wf eff(1)] by (auto simp: live_ids_def)
        then obtain f where f: "st_sess st i = Some f" "session_Live f" by (auto simp: live_ids_def)
        have "g = f \<or> g = settled (st_timeout st) now f"
          using around f(1) that(1) unfolding opens_around_def
          by (cases "i = ?sid") (use old in auto)
        then have "sess_key g = sess_key f" by auto
        with alone f show ?thesis by simp
      qed
      have cap2: "int (card (peer_live_ids ?st2 p)) < st_perPeerCap ?st2" if "session_Has ?h p" for p
        using eff(3) [OF True, of p] that h(5) [OF d, of p]
        by (auto simp: live2(2) settings_fields(4) [OF set2])
      have room2: "st_live ?st2 < st_ceiling ?st2"
        using room1 indexed_clauses(4) [OF store_wf_indexed [OF wf2]]
          indexed_clauses(4) [OF store_wf_indexed [OF view1(3)]] live2(1)
          settings_fields(3) [OF set2] settings_fields(3) [OF view1(2)] by simp
      have len2: "int (length (st_sessions ?st2)) < held_bound ?st2"
        using trimLocked_effect(2) [OF view1(3) room1] settings_transfer(3) [OF set2]
          settings_transfer(3) [OF view1(2)] by simp
      have "store_wf (with_session ?sid ?h ?st2)"
        by (rule wf_insert [OF wf2 old2 _ h(1) [OF d] h(2) [OF d] h(3) [OF d] room2 len2])
          (use alone2 cap2 in blast)+
      moreover have "live_view (with_session ?sid ?h ?st2) now = (live_view st now)(?sid \<mapsto> ?h)"
        unfolding view2 [symmetric]
        by (rule live_view_with_session) (simp add: h(2,4) [OF d] settings_fields(1) [OF set2])
      moreover have "opens_around now ?sid st (with_session ?sid ?h ?st2)"
        using around by (simp add: opens_around_def with_session_simps(1))
      ultimately show ?thesis
        using room caps old Some set2 h(1) [OF d]
        by (simp add: res with_session_simps(1,2))
    qed
  qed
qed

end
