(* ===== verification/Session.thy ===== *)
theory Session
  imports Session_Open
begin

text \<open>
  The session store as a whole: Open on every branch, the steps and the reachable
  states of a store, and the properties of internal/session.
\<close>

section \<open>Open on every branch\<close>

text \<open>
  What Open draws from outside: a range visits the entries of its map once each, and
  the identifier encoded from 128 random bits is not one that is held.
\<close>

definition open_inputs :: "(string \<Rightarrow> string range_order) \<Rightarrow> byte list option \<Rightarrow> store \<Rightarrow> bool" where
  "open_inputs ord rand st \<longleftrightarrow>
     (\<forall>p. range_ok (ord p)) \<and>
     (case rand of None \<Rightarrow> True | Some buf \<Rightarrow> st_sess st (RawURLEncoding_EncodeToString buf) = None)"

text \<open>A session of the pair that is still counted live but whose timeout has passed.\<close>

definition pair_stale :: "store \<Rightarrow> time \<Rightarrow> string \<Rightarrow> string \<Rightarrow> bool" where
  "pair_stale st now a b \<longleftrightarrow>
     (\<exists>sid h. st_sess st sid = Some h \<and> session_Live h \<and> sess_key h = pairKey a b \<and>
        \<not> session_Live (settled (st_timeout st) now h))"

lemma settleLocked_live:
  "st_live (fst (settleLocked now h st)) =
     (if session_Live h \<and> \<not> session_Live (settled (st_timeout st) now h) then st_live st - 1 else st_live st)"
  by (auto simp: settleLocked_def settled_def session_Live_def Let_def)

lemma pairLocked_live:
  assumes wf: "store_wf st" and run: "pairLocked a b now st = (st', None)"
  shows "st_live st' = (if pair_stale st now a b then st_live st - 1 else st_live st)"
proof -
  note ix = store_wf_indexed [OF wf]
  show ?thesis
  proof (cases "map_of (st_pairs st) (pairKey a b)")
    case None
    then have "\<not> pair_stale st now a b"
      unfolding pair_stale_def using indexed_pairI [OF ix] by fastforce
    with None run show ?thesis by (auto simp: pairLocked_def Let_def)
  next
    case (Some i)
    obtain h where h: "st_sess st i = Some h" "session_Live h" "sess_key h = pairKey a b"
      using indexed_pairE [OF ix Some] .
    have dead: "\<not> session_Live (settled (st_timeout st) now h)"
      and st': "st' = fst (settleLocked now h st)"
      using run Some h(1)
      by (auto simp: pairLocked_def Let_def split_beta settleLocked_result split: if_splits)
    with h have "pair_stale st now a b" by (auto simp: pair_stale_def)
    with h(2) dead st' show ?thesis by (simp add: settleLocked_live)
  qed
qed

text \<open>
  When Open refuses, and with which error: the abstract specification, over the
  sessions live at the instant of the call. The number of sessions it weighs against
  the ceiling is the live counter, less the pair's own stale session.
\<close>

definition open_refusal :: "store \<Rightarrow> time \<Rightarrow> string \<Rightarrow> string \<Rightarrow> session_error option" where
  "open_refusal st now caller callee =
     (if caller = [] then Some NoCaller
      else if callee = [] then Some NoCallee
      else if caller = callee then Some ErrSelf
      else if \<not> st_authorizer st caller callee then Some ErrNotAllowed
      else if pair_live st now caller callee then None
      else if st_ceiling st \<le> st_live st - (if pair_stale st now caller callee then 1 else 0) then Some ErrFull
      else if \<not> caps_ok st now [caller, callee] then Some ErrTooManyForPeer
      else None)"

text \<open>What Open promises of the stores before and after, and of its result.\<close>

definition open_promise ::
  "byte list option \<Rightarrow> time \<Rightarrow> string \<Rightarrow> string \<Rightarrow> store \<Rightarrow> store \<Rightarrow> session_error + session \<Rightarrow> bool" where
  "open_promise rand now a b st st' r \<longleftrightarrow>
     store_wf st' \<and> st_settings st' = st_settings st \<and>
     (case r of
        Inl e \<Rightarrow> live_view st' now = live_view st now \<and> (\<forall>sid. opens_around now sid st st') \<and>
          (open_refusal st now a b = Some e \<or>
           open_refusal st now a b = None \<and> \<not> pair_live st now a b \<and> e = IdentifierFailure \<and> rand = None)
      | Inr h \<Rightarrow> open_refusal st now a b = None \<and> sess_key h = pairKey a b \<and>
          opens_around now (sess_ID h) st st' \<and>
          (if pair_live st now a b
           then live_view st now (sess_ID h) = Some h \<and> live_view st' now = live_view st now
           else st_sess st (sess_ID h) = None \<and>
             (\<exists>buf. rand = Some buf \<and> h = new_session now (RawURLEncoding_EncodeToString buf) a b) \<and>
             live_view st' now = (live_view st now)(sess_ID h \<mapsto> h)))"

lemma opens_around_trans:
  assumes some: "settles_some now st st1" and ar: "opens_around now sid st1 st'"
  shows "opens_around now sid st st'"
proof -
  have d: "st_timeout st1 = st_timeout st"
    using settles_some_view(2) [OF some] by (rule settings_fields)
  have twice: "map_option (settled t now) (map_option (settled t now) x) = map_option (settled t now) x"
    for t x by (cases x) simp_all
  show ?thesis
    using ar some unfolding opens_around_def settles_some_def d by (metis twice)
qed

lemma caps_ok_some:
  assumes "settles_some now st st1"
  shows "caps_ok st1 now ps = caps_ok st now ps"
  by (simp add: caps_ok_def settles_some_now_live [OF assms] settles_some_perPeerCap [OF assms])

lemma store_Open_promise:
  assumes wf: "store_wf st" and inputs: "open_inputs ord rand st"
    and run: "store_Open ord rand now a0 b0 st = (st', r)"
  shows "open_promise rand now (TrimSpace a0) (TrimSpace b0) st st' r"
proof -
  let ?a = "TrimSpace a0" and ?b = "TrimSpace b0"
  have ord: "\<And>p. range_ok (ord p)"
    and fresh: "\<And>buf. rand = Some buf \<Longrightarrow> st_sess st (RawURLEncoding_EncodeToString buf) = None"
    using inputs by (auto simp: open_inputs_def)
  have same: "open_promise rand now ?a ?b st st (Inl e)" if "open_refusal st now ?a ?b = Some e" for e
    using that wf by (simp add: open_promise_def settles_some_around [OF settles_some_refl])
  show ?thesis
  proof (cases "?a = [] \<or> ?b = [] \<or> ?a = ?b \<or> \<not> st_authorizer st ?a ?b")
    case True
    then obtain e where "r = Inl e" "st' = st" "open_refusal st now ?a ?b = Some e"
      using run by (auto simp: store_Open_def open_refusal_def Let_def split: if_splits)
    with same show ?thesis by simp
  next
    case valid: False
    obtain st1 x where pair: "pairLocked ?a ?b now st = (st1, x)" by fastforce
    note eff = pairLocked_effect [OF wf pair]
    note view1 = settles_some_view [OF eff(1)]
    show ?thesis
    proof (cases x)
      case (Some h)
      then have "st' = st1" "r = Inr h" using run valid pair by (simp_all add: store_Open_def Let_def)
      moreover have "pair_live st now ?a ?b" using eff(2) [OF Some] by (auto simp: pair_live_def)
      ultimately show ?thesis
        using valid eff(2) [OF Some] view1 settles_some_around [OF eff(1)]
        by (simp add: open_promise_def open_refusal_def)
    next
      case None
      have new: "open_new ord rand now ?a ?b st1 = (st', r)"
        using run valid pair None by (simp add: store_Open_def Let_def)
      have fresh1: "st_sess st1 (RawURLEncoding_EncodeToString buf) = None" if "rand = Some buf" for buf
        using fresh [OF that] settles_some_dom [OF eff(1)] by simp
      have auth: "st_authorizer st1 ?a ?b" using valid settings_fields(5) [OF view1(2)] by simp
      have live1: "st_live st1 = st_live st - (if pair_stale st now ?a ?b then 1 else 0)"
        using pairLocked_live [OF wf pair [unfolded None]] by simp
      note ceil = settings_fields(3) [OF view1(2)]
      have old: "st_sess st (sess_ID h) = None" if "st_sess st1 (sess_ID h) = None" for h
        using that settles_some_dom [OF eff(1)] by simp
      have nopair: "\<not> pair_live st now ?a ?b" by (rule eff(3) [OF None])
      have alone: "\<forall>i g. st_sess st1 i = Some g \<longrightarrow> session_Live g \<longrightarrow> sess_key g \<noteq> pairKey ?a ?b"
        using eff(4) [OF None] by blast
      have ne: "?a \<noteq> ?b" "?a \<noteq> []" "?b \<noteq> []" using valid by simp_all
      note res = open_new_effect [OF view1(3) ord ne auth alone fresh1 new]
      show ?thesis
      proof (cases r)
        case (Inl e)
        with res valid nopair live1 ceil view1 opens_around_trans [OF eff(1)] show ?thesis
          by (auto simp: open_promise_def open_refusal_def caps_ok_some [OF eff(1)] split: if_splits)
      next
        case (Inr h)
        with res valid nopair live1 ceil view1 opens_around_trans [OF eff(1)] old show ?thesis
          by (auto simp: open_promise_def open_refusal_def caps_ok_some [OF eff(1)] split: if_splits)
      qed
    qed
  qed
qed

section \<open>The steps of a store\<close>

text \<open>One call of the store at one reading of its clock.\<close>

inductive store_step :: "time \<Rightarrow> store \<Rightarrow> store \<Rightarrow> bool" where
  step_Open: "open_inputs ord rand st \<Longrightarrow>
     store_step now st (fst (store_Open ord rand now caller callee st))"
| step_Get: "store_step now st (fst (store_Get now sid p st))"
| step_Report: "store_step now st (fst (store_Report now sid p state path st))"
| step_ClosePeer: "range_ok ord \<Longrightarrow> store_step now st (fst (store_ClosePeer ord now p st))"
| step_Reap: "range_ok ord \<Longrightarrow> store_step now st (fst (store_Reap ord now st))"

inductive store_reachable :: "session_options \<Rightarrow> store \<Rightarrow> bool" for opts where
  init: "store_New opts = Inr st \<Longrightarrow> store_reachable opts st"
| step: "store_reachable opts st \<Longrightarrow> store_step now st st' \<Longrightarrow> store_reachable opts st'"

lemma store_New_wf:
  assumes "store_New opts = Inr st" and "so_MaxSessions opts < 2 ^ 61"
  shows "store_wf st"
proof -
  have st: "st_sessions st = []" "st_pairs st = []" "st_perPeer st = []" "st_ended st = []"
      "st_live st = 0" and ok: "store_settings_ok st"
    using assms by (auto simp: store_New_def store_settings_ok_def DefaultMaxSessions_def
        DefaultMaxSessionsPerPeer_def split: if_splits)
  have e: "live_ids st = {}" "ended_ids st = {}" "peer_live_ids st p = {}" for p
    by (simp_all add: live_ids_def ended_ids_def peer_live_ids_def st)
  have "store_indexed st"
    by (simp add: store_indexed_def e st rows_wf_def row_ids_def)
  with ok show ?thesis
    by (simp add: store_wf_def store_loose_def e st held_bound_ceiling) (simp add: store_settings_ok_def)
qed

lemma store_Open_wf:
  assumes "store_wf st" and "open_inputs ord rand st"
  shows "store_wf (fst (store_Open ord rand now a b st))"
    and "st_settings (fst (store_Open ord rand now a b st)) = st_settings st"
  using store_Open_promise [OF assms surjective_pairing] by (simp_all add: open_promise_def)

lemma store_Reap_wf:
  assumes "store_wf st" and "range_ok ord"
  shows "store_wf (fst (store_Reap ord now st))"
    and "st_settings (fst (store_Reap ord now st)) = st_settings st"
  by (cases "store_Reap ord now st", simp add: store_Reap_effect(1,2) [OF assms])+

lemma store_step_wf: "store_step now st st' \<Longrightarrow> store_wf st \<Longrightarrow> store_wf st'"
  by (cases rule: store_step.cases)
    (auto intro: store_Open_wf store_Get_wf store_Report_wf store_ClosePeer_effect store_Reap_wf)

lemma store_step_settings: "store_step now st st' \<Longrightarrow> store_wf st \<Longrightarrow> st_settings st' = st_settings st"
  by (cases rule: store_step.cases)
    (auto simp: store_Open_wf store_Get_effect store_Report_settings store_ClosePeer_effect store_Reap_wf)

lemma store_reachable_wf:
  assumes "store_reachable opts st" and "so_MaxSessions opts < 2 ^ 61"
  shows "store_wf st"
  using assms by (induction rule: store_reachable.induct) (auto intro: store_New_wf store_step_wf)

section \<open>How one session moves\<close>

text \<open>
  A session keeps its identity, and its state only along the edges of canMove; its
  path is set by the move to connected and by nothing else.
\<close>

definition session_moves :: "session \<Rightarrow> session \<Rightarrow> bool" where
  "session_moves h h' \<longleftrightarrow>
     sess_ID h' = sess_ID h \<and> sess_Caller h' = sess_Caller h \<and> sess_Callee h' = sess_Callee h \<and>
     sess_OpenedAt h' = sess_OpenedAt h \<and>
     (h' = h \<or> canMove (sess_State h) (sess_State h')) \<and>
     (sess_State h' \<noteq> Connected \<longrightarrow> sess_Path h' = sess_Path h)"

lemma session_moves_refl [simp]: "session_moves h h"
  by (simp add: session_moves_def)

lemma session_moves_settled [simp]: "session_moves h (settled d now h)"
  by (auto simp: session_moves_def settled_def canMove_def)

lemma session_moves_closed [simp]: "session_moves h (closed_by d now p h)"
  using settled_live [of d now h]
  by (cases "sess_State h")
    (auto simp: closed_by_def closes_def session_moves_def settled_def canMove_def session_Live_def)

lemma session_moves_reported: "canMove (sess_State h) state \<Longrightarrow> session_moves h (reported now state path h)"
  by (auto simp: session_moves_def reported_def Let_def)

lemma opens_around_moves:
  assumes "opens_around now i st st'" and "st_sess st sid = Some h" and "sid \<noteq> i"
    and "st_sess st' sid = Some h'"
  shows "session_moves h h'"
  using assms unfolding opens_around_def by (metis option.inject option.simps(3,9) session_moves_refl session_moves_settled)

lemma store_Open_moves:
  assumes wf: "store_wf st" and inputs: "open_inputs ord rand st"
    and run: "store_Open ord rand now a0 b0 st = (st', r)"
    and h: "st_sess st sid = Some h"
  shows "(case st_sess st' sid of Some h' \<Rightarrow> session_moves h h'
     | None \<Rightarrow> \<not> session_Live (settled (st_timeout st) now h))"
proof -
  note pr = store_Open_promise [OF wf inputs run, unfolded open_promise_def]
  have live: "st_sess st' sid = Some h" if "session_Live (settled (st_timeout st) now h)"
  proof -
    have "live_view st now sid = Some h" using that h by (simp add: live_view_def)
    then have "live_view st' now sid = Some h"
      using pr h by (auto split: sum.splits if_splits)
    then show ?thesis by (rule live_viewD)
  qed
  show ?thesis
  proof (cases "st_sess st' sid")
    case None
    with live show ?thesis by auto
  next
    case (Some h')
    have "session_moves h h'"
    proof (cases "session_Live (settled (st_timeout st) now h)")
      case True
      with live Some show ?thesis by simp
    next
      case False
      then have nv: "live_view st now sid = None" using h by (simp add: live_view_def)
      obtain i where "opens_around now i st st'" "sid \<noteq> i"
      proof (cases r)
        case (Inl e)
        with pr that [of "sid @ ''x''"] show thesis by simp
      next
        case (Inr g)
        have "sid \<noteq> sess_ID g" using pr Inr h nv by (auto split: if_splits)
        with pr Inr that [of "sess_ID g"] show thesis by simp
      qed
      with h Some show ?thesis by (blast intro: opens_around_moves)
    qed
    with Some show ?thesis by simp
  qed
qed

lemma store_step_moves:
  assumes "store_step now st st'" and wf: "store_wf st" and h: "st_sess st sid = Some h"
  shows "case st_sess st' sid of Some h' \<Rightarrow> session_moves h h'
     | None \<Rightarrow> \<not> session_Live (settled (st_timeout st) now h)"
  using assms(1)
proof cases
  case (step_Open ord rand a b)
  then show ?thesis
    using store_Open_moves [OF wf step_Open(2) surjective_pairing h] by simp
next
  case (step_Get i p)
  with h show ?thesis by (auto simp: store_Get_effect [OF wf] split: option.splits)
next
  case (step_Report i p state path)
  show ?thesis
    using store_Report_cases [where st = st and now = now and sid = i and p = p and state = state and path = path] wf h
      settle_effect(2) [OF store_wf_loose [OF wf], of i _ now]
    by (auto simp: step_Report(1) session_moves_reported)
next
  case (step_ClosePeer ord p)
  with h show ?thesis by (simp add: store_ClosePeer_effect(3) [OF wf step_ClosePeer(2)])
next
  case (step_Reap ord)
  have "st_sess st' sid = Option.bind (st_sess st sid) (reaped (st_timeout st) (st_retention st) now)"
    using store_Reap_effect(3) [OF wf step_Reap(2)] unfolding step_Reap(1)
    by (cases "store_Reap ord now st") simp
  with h show ?thesis by (simp add: reaped_def reaps_def)
qed

text \<open>A record that was not there is the one Open creates.\<close>

lemma store_step_new:
  assumes "store_step now st st'" and wf: "store_wf st" and none: "st_sess st sid = None"
    and h': "st_sess st' sid = Some h'"
  shows "\<exists>a b. h' = new_session now sid a b"
  using assms(1)
proof cases
  case (step_Open ord rand a0 b0)
  note pr = store_Open_promise [OF wf step_Open(2) surjective_pairing, where now = now and ?a0.0 = a0 and ?b0.0 = b0,
      folded step_Open(1), unfolded open_promise_def]
  have other: False if "opens_around now i st st'" "sid \<noteq> i" for i
    using that none h' unfolding opens_around_def by auto
  show ?thesis
  proof (cases "snd (store_Open ord rand now a0 b0 st)")
    case (Inl e)
    with pr other [of "sid @ ''x''"] show ?thesis by simp
  next
    case (Inr g)
    have sid: "sid = sess_ID g" using pr Inr other [of "sess_ID g"] by auto
    have "live_view st' now sid = Some g"
      using pr Inr none by (auto simp: sid dest: live_viewD split: if_splits)
    then have "st_sess st' sid = Some g" by (rule live_viewD)
    moreover have "\<exists>buf. g = new_session now (RawURLEncoding_EncodeToString buf) (TrimSpace a0) (TrimSpace b0)"
      using pr Inr none by (auto simp: sid dest: live_viewD split: if_splits)
    ultimately show ?thesis using h' sid by (auto simp: new_session_def)
  qed
next
  case (step_Get i p)
  with none h' show ?thesis by (auto simp: store_Get_effect [OF wf] split: option.splits if_splits)
next
  case (step_Report i p state path)
  show ?thesis
    using store_Report_cases [where st = st and now = now and sid = i and p = p and state = state and path = path] wf none h'
      settle_effect(2) [OF store_wf_loose [OF wf], of i _ now]
    by (auto simp: step_Report(1) split: if_splits)
next
  case (step_ClosePeer ord p)
  with none h' show ?thesis by (simp add: store_ClosePeer_effect(3) [OF wf step_ClosePeer(2)])
next
  case (step_Reap ord)
  have "st_sess st' sid = Option.bind (st_sess st sid) (reaped (st_timeout st) (st_retention st) now)"
    using store_Reap_effect(3) [OF wf step_Reap(2)] unfolding step_Reap(1)
    by (cases "store_Reap ord now st") simp
  with none h' show ?thesis by simp
qed

section \<open>Properties\<close>

definition sample_session_options :: session_options where
  "sample_session_options =
     \<lparr>so_NegotiationTimeout = 30 * second, so_Retention = 60 * second, so_MaxSessions = 2,
      so_MaxSessionsPerPeer = 1, so_Authorizer = None\<rparr>"

definition sample_empty :: store where
  "sample_empty =
     \<lparr>st_sessions = [], st_pairs = [], st_live = 0, st_perPeer = [], st_ended = [],
      st_timeout = 30 * second, st_retention = 60 * second, st_ceiling = 2, st_perPeerCap = 1,
      st_authorizer = AllowAll_Allows\<rparr>"

definition sample_session :: session where
  "sample_session = new_session 0 ''s'' ''a'' ''b''"

definition sample_store :: store where
  "sample_store = with_session ''s'' sample_session sample_empty"

lemma sample_New: "store_New sample_session_options = Inr sample_empty"
  by (simp add: store_New_def sample_session_options_def sample_empty_def second_def)

lemma sample_empty_wf: "store_wf sample_empty"
  by (rule store_New_wf [OF sample_New]) (simp add: sample_session_options_def)

lemma sample_store_wf: "store_wf sample_store"
  unfolding sample_store_def
  by (rule wf_insert [OF sample_empty_wf])
    (simp_all add: sample_empty_def sample_session_def new_session_def session_Live_def
      session_fits_def AllowAll_Allows_def held_bound_def retainedPerLive_def int64_id peer_live_ids_def)

lemma sample_store_sess: "st_sess sample_store = [''s'' \<mapsto> sample_session]"
  by (simp add: sample_store_def with_session_simps(1)) (simp add: sample_empty_def)

lemma sample_store_fields:
  "st_timeout sample_store = 30 * second" "st_retention sample_store = 60 * second"
  "st_ceiling sample_store = 2" "st_perPeerCap sample_store = 1" "st_live sample_store = 1"
  "st_authorizer sample_store = AllowAll_Allows"
  by (simp_all add: sample_store_def with_session_def sample_empty_def)

lemma sample_session_fields:
  "sess_ID sample_session = ''s''" "sess_Caller sample_session = ''a''"
  "sess_Callee sample_session = ''b''" "sess_State sample_session = Negotiating"
  "sess_OpenedAt sample_session = 0" "sess_Path sample_session = PathUnknown"
  "session_Live sample_session" "session_Has sample_session p \<longleftrightarrow> p = ''a'' \<or> p = ''b''"
  by (simp_all add: sample_session_def new_session_def session_Live_def session_Has_def)

lemma sample_session_young:
  assumes "0 \<le> now" and "now \<le> 30 * second"
  shows "settled (30 * second) now sample_session = sample_session"
  using assms
  by (simp add: settled_def sample_session_fields time_Sub_def second_def max_duration_def min_duration_def)

lemma sample_session_late:
  assumes "30 * second < now" and "now \<le> 1000 * second"
  shows "settled (30 * second) now sample_session =
     sample_session\<lparr>sess_State := Failed, sess_ChangedAt := 30 * second\<rparr>"
  using assms
  by (simp add: settled_def sample_session_fields time_Sub_def time_Add_def second_def max_duration_def min_duration_def)

lemma sample_live_view:
  "0 \<le> now \<Longrightarrow> now \<le> 30 * second \<Longrightarrow> live_view sample_store now = [''s'' \<mapsto> sample_session]"
  by (rule ext) (simp add: live_view_def sample_store_sess sample_store_fields sample_session_young
      sample_session_fields)

text \<open>
  C24: The bounds of the store, in every state it can reach: the health count is the
  number of live sessions and is at most the ceiling, no peer is in more live sessions
  than its cap, the records held are at most four for each session the ceiling allows,
  no two live sessions are between the same pair, and every record is between two
  different peers the authorizer allows.
\<close>

theorem store_reachable_bounds:
  assumes "store_reachable opts st" and "so_MaxSessions opts < 2 ^ 61"
  shows "store_Count st = int (card {sid. \<exists>h. st_sess st sid = Some h \<and> session_Live h}) \<and>
     store_Count st \<le> st_ceiling st \<and>
     (\<forall>p. int (card {sid. \<exists>h. st_sess st sid = Some h \<and> session_Live h \<and> session_Has h p}) \<le> st_perPeerCap st) \<and>
     store_Held st = int (card (dom (st_sess st))) \<and> store_Held st \<le> 4 * st_ceiling st \<and>
     (\<forall>i j g h. st_sess st i = Some g \<and> st_sess st j = Some h \<and> session_Live g \<and> session_Live h \<and>
        pairKey (sess_Caller g) (sess_Callee g) = pairKey (sess_Caller h) (sess_Callee h) \<longrightarrow> i = j) \<and>
     (\<forall>i h. st_sess st i = Some h \<longrightarrow> sess_ID h = i \<and> sess_Caller h \<noteq> sess_Callee h \<and>
        st_authorizer st (sess_Caller h) (sess_Callee h))"
proof -
  have wf: "store_wf st" using assms by (rule store_reachable_wf)
  note loose = store_loose_clauses [OF store_wf_loose [OF wf]]
  note ix = indexed_clauses [OF loose(1)]
  have pair: "i = j" if "st_sess st i = Some g" "st_sess st j = Some h" "session_Live g" "session_Live h"
      "sess_key g = sess_key h" for i j g h
    using indexed_pairI [OF loose(1) that(1,3) refl] indexed_pairI [OF loose(1) that(2,4) refl] that(5)
    by simp
  have fits: "sess_ID h = i \<and> sess_Caller h \<noteq> sess_Callee h \<and> st_authorizer st (sess_Caller h) (sess_Callee h)"
    if "st_sess st i = Some h" for i h
    using loose(3) [OF that] indexed_ID [OF loose(1) that] by (simp add: session_fits_def)
  show ?thesis
    using ix(4) loose(4-6) gm.len_card [OF ix(1)] held_bound_ceiling [OF loose(2)] pair fits
    unfolding store_Count_def store_Held_def live_ids_def peer_live_ids_def sess_key_def
    by (intro conjI) (simp, simp, simp, simp, simp, blast, blast)
qed

theorem store_reachable_bounds_witness:
  "store_Held (fst (store_Get 0 ''s'' ''a'' sample_empty)) \<le> 8"
  using store_reachable_bounds [OF store_reachable.step [OF store_reachable.init [OF sample_New]
        step_Get, of 0 "''s''" "''a''"]]
  by (simp add: sample_session_options_def) (simp add: store_Get_def sample_empty_def)

text \<open>
  C25: Open, on every branch. Over the sessions live at the instant of the call it
  refuses exactly when the abstract specification does: identifiers missing or equal,
  the authorizer's refusal, the ceiling (the pair's own stale session left out), one of
  the two peers at its cap. Otherwise it answers the pair's live session when it has
  one, and a new session under a new identifier when it has not, which is then the one
  change to what is live; it drops no session that is live.
\<close>

theorem store_Open_spec:
  assumes "store_wf st" and "open_inputs ord rand st"
    and "store_Open ord rand now a0 b0 st = (st', r)"
    and "a = TrimSpace a0" and "b = TrimSpace b0"
  shows "(case r of
     Inl e \<Rightarrow> (open_refusal st now a b = Some e \<or>
          open_refusal st now a b = None \<and> \<not> pair_live st now a b \<and> e = IdentifierFailure \<and> rand = None) \<and>
       live_view st' now = live_view st now
   | Inr h \<Rightarrow> open_refusal st now a b = None \<and> pairKey (sess_Caller h) (sess_Callee h) = pairKey a b \<and>
       (if pair_live st now a b
        then live_view st now (sess_ID h) = Some h \<and> live_view st' now = live_view st now
        else st_sess st (sess_ID h) = None \<and> sess_Caller h = a \<and> sess_Callee h = b \<and>
          sess_State h = Negotiating \<and> sess_Path h = PathUnknown \<and> sess_OpenedAt h = now \<and>
          live_view st' now = (live_view st now)(sess_ID h \<mapsto> h)))"
  using store_Open_promise [OF assms(1-3)] unfolding open_promise_def assms(4,5)
  by (auto simp: sess_key_def new_session_def split: sum.splits)

theorem store_Open_spec_witness:
  "snd (store_Open (\<lambda>_. rev) (Some [0]) 1 ''b'' ''a'' sample_store) = Inr sample_session"
proof -
  have tr: "TrimSpace ''a'' = ''a''" "TrimSpace ''b'' = ''b''"
    by (simp_all add: TrimSpace_plain plain_char_def)
  have enc: "RawURLEncoding_EncodeToString [0] = ''AA''" by code_simp
  have key: "pairKey ''b'' ''a'' = pairKey ''a'' ''b''" by (simp add: pairKey_def)
  have view: "live_view sample_store 1 = [''s'' \<mapsto> sample_session]"
    by (rule sample_live_view) (simp_all add: second_def)
  have pl: "pair_live sample_store 1 ''b'' ''a''"
    by (simp add: pair_live_def view key sess_key_def sample_session_fields)
  have ref: "open_refusal sample_store 1 ''b'' ''a'' = None"
    by (simp add: open_refusal_def pl sample_store_fields AllowAll_Allows_def)
  have "open_inputs (\<lambda>_. rev) (Some [0]) sample_store"
    by (simp add: open_inputs_def enc sample_store_sess)
  from store_Open_spec [OF sample_store_wf this surjective_pairing refl refl,
      where now = 1 and ?a0.0 = "''b''" and ?b0.0 = "''a''"]
  show ?thesis by (auto simp: tr pl ref view split: sum.splits if_splits)
qed

text \<open>
  One session for a pair. Whichever of the two asks again, at any later instant at
  which the session has not timed out, Open answers the session it answered before.
\<close>

theorem store_Open_again:
  assumes "store_wf st" and "open_inputs ord rand st"
    and "store_Open ord rand now a0 b0 st = (st', Inr h)"
    and "session_Live (settled (st_timeout st) now' h)"
    and "{TrimSpace c0, TrimSpace d0} = {TrimSpace a0, TrimSpace b0}"
    and "st_authorizer st (TrimSpace c0) (TrimSpace d0)"
    and "open_inputs ord' rand' st'"
  shows "snd (store_Open ord' rand' now' c0 d0 st') = Inr h"
proof -
  let ?a = "TrimSpace a0" and ?b = "TrimSpace b0" and ?c = "TrimSpace c0" and ?d = "TrimSpace d0"
  note pr = store_Open_promise [OF assms(1-3), unfolded open_promise_def]
  have set: "st_settings st' = st_settings st" and wf': "store_wf st'" using pr by simp_all
  have ref: "open_refusal st now ?a ?b = None" and key: "sess_key h = pairKey ?a ?b"
    and held: "live_view st' now (sess_ID h) = Some h" using pr by (auto split: if_splits)
  have ne: "?c \<noteq> ?d" "?c \<noteq> []" "?d \<noteq> []"
    using ref assms(5) by (auto simp: open_refusal_def doubleton_eq_iff split: if_splits)
  have key': "sess_key h = pairKey ?c ?d"
    using assms(5) key by (auto simp: doubleton_eq_iff pairKey_def)
  have view: "live_view st' now' (sess_ID h) = Some h"
    using live_viewD(1) [OF held] assms(4) by (simp add: live_view_def settings_fields(1) [OF set])
  then have pl: "pair_live st' now' ?c ?d" using key' by (auto simp: pair_live_def)
  then have ref': "open_refusal st' now' ?c ?d = None"
    using ne assms(6) by (simp add: open_refusal_def settings_fields(5) [OF set])
  obtain st2 r where run: "store_Open ord' rand' now' c0 d0 st' = (st2, r)" by fastforce
  note pr' = store_Open_promise [OF wf' assms(7) run, unfolded open_promise_def]
  obtain g where g: "r = Inr g"
    using conjunct2 [OF conjunct2 [OF pr']] ref' pl by (cases r) auto
  have g': "sess_key g = pairKey ?c ?d" "live_view st' now' (sess_ID g) = Some g"
    using conjunct2 [OF conjunct2 [OF pr' [unfolded g]]] pl by auto
  note ix = store_wf_indexed [OF wf']
  have "sess_ID g = sess_ID h"
    using indexed_pairI [OF ix live_viewD(1,2) [OF g'(2)] g'(1)]
      indexed_pairI [OF ix live_viewD(1,2) [OF view] key'] by simp
  with g'(2) view have "g = h" by (metis option.inject)
  with run g show ?thesis by simp
qed

theorem store_Open_again_witness:
  "snd (store_Open (\<lambda>_. rev) None 5 ''b'' ''a''
     (fst (store_Open (\<lambda>_. rev) (Some [0]) 0 ''a'' ''b'' sample_empty))) =
   Inr (new_session 0 ''AA'' ''a'' ''b'')"
proof -
  have tr: "TrimSpace ''a'' = ''a''" "TrimSpace ''b'' = ''b''"
    by (simp_all add: TrimSpace_plain plain_char_def)
  have enc: "RawURLEncoding_EncodeToString [0] = ''AA''" by code_simp
  have inputs: "open_inputs (\<lambda>_. rev) (Some [0]) sample_empty"
    by (simp add: open_inputs_def sample_empty_def)
  let ?r = "store_Open (\<lambda>_. rev) (Some [0]) 0 ''a'' ''b'' sample_empty"
  have "snd ?r = Inr (new_session 0 ''AA'' ''a'' ''b'')"
    by (simp add: store_Open_def tr sample_empty_def AllowAll_Allows_def pairLocked_def open_new_def
        perPeer_len_def trimLocked_def newID_def enc new_session_def Let_def)
  then have run: "?r = (fst ?r, Inr (new_session 0 ''AA'' ''a'' ''b''))" by (metis prod.collapse)
  have live: "session_Live (settled (st_timeout sample_empty) 5 (new_session 0 ''AA'' ''a'' ''b''))"
    by (simp add: sample_empty_def new_session_def settled_def session_Live_def time_Sub_def
        second_def max_duration_def min_duration_def)
  show ?thesis
    by (rule store_Open_again [OF sample_empty_wf inputs run live])
      (auto simp: tr sample_empty_def AllowAll_Allows_def open_inputs_def)
qed

text \<open>
  C26: A report, on every branch. A session nobody holds and one the reporter is not in
  are the same answer; otherwise the timeout is applied first, and the report is
  refused exactly when the state machine has no such move; a move changes that record
  alone, stamps it with the instant, and takes the path only when it connects.
\<close>

theorem store_Report_spec:
  assumes "store_wf st"
  shows "(case st_sess st sid of
      None \<Rightarrow> store_Report now sid p state path st = (st, Inl ErrNotFound)
    | Some h \<Rightarrow>
        if \<not> session_Has h p then store_Report now sid p state path st = (st, Inl ErrNotFound)
        else if \<not> canMove (sess_State (settled (st_timeout st) now h)) state
        then snd (store_Report now sid p state path st) = Inl ErrBadTransition \<and>
          st_sess (fst (store_Report now sid p state path st)) =
            (st_sess st)(sid \<mapsto> settled (st_timeout st) now h)
        else snd (store_Report now sid p state path st) =
            Inr (h\<lparr>sess_State := state, sess_ChangedAt := now,
                   sess_Path := (if state = Connected then path else sess_Path h)\<rparr>) \<and>
          st_sess (fst (store_Report now sid p state path st)) =
            (st_sess st)(sid \<mapsto> h\<lparr>sess_State := state, sess_ChangedAt := now,
                   sess_Path := (if state = Connected then path else sess_Path h)\<rparr>))"
  using store_Report_cases [OF assms, where now = now and sid = sid and p = p and state = state and path = path]
    settle_effect(2) [OF store_wf_loose [OF assms], of sid _ now]
  by (auto simp: reported_def Let_def split: option.splits)

theorem store_Report_spec_witness:
  "snd (store_Report (5 * second) ''s'' ''b'' Connected Direct sample_store) =
     Inr (sample_session\<lparr>sess_State := Connected, sess_ChangedAt := 5 * second, sess_Path := Direct\<rparr>) \<and>
   snd (store_Report (31 * second) ''s'' ''b'' Connected Direct sample_store) = Inl ErrBadTransition \<and>
   snd (store_Report (5 * second) ''s'' ''c'' Connected Direct sample_store) = Inl ErrNotFound"
proof -
  have late: "settled (30 * second) (31 * second) sample_session =
      sample_session\<lparr>sess_State := Failed, sess_ChangedAt := 30 * second\<rparr>"
    by (rule sample_session_late) (simp_all add: second_def)
  have young: "settled (30 * second) (5 * second) sample_session = sample_session"
    by (rule sample_session_young) (simp_all add: second_def)
  show ?thesis
    using store_Report_spec [OF sample_store_wf, where sid = "''s''" and now = "5 * second" and p = "''b''" and state = Connected and path = Direct]
      store_Report_spec [OF sample_store_wf, where sid = "''s''" and now = "31 * second" and p = "''b''" and state = Connected and path = Direct]
      store_Report_spec [OF sample_store_wf, where sid = "''s''" and now = "5 * second" and p = "''c''" and state = Connected and path = Direct]
    by (simp add: sample_store_sess sample_session_fields sample_store_fields young late canMove_def)
qed

text \<open>
  What any one call may do to a session held: it keeps its identifier, its two
  peers and the time it opened; its state stays or takes one edge of the state
  machine; its path changes only as it connects. It is forgotten only once it has
  ended, and a record that was not there is a new one, negotiating, opened now.
\<close>

theorem store_step_sessions:
  assumes "store_step now st st'" and "store_wf st"
  shows "case (st_sess st sid, st_sess st' sid) of
      (Some h, Some h') \<Rightarrow>
        sess_ID h' = sess_ID h \<and> sess_Caller h' = sess_Caller h \<and> sess_Callee h' = sess_Callee h \<and>
        sess_OpenedAt h' = sess_OpenedAt h \<and>
        (h' = h \<or> canMove (sess_State h) (sess_State h')) \<and>
        (sess_State h' \<noteq> Connected \<longrightarrow> sess_Path h' = sess_Path h)
    | (Some h, None) \<Rightarrow> \<not> session_Live (settled (st_timeout st) now h)
    | (None, Some h') \<Rightarrow> sess_State h' = Negotiating \<and> sess_Path h' = PathUnknown \<and> sess_OpenedAt h' = now
    | (None, None) \<Rightarrow> True"
proof (cases "st_sess st sid")
  case (Some h)
  with store_step_moves [OF assms Some] show ?thesis
    by (simp add: session_moves_def split: option.splits)
next
  case None
  have "sess_State h' = Negotiating \<and> sess_Path h' = PathUnknown \<and> sess_OpenedAt h' = now"
    if "st_sess st' sid = Some h'" for h'
    using store_step_new [OF assms None that] by (auto simp: new_session_def)
  with None show ?thesis by (auto split: option.splits)
qed

theorem store_step_sessions_witness:
  "\<exists>h. st_sess (fst (store_Get (31 * second) ''s'' ''a'' sample_store)) ''s'' = Some h \<and>
     sess_Caller h = ''a'' \<and> sess_Callee h = ''b''"
proof -
  have "st_sess (fst (store_Get (31 * second) ''s'' ''a'' sample_store)) ''s'' \<noteq> None"
    by (simp add: store_Get_effect(2) [OF sample_store_wf] sample_store_sess sample_session_fields)
  then show ?thesis
    using store_step_sessions [OF step_Get sample_store_wf, of "31 * second" "''s''" "''s''" "''a''"]
    by (auto simp: sample_store_sess sample_session_fields)
qed

lemma set_map_filter: "set (List.map_filter f xs) = {y. \<exists>x \<in> set xs. f x = Some y}"
  by (induction xs) (auto simp: map_filter_simps split: option.splits)

lemma map_map_filter:
  "(\<And>x y. f x = Some y \<Longrightarrow> g y = x) \<Longrightarrow> map g (List.map_filter f xs) = filter (\<lambda>x. f x \<noteq> None) xs"
  by (induction xs) (auto simp: map_filter_simps split: option.splits)

text \<open>
  ClosePeer ends every live session of the peer, each reported exactly once as
  closed at the instant, and no other: afterwards the peer has no live session, and
  what is live of the others is what was.
\<close>

theorem store_ClosePeer_spec:
  assumes "store_wf st" and "range_ok ord" and "store_ClosePeer ord now p st = (st', closed)"
  shows "live_view st' now = (\<lambda>sid. case live_view st now sid of
        Some h \<Rightarrow> if session_Has h p then None else Some h | None \<Rightarrow> None) \<and>
     distinct closed \<and>
     set closed = (\<lambda>h. h\<lparr>sess_State := Closed, sess_ChangedAt := now\<rparr>) `
       {h. \<exists>sid. live_view st now sid = Some h \<and> session_Has h p} \<and>
     (\<forall>g \<in> set closed. st_sess st' (sess_ID g) = Some g) \<and>
     (\<forall>sid h. st_sess st sid = Some h \<longrightarrow> \<not> session_Has h p \<longrightarrow> st_sess st' sid = Some h)"
proof -
  note ix = store_wf_indexed [OF assms(1)]
  let ?ids = "ord (mkeys (st_sessions st))" and ?d = "st_timeout st"
  have ids: "distinct ?ids" "set ?ids = dom (st_sess st)"
    using range_okD [OF assms(2) mwf_mkeys [OF indexed_clauses(1) [OF ix]]] by simp_all
  note eff = store_ClosePeer_effect [OF assms(1,2), of now p]
  have sess: "st_sess st' i = map_option (closed_by ?d now p) (st_sess st i)" for i
    using eff(3) [of i] assms(3) by simp
  have d: "st_timeout st' = ?d" using settings_fields(1) [OF eff(2)] assms(3) by simp
  have cl: "closed = List.map_filter (closed_entry ?d now p (st_sess st)) ?ids"
    using eff(4) assms(3) by simp
  have live: "closes ?d now p h \<longleftrightarrow> live_view st now i = Some h \<and> session_Has h p" if "st_sess st i = Some h" for i h
    using that by (auto simp: live_view_def closes_def)
  have "live_view st' now i = (case live_view st now i of
      Some h \<Rightarrow> if session_Has h p then None else Some h | None \<Rightarrow> None)" for i
    unfolding live_view_def d sess
    by (cases "st_sess st i") (auto simp: closed_by_def closes_def settled_dead session_Live_def)
  moreover have mem: "g \<in> set closed \<longleftrightarrow> (\<exists>i h. st_sess st i = Some h \<and> closes ?d now p h \<and>
      g = h\<lparr>sess_State := Closed, sess_ChangedAt := now\<rparr>)" for g
    unfolding cl set_map_filter ids(2)
    by (auto simp: closed_entry_def closed_by_def dom_def split: option.splits if_splits)
  have "set closed = (\<lambda>h. h\<lparr>sess_State := Closed, sess_ChangedAt := now\<rparr>) `
       {h. \<exists>sid. live_view st now sid = Some h \<and> session_Has h p}"
    using live live_viewD(1) by (auto simp: mem image_iff) blast+
  moreover have "distinct closed"
  proof -
    have "map sess_ID closed = filter (\<lambda>i. closed_entry ?d now p (st_sess st) i \<noteq> None) ?ids"
      unfolding cl
      by (rule map_map_filter)
        (use indexed_ID [OF ix] in \<open>auto simp: closed_entry_def closed_by_def split: option.splits if_splits\<close>)
    then show ?thesis using ids(1) by (metis distinct_filter distinct_map)
  qed
  moreover have "st_sess st' (sess_ID g) = Some g" if "g \<in> set closed" for g
    using that indexed_ID [OF ix] by (auto simp: mem sess closed_by_def)
  moreover have "st_sess st' i = Some h" if "st_sess st i = Some h" "\<not> session_Has h p" for i h
    using that by (simp add: sess closed_by_def closes_def)
  ultimately show ?thesis by blast
qed

theorem store_ClosePeer_spec_witness:
  "live_view (fst (store_ClosePeer rev 5 ''b'' sample_store)) 5 = Map.empty \<and>
   set (snd (store_ClosePeer rev 5 ''b'' sample_store)) =
     {sample_session\<lparr>sess_State := Closed, sess_ChangedAt := 5\<rparr>}"
proof -
  have view: "live_view sample_store 5 = [''s'' \<mapsto> sample_session]"
    by (rule sample_live_view) (simp_all add: second_def)
  have members: "{h. \<exists>sid. live_view sample_store 5 sid = Some h \<and> session_Has h ''b''} = {sample_session}"
    by (auto simp: view sample_session_fields split: if_splits)
  show ?thesis
    using store_ClosePeer_spec [OF sample_store_wf range_ok_rev surjective_pairing, where now = 5 and p = "''b''"]
    by (auto simp: view members sample_session_fields fun_eq_iff)
qed

text \<open>
  A reap applies the timeout to every session and forgets exactly those that ended
  longer ago than the retention; its two counts are the numbers of each. It changes
  nothing of what is live, and no answer about a session it keeps, then or later.
\<close>

theorem store_Reap_spec:
  assumes "store_wf st" and "range_ok ord" and "store_Reap ord now st = (st', failed, forgotten)"
  shows "(\<forall>sid. st_sess st' sid = (case st_sess st sid of
        None \<Rightarrow> None
      | Some h \<Rightarrow>
          let g = settled (st_timeout st) now h
          in if \<not> session_Live g \<and> st_retention st < time_Sub now (sess_ChangedAt g) then None else Some g)) \<and>
     failed = int (card {sid. \<exists>h. st_sess st sid = Some h \<and> settled (st_timeout st) now h \<noteq> h}) \<and>
     forgotten = int (card (dom (st_sess st) - dom (st_sess st'))) \<and>
     live_view st' now = live_view st now \<and>
     (\<forall>sid t p. now \<le> t \<longrightarrow> st_sess st' sid \<noteq> None \<longrightarrow>
        snd (store_Get t sid p st') = snd (store_Get t sid p st))"
proof -
  note eff = store_Reap_effect [OF assms]
  note d = settings_fields(1) [OF eff(2)]
  let ?d = "st_timeout st" and ?r = "st_retention st"
  have sess: "st_sess st' i = (case st_sess st i of None \<Rightarrow> None
      | Some h \<Rightarrow> let g = settled ?d now h
          in if \<not> session_Live g \<and> ?r < time_Sub now (sess_ChangedAt g) then None else Some g)" for i
    using eff(3) [of i] by (auto simp: reaped_def reaps_def Let_def split: option.splits)
  have "{i. is_reaped ?d ?r now (st_sess st i)} = dom (st_sess st) - dom (st_sess st')"
    unfolding sess [abs_def] by (auto simp: is_reaped_def reaps_def Let_def dom_def split: option.splits if_splits)
  moreover have "{i. times_out ?d now (st_sess st i)} =
      {i. \<exists>h. st_sess st i = Some h \<and> settled ?d now h \<noteq> h}"
    by (auto simp: times_out_def split: option.splits)
  moreover have "live_view st' now i = live_view st now i" for i
    unfolding live_view_def d sess
    using settled_live [of ?d now] by (cases "st_sess st i") (auto simp: Let_def)
  moreover have "snd (store_Get t i p st') = snd (store_Get t i p st)"
    if "now \<le> t" "st_sess st' i \<noteq> None" for t i p
    using that sess [of i]
    by (auto simp: store_Get_effect [OF assms(1)] store_Get_effect [OF eff(1)] d Let_def
        split: option.splits if_splits)
  ultimately show ?thesis using eff(4,5) sess by auto
qed

theorem store_Reap_spec_witness:
  "snd (store_Reap rev (31 * second) sample_store) = (1, 0) \<and>
   snd (store_Reap rev (100 * second) sample_store) = (1, 1)"
proof -
  have late: "settled (30 * second) t sample_session =
      sample_session\<lparr>sess_State := Failed, sess_ChangedAt := 30 * second\<rparr>"
    if "t = 31 * second \<or> t = 100 * second" for t
    using that by (intro sample_session_late) (auto simp: second_def)
  have sub: "time_Sub (31 * second) (30 * second) = second" "time_Sub (100 * second) (30 * second) = 70 * second"
    by (simp_all add: time_Sub_def second_def max_duration_def min_duration_def)
  have ne: "sample_session\<lparr>sess_State := Failed, sess_ChangedAt := 30 * second\<rparr> \<noteq> sample_session"
    by (auto dest: arg_cong [of _ _ sess_State] simp: sample_session_fields)
  obtain s1 f1 g1 where r1: "store_Reap rev (31 * second) sample_store = (s1, f1, g1)" by (cases "store_Reap rev (31 * second) sample_store")
  obtain s2 f2 g2 where r2: "store_Reap rev (100 * second) sample_store = (s2, f2, g2)" by (cases "store_Reap rev (100 * second) sample_store")
  have pos: "0 < second" by (simp add: second_def)
  note s1 = conjunct1 [OF store_Reap_spec [OF sample_store_wf range_ok_rev r1], rule_format,
      unfolded sample_store_sess sample_store_fields]
  note s2 = conjunct1 [OF store_Reap_spec [OF sample_store_wf range_ok_rev r2], rule_format,
      unfolded sample_store_sess sample_store_fields]
  have m1: "st_sess s1 = [''s'' \<mapsto> sample_session\<lparr>sess_State := Failed, sess_ChangedAt := 30 * second\<rparr>]"
    by (rule ext) (use pos in \<open>simp add: s1 late sub Let_def\<close>)
  have m2: "st_sess s2 = Map.empty"
    by (rule ext) (use pos in \<open>simp add: s2 late sub Let_def session_Live_def\<close>)
  have one: "{sid. sid = ''s''} = {''s''}" by auto
  show ?thesis
    using conjunct1 [OF conjunct2 [OF store_Reap_spec [OF sample_store_wf range_ok_rev r1]]]
      conjunct1 [OF conjunct2 [OF conjunct2 [OF store_Reap_spec [OF sample_store_wf range_ok_rev r1]]]]
      conjunct1 [OF conjunct2 [OF store_Reap_spec [OF sample_store_wf range_ok_rev r2]]]
      conjunct1 [OF conjunct2 [OF conjunct2 [OF store_Reap_spec [OF sample_store_wf range_ok_rev r2]]]]
    by (simp add: r1 r2 m1 m2 sample_store_sess sample_store_fields late ne one)
qed



text \<open>
  Trimming drops the sessions that ended first, one for each record over the bound
  and no more, and never a live one; afterwards there is room for one more record.
\<close>

theorem trimLocked_spec:
  assumes "store_wf st" and "st_live st < st_ceiling st"
  shows "\<exists>k. st_ended (trimLocked st) = drop k (st_ended st) \<and>
     (\<forall>sid. st_sess (trimLocked st) sid = (if sid \<in> set (take k (st_ended st)) then None else st_sess st sid)) \<and>
     int (length (st_sessions (trimLocked st))) < 4 * st_ceiling st \<and>
     (k = 0 \<or> 4 * st_ceiling st \<le> int (length (st_sessions st)) - int k + 1) \<and>
     (\<forall>sid \<in> set (take k (st_ended st)). \<exists>h. st_sess st sid = Some h \<and> \<not> session_Live h)"
proof -
  have bound: "held_bound st = 4 * st_ceiling st"
    by (rule held_bound_ceiling [OF store_loose_clauses(2) [OF store_wf_loose [OF assms(1)]]])
  obtain k where k: "trims k st (trimLocked st)" "k = 0 \<or> held_bound st \<le> int (length (st_sessions st)) - int k + 1"
    using trimLocked_effect(1) [OF assms] by blast
  have "\<exists>h. st_sess st sid = Some h \<and> \<not> session_Live h" if "sid \<in> set (take k (st_ended st))" for sid
    using ended_member [OF assms(1) in_set_takeD [OF that]] by blast
  with k trimLocked_effect(2) [OF assms] show ?thesis
    unfolding trims_def bound by blast
qed

theorem trimLocked_spec_witness: "length (st_sessions (trimLocked sample_store)) = 1"
proof -
  have "st_ended sample_store = []" by (simp add: sample_store_def with_session_simps(3) sample_empty_def)
  then show ?thesis
    using trimLocked_spec [OF sample_store_wf] gm.len_card [OF indexed_clauses(1) [OF store_wf_indexed [OF sample_store_wf]]]
    by (simp add: sample_store_fields sample_store_sess trimLocked_def)
qed

lemma append_sep_eq:
  assumes "c \<notin> set xs" and "c \<notin> set xs'"
  shows "xs @ [c] @ ys = xs' @ [c] @ ys' \<longleftrightarrow> xs = xs' \<and> ys = ys'"
  using assms
proof (induction xs arbitrary: xs')
  case Nil
  then show ?case by (cases xs') auto
next
  case (Cons x xs)
  then show ?case by (cases xs') auto
qed

text \<open>
  The key of a pair names the two peers, whichever is first, and nothing else, as
  long as neither identifier holds a NUL.
\<close>

theorem pairKey_names_the_pair:
  assumes "CHR 0x00 \<notin> set a" and "CHR 0x00 \<notin> set b" and "CHR 0x00 \<notin> set c" and "CHR 0x00 \<notin> set d"
  shows "pairKey a b = pairKey c d \<longleftrightarrow> {a, b} = {c, d}"
  using assms by (auto simp: pairKey_def Let_def append_sep_eq [simplified] doubleton_eq_iff)

theorem pairKey_names_the_pair_witness: "pairKey ''ab'' ''c'' \<noteq> pairKey ''a'' ''bc''"
  using pairKey_names_the_pair [of "''ab''" "''c''" "''a''" "''bc''"] by (simp add: doubleton_eq_iff)

text \<open>With a NUL inside an identifier two different pairs have one key.\<close>

lemma pairKey_collision:
  "pairKey ''a'' [CHR ''b'', CHR 0x00, CHR ''c''] = pairKey [CHR ''a'', CHR 0x00, CHR ''b''] ''c''"
  by code_simp

section \<open>The order of the states\<close>

text \<open>
  The state machine only moves up this order, so a session makes at most two moves.
\<close>

fun state_rank :: "sess_state \<Rightarrow> nat" where
  "state_rank Negotiating = 0"
| "state_rank Connected = 1"
| "state_rank Failed = 2"
| "state_rank Closed = 3"

instantiation sess_state :: linorder
begin

definition less_eq_sess_state :: "sess_state \<Rightarrow> sess_state \<Rightarrow> bool" where
  "less_eq_sess_state a b \<longleftrightarrow> state_rank a \<le> state_rank b"

definition less_sess_state :: "sess_state \<Rightarrow> sess_state \<Rightarrow> bool" where
  "less_sess_state a b \<longleftrightarrow> state_rank a < state_rank b"

instance
proof
  fix a b :: sess_state
  show "a \<le> b \<Longrightarrow> b \<le> a \<Longrightarrow> a = b"
    by (cases a; cases b) (simp_all add: less_eq_sess_state_def)
qed (auto simp: less_eq_sess_state_def less_sess_state_def)

end

lemma canMove_less: "canMove s s' \<Longrightarrow> s < s'"
  by (cases s; cases s') (simp_all add: canMove_def less_sess_state_def)

text \<open>Runs of a store through which one session is held, never forgotten.\<close>

inductive held_run :: "string \<Rightarrow> store \<Rightarrow> store \<Rightarrow> bool" for sid where
  held_refl: "st_sess st sid \<noteq> None \<Longrightarrow> held_run sid st st"
| held_step: "held_run sid st st' \<Longrightarrow> store_step now st' st'' \<Longrightarrow> st_sess st'' sid \<noteq> None \<Longrightarrow> held_run sid st st''"

lemma held_run_wf: "held_run sid st st' \<Longrightarrow> store_wf st \<Longrightarrow> store_wf st'"
  by (induction rule: held_run.induct) (auto intro: store_step_wf)

text \<open>
  C27: Through any run of the store in which a session is held, whatever the clock
  reads, its state never goes back in the order negotiating, connected, failed, closed;
  and once it has ended, its record, the times in it included, never changes again.
\<close>

theorem session_state_monotone:
  assumes "held_run sid st st'" and "store_wf st"
  shows "\<exists>h h'. st_sess st sid = Some h \<and> st_sess st' sid = Some h' \<and>
     sess_State h \<le> sess_State h' \<and> (\<not> session_Live h \<longrightarrow> h' = h)"
  using assms
proof (induction rule: held_run.induct)
  case (held_refl st0)
  then show ?case by auto
next
  case (held_step st0 st1 now st2)
  obtain h h1 where h: "st_sess st0 sid = Some h" "st_sess st1 sid = Some h1"
      "sess_State h \<le> sess_State h1" "\<not> session_Live h \<longrightarrow> h1 = h"
    using held_step.IH [OF held_step.prems] by blast
  obtain h2 where h2: "st_sess st2 sid = Some h2" using held_step.hyps(3) by auto
  have "session_moves h1 h2"
    using store_step_moves [OF held_step.hyps(2) held_run_wf [OF held_step.hyps(1) held_step.prems] h(2)] h2
    by simp
  then have "h2 = h1 \<or> canMove (sess_State h1) (sess_State h2)" by (simp add: session_moves_def)
  then have "sess_State h1 \<le> sess_State h2 \<and> (\<not> session_Live h1 \<longrightarrow> h2 = h1)"
    using canMove_less canMove_live by (auto intro: less_imp_le)
  with h h2 show ?case by auto
qed

theorem session_state_monotone_witness:
  "\<exists>h'. st_sess (fst (store_Get (31 * second) ''s'' ''a'' sample_store)) ''s'' = Some h' \<and> Negotiating \<le> sess_State h'"
proof -
  have run: "held_run ''s'' sample_store (fst (store_Get (31 * second) ''s'' ''a'' sample_store))"
    by (rule held_step [OF held_refl step_Get])
      (simp_all add: sample_store_sess store_Get_effect(2) [OF sample_store_wf] sample_session_fields)
  show ?thesis
    using session_state_monotone [OF run sample_store_wf]
    by (auto simp: sample_store_sess sample_session_fields)
qed

section \<open>A full store and its stale sessions\<close>

text \<open>
  The ceiling weighs the live counter, and only the pair's own stale session is
  settled first: a store whose every live session has timed out still refuses a new
  pair until something reads those sessions or the reaper runs.
\<close>

lemma full_of_stale_sessions_refuses:
  fixes st :: store
  defines "st \<equiv> sample_store\<lparr>st_ceiling := 1\<rparr>"
  shows "live_view st (31 * second) = Map.empty \<and>
     snd (store_Open (\<lambda>_. rev) (Some [0]) (31 * second) ''c'' ''d'' st) = Inl ErrFull"
proof -
  have tr: "TrimSpace ''c'' = ''c''" "TrimSpace ''d'' = ''d''"
    by (simp_all add: TrimSpace_plain plain_char_def)
  have late: "settled (30 * second) (31 * second) sample_session =
      sample_session\<lparr>sess_State := Failed, sess_ChangedAt := 30 * second\<rparr>"
    by (rule sample_session_late) (simp_all add: second_def)
  have "live_view st (31 * second) = Map.empty"
    by (rule ext) (simp add: st_def live_view_def sample_store_sess sample_store_fields late session_Live_def)
  moreover have "map_of (st_pairs st) (pairKey ''c'' ''d'') = None"
    by (simp add: st_def sample_store_def with_session_def sample_empty_def sample_session_def pairKey_def)
  ultimately show ?thesis
    by (simp add: st_def store_Open_def tr sample_store_fields AllowAll_Allows_def pairLocked_def open_new_def Let_def)
qed

end
