(* ===== verification/Signaling.thy ===== *)
theory Signaling
  imports Go_Map
begin

text \<open>
  internal/signaling/hub.go: which peer holds which connection, and the delivery of a
  message to the other side of a session. A connection is its identity; what the hub
  does to connections and tells its presence is the list of effects it returns, in
  order. The Sessions interface is a function \<open>other\<close> over an environment of its own
  (answering may settle a session there); whether a write to a connection succeeds is
  the function \<open>writes\<close>. The locale \<open>sessions_answer\<close> is the contract of Sessions.
\<close>

section \<open>Data\<close>

type_synonym msg_type = string

definition Offer :: msg_type where "Offer = ''offer''"
definition Answer :: msg_type where "Answer = ''answer''"
definition Candidate :: msg_type where "Candidate = ''candidate''"
definition Bye :: msg_type where "Bye = ''bye''"
definition ErrorType :: msg_type where "ErrorType = ''error''"
definition SessionState :: msg_type where "SessionState = ''session''"

lemmas msg_types = Offer_def Answer_def Candidate_def Bye_def ErrorType_def SessionState_def

record message =
  msg_Type :: msg_type
  msg_SessionID :: string
  msg_From :: string
  msg_Payload :: "byte list"
  msg_Code :: string
  msg_State :: string

text \<open>The zero value of Message, from which the server's own messages are built.\<close>

definition message_zero :: message where
  "message_zero =
     \<lparr>msg_Type = [], msg_SessionID = [], msg_From = [], msg_Payload = [], msg_Code = [], msg_State = []\<rparr>"

definition CodeNotInSession :: string where "CodeNotInSession = ''not_in_session''"
definition CodePeerNotConnected :: string where "CodePeerNotConnected = ''peer_not_connected''"
definition CodeUnknownType :: string where "CodeUnknownType = ''unknown_type''"
definition CodeTooFast :: string where "CodeTooFast = ''too_many_messages''"

datatype hub_error = ErrNoConnection | ErrNotDelivered | NoSessionStore

type_synonym conn = nat

record holder =
  hold_conn :: conn
  hold_sent :: int
  hold_windowFrom :: time

datatype hub_effect =
    Wrote conn message
  | WriteFailed conn message
  | CloseConn conn string
  | PresenceConnected string
  | PresenceDisconnected string

record hub_options =
  ho_Sessions :: bool
  ho_Presence :: bool
  ho_MessagesPerWindow :: int
  ho_Window :: duration
  ho_SendTimeout :: duration

definition DefaultMessagesPerWindow :: int where
  "DefaultMessagesPerWindow = 120"

definition DefaultWindow :: duration where
  "DefaultWindow = minute"

definition DefaultSendTimeout :: duration where
  "DefaultSendTimeout = 5 * second"

text \<open>Whether the two interfaces were supplied is a flag; what they do is an argument where they are called.\<close>

record hub =
  hub_conns :: "(string, holder) gomap"
  hub_presence :: bool
  hub_allowance :: int
  hub_window :: duration
  hub_sendTimeout :: duration

definition hub_New :: "hub_options \<Rightarrow> hub_error + hub" where
  "hub_New opts =
     (if \<not> ho_Sessions opts then Inl NoSessionStore
      else Inr
        \<lparr>hub_conns = [],
         hub_presence = ho_Presence opts,
         hub_allowance =
           (if ho_MessagesPerWindow opts \<le> 0 then DefaultMessagesPerWindow else ho_MessagesPerWindow opts),
         hub_window = (if ho_Window opts \<le> 0 then DefaultWindow else ho_Window opts),
         hub_sendTimeout = (if ho_SendTimeout opts \<le> 0 then DefaultSendTimeout else ho_SendTimeout opts)\<rparr>)"

section \<open>Operations\<close>

definition hub_Register :: "time \<Rightarrow> string \<Rightarrow> conn \<Rightarrow> hub \<Rightarrow> hub \<times> hub_effect list" where
  "hub_Register now peerID c h =
     (let existing = map_of (hub_conns h) peerID;
          h' = h\<lparr>hub_conns :=
                mput peerID \<lparr>hold_conn = c, hold_sent = 0, hold_windowFrom = now\<rparr> (hub_conns h)\<rparr>
      in (h',
          (case existing of
             Some held \<Rightarrow> [CloseConn (hold_conn held) ''replaced by a newer connection'']
           | None \<Rightarrow> []) @
          (if hub_presence h then [PresenceConnected peerID] else [])))"

definition hub_Deregister :: "string \<Rightarrow> conn \<Rightarrow> hub \<Rightarrow> hub \<times> hub_effect list" where
  "hub_Deregister peerID c h =
     (case map_of (hub_conns h) peerID of
        Some held \<Rightarrow>
          if hold_conn held = c
          then (h\<lparr>hub_conns := mdel peerID (hub_conns h)\<rparr>,
                if hub_presence h then [PresenceDisconnected peerID] else [])
          else (h, [])
      | None \<Rightarrow> (h, []))"

definition hub_Count :: "hub \<Rightarrow> int" where
  "hub_Count h = int (length (hub_conns h))"

definition hub_Connected :: "string \<Rightarrow> hub \<Rightarrow> bool" where
  "hub_Connected peerID h \<longleftrightarrow> map_of (hub_conns h) peerID \<noteq> None"

definition hub_Peers :: "string range_order \<Rightarrow> hub \<Rightarrow> string list" where
  "hub_Peers ord h = ord (mkeys (hub_conns h))"

definition carriable :: "msg_type \<Rightarrow> bool" where
  "carriable t \<longleftrightarrow> t = Offer \<or> t = Answer \<or> t = Candidate \<or> t = Bye"

definition hub_allowed :: "time \<Rightarrow> string \<Rightarrow> hub \<Rightarrow> hub \<times> bool" where
  "hub_allowed now peerID h =
     (case map_of (hub_conns h) peerID of
        None \<Rightarrow> (h, False)
      | Some held \<Rightarrow>
          let held1 = (if time_Sub now (hold_windowFrom held) > hub_window h
                       then held\<lparr>hold_windowFrom := now, hold_sent := 0\<rparr> else held);
              held2 = held1\<lparr>hold_sent := hold_sent held1 + 1\<rparr>
          in (h\<lparr>hub_conns := mput peerID held2 (hub_conns h)\<rparr>, hold_sent held2 \<le> hub_allowance h))"

definition hub_send ::
  "(conn \<Rightarrow> message \<Rightarrow> bool) \<Rightarrow> string \<Rightarrow> message \<Rightarrow> hub \<Rightarrow> hub_effect list \<times> hub_error option" where
  "hub_send writes peerID msg h =
     (case map_of (hub_conns h) peerID of
        None \<Rightarrow> ([], Some ErrNoConnection)
      | Some held \<Rightarrow>
          if writes (hold_conn held) msg then ([Wrote (hold_conn held) msg], None)
          else ([WriteFailed (hold_conn held) msg, CloseConn (hold_conn held) ''write failed''],
                Some ErrNotDelivered))"

definition hub_tell ::
  "(conn \<Rightarrow> message \<Rightarrow> bool) \<Rightarrow> string \<Rightarrow> string \<Rightarrow> string \<Rightarrow> hub \<Rightarrow> hub_effect list \<times> hub_error option" where
  "hub_tell writes peerID sessionID code h =
     hub_send writes peerID
       (message_zero\<lparr>msg_Type := ErrorType, msg_SessionID := sessionID, msg_Code := code\<rparr>) h"

type_synonym 'e sessions_iface = "string \<Rightarrow> string \<Rightarrow> 'e \<Rightarrow> 'e \<times> string \<times> bool"

definition hub_Route ::
  "'e sessions_iface \<Rightarrow> (conn \<Rightarrow> message \<Rightarrow> bool) \<Rightarrow> time \<Rightarrow> string \<Rightarrow> message \<Rightarrow> hub \<times> 'e \<Rightarrow>
   (hub \<times> 'e) \<times> hub_effect list \<times> hub_error option"
where
  "hub_Route other writes now from msg = (\<lambda>(h, e).
     if \<not> carriable (msg_Type msg)
     then ((h, e), hub_tell writes from (msg_SessionID msg) CodeUnknownType h)
     else
       let (h1, ok) = hub_allowed now from h
       in if \<not> ok then ((h1, e), hub_tell writes from (msg_SessionID msg) CodeTooFast h1)
          else
            let (e1, peer, inSession) = other (msg_SessionID msg) from e
            in if msg_SessionID msg = [] \<or> \<not> inSession
               then ((h1, e1), hub_tell writes from (msg_SessionID msg) CodeNotInSession h1)
               else
                 let msg1 = msg\<lparr>msg_From := from, msg_Code := [], msg_State := []\<rparr>;
                     (eff, err) = hub_send writes peer msg1 h1
                 in case err of
                      Some _ \<Rightarrow>
                        let (eff', err') = hub_tell writes from (msg_SessionID msg1) CodePeerNotConnected h1
                        in ((h1, e1), eff @ eff', err')
                    | None \<Rightarrow> ((h1, e1), eff, None))"

definition hub_Tell :: "(conn \<Rightarrow> message \<Rightarrow> bool) \<Rightarrow> string \<Rightarrow> message \<Rightarrow> hub \<Rightarrow> hub_effect list" where
  "hub_Tell writes peerID msg h = fst (hub_send writes peerID msg h)"

definition hub_SessionEnded ::
  "(conn \<Rightarrow> message \<Rightarrow> bool) \<Rightarrow> string \<Rightarrow> string \<Rightarrow> string list \<Rightarrow> hub \<Rightarrow> hub_effect list" where
  "hub_SessionEnded writes sessionID state peers h =
     concat (map (\<lambda>peerID. hub_Tell writes peerID
       (message_zero\<lparr>msg_Type := SessionState, msg_SessionID := sessionID, msg_State := state\<rparr>) h) peers)"

section \<open>The invariant\<close>

definition hub_wf :: "hub \<Rightarrow> bool" where
  "hub_wf h \<longleftrightarrow> mwf (hub_conns h) \<and> 0 < hub_allowance h \<and> 0 < hub_window h \<and> 0 < hub_sendTimeout h"

abbreviation hub_conn :: "hub \<Rightarrow> string \<Rightarrow> conn option" where
  "hub_conn h p \<equiv> map_option hold_conn (map_of (hub_conns h) p)"

lemma hub_New_wf: "hub_New opts = Inr h \<Longrightarrow> hub_wf h"
  by (auto simp: hub_New_def hub_wf_def DefaultMessagesPerWindow_def DefaultWindow_def
      DefaultSendTimeout_def minute_def second_def split: if_splits)

lemma hub_Register_wf: "hub_wf h \<Longrightarrow> hub_wf (fst (hub_Register now p c h))"
  by (auto simp: hub_wf_def hub_Register_def Let_def)

lemma hub_Deregister_wf: "hub_wf h \<Longrightarrow> hub_wf (fst (hub_Deregister p c h))"
  by (auto simp: hub_wf_def hub_Deregister_def split: option.splits)

lemma hub_allowed_wf: "hub_wf h \<Longrightarrow> hub_wf (fst (hub_allowed now p h))"
  by (auto simp: hub_wf_def hub_allowed_def Let_def split: option.splits)

lemma hub_allowed_conn [simp]: "hub_conn (fst (hub_allowed now p h)) q = hub_conn h q"
  by (auto simp: hub_allowed_def Let_def split: option.splits)

lemma hub_allowed_fields [simp]:
  "hub_allowance (fst (hub_allowed now p h)) = hub_allowance h"
  "hub_window (fst (hub_allowed now p h)) = hub_window h"
  "hub_presence (fst (hub_allowed now p h)) = hub_presence h"
  by (auto simp: hub_allowed_def Let_def split: option.splits)

lemma hub_Route_hub:
  "fst (fst (hub_Route other writes now from msg (h, e))) =
     (if carriable (msg_Type msg) then fst (hub_allowed now from h) else h)"
  by (simp add: hub_Route_def Let_def split_beta split: option.splits)

lemma hub_Route_wf:
  "hub_wf h \<Longrightarrow> hub_wf (fst (fst (hub_Route other writes now from msg (h, e))))"
  by (simp add: hub_Route_hub hub_allowed_wf)

lemma hub_Route_conn: "hub_conn (fst (fst (hub_Route other writes now from msg (h, e)))) q = hub_conn h q"
  by (simp add: hub_Route_hub)

lemma hub_send_conn:
  "hub_send writes p msg h =
     (case hub_conn h p of
        None \<Rightarrow> ([], Some ErrNoConnection)
      | Some c \<Rightarrow> if writes c msg then ([Wrote c msg], None)
          else ([WriteFailed c msg, CloseConn c ''write failed''], Some ErrNotDelivered))"
  by (simp add: hub_send_def split: option.splits)

section \<open>Route on every branch\<close>

text \<open>What goes out of a message: the sender named by its connection, nothing else added.\<close>

definition carried :: "string \<Rightarrow> message \<Rightarrow> message" where
  "carried sender msg = msg\<lparr>msg_From := sender, msg_Code := [], msg_State := []\<rparr>"

lemma carried_session: "msg_SessionID (carried sender msg) = msg_SessionID msg"
  by (simp add: carried_def)

text \<open>The connection a message is delivered on, once the session named the other peer.\<close>

definition route_target ::
  "(conn \<Rightarrow> message \<Rightarrow> bool) \<Rightarrow> string \<Rightarrow> message \<Rightarrow> string \<Rightarrow> hub \<Rightarrow> conn option" where
  "route_target writes sender msg q h =
     (case hub_conn h q of Some c \<Rightarrow> if writes c (carried sender msg) then Some c else None | None \<Rightarrow> None)"

text \<open>Why a message is refused, in the order the checks are made.\<close>

definition route_refusal ::
  "'e sessions_iface \<Rightarrow> (conn \<Rightarrow> message \<Rightarrow> bool) \<Rightarrow> time \<Rightarrow> string \<Rightarrow> message \<Rightarrow> hub \<Rightarrow> 'e \<Rightarrow> string option"
where
  "route_refusal other writes now sender msg h e =
     (let (q, within) = snd (other (msg_SessionID msg) sender e)
      in if \<not> carriable (msg_Type msg) then Some CodeUnknownType
         else if \<not> snd (hub_allowed now sender h) then Some CodeTooFast
         else if msg_SessionID msg = [] \<or> \<not> within then Some CodeNotInSession
         else if route_target writes sender msg q h = None then Some CodePeerNotConnected
         else None)"

text \<open>The answer a refused sender gets, on its own connection.\<close>

definition refusal_message :: "message \<Rightarrow> string \<Rightarrow> message" where
  "refusal_message msg code =
     \<lparr>msg_Type = ErrorType, msg_SessionID = msg_SessionID msg, msg_From = [], msg_Payload = [],
      msg_Code = code, msg_State = []\<rparr>"

lemma hub_tell_send:
  "hub_tell writes p (msg_SessionID msg) code h = hub_send writes p (refusal_message msg code) h"
  by (simp add: hub_tell_def message_zero_def refusal_message_def)

lemma hub_send_allowed [simp]: "hub_send writes p m (fst (hub_allowed now q h)) = hub_send writes p m h"
  by (simp add: hub_send_conn)

lemma hub_Route_effects:
  assumes "hub_Route other writes now sender msg (h, e) = ((h', e'), eff, err)"
  shows "case route_refusal other writes now sender msg h e of
     None \<Rightarrow> \<exists>q c. snd (other (msg_SessionID msg) sender e) = (q, True) \<and>
        route_target writes sender msg q h = Some c \<and> msg_SessionID msg \<noteq> [] \<and>
        eff = [Wrote c (carried sender msg)] \<and> err = None
   | Some code \<Rightarrow> \<exists>eff0.
        eff = eff0 @ fst (hub_send writes sender (refusal_message msg code) h) \<and>
        err = snd (hub_send writes sender (refusal_message msg code) h) \<and>
        (\<forall>c m. Wrote c m \<notin> set eff0) \<and> (code \<noteq> CodePeerNotConnected \<longrightarrow> eff0 = [])"
proof -
  obtain e1 q b where o: "other (msg_SessionID msg) sender e = (e1, q, b)" by (metis prod_cases3)
  have codes: "CodeUnknownType \<noteq> CodePeerNotConnected" "CodeTooFast \<noteq> CodePeerNotConnected"
      "CodeNotInSession \<noteq> CodePeerNotConnected"
    by (simp_all add: CodeUnknownType_def CodePeerNotConnected_def CodeTooFast_def CodeNotInSession_def)
  note run = assms [unfolded hub_Route_def Let_def split_beta fst_conv snd_conv o]
  have sent: "hub_send writes q (carried sender msg) h =
      (case route_target writes sender msg q h of Some c \<Rightarrow> ([Wrote c (carried sender msg)], None)
       | None \<Rightarrow> hub_send writes q (carried sender msg) h)"
    by (simp add: route_target_def hub_send_conn split: option.splits)
  consider (type) "\<not> carriable (msg_Type msg)"
    | (fast) "carriable (msg_Type msg)" "\<not> snd (hub_allowed now sender h)"
    | (out) "carriable (msg_Type msg)" "snd (hub_allowed now sender h)" "msg_SessionID msg = [] \<or> \<not> b"
    | (route) "carriable (msg_Type msg)" "snd (hub_allowed now sender h)" "msg_SessionID msg \<noteq> []" "b"
    by blast
  then show ?thesis
  proof cases
    case route
    have tell: "hub_tell writes sender (msg_SessionID msg) CodePeerNotConnected (fst (hub_allowed now sender h)) =
        hub_send writes sender (refusal_message msg CodePeerNotConnected) h"
      by (simp add: hub_tell_send)
    show ?thesis
    proof (cases "route_target writes sender msg q h")
      case (Some c)
      then have "hub_send writes q (carried sender msg) h = ([Wrote c (carried sender msg)], None)"
        using sent by simp
      with route run Some show ?thesis
        by (simp add: route_refusal_def o carried_def [symmetric])
    next
      case None
      then have fail: "snd (hub_send writes q (carried sender msg) h) \<noteq> None"
        and quiet: "\<And>c m. Wrote c m \<notin> set (fst (hub_send writes q (carried sender msg) h))"
        by (auto simp: route_target_def hub_send_conn split: option.splits if_splits)
      then obtain x where x: "snd (hub_send writes q (carried sender msg) h) = Some x" by auto
      have "eff = fst (hub_send writes q (carried sender msg) h) @
            fst (hub_send writes sender (refusal_message msg CodePeerNotConnected) h)"
          "err = snd (hub_send writes sender (refusal_message msg CodePeerNotConnected) h)"
        using route run x by (auto simp add: carried_def [symmetric] carried_session tell)
      with route None quiet show ?thesis by (auto simp: route_refusal_def o)
    qed
  qed (use run codes in \<open>auto simp: route_refusal_def o hub_tell_send\<close>)
qed

section \<open>The contract of Sessions\<close>

text \<open>
  What the hub relies on: being in a session is mutual, between two different peers,
  and asking changes no later answer at the same instant.
\<close>

locale sessions_answer =
  fixes other :: "string \<Rightarrow> string \<Rightarrow> 'e \<Rightarrow> 'e \<times> string \<times> bool"
    and good :: "'e \<Rightarrow> bool"
  assumes other_good: "good e \<Longrightarrow> good (fst (other sid p e))"
    and other_same: "good e \<Longrightarrow> snd (other sid' q (fst (other sid p e))) = snd (other sid' q e)"
    and other_mutual: "good e \<Longrightarrow> snd (other sid p e) = (q, True) \<Longrightarrow> q \<noteq> p \<and> snd (other sid q e) = (p, True)"
begin

text \<open>A delivery: the message that went out, to the other peer of the session and never back to the sender.\<close>

lemma Route_delivers:
  assumes "good e" and "hub_Route other writes now sender msg (h, e) = ((h', e'), eff, err)"
    and "Wrote c m \<in> set eff" and "carriable (msg_Type m)"
  shows "\<exists>q. snd (other (msg_SessionID msg) sender e) = (q, True) \<and> q \<noteq> sender \<and> hub_conn h q = Some c \<and>
     m = carried sender msg \<and> msg_SessionID msg \<noteq> []"
proof (cases "route_refusal other writes now sender msg h e")
  case None
  obtain q c' where q: "snd (other (msg_SessionID msg) sender e) = (q, True)"
      "route_target writes sender msg q h = Some c'" "msg_SessionID msg \<noteq> []"
      "eff = [Wrote c' (carried sender msg)]"
    using hub_Route_effects [OF assms(2)] None by auto
  have "c' = c" "m = carried sender msg" using assms(3) q(4) by simp_all
  moreover have "hub_conn h q = Some c'"
    using q(2) by (auto simp: route_target_def split: option.splits if_splits)
  ultimately show ?thesis using q other_mutual [OF assms(1) q(1)] by auto
next
  case (Some code)
  have "\<not> carriable (msg_Type (refusal_message msg code))"
    by (simp add: refusal_message_def carriable_def msg_types)
  then have "m \<noteq> refusal_message msg code" using assms(4) by auto
  moreover have "Wrote c m \<in> set (fst (hub_send writes sender (refusal_message msg code) h))"
    using hub_Route_effects [OF assms(2)] Some assms(3) by auto
  ultimately have False by (auto simp: hub_send_conn split: option.splits if_splits)
  then show ?thesis ..
qed

text \<open>The other peer can answer: its message in the same session goes back to the sender.\<close>

lemma Route_answers:
  assumes "good e" and "hub_Route other writes now sender msg (h, e) = ((h', e'), eff, err)"
    and "Wrote c m \<in> set eff" and "carriable (msg_Type m)"
  shows "\<exists>q. hub_conn h q = Some c \<and> snd (other (msg_SessionID m) q e') = (sender, True)"
proof -
  obtain q where q: "snd (other (msg_SessionID msg) sender e) = (q, True)" "hub_conn h q = Some c"
      "m = carried sender msg"
    using Route_delivers [OF assms] by blast
  have e': "e' = e \<or> e' = fst (other (msg_SessionID msg) sender e)"
    using arg_cong [OF assms(2), of "\<lambda>x. snd (fst x)"]
    by (auto simp: hub_Route_def Let_def split_beta split: if_splits option.splits)
  have "snd (other (msg_SessionID msg) q e) = (sender, True)"
    using other_mutual [OF assms(1) q(1)] by simp
  then have "snd (other (msg_SessionID msg) q e') = (sender, True)"
    using e' other_same [OF assms(1)] by auto
  with q show ?thesis by (auto simp: carried_def)
qed

lemma Route_good: "good e \<Longrightarrow> good (snd (fst (hub_Route other writes now from msg (h, e))))"
  using other_good by (auto simp: hub_Route_def Let_def split_beta split: option.splits)

end

section \<open>The contract of Presence\<close>

text \<open>What a hub's calls of its presence do to the state behind it, in the order it makes them.\<close>

fun presence_effect :: "(string \<Rightarrow> 'r \<Rightarrow> 'r) \<Rightarrow> (string \<Rightarrow> 'r \<Rightarrow> 'r) \<Rightarrow> hub_effect \<Rightarrow> 'r \<Rightarrow> 'r" where
  "presence_effect connected disconnected (PresenceConnected p) r = connected p r"
| "presence_effect connected disconnected (PresenceDisconnected p) r = disconnected p r"
| "presence_effect connected disconnected (Wrote _ _) r = r"
| "presence_effect connected disconnected (WriteFailed _ _) r = r"
| "presence_effect connected disconnected (CloseConn _ _) r = r"

text \<open>
  What a provider of Presence promises: a peer reported connected is present, and no
  report, of that peer or of another, makes a present peer absent.
\<close>

locale presence_answer =
  fixes connected :: "string \<Rightarrow> 'r \<Rightarrow> 'r"
    and disconnected :: "string \<Rightarrow> 'r \<Rightarrow> 'r"
    and present :: "string \<Rightarrow> 'r \<Rightarrow> bool"
    and known :: "string \<Rightarrow> bool"
    and good :: "'r \<Rightarrow> bool"
  assumes connected_good: "good r \<Longrightarrow> known p \<Longrightarrow> good (connected p r)"
    and connected_present: "good r \<Longrightarrow> known p \<Longrightarrow> present p (connected p r)"
    and connected_keeps: "good r \<Longrightarrow> known p \<Longrightarrow> present q r \<Longrightarrow> present q (connected p r)"
    and disconnected_good: "good r \<Longrightarrow> good (disconnected p r)"
    and disconnected_keeps: "good r \<Longrightarrow> present q r \<Longrightarrow> present q (disconnected p r)"
begin

text \<open>Reporting every peer of a list makes all of them present.\<close>

lemma all_present:
  assumes "good r" and "\<forall>p \<in> set ps. known p"
  shows "good (fold connected ps r) \<and> (\<forall>p. p \<in> set ps \<or> present p r \<longrightarrow> present p (fold connected ps r))"
  using assms
proof (induction ps arbitrary: r)
  case (Cons p ps)
  have p: "known p" and ps: "\<forall>q \<in> set ps. known q" using Cons.prems(2) by simp_all
  note r1 = connected_good [OF Cons.prems(1) p]
  have keep: "q = p \<or> present q r \<Longrightarrow> present q (connected p r)" for q
    using connected_present [OF Cons.prems(1) p] connected_keeps [OF Cons.prems(1) p] by blast
  from Cons.IH [OF r1 ps] keep show ?case by auto
qed simp

text \<open>What the hub reports keeps whoever is present, and ends with whom it reported.\<close>

lemma effects_present:
  assumes "good r" and "\<forall>p. PresenceConnected p \<in> set eff \<longrightarrow> known p"
  shows "good (fold (presence_effect connected disconnected) eff r) \<and>
     (\<forall>p. PresenceConnected p \<in> set eff \<or> present p r \<longrightarrow> present p (fold (presence_effect connected disconnected) eff r))"
  using assms
proof (induction eff arbitrary: r)
  case (Cons e eff)
  let ?r = "presence_effect connected disconnected e r"
  have rest: "\<forall>p. PresenceConnected p \<in> set eff \<longrightarrow> known p" using Cons.prems(2) by simp
  have good: "good ?r"
    using Cons.prems connected_good disconnected_good by (cases e) auto
  have keep: "present q ?r" if "e = PresenceConnected q \<or> present q r" for q
    using that Cons.prems connected_present connected_keeps disconnected_keeps by (cases e) auto
  from Cons.IH [OF good rest] keep show ?case by auto
qed simp

text \<open>Opening a channel makes its peer present.\<close>

lemma Register_present:
  assumes "good r" and "known p" and "hub_presence h" and "hub_Register now p c h = (h', eff)"
  shows "present p (fold (presence_effect connected disconnected) eff r)"
proof -
  have "PresenceConnected p \<in> set eff" "\<forall>q. PresenceConnected q \<in> set eff \<longrightarrow> q = p"
    using assms(3,4) by (auto simp: hub_Register_def Let_def split: option.splits)
  with effects_present [OF assms(1), of eff] assms(2) show ?thesis by blast
qed

end

section \<open>The allowance\<close>

text \<open>A run of messages from one peer, at the readings of the clock they arrive at.\<close>

fun allowed_run :: "string \<Rightarrow> time list \<Rightarrow> hub \<Rightarrow> hub \<times> bool list" where
  "allowed_run p [] h = (h, [])"
| "allowed_run p (t # ts) h =
     (let (h1, ok) = hub_allowed t p h; (h2, oks) = allowed_run p ts h1 in (h2, ok # oks))"

definition accepted :: "bool list \<Rightarrow> int" where
  "accepted oks = int (length (filter (\<lambda>ok. ok) oks))"

lemma accepted_simps [simp]:
  "accepted [] = 0" "accepted (True # oks) = accepted oks + 1" "accepted (False # oks) = accepted oks"
  by (simp_all add: accepted_def)

lemma accepted_Cons: "accepted (ok # oks) = (if ok then 1 else 0) + accepted oks"
  by simp

text \<open>As long as the window does not turn over, what is accepted fits in what is left of it.\<close>

lemma allowed_run_same_window:
  assumes "map_of (hub_conns h) p = Some held" and "\<forall>t \<in> set ts. time_Sub t (hold_windowFrom held) \<le> hub_window h"
  shows "accepted (snd (allowed_run p ts h)) \<le> max 0 (hub_allowance h - hold_sent held)"
  using assms
proof (induction ts arbitrary: h held)
  case Nil
  then show ?case by simp
next
  case (Cons t ts)
  let ?held = "held\<lparr>hold_sent := hold_sent held + 1\<rparr>"
  let ?h1 = "h\<lparr>hub_conns := mput p ?held (hub_conns h)\<rparr>"
  have step: "hub_allowed t p h = (?h1, hold_sent held + 1 \<le> hub_allowance h)"
    using Cons.prems by (simp add: hub_allowed_def Let_def)
  have "accepted (snd (allowed_run p ts ?h1)) \<le> max 0 (hub_allowance ?h1 - hold_sent ?held)"
    using Cons.prems by (intro Cons.IH) simp_all
  then show ?case by (auto simp add: step split_beta Let_def accepted_Cons max_def simp del: accepted_simps)
qed

text \<open>Within one span no longer than the window it turns over at most once.\<close>

lemma allowed_run_bound:
  assumes "sorted ts" and "\<forall>t \<in> set ts. \<forall>t' \<in> set ts. time_Sub t' t \<le> hub_window h"
    and "map_of (hub_conns h) p = Some held" and "0 \<le> hold_sent held" and "0 \<le> hub_allowance h"
  shows "accepted (snd (allowed_run p ts h)) \<le> max 0 (hub_allowance h - hold_sent held) + hub_allowance h"
  using assms
proof (induction ts arbitrary: h held)
  case Nil
  then show ?case by simp
next
  case (Cons t ts)
  show ?case
  proof (cases "time_Sub t (hold_windowFrom held) > hub_window h")
    case True
    let ?held = "held\<lparr>hold_windowFrom := t, hold_sent := 1\<rparr>"
    let ?h1 = "h\<lparr>hub_conns := mput p ?held (hub_conns h)\<rparr>"
    have step: "hub_allowed t p h = (?h1, 1 \<le> hub_allowance h)"
      using Cons.prems True by (simp add: hub_allowed_def Let_def)
    have "accepted (snd (allowed_run p ts ?h1)) \<le> max 0 (hub_allowance ?h1 - hold_sent ?held)"
      using Cons.prems by (intro allowed_run_same_window) auto
    then show ?thesis using Cons.prems(5)
      by (auto simp add: step split_beta Let_def accepted_Cons max_def simp del: accepted_simps)
  next
    case False
    let ?held = "held\<lparr>hold_sent := hold_sent held + 1\<rparr>"
    let ?h1 = "h\<lparr>hub_conns := mput p ?held (hub_conns h)\<rparr>"
    have step: "hub_allowed t p h = (?h1, hold_sent held + 1 \<le> hub_allowance h)"
      using Cons.prems False by (simp add: hub_allowed_def Let_def)
    have "accepted (snd (allowed_run p ts ?h1)) \<le> max 0 (hub_allowance ?h1 - hold_sent ?held) + hub_allowance ?h1"
      using Cons.prems by (intro Cons.IH) auto
    then show ?thesis by (auto simp add: step split_beta Let_def accepted_Cons max_def simp del: accepted_simps)
  qed
qed

lemma allowed_run_unknown: "map_of (hub_conns h) p = None \<Longrightarrow> accepted (snd (allowed_run p ts h)) = 0"
  by (induction ts) (simp_all add: hub_allowed_def split_beta Let_def)

section \<open>Histories of connections\<close>

datatype hub_event = RegisterEv time string conn | DeregisterEv string conn | MessageEv time string

fun hub_handle :: "hub_event \<Rightarrow> hub \<Rightarrow> hub \<times> hub_effect list" where
  "hub_handle (RegisterEv now p c) h = hub_Register now p c h"
| "hub_handle (DeregisterEv p c) h = hub_Deregister p c h"
| "hub_handle (MessageEv now p) h = (fst (hub_allowed now p h), [])"

fun hub_history :: "hub_event list \<Rightarrow> hub \<Rightarrow> hub \<times> hub_effect list" where
  "hub_history [] h = (h, [])"
| "hub_history (ev # evs) h =
     (let (h1, eff) = hub_handle ev h; (h2, effs) = hub_history evs h1 in (h2, eff @ effs))"

definition replaced :: "conn \<Rightarrow> hub_effect" where
  "replaced c = CloseConn c ''replaced by a newer connection''"

fun registered_conns :: "hub_event list \<Rightarrow> conn list" where
  "registered_conns [] = []"
| "registered_conns (RegisterEv _ _ c # evs) = c # registered_conns evs"
| "registered_conns (_ # evs) = registered_conns evs"

lemma hub_Register_conn: "hub_conn (fst (hub_Register now p c h)) q = (if q = p then Some c else hub_conn h q)"
  by (simp add: hub_Register_def Let_def)

lemma hub_Deregister_conn:
  "hub_conn (fst (hub_Deregister p c h)) q = (if q = p \<and> hub_conn h p = Some c then None else hub_conn h q)"
  by (auto simp: hub_Deregister_def split: option.splits)

lemma hub_Register_closes:
  "replaced c' \<in> set (snd (hub_Register now p c h)) \<longleftrightarrow> hub_conn h p = Some c'"
  by (cases "map_of (hub_conns h) p") (auto simp: hub_Register_def Let_def replaced_def)

lemma hub_Deregister_closes: "replaced c' \<notin> set (snd (hub_Deregister p c h))"
  by (auto simp: hub_Deregister_def replaced_def split: option.splits)

lemma hub_history_accounted:
  assumes "hub_history evs h = (h', effs)" and "hub_conn h p = Some c \<or> (\<exists>t. RegisterEv t p c \<in> set evs)"
  shows "hub_conn h' p = Some c \<or> replaced c \<in> set effs \<or> DeregisterEv p c \<in> set evs"
  using assms
proof (induction evs arbitrary: h effs)
  case Nil
  then show ?case by auto
next
  case (Cons ev evs)
  obtain h1 eff where ev: "hub_handle ev h = (h1, eff)" by fastforce
  obtain effs2 where rest: "hub_history evs h1 = (h', effs2)" "effs = eff @ effs2"
    using Cons.prems(1) ev by (cases "hub_history evs h1") auto
  have "hub_conn h1 p = Some c \<or> (\<exists>t. RegisterEv t p c \<in> set evs) \<or> replaced c \<in> set eff \<or> ev = DeregisterEv p c"
  proof (cases ev)
    case (RegisterEv t q d)
    then show ?thesis
      using Cons.prems(2) ev hub_Register_conn [of t q d h p] hub_Register_closes [of c t q d h]
      by (auto split: if_splits)
  next
    case (DeregisterEv q d)
    then show ?thesis
      using Cons.prems(2) ev hub_Deregister_conn [of q d h p] by (auto split: if_splits)
  next
    case (MessageEv t q)
    then show ?thesis using Cons.prems(2) ev hub_allowed_conn [of t q h p] by auto
  qed
  with Cons.IH [OF rest(1)] rest(2) show ?case by auto
qed

lemma hub_history_held:
  assumes "hub_history evs h = (h', effs)" and "hub_conn h' p = Some c"
  shows "hub_conn h p = Some c \<or> c \<in> set (registered_conns evs)"
  using assms
proof (induction evs arbitrary: h effs)
  case Nil
  then show ?case by auto
next
  case (Cons ev evs)
  obtain h1 eff where ev: "hub_handle ev h = (h1, eff)" by fastforce
  obtain effs2 where rest: "hub_history evs h1 = (h', effs2)"
    using Cons.prems(1) ev by (cases "hub_history evs h1") auto
  note IH = Cons.IH [OF rest Cons.prems(2)]
  show ?case
  proof (cases ev)
    case (RegisterEv t q d)
    have "hub_conn h1 p = (if p = q then Some d else hub_conn h p)"
      using ev hub_Register_conn [of t q d h p] by (simp add: RegisterEv)
    with IH show ?thesis by (cases "p = q") (auto simp: RegisterEv simp del: map_option_eq_Some)
  next
    case (DeregisterEv q d)
    have "hub_conn h1 p = (if p = q \<and> hub_conn h q = Some d then None else hub_conn h p)"
      using ev hub_Deregister_conn [of q d h p] by (simp add: DeregisterEv del: map_option_eq_Some)
    with IH show ?thesis
      by (cases "p = q \<and> hub_conn h q = Some d") (auto simp: DeregisterEv simp del: map_option_eq_Some)
  next
    case (MessageEv t q)
    have "hub_conn h1 p = hub_conn h p" using ev hub_allowed_conn [of t q h p] by (auto simp: MessageEv)
    with IH show ?thesis by (simp add: MessageEv del: map_option_eq_Some)
  qed
qed

text \<open>
  No connection is held for two peers, as long as each is registered once; and one
  that was told it is replaced is not held again.
\<close>

definition conns_once :: "hub \<Rightarrow> hub_event list \<Rightarrow> bool" where
  "conns_once h evs \<longleftrightarrow> distinct (registered_conns evs) \<and>
     (\<forall>p c. hub_conn h p = Some c \<longrightarrow> c \<notin> set (registered_conns evs)) \<and>
     (\<forall>p q c. hub_conn h p = Some c \<longrightarrow> hub_conn h q = Some c \<longrightarrow> p = q)"

lemma conns_once_step:
  assumes "conns_once h (ev # evs)" and "hub_handle ev h = (h1, eff)"
  shows "conns_once h1 evs"
    and "replaced c \<in> set eff \<Longrightarrow> hub_conn h1 p \<noteq> Some c \<and> c \<notin> set (registered_conns evs)"
proof -
  note once = assms(1) [unfolded conns_once_def]
  have "conns_once h1 evs \<and>
      (replaced c \<in> set eff \<longrightarrow> hub_conn h1 p \<noteq> Some c \<and> c \<notin> set (registered_conns evs))"
  proof (cases ev)
    case (RegisterEv t q d)
    have h1: "hub_conn h1 x = (if x = q then Some d else hub_conn h x)" for x
      using assms(2) hub_Register_conn [of t q d h x] by (simp add: RegisterEv)
    have close: "replaced c \<in> set eff \<longleftrightarrow> hub_conn h q = Some c"
      using assms(2) hub_Register_closes [of c t q d h] by (simp add: RegisterEv)
    have d: "d \<notin> set (registered_conns evs)" "distinct (registered_conns evs)" "\<And>x. hub_conn h x \<noteq> Some d"
      using once by (auto simp: RegisterEv)
    have old: "e \<notin> set (registered_conns evs)" if "hub_conn h x = Some e" for x e
      using once that by (auto simp: RegisterEv)
    have inj: "x = y" if "hub_conn h x = Some e" "hub_conn h y = Some e" for x y e
      using once that by blast
    have "conns_once h1 evs"
      unfolding conns_once_def h1 using d old inj by (auto split: if_splits)
    moreover have "hub_conn h1 p \<noteq> Some c \<and> c \<notin> set (registered_conns evs)" if "hub_conn h q = Some c"
      using that old d(3) inj unfolding h1 by auto
    ultimately show ?thesis using close by blast
  next
    case (DeregisterEv q d)
    have h1: "hub_conn h1 x = (if x = q \<and> hub_conn h q = Some d then None else hub_conn h x)" for x
      using assms(2) hub_Deregister_conn [of q d h x] by (simp add: DeregisterEv)
    have "replaced c \<notin> set eff"
      using assms(2) hub_Deregister_closes [of c q d h] by (simp add: DeregisterEv)
    moreover have "conns_once h1 evs"
      using once unfolding conns_once_def h1 by (auto simp: DeregisterEv split: if_splits)
    ultimately show ?thesis by blast
  next
    case (MessageEv t q)
    have h1: "hub_conn h1 x = hub_conn h x" for x
      using assms(2) hub_allowed_conn [of t q h x] by (auto simp: MessageEv)
    have "eff = []" using assms(2) by (simp add: MessageEv)
    moreover have "conns_once h1 evs"
      using once unfolding conns_once_def h1 by (auto simp: MessageEv)
    ultimately show ?thesis by simp
  qed
  then show "conns_once h1 evs"
    and "replaced c \<in> set eff \<Longrightarrow> hub_conn h1 p \<noteq> Some c \<and> c \<notin> set (registered_conns evs)" by blast+
qed

lemma hub_history_replaced:
  assumes "conns_once h evs" and "hub_history evs h = (h', effs)" and "replaced c \<in> set effs"
  shows "hub_conn h' p \<noteq> Some c"
  using assms
proof (induction evs arbitrary: h effs)
  case Nil
  then show ?case by simp
next
  case (Cons ev evs)
  obtain h1 eff where ev: "hub_handle ev h = (h1, eff)" by fastforce
  obtain effs2 where rest: "hub_history evs h1 = (h', effs2)" "effs = eff @ effs2"
    using Cons.prems(2) ev by (cases "hub_history evs h1") auto
  note once = conns_once_step [OF Cons.prems(1) ev]
  show ?case
  proof (cases "replaced c \<in> set eff")
    case True
    with once(2) [where p = p] hub_history_held [OF rest(1), of p c] show ?thesis by blast
  next
    case False
    with Cons.prems(3) rest(2) have "replaced c \<in> set effs2" by simp
    with Cons.IH [OF once(1) rest(1)] show ?thesis by blast
  qed
qed

lemma conns_once_unique:
  assumes "conns_once h evs" and "hub_history evs h = (h', effs)"
    and "hub_conn h' p = Some c" and "hub_conn h' q = Some c"
  shows "p = q"
  using assms
proof (induction evs arbitrary: h effs)
  case Nil
  then show ?case by (simp add: conns_once_def)
next
  case (Cons ev evs)
  obtain h1 eff where ev: "hub_handle ev h = (h1, eff)" by fastforce
  obtain effs2 where rest: "hub_history evs h1 = (h', effs2)"
    using Cons.prems(2) ev by (cases "hub_history evs h1") auto
  from Cons.IH [OF conns_once_step(1) [OF Cons.prems(1) ev] rest Cons.prems(3,4)] show ?case .
qed

section \<open>Properties\<close>

definition sample_hub :: hub where
  "sample_hub =
     \<lparr>hub_conns = [(''a'', \<lparr>hold_conn = 1, hold_sent = 0, hold_windowFrom = 0\<rparr>),
                   (''b'', \<lparr>hold_conn = 2, hold_sent = 0, hold_windowFrom = 0\<rparr>)],
      hub_presence = True, hub_allowance = 2, hub_window = minute, hub_sendTimeout = 5 * second\<rparr>"

definition sample_offer :: message where
  "sample_offer = message_zero\<lparr>msg_Type := Offer, msg_SessionID := ''s'', msg_From := ''mallory''\<rparr>"

text \<open>
  C29: A message through the hub, on every branch. It is refused for its type, then for
  the sender's allowance, then for its session, then for the other peer's channel, and
  a refused sender is answered with that code on its own connection and with nothing
  else; a message that is not refused is written once, to the other peer of the
  session, with its payload and type untouched and its sender named by the connection
  it came in on. No connection changes hands.
\<close>

theorem hub_Route_spec:
  assumes "hub_Route other writes now sender msg (h, e) = ((h', e'), eff, err)"
  shows "(case route_refusal other writes now sender msg h e of
     None \<Rightarrow> \<exists>q c. snd (other (msg_SessionID msg) sender e) = (q, True) \<and> hub_conn h q = Some c \<and>
        eff = [Wrote c (msg\<lparr>msg_From := sender, msg_Code := [], msg_State := []\<rparr>)] \<and> err = None
   | Some code \<Rightarrow>
        {(c, m). Wrote c m \<in> set eff} =
          {(c, m). m = refusal_message msg code \<and> hub_conn h sender = Some c \<and> writes c m} \<and>
        (err = None \<longleftrightarrow> (\<exists>c. hub_conn h sender = Some c \<and> writes c (refusal_message msg code)))) \<and>
     (\<forall>p. hub_conn h' p = hub_conn h p)"
proof -
  have "h' = (if carriable (msg_Type msg) then fst (hub_allowed now sender h) else h)"
    using hub_Route_hub [of other writes now sender msg h e] assms by simp
  then have same: "hub_conn h' p = hub_conn h p" for p by simp
  show ?thesis
  proof (cases "route_refusal other writes now sender msg h e")
    case None
    with hub_Route_effects [OF assms] same show ?thesis
      by (auto simp: carried_def route_target_def split: option.splits if_splits)
  next
    case (Some code)
    then obtain eff0 where e: "eff = eff0 @ fst (hub_send writes sender (refusal_message msg code) h)"
        "err = snd (hub_send writes sender (refusal_message msg code) h)" "\<And>c m. Wrote c m \<notin> set eff0"
      using hub_Route_effects [OF assms] by auto
    show ?thesis
      using Some same e(3) by (auto simp: e(1,2) hub_send_conn split: option.splits if_splits)
  qed
qed

theorem hub_Route_spec_witness:
  "fst (snd (hub_Route (\<lambda>_ _ e. (e, ''b'', True)) (\<lambda>_ _. True) 5 ''a'' sample_offer (sample_hub, 0 :: nat))) =
     [Wrote 2 (sample_offer\<lparr>msg_From := ''a''\<rparr>)]"
proof -
  have allowed: "snd (hub_allowed 5 ''a'' sample_hub)"
    by (simp add: hub_allowed_def sample_hub_def time_Sub_def max_duration_def min_duration_def minute_def second_def)
  have ref: "route_refusal (\<lambda>_ _ e. (e, ''b'', True)) (\<lambda>_ _. True) 5 ''a'' sample_offer sample_hub (0 :: nat) = None"
    using allowed by (simp add: route_refusal_def carriable_def route_target_def)
      (simp add: sample_offer_def sample_hub_def message_zero_def msg_types)
  have m: "sample_offer\<lparr>msg_From := ''a'', msg_Code := [], msg_State := []\<rparr> = sample_offer\<lparr>msg_From := ''a''\<rparr>"
    by (simp add: sample_offer_def message_zero_def)
  have c: "hub_conn sample_hub ''b'' = Some 2" by (simp add: sample_hub_def)
  let ?r = "hub_Route (\<lambda>_ _ e. (e, ''b'', True)) (\<lambda>_ _. True) 5 ''a'' sample_offer (sample_hub, 0 :: nat)"
  obtain h' e' eff err where run: "?r = ((h', e'), eff, err)" by (metis prod.exhaust)
  show ?thesis
    using hub_Route_spec [OF run] by (simp add: run ref c m del: map_option_eq_Some)
qed

text \<open>
  C30: The allowance. Of the messages a peer sends within any span no longer than the
  window, whatever it had sent before, at most twice the allowance are let through; of
  those within the window of its channel's opening, at most the allowance.
\<close>

theorem hub_allowance_bound:
  assumes "hub_wf h" and "sorted ts" and "\<forall>t \<in> set ts. \<forall>t' \<in> set ts. time_Sub t' t \<le> hub_window h"
    and "\<forall>held. map_of (hub_conns h) p = Some held \<longrightarrow> 0 \<le> hold_sent held"
  shows "accepted (snd (allowed_run p ts h)) \<le> 2 * hub_allowance h \<and>
     ((\<forall>t \<in> set ts. time_Sub t now \<le> hub_window h) \<longrightarrow>
        accepted (snd (allowed_run p ts (fst (hub_Register now p c h)))) \<le> hub_allowance h)"
proof
  have pos: "0 < hub_allowance h" using assms(1) by (simp add: hub_wf_def)
  show "accepted (snd (allowed_run p ts h)) \<le> 2 * hub_allowance h"
  proof (cases "map_of (hub_conns h) p")
    case None
    with pos show ?thesis by (simp add: allowed_run_unknown)
  next
    case (Some held)
    have "0 \<le> hold_sent held" using assms(4) Some by blast
    with allowed_run_bound [OF assms(2,3) Some _ less_imp_le [OF pos]] pos show ?thesis by simp
  qed
  show "(\<forall>t \<in> set ts. time_Sub t now \<le> hub_window h) \<longrightarrow>
      accepted (snd (allowed_run p ts (fst (hub_Register now p c h)))) \<le> hub_allowance h"
  proof
    assume within: "\<forall>t \<in> set ts. time_Sub t now \<le> hub_window h"
    let ?held = "\<lparr>hold_conn = c, hold_sent = 0, hold_windowFrom = now\<rparr>"
    have "accepted (snd (allowed_run p ts (fst (hub_Register now p c h)))) \<le>
        max 0 (hub_allowance (fst (hub_Register now p c h)) - hold_sent ?held)"
      by (rule allowed_run_same_window) (use within in \<open>simp_all add: hub_Register_def Let_def\<close>)
    with pos show "accepted (snd (allowed_run p ts (fst (hub_Register now p c h)))) \<le> hub_allowance h"
      by (simp add: hub_Register_def Let_def)
  qed
qed

theorem hub_allowance_bound_witness:
  "accepted (snd (allowed_run ''a'' [1, 2, 3] (fst (hub_Register 0 ''a'' 7 sample_hub)))) \<le> 2"
  using hub_allowance_bound [of sample_hub "[1, 2, 3]" "''a''" 0 7]
  by (simp add: sample_hub_def hub_wf_def mwf_def minute_def second_def time_Sub_def
      max_duration_def min_duration_def)

text \<open>
  C31: Connections through any history of channels opening, closing and sending, each
  channel registered once. A channel that was opened is held, was closed as replaced by
  a newer one, or was deregistered; one closed as replaced is not held, and the end of
  one that was replaced does not remove its replacement; no channel is held for two
  peers.
\<close>

theorem hub_history_connections:
  assumes "conns_once h evs" and "hub_history evs h = (h', effs)"
  shows "(\<forall>p c t. RegisterEv t p c \<in> set evs \<longrightarrow>
        hub_conn h' p = Some c \<or> replaced c \<in> set effs \<or> DeregisterEv p c \<in> set evs) \<and>
     (\<forall>p c. replaced c \<in> set effs \<longrightarrow> hub_conn h' p \<noteq> Some c) \<and>
     (\<forall>p c d. hub_conn h' p = Some c \<longrightarrow> d \<noteq> c \<longrightarrow> fst (hub_Deregister p d h') = h') \<and>
     (\<forall>p q c. hub_conn h' p = Some c \<longrightarrow> hub_conn h' q = Some c \<longrightarrow> p = q)"
proof (intro conjI allI impI)
  show "hub_conn h' p = Some c \<or> replaced c \<in> set effs \<or> DeregisterEv p c \<in> set evs"
    if "RegisterEv t p c \<in> set evs" for p c t
    using hub_history_accounted [OF assms(2)] that by blast
  show "hub_conn h' p \<noteq> Some c" if "replaced c \<in> set effs" for p c
    using hub_history_replaced [OF assms that] .
  show "fst (hub_Deregister p d h') = h'" if "hub_conn h' p = Some c" "d \<noteq> c" for p c d
    using that by (auto simp: hub_Deregister_def)
  show "p = q" if "hub_conn h' p = Some c" "hub_conn h' q = Some c" for p q c
    using conns_once_unique [OF assms that] .
qed

theorem hub_history_connections_witness:
  "case hub_history [RegisterEv 1 ''a'' 7, DeregisterEv ''a'' 1] sample_hub of
     (h', effs) \<Rightarrow> hub_conn h' ''a'' = Some 7 \<or> replaced 7 \<in> set effs"
proof -
  obtain h' effs where run: "hub_history [RegisterEv 1 ''a'' 7, DeregisterEv ''a'' 1] sample_hub = (h', effs)"
    by fastforce
  have "conns_once sample_hub [RegisterEv 1 ''a'' 7, DeregisterEv ''a'' 1]"
    by (auto simp: conns_once_def sample_hub_def split: if_splits)
  from hub_history_connections [OF this run]
  show ?thesis unfolding run by simp
qed

end
