(* ===== verification/Limiter.thy ===== *)
theory Limiter
  imports Go_Map
begin

text \<open>
  internal/auth/limiter.go: failed authentications counted per client identifier, in a
  map of bounded size with an eviction order beside it. Each operation is one critical
  section; its clock is read as one instant \<open>now\<close>.
\<close>

section \<open>Data and operations\<close>

definition sweepThreshold :: int where
  "sweepThreshold = 1024"

definition maxTracked :: int where
  "maxTracked = 8192"

record failureRecord =
  fr_count :: int
  fr_startedAt :: time

record limiter =
  lim_allowance :: int
  lim_window :: duration
  lim_failures :: "(string, failureRecord) gomap"
  lim_order :: "string list"
  lim_lastSweep :: time

datatype limiter_error = AllowanceNotPositive int | WindowNotPositive duration

text \<open>The zero time, which lastSweep starts at.\<close>

definition time_zero :: time where
  "time_zero = 0"

definition NewAttemptLimiter :: "int \<Rightarrow> duration \<Rightarrow> limiter_error + limiter" where
  "NewAttemptLimiter allowance window =
     (if allowance \<le> 0 then Inl (AllowanceNotPositive allowance)
      else if window \<le> 0 then Inl (WindowNotPositive window)
      else Inr
        \<lparr>lim_allowance = allowance, lim_window = window, lim_failures = [], lim_order = [],
         lim_lastSweep = time_zero\<rparr>)"

definition fr_expired :: "time \<Rightarrow> failureRecord \<Rightarrow> limiter \<Rightarrow> bool" where
  "fr_expired now fr l \<longleftrightarrow> time_Sub now (fr_startedAt fr) > lim_window l"

definition limiter_Allowed :: "time \<Rightarrow> string \<Rightarrow> limiter \<Rightarrow> bool" where
  "limiter_Allowed now cid l =
     (case map_of (lim_failures l) cid of
        None \<Rightarrow> True
      | Some fr \<Rightarrow> if fr_expired now fr l then True else fr_count fr < lim_allowance l)"

fun evict_loop :: "string list \<Rightarrow> limiter \<Rightarrow> limiter" where
  "evict_loop [] l = l\<lparr>lim_order := []\<rparr>"
| "evict_loop (oldest # rest) l =
     (if map_of (lim_failures l) oldest \<noteq> None
      then l\<lparr>lim_order := rest, lim_failures := mdel oldest (lim_failures l)\<rparr>
      else evict_loop rest l)"

definition evictOldest :: "limiter \<Rightarrow> limiter" where
  "evictOldest l = evict_loop (lim_order l) l"

definition limiter_sweep :: "string range_order \<Rightarrow> time \<Rightarrow> limiter \<Rightarrow> limiter" where
  "limiter_sweep ord now l =
     (let l1 = l\<lparr>lim_lastSweep := now\<rparr>;
          (kept, _) = map_prune (\<lambda>_ fr. fr_expired now fr l1) (ord (mkeys (lim_failures l1))) (lim_failures l1);
          l2 = l1\<lparr>lim_failures := kept\<rparr>
      in l2\<lparr>lim_order := filter (\<lambda>cid. map_of (lim_failures l2) cid \<noteq> None) (lim_order l2)\<rparr>)"

text \<open>
  The loop that evicts down to the ceiling. Nothing bounds it in the code but the
  order list, so it is a partial function: a map over the ceiling with an empty order
  would loop forever.
\<close>

partial_function (option) evict_over :: "limiter \<Rightarrow> limiter option" where
  "evict_over l =
     (if int (length (lim_failures l)) > maxTracked then evict_over (evictOldest l) else Some l)"

definition limiter_record :: "time \<Rightarrow> string \<Rightarrow> limiter \<Rightarrow> limiter" where
  "limiter_record now cid l =
     (let tracked = map_of (lim_failures l) cid;
          fr0 = (case tracked of
                   Some fr \<Rightarrow> if fr_expired now fr l then \<lparr>fr_count = 0, fr_startedAt = now\<rparr> else fr
                 | None \<Rightarrow> \<lparr>fr_count = 0, fr_startedAt = now\<rparr>);
          fr = fr0\<lparr>fr_count := fr_count fr0 + 1\<rparr>;
          l1 = l\<lparr>lim_failures := mput cid fr (lim_failures l)\<rparr>
      in if tracked = None then l1\<lparr>lim_order := lim_order l1 @ [cid]\<rparr> else l1)"

definition limiter_Failed :: "string range_order \<Rightarrow> time \<Rightarrow> string \<Rightarrow> limiter \<Rightarrow> limiter option" where
  "limiter_Failed ord now cid l =
     (let l1 = limiter_record now cid l;
          l2 = (if int (length (lim_failures l1)) > sweepThreshold \<and>
                   time_Sub now (lim_lastSweep l1) \<ge> lim_window l1
                then limiter_sweep ord now l1 else l1)
      in evict_over l2)"

definition limiter_Succeeded :: "string \<Rightarrow> limiter \<Rightarrow> limiter" where
  "limiter_Succeeded cid l = l\<lparr>lim_failures := mdel cid (lim_failures l)\<rparr>"

definition limiter_Tracked :: "limiter \<Rightarrow> int" where
  "limiter_Tracked l = int (length (lim_failures l))"

section \<open>The invariant\<close>

definition limiter_wf :: "limiter \<Rightarrow> bool" where
  "limiter_wf l \<longleftrightarrow>
     0 < lim_allowance l \<and> 0 < lim_window l \<and> mwf (lim_failures l) \<and>
     dom (map_of (lim_failures l)) \<subseteq> set (lim_order l) \<and>
     (\<forall>cid fr. map_of (lim_failures l) cid = Some fr \<longrightarrow> 0 < fr_count fr)"

definition limiter_bounded :: "limiter \<Rightarrow> bool" where
  "limiter_bounded l \<longleftrightarrow> limiter_wf l \<and> limiter_Tracked l \<le> maxTracked"

lemma NewAttemptLimiter_bounded: "NewAttemptLimiter a w = Inr l \<Longrightarrow> limiter_bounded l"
  by (auto simp: NewAttemptLimiter_def limiter_bounded_def limiter_wf_def limiter_Tracked_def
      maxTracked_def split: if_splits)

lemma limiter_Succeeded_bounded: "limiter_bounded l \<Longrightarrow> limiter_bounded (limiter_Succeeded cid l)"
  using gm.len_del_le [of "lim_failures l" cid]
  by (auto simp: limiter_bounded_def limiter_wf_def limiter_Succeeded_def limiter_Tracked_def split: if_splits)

text \<open>The records still inside their window: what an answer can depend on.\<close>

definition live_failures :: "limiter \<Rightarrow> time \<Rightarrow> string \<Rightarrow> failureRecord option" where
  "live_failures l now cid =
     (case map_of (lim_failures l) cid of
        Some fr \<Rightarrow> if fr_expired now fr l then None else Some fr
      | None \<Rightarrow> None)"

lemma limiter_Allowed_live:
  "limiter_Allowed now cid l =
     (case live_failures l now cid of Some fr \<Rightarrow> fr_count fr < lim_allowance l | None \<Rightarrow> True)"
  by (simp add: limiter_Allowed_def live_failures_def split: option.splits)

section \<open>Recording, sweeping and evicting\<close>

definition limiter_settings :: "limiter \<Rightarrow> int \<times> duration" where
  "limiter_settings l = (lim_allowance l, lim_window l)"

definition next_failure :: "time \<Rightarrow> failureRecord option \<Rightarrow> failureRecord" where
  "next_failure now x =
     (case x of Some fr \<Rightarrow> fr\<lparr>fr_count := fr_count fr + 1\<rparr> | None \<Rightarrow> \<lparr>fr_count = 1, fr_startedAt = now\<rparr>)"

lemma limiter_record_get:
  "map_of (lim_failures (limiter_record now cid l)) =
     (map_of (lim_failures l))(cid \<mapsto> next_failure now (live_failures l now cid))"
  by (auto simp: limiter_record_def next_failure_def live_failures_def Let_def split: option.splits)

lemma limiter_record_settings [simp]:
  "lim_allowance (limiter_record now cid l) = lim_allowance l"
  "lim_window (limiter_record now cid l) = lim_window l"
  "lim_lastSweep (limiter_record now cid l) = lim_lastSweep l"
  by (simp_all add: limiter_record_def Let_def)

lemma fr_expired_cong: "lim_window l' = lim_window l \<Longrightarrow> fr_expired now fr l' = fr_expired now fr l"
  by (simp add: fr_expired_def)

lemma limiter_record_wf:
  assumes "limiter_wf l"
  shows "limiter_wf (limiter_record now cid l)"
proof -
  have pos: "0 < fr_count fr" if "map_of (lim_failures l) c = Some fr" for c fr
    using assms that by (simp add: limiter_wf_def)
  have "0 < fr_count (next_failure now (live_failures l now cid))"
    using pos [of cid] by (auto simp: next_failure_def live_failures_def split: option.splits if_splits)
  then have counts: "0 < fr_count fr" if "map_of (lim_failures (limiter_record now cid l)) c = Some fr" for c fr
    using that pos [of c fr] by (auto simp: limiter_record_get split: if_splits)
  have "mwf (lim_failures (limiter_record now cid l))"
    using assms by (auto simp: limiter_wf_def limiter_record_def Let_def)
  moreover have "set (lim_order (limiter_record now cid l)) = insert cid (set (lim_order l))"
    using assms by (auto simp: limiter_wf_def limiter_record_def Let_def)
  ultimately show ?thesis
    using assms counts unfolding limiter_wf_def
    by (auto simp: limiter_record_get split: if_splits)
qed

lemma limiter_sweep_get:
  assumes "mwf (lim_failures l)" and "range_ok ord"
  shows "map_of (lim_failures (limiter_sweep ord now l)) = live_failures l now"
proof (rule ext)
  fix c
  have "map_of (lim_failures (limiter_sweep ord now l)) c =
      (case map_of (lim_failures l) c of Some v \<Rightarrow> if fr_expired now v l then None else Some v | None \<Rightarrow> None)"
    using map_prune_all [OF assms(2,1), of "\<lambda>_ fr. fr_expired now fr l" c]
    by (simp add: limiter_sweep_def Let_def split_beta fr_expired_def)
  then show "map_of (lim_failures (limiter_sweep ord now l)) c = live_failures l now c"
    by (simp add: live_failures_def)
qed

lemma limiter_sweep_fields [simp]:
  "lim_allowance (limiter_sweep ord now l) = lim_allowance l"
  "lim_window (limiter_sweep ord now l) = lim_window l"
  by (simp_all add: limiter_sweep_def Let_def split_beta)

lemma limiter_sweep_order:
  "lim_order (limiter_sweep ord now l) =
     filter (\<lambda>c. map_of (lim_failures (limiter_sweep ord now l)) c \<noteq> None) (lim_order l)"
  by (simp add: limiter_sweep_def Let_def split_beta)

lemma limiter_sweep_wf:
  assumes "limiter_wf l" and "range_ok ord"
  shows "limiter_wf (limiter_sweep ord now l)"
proof -
  have m: "mwf (lim_failures l)" using assms(1) by (simp add: limiter_wf_def)
  have "mwf (lim_failures (limiter_sweep ord now l))"
    using m by (auto simp: limiter_sweep_def Let_def split_beta)
  then show ?thesis
    using assms(1) unfolding limiter_wf_def limiter_sweep_order
    by (auto simp: limiter_sweep_get [OF m assms(2)] live_failures_def split: option.splits if_splits)
qed

lemma evict_loop_effect:
  assumes "map_of (lim_failures l) c \<noteq> None" and "dom (map_of (lim_failures l)) \<subseteq> set ord"
  shows "\<exists>oldest rest. map_of (lim_failures l) oldest \<noteq> None \<and>
     evict_loop ord l = l\<lparr>lim_order := rest, lim_failures := mdel oldest (lim_failures l)\<rparr> \<and>
     (\<exists>skipped. ord = skipped @ oldest # rest \<and> (\<forall>x \<in> set skipped. map_of (lim_failures l) x = None))"
  using assms(2)
proof (induction ord)
  case Nil
  with assms(1) show ?case by auto
next
  case (Cons x ord)
  show ?case
  proof (cases "map_of (lim_failures l) x")
    case None
    then have "dom (map_of (lim_failures l)) \<subseteq> set ord" using Cons.prems by auto
    then obtain oldest rest skipped where *: "map_of (lim_failures l) oldest \<noteq> None"
        "evict_loop ord l = l\<lparr>lim_order := rest, lim_failures := mdel oldest (lim_failures l)\<rparr>"
        "ord = skipped @ oldest # rest" "\<forall>x \<in> set skipped. map_of (lim_failures l) x = None"
      using Cons.IH by blast
    with None show ?thesis
      by (intro exI [of _ oldest] exI [of _ rest] conjI exI [of _ "x # skipped"]) simp_all
  next
    case (Some fr)
    then show ?thesis
      by (intro exI [of _ x] exI [of _ ord] conjI exI [of _ "[]"]) simp_all
  qed
qed

lemma evictOldest_effect:
  assumes "limiter_wf l" and "lim_failures l \<noteq> []"
  shows "\<exists>oldest. map_of (lim_failures l) oldest \<noteq> None \<and>
     map_of (lim_failures (evictOldest l)) = (map_of (lim_failures l))(oldest := None)"
    and "limiter_wf (evictOldest l)" and "limiter_settings (evictOldest l) = limiter_settings l"
    and "Suc (length (lim_failures (evictOldest l))) = length (lim_failures l)"
proof -
  have m: "mwf (lim_failures l)" and sub: "dom (map_of (lim_failures l)) \<subseteq> set (lim_order l)"
    using assms(1) by (simp_all add: limiter_wf_def)
  obtain c v where "lim_failures l = (c, v) # tl (lim_failures l)"
    using assms(2) by (metis list.exhaust_sel prod.exhaust)
  then have "map_of (lim_failures l) c \<noteq> None" by (metis map_of_Cons_code(2) option.distinct(1))
  from evict_loop_effect [OF this sub] obtain oldest rest skipped where
    o: "map_of (lim_failures l) oldest \<noteq> None"
      "evictOldest l = l\<lparr>lim_order := rest, lim_failures := mdel oldest (lim_failures l)\<rparr>"
      "lim_order l = skipped @ oldest # rest" "\<forall>x \<in> set skipped. map_of (lim_failures l) x = None"
    unfolding evictOldest_def by blast
  show "\<exists>oldest. map_of (lim_failures l) oldest \<noteq> None \<and>
     map_of (lim_failures (evictOldest l)) = (map_of (lim_failures l))(oldest := None)"
    using o(1) by (intro exI [of _ oldest]) (simp add: o(2))
  have "dom (map_of (lim_failures l)) - {oldest} \<subseteq> set rest"
  proof
    fix x
    assume x: "x \<in> dom (map_of (lim_failures l)) - {oldest}"
    with sub have "x \<in> set skipped \<or> x = oldest \<or> x \<in> set rest" by (auto simp: o(3))
    with x o(4) show "x \<in> set rest" by auto
  qed
  then show "limiter_wf (evictOldest l)"
    using assms(1) m by (auto simp: limiter_wf_def o(2) split: if_splits)
  show "limiter_settings (evictOldest l) = limiter_settings l"
    by (simp add: o(2) limiter_settings_def)
  obtain v where "map_of (lim_failures l) oldest = Some v" using o(1) by auto
  with gm.len_del [OF m, of oldest] gm.len_pos [OF m] show
    "Suc (length (lim_failures (evictOldest l))) = length (lim_failures l)"
    by (simp add: o(2))
qed

text \<open>The eviction loop ends, and removes exactly what is over the ceiling.\<close>

lemma evict_over_effect:
  assumes "limiter_wf l"
  shows "\<exists>l' E. evict_over l = Some l' \<and> limiter_bounded l' \<and> limiter_settings l' = limiter_settings l \<and>
     map_of (lim_failures l') = (\<lambda>c. if c \<in> E then None else map_of (lim_failures l) c) \<and>
     E \<subseteq> dom (map_of (lim_failures l)) \<and> int (card E) = max 0 (limiter_Tracked l - maxTracked) \<and> finite E"
  using assms
proof (induction "length (lim_failures l)" arbitrary: l)
  case 0
  then have "evict_over l = Some l" by (simp add: evict_over.simps maxTracked_def)
  with 0 show ?case
    by (intro exI [of _ l] exI [of _ "{}"]) (auto simp: limiter_bounded_def limiter_Tracked_def maxTracked_def)
next
  case (Suc n)
  show ?case
  proof (cases "int (length (lim_failures l)) > maxTracked")
    case False
    then have "evict_over l = Some l" by (simp add: evict_over.simps)
    with Suc.prems False show ?thesis
      by (intro exI [of _ l] exI [of _ "{}"]) (auto simp: limiter_bounded_def limiter_Tracked_def)
  next
    case True
    then have ne: "lim_failures l \<noteq> []" by (auto simp: maxTracked_def)
    note ev = evictOldest_effect [OF Suc.prems ne]
    obtain oldest where old: "map_of (lim_failures l) oldest \<noteq> None"
      "map_of (lim_failures (evictOldest l)) = (map_of (lim_failures l))(oldest := None)" using ev(1) by blast
    have n: "n = length (lim_failures (evictOldest l))" using Suc.hyps(2) ev(4) by simp
    obtain l' E where IH: "evict_over (evictOldest l) = Some l'" "limiter_bounded l'"
        "limiter_settings l' = limiter_settings (evictOldest l)"
        "map_of (lim_failures l') = (\<lambda>c. if c \<in> E then None else map_of (lim_failures (evictOldest l)) c)"
        "E \<subseteq> dom (map_of (lim_failures (evictOldest l)))"
        "int (card E) = max 0 (limiter_Tracked (evictOldest l) - maxTracked)" "finite E"
      using Suc.hyps(1) [OF n ev(2)] by blast
    have notin: "oldest \<notin> E" using IH(5) by (auto simp: old(2))
    have "evict_over l = Some l'" using True IH(1) by (simp add: evict_over.simps [of l])
    moreover have "map_of (lim_failures l') = (\<lambda>c. if c \<in> insert oldest E then None else map_of (lim_failures l) c)"
      by (rule ext) (simp add: IH(4) old(2))
    moreover have "insert oldest E \<subseteq> dom (map_of (lim_failures l))"
      using old(1) IH(5) by (auto simp: old(2) split: if_splits)
    moreover have "int (card (insert oldest E)) = max 0 (limiter_Tracked l - maxTracked)"
      using IH(6,7) notin ev(4) True by (simp add: limiter_Tracked_def)
    ultimately show ?thesis
      using IH(2,3,7) ev(3) by (intro exI [of _ l'] exI [of _ "insert oldest E"]) simp
  qed
qed

lemma limiter_Tracked_card: "limiter_wf l \<Longrightarrow> limiter_Tracked l = int (card (dom (map_of (lim_failures l))))"
  by (simp add: limiter_Tracked_def limiter_wf_def gm.len_card)

text \<open>
  One failure, as a whole: it always returns, within the ceiling; it counts the failure
  against the identifier and drops at most one record, and only at the ceiling.
\<close>

lemma limiter_Failed_effect:
  assumes bd: "limiter_bounded l" and ord: "range_ok ord"
  shows "\<exists>l' E. limiter_Failed ord now cid l = Some l' \<and> limiter_bounded l' \<and>
     limiter_settings l' = limiter_settings l \<and> finite E \<and> card E \<le> 1 \<and>
     (E \<noteq> {} \<longrightarrow> limiter_Tracked l = maxTracked \<and> map_of (lim_failures l) cid = None) \<and>
     (\<forall>t \<ge> now. live_failures l' t =
        (\<lambda>c. if c \<in> E then None
             else if c = cid then
               (let fr = next_failure now (live_failures l now cid)
                in if fr_expired t fr l then None else Some fr)
             else live_failures l t c)) \<and>
     dom (map_of (lim_failures l')) \<subseteq> insert cid (dom (map_of (lim_failures l)))"
proof -
  let ?l1 = "limiter_record now cid l"
  have wf: "limiter_wf l" using bd by (simp add: limiter_bounded_def)
  note wf1 = limiter_record_wf [OF wf, of now cid]
  define l2 where "l2 = (if int (length (lim_failures ?l1)) > sweepThreshold \<and>
      time_Sub now (lim_lastSweep ?l1) \<ge> lim_window ?l1 then limiter_sweep ord now ?l1 else ?l1)"
  have m1: "mwf (lim_failures ?l1)" using wf1 by (simp add: limiter_wf_def)
  have wf2: "limiter_wf l2" using wf1 limiter_sweep_wf [OF wf1 ord] by (simp add: l2_def)
  have set2: "limiter_settings l2 = limiter_settings l" by (simp add: l2_def limiter_settings_def)
  have w2: "lim_window l2 = lim_window l" by (simp add: l2_def)
  have dom2: "map_of (lim_failures l2) = map_of (lim_failures ?l1) \<or>
      map_of (lim_failures l2) = live_failures ?l1 now"
    by (auto simp: l2_def limiter_sweep_get [OF m1 ord])
  have sub2: "dom (map_of (lim_failures l2)) \<subseteq> insert cid (dom (map_of (lim_failures l)))"
    using dom2 by (auto simp: limiter_record_get live_failures_def split: option.splits if_splits)
  have live2: "live_failures l2 t = live_failures ?l1 t" if t: "now \<le> t" for t
  proof (rule ext)
    fix c
    have "fr_expired t fr l" if "fr_expired now fr l" for fr
      using that time_Sub_mono [OF t, of "fr_startedAt fr"] by (simp add: fr_expired_def)
    then show "live_failures l2 t c = live_failures ?l1 t c"
      using dom2 fr_expired_cong [OF w2] fr_expired_cong [of ?l1 l]
      by (auto simp: live_failures_def split: option.splits if_splits)
  qed
  obtain l' E where ev: "evict_over l2 = Some l'" "limiter_bounded l'" "limiter_settings l' = limiter_settings l2"
      "map_of (lim_failures l') = (\<lambda>c. if c \<in> E then None else map_of (lim_failures l2) c)"
      "E \<subseteq> dom (map_of (lim_failures l2))" "int (card E) = max 0 (limiter_Tracked l2 - maxTracked)" "finite E"
    using evict_over_effect [OF wf2] by blast
  have fin: "finite (dom (map_of (lim_failures l)))" by (rule gm.finite_dom)
  have "card (dom (map_of (lim_failures l2))) \<le> card (insert cid (dom (map_of (lim_failures l))))"
    using sub2 fin by (intro card_mono) auto
  then have len2: "limiter_Tracked l2 \<le> limiter_Tracked l + (if map_of (lim_failures l) cid = None then 1 else 0)"
    using fin by (auto simp: limiter_Tracked_card [OF wf] limiter_Tracked_card [OF wf2] card_insert_if domIff)
  have max: "limiter_Tracked l \<le> maxTracked" using bd by (simp add: limiter_bounded_def)
  have "int (card E) \<le> 1" using len2 max ev(6) by (auto split: if_splits)
  moreover have "E \<noteq> {} \<longrightarrow> limiter_Tracked l = maxTracked \<and> map_of (lim_failures l) cid = None"
  proof
    assume "E \<noteq> {}"
    then have "0 < card E" using ev(7) by (simp add: card_gt_0_iff)
    then have "maxTracked < limiter_Tracked l2" using ev(6) by (auto simp: max_def split: if_splits)
    with len2 max show "limiter_Tracked l = maxTracked \<and> map_of (lim_failures l) cid = None"
      by (auto split: if_splits)
  qed
  moreover have "live_failures l' t = (\<lambda>c. if c \<in> E then None
      else if c = cid then
        (let fr = next_failure now (live_failures l now cid) in if fr_expired t fr l then None else Some fr)
      else live_failures l t c)" if t: "now \<le> t" for t
  proof (rule ext)
    fix c
    have w': "lim_window l' = lim_window l2" using ev(3) by (simp add: limiter_settings_def)
    have "live_failures l' t c = (if c \<in> E then None else live_failures l2 t c)"
      using fr_expired_cong [OF w'] by (auto simp: live_failures_def ev(4) split: option.splits)
    also have "live_failures l2 t c = (if c = cid then
        (let fr = next_failure now (live_failures l now cid) in if fr_expired t fr l then None else Some fr)
      else live_failures l t c)"
      using fr_expired_cong [of ?l1 l]
      by (auto simp: live2 [OF t] live_failures_def [of ?l1] live_failures_def [of l t] limiter_record_get Let_def
          split: option.splits)
    finally show "live_failures l' t c = (if c \<in> E then None
      else if c = cid then
        (let fr = next_failure now (live_failures l now cid) in if fr_expired t fr l then None else Some fr)
      else live_failures l t c)" .
  qed
  moreover have "limiter_Failed ord now cid l = Some l'"
    using ev(1) by (simp add: limiter_Failed_def l2_def Let_def)
  moreover have "dom (map_of (lim_failures l')) \<subseteq> insert cid (dom (map_of (lim_failures l)))"
  proof
    fix c
    assume "c \<in> dom (map_of (lim_failures l'))"
    then have "c \<in> dom (map_of (lim_failures l2))" by (auto simp: ev(4) split: if_splits)
    with sub2 show "c \<in> insert cid (dom (map_of (lim_failures l)))" by blast
  qed
  ultimately show ?thesis using ev(2,3,7) set2 by auto
qed

section \<open>Histories and the abstract limiter\<close>

datatype limiter_op = AllowedOp string | FailedOp string | SucceededOp string

type_synonym limiter_event = "time \<times> string range_order \<times> limiter_op"

text \<open>A history of the limiter, with the answers of Allowed; None when a call does not return.\<close>

fun limiter_run :: "limiter_event list \<Rightarrow> limiter \<Rightarrow> (limiter \<times> bool list) option" where
  "limiter_run [] l = Some (l, [])"
| "limiter_run ((now, ord, AllowedOp cid) # es) l =
     (case limiter_run es l of
        Some (l', bs) \<Rightarrow> Some (l', limiter_Allowed now cid l # bs)
      | None \<Rightarrow> None)"
| "limiter_run ((now, ord, FailedOp cid) # es) l =
     (case limiter_Failed ord now cid l of Some l1 \<Rightarrow> limiter_run es l1 | None \<Rightarrow> None)"
| "limiter_run ((now, ord, SucceededOp cid) # es) l = limiter_run es (limiter_Succeeded cid l)"

text \<open>
  The abstract limiter: for each identifier the failures of its current window, a
  function with no bound, no sweep and no eviction.
\<close>

type_synonym failure_view = "string \<Rightarrow> failureRecord option"

definition current :: "duration \<Rightarrow> time \<Rightarrow> failure_view \<Rightarrow> failure_view" where
  "current window now m cid =
     (case m cid of
        Some fr \<Rightarrow> if window < time_Sub now (fr_startedAt fr) then None else Some fr
      | None \<Rightarrow> None)"

fun abstract_run :: "int \<Rightarrow> duration \<Rightarrow> limiter_event list \<Rightarrow> failure_view \<Rightarrow> bool list" where
  "abstract_run a w [] m = []"
| "abstract_run a w ((now, ord, AllowedOp cid) # es) m =
     (case current w now m cid of Some fr \<Rightarrow> fr_count fr < a | None \<Rightarrow> True) # abstract_run a w es m"
| "abstract_run a w ((now, ord, FailedOp cid) # es) m =
     abstract_run a w es (m(cid \<mapsto> next_failure now (current w now m cid)))"
| "abstract_run a w ((now, ord, SucceededOp cid) # es) m = abstract_run a w es (m(cid := None))"

fun event_id :: "limiter_op \<Rightarrow> string" where
  "event_id (AllowedOp cid) = cid"
| "event_id (FailedOp cid) = cid"
| "event_id (SucceededOp cid) = cid"

text \<open>The clock does not run back, and ranges visit every entry once.\<close>

fun orderly :: "time \<Rightarrow> limiter_event list \<Rightarrow> bool" where
  "orderly t [] \<longleftrightarrow> True"
| "orderly t ((now, ord, op) # es) \<longleftrightarrow> t \<le> now \<and> range_ok ord \<and> orderly now es"

lemma live_failures_current: "live_failures l now = current (lim_window l) now (map_of (lim_failures l))"
  by (rule ext) (simp add: live_failures_def current_def fr_expired_def split: option.splits)

definition same_from :: "time \<Rightarrow> limiter \<Rightarrow> failure_view \<Rightarrow> bool" where
  "same_from t l m \<longleftrightarrow> (\<forall>t' \<ge> t. live_failures l t' = current (lim_window l) t' m)"

lemma limiter_Failed_refines:
  assumes bd: "limiter_bounded l" and ord: "range_ok ord" and same: "same_from t l m" and t: "t \<le> now"
    and room: "limiter_Tracked l < maxTracked \<or> map_of (lim_failures l) cid \<noteq> None"
  shows "\<exists>l'. limiter_Failed ord now cid l = Some l' \<and> limiter_bounded l' \<and>
     limiter_settings l' = limiter_settings l \<and>
     same_from now l' (m(cid \<mapsto> next_failure now (current (lim_window l) now m cid))) \<and>
     dom (map_of (lim_failures l')) \<subseteq> insert cid (dom (map_of (lim_failures l)))"
proof -
  obtain l' E where eff: "limiter_Failed ord now cid l = Some l'" "limiter_bounded l'"
      "limiter_settings l' = limiter_settings l"
      "E \<noteq> {} \<longrightarrow> limiter_Tracked l = maxTracked \<and> map_of (lim_failures l) cid = None"
      "\<forall>t \<ge> now. live_failures l' t = (\<lambda>c. if c \<in> E then None
        else if c = cid then
          (let fr = next_failure now (live_failures l now cid) in if fr_expired t fr l then None else Some fr)
        else live_failures l t c)"
      "dom (map_of (lim_failures l')) \<subseteq> insert cid (dom (map_of (lim_failures l)))"
    using limiter_Failed_effect [OF bd ord, of now cid] by blast
  have "E = {}" using eff(4) room by auto
  moreover have w: "lim_window l' = lim_window l" using eff(3) by (simp add: limiter_settings_def)
  ultimately have "live_failures l' t' =
      current (lim_window l') t' (m(cid \<mapsto> next_failure now (current (lim_window l) now m cid)))" if "now \<le> t'" for t'
    using eff(5) same t that unfolding same_from_def
    by (auto simp: fun_eq_iff current_def [of _ t'] fr_expired_def Let_def)
  then show ?thesis using eff by (auto simp: same_from_def)
qed

lemma limiter_Succeeded_refines:
  assumes "same_from t l m"
  shows "same_from t (limiter_Succeeded cid l) (m(cid := None))"
proof -
  have "live_failures (limiter_Succeeded cid l) t' = (live_failures l t')(cid := None)" for t'
    by (rule ext) (simp add: live_failures_def limiter_Succeeded_def fr_expired_def split: option.splits)
  moreover have "current w t' (m(cid := None)) = (current w t' m)(cid := None)" for w t'
    by (rule ext) (simp add: current_def)
  moreover have "lim_window (limiter_Succeeded cid l) = lim_window l" by (simp add: limiter_Succeeded_def)
  ultimately show ?thesis using assms by (simp add: same_from_def)
qed

lemma limiter_run_refines:
  assumes "limiter_bounded l" and "orderly t es" and "same_from t l m" and "finite ids" and "int (card ids) \<le> maxTracked"
    and "dom (map_of (lim_failures l)) \<subseteq> ids" and "event_id ` (snd \<circ> snd) ` set es \<subseteq> ids"
  shows "\<exists>l'. limiter_run es l = Some (l', abstract_run (lim_allowance l) (lim_window l) es m) \<and>
     limiter_bounded l' \<and> limiter_settings l' = limiter_settings l"
  using assms
proof (induction es arbitrary: l t m)
  case Nil
  then show ?case by simp
next
  case (Cons e es)
  obtain now ord op where e: "e = (now, ord, op)" by (cases e)
  have t: "t \<le> now" and ord: "range_ok ord" and rest: "orderly now es" using Cons.prems(2) by (simp_all add: e)
  have later: "same_from now l m" using Cons.prems(3) t by (auto simp: same_from_def)
  have ids: "event_id ` (snd \<circ> snd) ` set es \<subseteq> ids" "event_id op \<in> ids" using Cons.prems(7) by (auto simp: e)
  show ?case
  proof (cases op)
    case (AllowedOp cid)
    have "limiter_Allowed now cid l =
        (case current (lim_window l) now m cid of Some fr \<Rightarrow> fr_count fr < lim_allowance l | None \<Rightarrow> True)"
      using later by (simp add: limiter_Allowed_live same_from_def)
    then show ?thesis
      using Cons.IH [OF Cons.prems(1) rest later Cons.prems(4-6) ids(1)] by (auto simp: e AllowedOp)
  next
    case (FailedOp cid)
    have wf: "limiter_wf l" using Cons.prems(1) by (simp add: limiter_bounded_def)
    have room: "limiter_Tracked l < maxTracked \<or> map_of (lim_failures l) cid \<noteq> None"
    proof (rule disjCI)
      assume "\<not> map_of (lim_failures l) cid \<noteq> None"
      then have "dom (map_of (lim_failures l)) \<subset> ids" using Cons.prems(6) ids(2) by (auto simp: FailedOp)
      then have "card (dom (map_of (lim_failures l))) < card ids" by (rule psubset_card_mono [OF Cons.prems(4)])
      then show "limiter_Tracked l < maxTracked" using Cons.prems(5) by (simp add: limiter_Tracked_card [OF wf])
    qed
    obtain l1 where l1: "limiter_Failed ord now cid l = Some l1" "limiter_bounded l1"
        "limiter_settings l1 = limiter_settings l"
        "same_from now l1 (m(cid \<mapsto> next_failure now (current (lim_window l) now m cid)))"
        "dom (map_of (lim_failures l1)) \<subseteq> insert cid (dom (map_of (lim_failures l)))"
      using limiter_Failed_refines [OF Cons.prems(1) ord Cons.prems(3) t room] by blast
    have "dom (map_of (lim_failures l1)) \<subseteq> ids" using l1(5) Cons.prems(6) ids(2) by (auto simp: FailedOp)
    from Cons.IH [OF l1(2) rest l1(4) Cons.prems(4,5) this ids(1)] l1(1,3) show ?thesis
      by (simp add: e FailedOp limiter_settings_def del: fun_upd_apply)
  next
    case (SucceededOp cid)
    let ?l1 = "limiter_Succeeded cid l"
    have s: "limiter_settings ?l1 = limiter_settings l" by (simp add: limiter_Succeeded_def limiter_settings_def)
    have "dom (map_of (lim_failures ?l1)) \<subseteq> ids"
      using Cons.prems(6) by (auto simp: limiter_Succeeded_def split: if_splits)
    from Cons.IH [OF limiter_Succeeded_bounded [OF Cons.prems(1)] rest limiter_Succeeded_refines [OF later]
        Cons.prems(4,5) this ids(1)] s show ?thesis
      by (simp add: e SucceededOp limiter_settings_def del: fun_upd_apply)
  qed
qed

text \<open>Without the assumption on the number of identifiers every call still returns, within the ceiling.\<close>

lemma limiter_run_total:
  assumes "limiter_bounded l" and "orderly t es"
  shows "\<exists>l' bs. limiter_run es l = Some (l', bs) \<and> limiter_bounded l'"
  using assms
proof (induction es arbitrary: l t)
  case Nil
  then show ?case by simp
next
  case (Cons e es)
  obtain now ord op where e: "e = (now, ord, op)" by (cases e)
  have ord: "range_ok ord" and rest: "orderly now es" using Cons.prems(2) by (simp_all add: e)
  show ?case
  proof (cases op)
    case (AllowedOp cid)
    with Cons.IH [OF Cons.prems(1) rest] show ?thesis by (auto simp: e)
  next
    case (FailedOp cid)
    obtain l1 where "limiter_Failed ord now cid l = Some l1" "limiter_bounded l1"
      using limiter_Failed_effect [OF Cons.prems(1) ord, of now cid] by blast
    with Cons.IH [of l1 now] rest show ?thesis by (auto simp: e FailedOp)
  next
    case (SucceededOp cid)
    with Cons.IH [OF limiter_Succeeded_bounded [OF Cons.prems(1)] rest] show ?thesis by (auto simp: e)
  qed
qed

section \<open>Guessing one identifier\<close>

text \<open>
  Attempts with wrong secrets on one identifier: each asks Allowed, and is counted by
  Failed when it was let through. The result is how many were.
\<close>

fun guess_run :: "string range_order \<Rightarrow> string \<Rightarrow> time list \<Rightarrow> limiter \<Rightarrow> int" where
  "guess_run ord cid [] l = 0"
| "guess_run ord cid (t # ts) l =
     (if limiter_Allowed t cid l
      then (case limiter_Failed ord t cid l of Some l1 \<Rightarrow> 1 + guess_run ord cid ts l1 | None \<Rightarrow> 0)
      else guess_run ord cid ts l)"

definition has_room :: "string \<Rightarrow> limiter \<Rightarrow> bool" where
  "has_room cid l \<longleftrightarrow> limiter_Tracked l < maxTracked \<or> map_of (lim_failures l) cid \<noteq> None"

lemma guess_step:
  assumes "limiter_bounded l" and "range_ok ord" and "has_room cid l" and "limiter_Allowed t cid l"
  shows "\<exists>l1. guess_run ord cid (t # ts) l = 1 + guess_run ord cid ts l1 \<and> limiter_bounded l1 \<and>
     has_room cid l1 \<and> lim_window l1 = lim_window l \<and> lim_allowance l1 = lim_allowance l \<and>
     (let fr = next_failure t (live_failures l t cid) in
        \<forall>t' \<ge> t. live_failures l1 t' cid = (if lim_window l < time_Sub t' (fr_startedAt fr) then None else Some fr))"
proof -
  obtain l1 E where eff: "limiter_Failed ord t cid l = Some l1" "limiter_bounded l1"
      "limiter_settings l1 = limiter_settings l"
      "E \<noteq> {} \<longrightarrow> limiter_Tracked l = maxTracked \<and> map_of (lim_failures l) cid = None"
      "\<forall>t' \<ge> t. live_failures l1 t' = (\<lambda>c. if c \<in> E then None
        else if c = cid then
          (let fr = next_failure t (live_failures l t cid) in if fr_expired t' fr l then None else Some fr)
        else live_failures l t' c)"
    using limiter_Failed_effect [OF assms(1,2), of t cid] by blast
  have "E = {}" using eff(4) assms(3) by (auto simp: has_room_def)
  let ?fr = "next_failure t (live_failures l t cid)"
  have live: "live_failures l1 t' cid = (if lim_window l < time_Sub t' (fr_startedAt ?fr) then None else Some ?fr)"
    if "t \<le> t'" for t'
    using eff(5) that by (simp add: \<open>E = {}\<close> Let_def fr_expired_def)
  have "\<not> lim_window l < time_Sub t (fr_startedAt ?fr)"
  proof (cases "live_failures l t cid")
    case None
    have "0 < lim_window l" using assms(1) by (simp add: limiter_bounded_def limiter_wf_def)
    with None show ?thesis
      by (simp add: next_failure_def time_Sub_def max_duration_def min_duration_def)
  next
    case (Some fr)
    then have "\<not> lim_window l < time_Sub t (fr_startedAt fr)"
      by (auto simp: live_failures_def fr_expired_def split: option.splits if_splits)
    with Some show ?thesis by (simp add: next_failure_def)
  qed
  then have "live_failures l1 t cid \<noteq> None" using live [of t] by simp
  then have "has_room cid l1"
    by (auto simp: has_room_def live_failures_def split: option.splits)
  then show ?thesis
    using eff(1-3) assms(4) live by (intro exI [of _ l1]) (simp add: limiter_settings_def Let_def)
qed

lemma guess_run_same_window:
  assumes "limiter_bounded l" and "range_ok ord" and "has_room cid l" and "sorted ts"
    and "\<forall>t \<in> set ts. live_failures l t cid = Some fr"
    and "\<forall>t \<in> set ts. \<not> lim_window l < time_Sub t (fr_startedAt fr)"
  shows "guess_run ord cid ts l \<le> max 0 (lim_allowance l - fr_count fr)"
  using assms
proof (induction ts arbitrary: l fr)
  case Nil
  then show ?case by simp
next
  case (Cons t ts)
  have now: "live_failures l t cid = Some fr" using Cons.prems(5) by simp
  show ?case
  proof (cases "fr_count fr < lim_allowance l")
    case False
    then have "guess_run ord cid (t # ts) l = guess_run ord cid ts l"
      using now by (simp add: limiter_Allowed_live)
    with Cons.IH [OF Cons.prems(1-3), of fr] Cons.prems(4-6) show ?thesis by simp
  next
    case True
    then have "limiter_Allowed t cid l" using now by (simp add: limiter_Allowed_live)
    from guess_step [OF Cons.prems(1-3) this, of ts] obtain l1 where l1:
      "guess_run ord cid (t # ts) l = 1 + guess_run ord cid ts l1" "limiter_bounded l1" "has_room cid l1"
      "lim_window l1 = lim_window l" "lim_allowance l1 = lim_allowance l"
      "\<forall>t' \<ge> t. live_failures l1 t' cid = (if lim_window l < time_Sub t' (fr_startedAt fr) then None
         else Some (fr\<lparr>fr_count := fr_count fr + 1\<rparr>))"
      by (auto simp: now next_failure_def Let_def)
    have "guess_run ord cid ts l1 \<le> max 0 (lim_allowance l1 - fr_count (fr\<lparr>fr_count := fr_count fr + 1\<rparr>))"
      using Cons.prems(4,6) l1(4,6) by (intro Cons.IH [OF l1(2) Cons.prems(2) l1(3)]) auto
    with l1(1,5) True show ?thesis by simp
  qed
qed

definition guesses_left :: "limiter \<Rightarrow> time \<Rightarrow> string \<Rightarrow> int" where
  "guesses_left l t cid =
     (case live_failures l t cid of
        None \<Rightarrow> lim_allowance l
      | Some fr \<Rightarrow> max 0 (lim_allowance l - fr_count fr) + lim_allowance l)"

lemma guess_run_bound:
  assumes "limiter_bounded l" and "range_ok ord" and "has_room cid l" and "sorted ts"
    and "\<forall>t \<in> set ts. \<forall>t' \<in> set ts. time_Sub t' t \<le> lim_window l"
  shows "guess_run ord cid ts l \<le> (if ts = [] then 0 else guesses_left l (hd ts) cid)"
  using assms
proof (induction ts arbitrary: l)
  case Nil
  then show ?case by simp
next
  case (Cons t ts)
  have pos: "0 < lim_allowance l" using Cons.prems(1) by (simp add: limiter_bounded_def limiter_wf_def)
  have sorted: "sorted ts" and after: "\<forall>t' \<in> set ts. t \<le> t'" using Cons.prems(4) by simp_all
  have span: "\<forall>t \<in> set ts. \<forall>t' \<in> set ts. time_Sub t' t \<le> lim_window l" using Cons.prems(5) by simp
  show ?case
  proof (cases "live_failures l t cid")
    case None
    then have "limiter_Allowed t cid l" by (simp add: limiter_Allowed_live)
    from guess_step [OF Cons.prems(1-3) this, of ts] obtain l1 where l1:
      "guess_run ord cid (t # ts) l = 1 + guess_run ord cid ts l1" "limiter_bounded l1" "has_room cid l1"
      "lim_window l1 = lim_window l" "lim_allowance l1 = lim_allowance l"
      "\<forall>t' \<ge> t. live_failures l1 t' cid = (if lim_window l < time_Sub t' t then None
         else Some \<lparr>fr_count = 1, fr_startedAt = t\<rparr>)"
      by (auto simp: None next_failure_def Let_def)
    have within: "\<forall>t' \<in> set ts. time_Sub t' t \<le> lim_window l" using Cons.prems(5) by simp
    have "guess_run ord cid ts l1 \<le> max 0 (lim_allowance l1 - fr_count \<lparr>fr_count = 1, fr_startedAt = t\<rparr>)"
      using after within l1(4,6)
      by (intro guess_run_same_window [OF l1(2) Cons.prems(2) l1(3) sorted]) auto
    with l1(1,5) pos None show ?thesis by (simp add: guesses_left_def)
  next
    case (Some fr)
    have entry: "map_of (lim_failures l) cid = Some fr"
      using Some by (auto simp: live_failures_def split: option.splits if_splits)
    show ?thesis
    proof (cases "fr_count fr < lim_allowance l")
      case False
      then have "guess_run ord cid (t # ts) l = guess_run ord cid ts l"
        using Some by (simp add: limiter_Allowed_live)
      moreover have "guesses_left l t' cid \<le> guesses_left l t cid" for t'
        using entry Some False pos by (auto simp: guesses_left_def live_failures_def split: option.splits if_splits)
      ultimately show ?thesis
        using Cons.IH [OF Cons.prems(1-3) sorted span] pos Some
        by (cases "ts = []") (auto simp: guesses_left_def intro: order_trans)
    next
      case True
      then have "limiter_Allowed t cid l" using Some by (simp add: limiter_Allowed_live)
      from guess_step [OF Cons.prems(1-3) this, of ts] obtain l1 where l1:
        "guess_run ord cid (t # ts) l = 1 + guess_run ord cid ts l1" "limiter_bounded l1" "has_room cid l1"
        "lim_window l1 = lim_window l" "lim_allowance l1 = lim_allowance l"
        "\<forall>t' \<ge> t. live_failures l1 t' cid = (if lim_window l < time_Sub t' (fr_startedAt fr) then None
           else Some (fr\<lparr>fr_count := fr_count fr + 1\<rparr>))"
        by (auto simp: Some next_failure_def Let_def)
      have "guess_run ord cid ts l1 \<le> (if ts = [] then 0 else guesses_left l1 (hd ts) cid)"
        using span l1(4) by (intro Cons.IH [OF l1(2) Cons.prems(2) l1(3) sorted]) simp
      moreover have "guesses_left l1 (hd ts) cid + 1 \<le> guesses_left l t cid" if "ts \<noteq> []"
        using l1(5,6) that Some True after by (auto simp: guesses_left_def)
      moreover have "1 \<le> guesses_left l t cid" using Some True pos by (simp add: guesses_left_def)
      ultimately have "1 + guess_run ord cid ts l1 \<le> guesses_left l t cid" by (auto split: if_splits)
      then show ?thesis unfolding l1(1) by simp
    qed
  qed
qed

section \<open>Properties\<close>

definition sample_limiter :: limiter where
  "sample_limiter =
     \<lparr>lim_allowance = 3, lim_window = minute, lim_failures = [], lim_order = [], lim_lastSweep = time_zero\<rparr>"

lemma sample_limiter_New: "NewAttemptLimiter 3 minute = Inr sample_limiter"
  by (simp add: NewAttemptLimiter_def sample_limiter_def minute_def second_def)

text \<open>
  C32: The limiter implements an abstract one with no map to bound: as long as a history
  names at most as many identifiers as the ceiling, every answer of Allowed is that of
  a counter per identifier that restarts when its window has passed and is cleared by a
  success, whatever was swept and in whatever order the map was ranged.
\<close>

theorem limiter_implements_abstract:
  assumes "NewAttemptLimiter a w = Inr l" and "orderly t es"
    and "int (card (event_id ` (snd \<circ> snd) ` set es)) \<le> 8192"
  shows "map_option snd (limiter_run es l) = Some (abstract_run a w es Map.empty)"
proof -
  have l: "lim_allowance l = a" "lim_window l = w" "lim_failures l = []"
    using assms(1) by (auto simp: NewAttemptLimiter_def split: if_splits)
  have "same_from t l Map.empty" by (simp add: same_from_def live_failures_current l)
  from limiter_run_refines [OF NewAttemptLimiter_bounded [OF assms(1)] assms(2) this _ _ _ subset_refl] assms(3)
  show ?thesis by (auto simp: l maxTracked_def)
qed

theorem limiter_implements_abstract_witness:
  "map_option snd (limiter_run
      [(0, rev, FailedOp ''c''), (1, rev, FailedOp ''c''), (2, rev, FailedOp ''c''), (3, rev, AllowedOp ''c''),
       (4, rev, AllowedOp ''d''), (5, rev, SucceededOp ''c''), (6, rev, AllowedOp ''c'')] sample_limiter) =
     Some [False, True, True]"
proof -
  let ?es = "[(0, rev, FailedOp ''c''), (1, rev, FailedOp ''c''), (2, rev, FailedOp ''c''), (3, rev, AllowedOp ''c''),
       (4, rev, AllowedOp ''d''), (5, rev, SucceededOp ''c''), (6, rev, AllowedOp ''c'')] :: limiter_event list"
  have "abstract_run 3 minute ?es Map.empty = [False, True, True]"
    by (simp add: current_def next_failure_def time_Sub_def minute_def second_def max_duration_def min_duration_def)
  moreover have "orderly 0 ?es" by simp
  moreover have "int (card (event_id ` (snd \<circ> snd) ` set ?es)) \<le> 8192" by (simp add: card_insert_if)
  ultimately show ?thesis using limiter_implements_abstract [OF sample_limiter_New, of 0 ?es] by simp
qed

text \<open>
  C33: Every call returns and the memory of the map is bounded: in any history at all,
  the loop that evicts down to the ceiling ends, no more than 8192 identifiers are
  tracked, and every identifier tracked is in the eviction order.
\<close>

theorem limiter_returns_bounded:
  assumes "NewAttemptLimiter a w = Inr l" and "orderly t es"
  shows "\<exists>l' bs. limiter_run es l = Some (l', bs) \<and> limiter_Tracked l' \<le> 8192 \<and>
     dom (map_of (lim_failures l')) \<subseteq> set (lim_order l')"
  using limiter_run_total [OF NewAttemptLimiter_bounded [OF assms(1)] assms(2)]
  by (auto simp: limiter_bounded_def limiter_wf_def maxTracked_def)

theorem limiter_returns_bounded_witness:
  "\<exists>l' bs. limiter_run [(0, rev, FailedOp ''c'')] sample_limiter = Some (l', bs) \<and> limiter_Tracked l' \<le> 8192"
  using limiter_returns_bounded [OF sample_limiter_New, of 0 "[(0, rev, FailedOp ''c'')]"] by auto



text \<open>
  Nobody locks out another: a failure recorded for one identifier never turns a
  yes for another into a no, then or later, even when it evicts.
\<close>

theorem limiter_no_cross_lockout:
  assumes "limiter_bounded l" and "range_ok ord" and "limiter_Failed ord now cid l = Some l'"
    and "other \<noteq> cid" and "now \<le> t" and "limiter_Allowed t other l"
  shows "limiter_Allowed t other l'"
proof -
  obtain l'' E where eff: "limiter_Failed ord now cid l = Some l''" "limiter_settings l'' = limiter_settings l"
      "\<forall>t \<ge> now. live_failures l'' t = (\<lambda>c. if c \<in> E then None
        else if c = cid then
          (let fr = next_failure now (live_failures l now cid) in if fr_expired t fr l then None else Some fr)
        else live_failures l t c)"
    using limiter_Failed_effect [OF assms(1,2), of now cid] by blast
  then have "l'' = l'" "lim_allowance l' = lim_allowance l" using assms(3) by (simp_all add: limiter_settings_def)
  with eff(3) assms(4-6) show ?thesis by (auto simp: limiter_Allowed_live split: option.splits)
qed

theorem limiter_no_cross_lockout_witness:
  "limiter_Allowed 5 ''d'' (the (limiter_Failed rev 0 ''c'' sample_limiter))"
proof -
  obtain l' where l': "limiter_Failed rev 0 ''c'' sample_limiter = Some l'"
    using limiter_Failed_effect [OF NewAttemptLimiter_bounded [OF sample_limiter_New] range_ok_rev, of 0 "''c''"] by blast
  have "limiter_Allowed 5 ''d'' sample_limiter" by (simp add: limiter_Allowed_def sample_limiter_def)
  with limiter_no_cross_lockout [OF NewAttemptLimiter_bounded [OF sample_limiter_New] range_ok_rev l', of "''d''" 5] l'
  show ?thesis by simp
qed

section \<open>The eviction order\<close>

text \<open>
  The order list is compacted only by a sweep, and a sweep needs more than 1024
  identifiers: one client that keeps failing and succeeding in turn leaves an entry
  behind each time, while nothing at all is tracked.
\<close>

fun fail_and_succeed :: "nat \<Rightarrow> string \<Rightarrow> limiter_event list" where
  "fail_and_succeed 0 cid = []"
| "fail_and_succeed (Suc n) cid = (0, rev, FailedOp cid) # (0, rev, SucceededOp cid) # fail_and_succeed n cid"

lemma fail_and_succeed_step:
  assumes "lim_failures l = []"
  shows "\<exists>l1. limiter_Failed rev 0 cid l = Some l1 \<and> lim_failures (limiter_Succeeded cid l1) = [] \<and>
     lim_order (limiter_Succeeded cid l1) = lim_order l @ [cid]"
  using assms
  by (simp add: limiter_Failed_def limiter_record_def limiter_Succeeded_def Let_def mput_def mdel_def
      sweepThreshold_def maxTracked_def evict_over.simps)

lemma order_grows_without_bound:
  assumes "lim_failures l = []"
  shows "\<exists>l'. limiter_run (fail_and_succeed n cid) l = Some (l', []) \<and> limiter_Tracked l' = 0 \<and>
     length (lim_order l') = length (lim_order l) + n"
  using assms
proof (induction n arbitrary: l)
  case 0
  then show ?case by (simp add: limiter_Tracked_def)
next
  case (Suc n)
  obtain l1 where l1: "limiter_Failed rev 0 cid l = Some l1" "lim_failures (limiter_Succeeded cid l1) = []"
      "lim_order (limiter_Succeeded cid l1) = lim_order l @ [cid]"
    using fail_and_succeed_step [OF Suc.prems] by blast
  from Suc.IH [OF l1(2)] l1(1,3) show ?case by auto
qed

text \<open>
  An identifier that succeeded and failed again is evicted from the slot of its first
  failure, before one whose record is older.
\<close>

lemma eviction_follows_a_stale_slot:
  "map_option (\<lambda>(l, _). mkeys (lim_failures (evictOldest l)))
     (limiter_run [(0, rev, FailedOp ''a''), (1, rev, FailedOp ''b''), (2, rev, SucceededOp ''a''),
                   (3, rev, FailedOp ''a'')] sample_limiter) = Some [''b'']"
  by (simp add: sample_limiter_def limiter_Failed_def limiter_record_def limiter_Succeeded_def Let_def
      mput_def mdel_def mkeys_def sweepThreshold_def maxTracked_def evict_over.simps evictOldest_def
      time_Sub_def minute_def second_def max_duration_def min_duration_def fr_expired_def)

end
