(* ===== verification/Go_Crypto.thy ===== *)
theory Go_Crypto
  imports Prelude
begin

text \<open>
  What the source uses of Go's crypto packages: sha256.Sum256, hmac.New(sha1.New, key)
  with its Sum, and subtle.ConstantTimeCompare, on byte lists (FIPS 180-4, RFC 2104).
\<close>

unbundle bit_operations_syntax

section \<open>Words and blocks\<close>

fun be_word :: "byte list \<Rightarrow> 32 word" where
  "be_word bs = foldl (\<lambda>w b. push_bit 8 w OR ucast b) 0 bs"

definition word_bytes :: "32 word \<Rightarrow> byte list" where
  "word_bytes w = map (\<lambda>n. ucast (drop_bit n w)) [24, 16, 8, 0]"

definition be64 :: "nat \<Rightarrow> byte list" where
  "be64 n = map (\<lambda>i. ucast (drop_bit i (of_nat n :: 64 word))) [56, 48, 40, 32, 24, 16, 8, 0]"

fun chunks :: "nat \<Rightarrow> nat \<Rightarrow> 'a list \<Rightarrow> 'a list list" where
  "chunks k 0 xs = []"
| "chunks k (Suc n) xs = take k xs # chunks k n (drop k xs)"

definition sha_pad :: "byte list \<Rightarrow> byte list" where
  "sha_pad bs = bs @ [0x80] @ replicate ((119 - length bs mod 64) mod 64) 0 @ be64 (8 * length bs)"

definition sha_blocks :: "byte list \<Rightarrow> 32 word list list" where
  "sha_blocks bs =
     (let p = sha_pad bs
      in map (\<lambda>block. map be_word (chunks 4 16 block)) (chunks 64 (length p div 64) p))"

section \<open>SHA-256\<close>

text \<open>The round constants and the initial state, in decimal.\<close>

definition sha256_K :: "32 word list" where
  "sha256_K =
    [1116352408, 1899447441, 3049323471, 3921009573, 961987163, 1508970993, 2453635748, 2870763221,
     3624381080, 310598401, 607225278, 1426881987, 1925078388, 2162078206, 2614888103, 3248222580,
     3835390401, 4022224774, 264347078, 604807628, 770255983, 1249150122, 1555081692, 1996064986,
     2554220882, 2821834349, 2952996808, 3210313671, 3336571891, 3584528711, 113926993, 338241895,
     666307205, 773529912, 1294757372, 1396182291, 1695183700, 1986661051, 2177026350, 2456956037,
     2730485921, 2820302411, 3259730800, 3345764771, 3516065817, 3600352804, 4094571909, 275423344,
     430227734, 506948616, 659060556, 883997877, 958139571, 1322822218, 1537002063, 1747873779,
     1955562222, 2024104815, 2227730452, 2361852424, 2428436474, 2756734187, 3204031479, 3329325298]"

definition sha256_H :: "32 word list" where
  "sha256_H =
    [1779033703, 3144134277, 1013904242, 2773480762, 1359893119, 2600822924, 528734635, 1541459225]"

definition sha256_schedule :: "32 word list \<Rightarrow> 32 word list" where
  "sha256_schedule ws =
     foldl (\<lambda>w t.
        let x = w ! (t - 15); y = w ! (t - 2);
            s0 = word_rotr 7 x XOR word_rotr 18 x XOR drop_bit 3 x;
            s1 = word_rotr 17 y XOR word_rotr 19 y XOR drop_bit 10 y
        in w @ [w ! (t - 16) + s0 + w ! (t - 7) + s1]) ws [16..<64]"

definition sha256_round ::
  "32 word list \<Rightarrow> 32 word \<times> 32 word \<Rightarrow> 32 word list" where
  "sha256_round v kw =
     (let a = v ! 0; b = v ! 1; c = v ! 2; d = v ! 3; e = v ! 4; f = v ! 5; g = v ! 6; h = v ! 7;
          S1 = word_rotr 6 e XOR word_rotr 11 e XOR word_rotr 25 e;
          ch = (e AND f) XOR (NOT e AND g);
          t1 = h + S1 + ch + fst kw + snd kw;
          S0 = word_rotr 2 a XOR word_rotr 13 a XOR word_rotr 22 a;
          maj = (a AND b) XOR (a AND c) XOR (b AND c);
          t2 = S0 + maj
      in [t1 + t2, a, b, c, d + t1, e, f, g])"

definition sha256_block :: "32 word list \<Rightarrow> 32 word list \<Rightarrow> 32 word list" where
  "sha256_block hs ws =
     map (\<lambda>(x, y). x + y) (zip hs (foldl sha256_round hs (zip sha256_K (sha256_schedule ws))))"

definition Sum256 :: "byte list \<Rightarrow> byte list" where
  "Sum256 bs = concat (map word_bytes (foldl sha256_block sha256_H (sha_blocks bs)))"

section \<open>SHA-1 and HMAC\<close>

definition sha1_H :: "32 word list" where
  "sha1_H = [0x67452301, 0xefcdab89, 0x98badcfe, 0x10325476, 0xc3d2e1f0]"

definition sha1_schedule :: "32 word list \<Rightarrow> 32 word list" where
  "sha1_schedule ws =
     foldl (\<lambda>w t. w @ [word_rotl 1 (w ! (t - 3) XOR w ! (t - 8) XOR w ! (t - 14) XOR w ! (t - 16))])
       ws [16..<80]"

definition sha1_round :: "32 word list \<Rightarrow> nat \<times> 32 word \<Rightarrow> 32 word list" where
  "sha1_round v tw =
     (let a = v ! 0; b = v ! 1; c = v ! 2; d = v ! 3; e = v ! 4; t = fst tw;
          (f, k) =
            (if t < 20 then ((b AND c) OR (NOT b AND d), 0x5a827999)
             else if t < 40 then (b XOR c XOR d, 0x6ed9eba1)
             else if t < 60 then ((b AND c) OR (b AND d) OR (c AND d), 0x8f1bbcdc)
             else (b XOR c XOR d, 0xca62c1d6))
      in [word_rotl 5 a + f + e + k + snd tw, a, word_rotl 30 b, c, d])"

definition sha1_block :: "32 word list \<Rightarrow> 32 word list \<Rightarrow> 32 word list" where
  "sha1_block hs ws =
     map (\<lambda>(x, y). x + y) (zip hs (foldl sha1_round hs (zip [0..<80] (sha1_schedule ws))))"

definition sha1_Sum :: "byte list \<Rightarrow> byte list" where
  "sha1_Sum bs = concat (map word_bytes (foldl sha1_block sha1_H (sha_blocks bs)))"

text \<open>HMAC over a hash with 64-byte blocks.\<close>

definition hmac_key :: "(byte list \<Rightarrow> byte list) \<Rightarrow> byte list \<Rightarrow> byte list" where
  "hmac_key hash key =
     (let k = (if length key > 64 then hash key else key) in k @ replicate (64 - length k) 0)"

definition hmac_Sum :: "(byte list \<Rightarrow> byte list) \<Rightarrow> byte list \<Rightarrow> byte list \<Rightarrow> byte list" where
  "hmac_Sum hash key msg =
     (let k = hmac_key hash key
      in hash (map (\<lambda>b. b XOR 0x5c) k @ hash (map (\<lambda>b. b XOR 0x36) k @ msg)))"

text \<open>1 when the two are equal, 0 otherwise; of different lengths they are not.\<close>

definition ConstantTimeCompare :: "byte list \<Rightarrow> byte list \<Rightarrow> int" where
  "ConstantTimeCompare x y = (if x = y then 1 else 0)"

end
