(* ===== verification/Clients.thy ===== *)
theory Clients
  imports Go_Map Go_Text Go_Base64 Go_Crypto
begin

text \<open>
  internal/auth/clients.go: the configured clients, and which peer a presented
  credential authenticates as. Strings are byte strings; ranging over the runes of an
  identifier accepts what ranging over its bytes does, since no byte of a multi-byte
  rune, and no replacement rune, is in the character set.
\<close>

section \<open>Data and operations\<close>

definition peerIDAllowed :: "char \<Rightarrow> bool" where
  "peerIDAllowed r \<longleftrightarrow>
     CHR ''a'' \<le> r \<and> r \<le> CHR ''z'' \<or> CHR ''A'' \<le> r \<and> r \<le> CHR ''Z'' \<or> CHR ''0'' \<le> r \<and> r \<le> CHR ''9'' \<or>
     r = CHR ''-'' \<or> r = CHR ''_'' \<or> r = CHR ''.''"

definition validPeerID :: "string \<Rightarrow> bool" where
  "validPeerID peerID \<longleftrightarrow> list_all peerIDAllowed peerID \<and> peerID \<noteq> []"

definition MaxPeerIDLen :: nat where
  "MaxPeerIDLen = 128"

definition MinSecretLen :: nat where
  "MinSecretLen = 32"

record client_config =
  cc_ID :: string
  cc_PeerID :: string
  cc_Secret :: string

record storedClient =
  sc_peerID :: string
  sc_secretHash :: "byte list"

record client_store =
  cs_clients :: "(string, storedClient) gomap"
  cs_dummy :: "byte list"

datatype client_problem =
    NoClientID nat
  | NoPeerID string
  | PeerIDTooLong string nat
  | PeerIDBadCharacter string string
  | SecretTooShort string nat
  | ConfiguredTwice string
  | NoClients

datatype auth_error = ErrUnknownClient

definition new_clients_step ::
  "nat \<times> client_config \<Rightarrow> client_problem list \<times> (string, storedClient) gomap \<Rightarrow>
   client_problem list \<times> (string, storedClient) gomap"
where
  "new_clients_step ic acc =
     (let (i, c) = ic; (problems, clients) = acc;
          cid = TrimSpace (cc_ID c); peerID = TrimSpace (cc_PeerID c)
      in if cid = [] then (problems @ [NoClientID i], clients)
         else if peerID = [] then (problems @ [NoPeerID cid], clients)
         else if length peerID > MaxPeerIDLen
         then (problems @ [PeerIDTooLong cid (length peerID)], clients)
         else if \<not> validPeerID peerID then (problems @ [PeerIDBadCharacter cid peerID], clients)
         else if length (cc_Secret c) < MinSecretLen
         then (problems @ [SecretTooShort cid (length (cc_Secret c))], clients)
         else if map_of clients cid \<noteq> None then (problems @ [ConfiguredTwice cid], clients)
         else (problems,
               mput cid \<lparr>sc_peerID = peerID, sc_secretHash = Sum256 (string_bytes (cc_Secret c))\<rparr> clients))"

definition dummy_text :: string where
  "dummy_text = ''this hash exists so that an unknown client costs what a known one costs''"

definition NewClientStore :: "client_config list \<Rightarrow> client_problem list + client_store" where
  "NewClientStore configs =
     (let (problems, clients) = fold new_clients_step (zip [0..<length configs] configs) ([], []);
          problems1 = (if problems = [] \<and> length clients = 0 then problems @ [NoClients] else problems)
      in if problems1 \<noteq> [] then Inl problems1
         else Inr \<lparr>cs_clients = clients, cs_dummy = Sum256 (string_bytes dummy_text)\<rparr>)"

text \<open>The zero value of a stored client stands in for one that is not there, as the map read gives it.\<close>

definition Authenticate :: "string \<Rightarrow> string \<Rightarrow> client_store \<Rightarrow> auth_error + string" where
  "Authenticate cid secret s =
     (let known = (map_of (cs_clients s) cid \<noteq> None);
          client = (case map_of (cs_clients s) cid of
                      Some c \<Rightarrow> c | None \<Rightarrow> \<lparr>sc_peerID = [], sc_secretHash = replicate 32 0\<rparr>);
          expected = (if known then sc_secretHash client else cs_dummy s);
          presented = Sum256 (string_bytes secret);
          matched = (ConstantTimeCompare presented expected = 1)
      in if \<not> known \<or> \<not> matched then Inl ErrUnknownClient else Inr (sc_peerID client))"

definition clients_Len :: "client_store \<Rightarrow> int" where
  "clients_Len s = int (length (cs_clients s))"

section \<open>What New accepts\<close>

text \<open>A configured client that is acceptable on its own.\<close>

definition config_ok :: "client_config \<Rightarrow> bool" where
  "config_ok c \<longleftrightarrow>
     TrimSpace (cc_ID c) \<noteq> [] \<and> length (TrimSpace (cc_PeerID c)) \<le> 128 \<and>
     validPeerID (TrimSpace (cc_PeerID c)) \<and> 32 \<le> length (cc_Secret c)"

definition stored :: "client_config \<Rightarrow> storedClient" where
  "stored c = \<lparr>sc_peerID = TrimSpace (cc_PeerID c), sc_secretHash = Sum256 (string_bytes (cc_Secret c))\<rparr>"

abbreviation config_id :: "client_config \<Rightarrow> string" where
  "config_id c \<equiv> TrimSpace (cc_ID c)"

lemma new_clients_step_ok:
  assumes "config_ok c" and "map_of clients (config_id c) = None"
  shows "new_clients_step (i, c) (problems, clients) = (problems, mput (config_id c) (stored c) clients)"
  using assms
  by (auto simp: new_clients_step_def config_ok_def stored_def validPeerID_def MaxPeerIDLen_def
      MinSecretLen_def Let_def)

lemma new_clients_step_bad:
  assumes "\<not> config_ok c \<or> map_of clients (config_id c) \<noteq> None"
  shows "\<exists>p. new_clients_step (i, c) (problems, clients) = (problems @ [p], clients)"
  using assms
  by (auto simp: new_clients_step_def config_ok_def validPeerID_def MaxPeerIDLen_def MinSecretLen_def Let_def)

definition configs_ok :: "(string, storedClient) gomap \<Rightarrow> client_config list \<Rightarrow> bool" where
  "configs_ok m cs \<longleftrightarrow> list_all config_ok cs \<and> distinct (map config_id cs) \<and>
     (\<forall>c \<in> set cs. map_of m (config_id c) = None)"

lemma configs_ok_Cons:
  "configs_ok m (c # cs) \<longleftrightarrow>
     config_ok c \<and> map_of m (config_id c) = None \<and> configs_ok (mput (config_id c) (stored c) m) cs"
  by (auto simp: configs_ok_def image_iff)

lemma new_clients_fold_ok:
  assumes "mwf m" and "configs_ok m cs" and "length is = length cs"
  shows "\<exists>m'. fold new_clients_step (zip is cs) (ps, m) = (ps, m') \<and> mwf m' \<and>
     (\<forall>cid. map_of m' cid = (case find (\<lambda>c. config_id c = cid) cs of
        Some c \<Rightarrow> Some (stored c) | None \<Rightarrow> map_of m cid))"
  using assms
proof (induction cs arbitrary: "is" m)
  case Nil
  then show ?case by simp
next
  case (Cons c cs)
  then obtain i is' where i: "is = i # is'" "length is' = length cs" by (cases "is") auto
  have c: "config_ok c" "map_of m (config_id c) = None" "configs_ok (mput (config_id c) (stored c) m) cs"
    using Cons.prems(2) by (simp_all add: configs_ok_Cons)
  note step = new_clients_step_ok [OF c(1,2)]
  have fresh: "find (\<lambda>d. config_id d = config_id c) cs = None"
    using Cons.prems(2) by (auto simp: find_None_iff configs_ok_def image_iff)
  obtain m' where m': "fold new_clients_step (zip is' cs) (ps, mput (config_id c) (stored c) m) = (ps, m')" "mwf m'"
      "\<forall>cid. map_of m' cid = (case find (\<lambda>c. config_id c = cid) cs of
        Some c \<Rightarrow> Some (stored c) | None \<Rightarrow> map_of (mput (config_id c) (stored c) m) cid)"
    using Cons.IH [OF mwf_mput [OF Cons.prems(1)] c(3) i(2)] by blast
  have "map_of m' cid = (case find (\<lambda>d. config_id d = cid) (c # cs) of
      Some d \<Rightarrow> Some (stored d) | None \<Rightarrow> map_of m cid)" for cid
    using m'(3) fresh by (auto split: option.splits)
  with m'(1,2) show ?case by (simp add: i(1) step)
qed

lemma new_clients_fold_all:
  assumes "configs_ok [] cs"
  shows "\<exists>m'. fold new_clients_step (zip [0..<length cs] cs) ([], []) = ([], m') \<and>
     map_of m' = (\<lambda>cid. map_option stored (find (\<lambda>c. config_id c = cid) cs))"
proof -
  obtain m' where m': "fold new_clients_step (zip [0..<length cs] cs) ([], []) = ([], m')"
      "\<forall>cid. map_of m' cid = (case find (\<lambda>c. config_id c = cid) cs of
        Some c \<Rightarrow> Some (stored c) | None \<Rightarrow> map_of [] cid)"
    using new_clients_fold_ok [OF mwf_Nil assms, of "[0..<length cs]" "[]"] by auto
  have "map_of m' cid = map_option stored (find (\<lambda>c. config_id c = cid) cs)" for cid
    using m'(2) by (cases "find (\<lambda>c. config_id c = cid) cs") simp_all
  with m'(1) show ?thesis by auto
qed

lemma new_clients_fold_grows:
  "\<exists>new m'. fold new_clients_step (zip is cs) (ps, m) = (ps @ new, m')"
proof (induction cs arbitrary: "is" ps m)
  case Nil
  then show ?case by simp
next
  case (Cons c cs)
  show ?case
  proof (cases "is")
    case Nil
    then show ?thesis by simp
  next
    case i: (Cons i is')
    show ?thesis
    proof (cases "config_ok c \<and> map_of m (config_id c) = None")
      case True
      then show ?thesis
        using Cons.IH [of is' ps "mput (config_id c) (stored c) m"] by (simp add: i new_clients_step_ok)
    next
      case False
      then obtain p where "new_clients_step (i, c) (ps, m) = (ps @ [p], m)"
        using new_clients_step_bad by blast
      moreover obtain new m' where "fold new_clients_step (zip is' cs) (ps @ [p], m) = ((ps @ [p]) @ new, m')"
        using Cons.IH [of is' "ps @ [p]" m] by blast
      ultimately show ?thesis by (intro exI [of _ "p # new"] exI [of _ m']) (simp add: i)
    qed
  qed
qed

lemma new_clients_fold_bad:
  assumes "\<not> configs_ok m cs" and "length is = length cs"
  shows "\<exists>p new m'. fold new_clients_step (zip is cs) (ps, m) = (ps @ p # new, m')"
  using assms
proof (induction cs arbitrary: "is" ps m)
  case Nil
  then show ?case by (simp add: configs_ok_def)
next
  case (Cons c cs)
  then obtain i is' where i: "is = i # is'" "length is' = length cs" by (cases "is") auto
  show ?case
  proof (cases "config_ok c \<and> map_of m (config_id c) = None")
    case True
    then have "\<not> configs_ok (mput (config_id c) (stored c) m) cs"
      using Cons.prems(1) by (simp add: configs_ok_Cons)
    from Cons.IH [OF this i(2), of ps] True show ?thesis by (simp add: i(1) new_clients_step_ok)
  next
    case False
    then obtain p where "new_clients_step (i, c) (ps, m) = (ps @ [p], m)"
      using new_clients_step_bad by blast
    moreover obtain new m' where "fold new_clients_step (zip is' cs) (ps @ [p], m) = ((ps @ [p]) @ new, m')"
      using new_clients_fold_grows by blast
    ultimately show ?thesis by (intro exI [of _ p] exI [of _ new] exI [of _ m']) (simp add: i(1))
  qed
qed

section \<open>Properties\<close>

definition sample_config :: client_config where
  "sample_config = \<lparr>cc_ID = ''c'', cc_PeerID = ''alice'', cc_Secret = replicate 32 (CHR ''k'')\<rparr>"

lemma sample_config_trim: "TrimSpace ''c'' = ''c''" "TrimSpace ''alice'' = ''alice''"
  by (simp_all add: TrimSpace_plain plain_char_def)

lemma NewClientStore_accepted:
  "(\<exists>s. NewClientStore configs = Inr s) \<longleftrightarrow>
     configs \<noteq> [] \<and> distinct (map (\<lambda>c. TrimSpace (cc_ID c)) configs) \<and>
     (\<forall>c \<in> set configs. TrimSpace (cc_ID c) \<noteq> [] \<and> length (TrimSpace (cc_PeerID c)) \<le> 128 \<and>
        validPeerID (TrimSpace (cc_PeerID c)) \<and> 32 \<le> length (cc_Secret c))"
  (is "?L \<longleftrightarrow> ?R")
proof -
  have ok: "configs_ok [] configs \<longleftrightarrow> (configs \<noteq> [] \<longrightarrow> ?R)"
    by (auto simp: configs_ok_def config_ok_def list_all_iff)
  show ?thesis
  proof (cases "configs_ok [] configs")
    case True
    from new_clients_fold_all [OF this] obtain m' where
      m': "fold new_clients_step (zip [0..<length configs] configs) ([], []) = ([], m')"
        "map_of m' = (\<lambda>cid. map_option stored (find (\<lambda>c. config_id c = cid) configs))" by blast
    have "m' = [] \<longleftrightarrow> configs = []"
    proof
      assume "m' = []"
      show "configs = []"
      proof (cases configs)
        case (Cons c cs)
        with m'(2) have "map_of m' (config_id c) = Some (stored c)" by simp
        with \<open>m' = []\<close> show ?thesis by simp
      qed simp
    next
      assume "configs = []"
      with m'(1) show "m' = []" by simp
    qed
    with m'(1) True ok show ?thesis by (auto simp: NewClientStore_def)
  next
    case False
    then obtain p new m' where "fold new_clients_step (zip [0..<length configs] configs) ([], []) = (p # new, m')"
      using new_clients_fold_bad [OF False, of "[0..<length configs]" "[]"] by auto
    then have "\<not> ?L" by (simp add: NewClientStore_def)
    with False ok show ?thesis by auto
  qed
qed

lemma NewClientStore_entries:
  assumes "NewClientStore configs = Inr s"
  shows "configs_ok [] configs"
    and "map_of (cs_clients s) cid = map_option stored (find (\<lambda>c. config_id c = cid) configs)"
proof -
  have "\<exists>s. NewClientStore configs = Inr s" using assms by blast
  then show ok: "configs_ok [] configs"
    unfolding NewClientStore_accepted by (auto simp: configs_ok_def config_ok_def list_all_iff)
  from new_clients_fold_all [OF this] assms
  show "map_of (cs_clients s) cid = map_option stored (find (\<lambda>c. config_id c = cid) configs)"
    by (auto simp: NewClientStore_def split: if_splits)
qed

lemma sample_configs_accepted: "\<exists>s. NewClientStore [sample_config] = Inr s"
  unfolding NewClientStore_accepted
  by (simp add: sample_config_def sample_config_trim validPeerID_def peerIDAllowed_def less_eq_char_def)

text \<open>
  The configuration. It is accepted exactly when it lists at least one client, each
  with an identifier, a peer identifier of at most 128 characters all of which survive
  everywhere it goes, and a secret of at least 32, and no client is listed twice.
\<close>

theorem NewClientStore_accepts:
  "(\<exists>s. NewClientStore configs = Inr s) \<longleftrightarrow>
     configs \<noteq> [] \<and> distinct (map (\<lambda>c. TrimSpace (cc_ID c)) configs) \<and>
     (\<forall>c \<in> set configs. TrimSpace (cc_ID c) \<noteq> [] \<and> length (TrimSpace (cc_PeerID c)) \<le> 128 \<and>
        validPeerID (TrimSpace (cc_PeerID c)) \<and> 32 \<le> length (cc_Secret c))"
  by (rule NewClientStore_accepted)

theorem NewClientStore_accepts_witness:
  "(\<exists>s. NewClientStore [sample_config] = Inr s) \<and>
   \<not> (\<exists>s. NewClientStore [sample_config, sample_config] = Inr s) \<and> \<not> (\<exists>s. NewClientStore [] = Inr s)"
  using NewClientStore_accepts [of "[sample_config]"] NewClientStore_accepts [of "[sample_config, sample_config]"]
    NewClientStore_accepts [of "[]"]
  by (simp add: sample_config_def sample_config_trim validPeerID_def peerIDAllowed_def less_eq_char_def)

lemma Authenticate_parts:
  assumes "NewClientStore configs = Inr s"
  shows "(Authenticate cid secret s = Inr peerID \<longleftrightarrow>
       (\<exists>c \<in> set configs. TrimSpace (cc_ID c) = cid \<and> TrimSpace (cc_PeerID c) = peerID \<and>
          Sum256 (string_bytes secret) = Sum256 (string_bytes (cc_Secret c)))) \<and>
     (\<forall>c \<in> set configs. Authenticate (TrimSpace (cc_ID c)) (cc_Secret c) s = Inr (TrimSpace (cc_PeerID c))) \<and>
     (\<forall>p. Authenticate cid secret s = Inr p \<longrightarrow> validPeerID p \<and> length p \<le> 128)"
proof -
  note ok = NewClientStore_entries(1) [OF assms] and entry = NewClientStore_entries(2) [OF assms]
  have found: "find (\<lambda>d. config_id d = config_id c) configs = Some c" if "c \<in> set configs" for c
  proof -
    have "find (\<lambda>d. config_id d = config_id c) configs \<noteq> None"
      unfolding find_None_iff using that by blast
    then obtain d where d: "find (\<lambda>d. config_id d = config_id c) configs = Some d" by blast
    then have "d \<in> set configs" "config_id d = config_id c" by (auto simp: find_Some_iff)
    with that ok have "d = c" by (auto simp: configs_ok_def distinct_map dest: inj_onD)
    with d show ?thesis by simp
  qed
  have auth: "Authenticate cid secret s = Inr p \<longleftrightarrow>
      (\<exists>c \<in> set configs. config_id c = cid \<and> TrimSpace (cc_PeerID c) = p \<and>
        Sum256 (string_bytes secret) = Sum256 (string_bytes (cc_Secret c)))" for cid secret p
  proof (cases "find (\<lambda>c. config_id c = cid) configs")
    case None
    then show ?thesis
      by (auto simp: Authenticate_def entry Let_def find_None_iff)
  next
    case (Some c)
    then have c: "c \<in> set configs" "config_id c = cid" by (auto simp: find_Some_iff)
    have uniq: "\<forall>d. d \<in> set configs \<and> config_id d = cid \<longrightarrow> d = c"
      using found Some by auto
    have "Authenticate cid secret s =
        (if Sum256 (string_bytes secret) = Sum256 (string_bytes (cc_Secret c))
         then Inr (TrimSpace (cc_PeerID c)) else Inl ErrUnknownClient)"
      by (simp add: Authenticate_def entry Some Let_def stored_def ConstantTimeCompare_def)
    then have "Authenticate cid secret s = Inr p \<longleftrightarrow> TrimSpace (cc_PeerID c) = p \<and>
        Sum256 (string_bytes secret) = Sum256 (string_bytes (cc_Secret c))" by simp
    then show ?thesis using c uniq by blast
  qed
  moreover have "Authenticate (config_id c) (cc_Secret c) s = Inr (TrimSpace (cc_PeerID c))"
    if "c \<in> set configs" for c
    unfolding auth using that by blast
  moreover have "validPeerID p \<and> length p \<le> 128" if in_p: "Authenticate cid secret s = Inr p" for p
  proof -
    obtain c where "c \<in> set configs" "TrimSpace (cc_PeerID c) = p" using in_p unfolding auth by blast
    with ok show ?thesis by (auto simp: configs_ok_def config_ok_def list_all_iff)
  qed
  ultimately show ?thesis by blast
qed

text \<open>
  Credentials. A client store authenticates a credential exactly when it belongs to
  a configured client whose secret has the digest of the one presented, as that
  client's peer; so every configured client authenticates, and a credential failure is
  one and the same answer whether the identifier or the secret was wrong.
\<close>

theorem Authenticate_spec:
  assumes "NewClientStore configs = Inr s"
  shows "(Authenticate cid secret s = Inr peerID \<longleftrightarrow>
       (\<exists>c \<in> set configs. TrimSpace (cc_ID c) = cid \<and> TrimSpace (cc_PeerID c) = peerID \<and>
          Sum256 (string_bytes secret) = Sum256 (string_bytes (cc_Secret c)))) \<and>
     (\<forall>c \<in> set configs. Authenticate (TrimSpace (cc_ID c)) (cc_Secret c) s = Inr (TrimSpace (cc_PeerID c))) \<and>
     (\<forall>p. Authenticate cid secret s = Inr p \<longrightarrow> validPeerID p \<and> length p \<le> 128)"
  by (rule Authenticate_parts [OF assms])

theorem Authenticate_spec_witness:
  "\<exists>s. NewClientStore [sample_config] = Inr s \<and>
     Authenticate ''c'' (replicate 32 (CHR ''k'')) s = Inr ''alice'' \<and> Authenticate ''d'' ''x'' s = Inl ErrUnknownClient"
proof -
  obtain s where s: "NewClientStore [sample_config] = Inr s" using sample_configs_accepted by blast
  have "Authenticate ''c'' (cc_Secret sample_config) s = Inr ''alice''"
    using Authenticate_spec [OF s] by (simp add: sample_config_def sample_config_trim)
  moreover have "Authenticate ''d'' ''x'' s \<noteq> Inr p" for p
    using Authenticate_spec [OF s, of "''d''" "''x''" p] by (auto simp: sample_config_def sample_config_trim)
  then have "Authenticate ''d'' ''x'' s = Inl ErrUnknownClient"
    by (cases "Authenticate ''d'' ''x'' s") (auto intro: auth_error.exhaust)
  ultimately show ?thesis using s by (auto simp: sample_config_def)
qed

lemma validPeerID_plain:
  assumes "validPeerID p"
  shows "CHR 0x00 \<notin> set p \<and> CHR '':'' \<notin> set p \<and> CHR '' '' \<notin> set p \<and> TrimSpace p = p \<and> p \<noteq> []"
proof -
  have bad: "\<not> peerIDAllowed c" if "c \<in> {CHR 0x00, CHR '':'', CHR '' ''}" for c
    using that by (auto simp: peerIDAllowed_def less_eq_char_def)
  have "\<forall>c \<in> set p. plain_char c"
    using assms by (auto simp: validPeerID_def list_all_iff peerIDAllowed_def plain_char_def less_eq_char_def)
  then have "TrimSpace p = p" by (rule TrimSpace_plain)
  then show ?thesis using assms bad by (auto simp: validPeerID_def list_all_iff)
qed

text \<open>
  An identifier that passes survives everywhere it goes: it holds neither the NUL
  that separates the two peers of a session's key nor the colon that ends the expiry in
  a relay username, and trimming it changes nothing.
\<close>

theorem validPeerID_survives:
  assumes "validPeerID p"
  shows "CHR 0x00 \<notin> set p \<and> CHR '':'' \<notin> set p \<and> CHR '' '' \<notin> set p \<and> TrimSpace p = p \<and> p \<noteq> []"
  by (rule validPeerID_plain [OF assms])

theorem validPeerID_survives_witness: "TrimSpace ''peer-1'' = ''peer-1''"
  using validPeerID_survives [of "''peer-1''"]
  by (simp add: validPeerID_def peerIDAllowed_def less_eq_char_def)

end
