(* ===== verification/Tokens.thy ===== *)
theory Tokens
  imports Go_Text Go_Base64
begin

text \<open>
  internal/auth/token.go: minting and verifying tokens. The JWT library is not part of
  the repository: what the code calls of it (NewNumericDate, SignedString,
  ParseWithClaims with the options the code passes) is the record \<open>jwt\<close>, a parameter,
  and \<open>jwt_documented\<close> states the documented behaviour the code relies on.
\<close>

section \<open>The library's interface\<close>

text \<open>RegisteredClaims, as far as the code fills and reads it.\<close>

record jwt_claims =
  jc_Subject :: string
  jc_Issuer :: string
  jc_ID :: string
  jc_IssuedAt :: "time option"
  jc_ExpiresAt :: "time option"

text \<open>An error of the library, and whether errors.Is finds ErrTokenExpired in it.\<close>

datatype jwt_error = JwtError (is_expired: bool)

text \<open>
  Parsing takes the key, the one valid method, the issuer required, the instant and the
  raw token, with an expiry required.
\<close>

record jwt =
  NumericDate :: "time \<Rightarrow> time"
  SignedString :: "byte list \<Rightarrow> jwt_claims \<Rightarrow> string option"
  ParseWithClaims :: "byte list \<Rightarrow> string \<Rightarrow> string \<Rightarrow> time \<Rightarrow> string \<Rightarrow> jwt_error + jwt_claims"

definition SigningMethod_Alg :: string where
  "SigningMethod_Alg = ''EdDSA''"

text \<open>An ed25519 private key is its seed followed by its public key.\<close>

definition PrivateKeySize :: nat where "PrivateKeySize = 64"
definition PublicKeySize :: nat where "PublicKeySize = 32"

definition key_Public :: "byte list \<Rightarrow> byte list" where
  "key_Public key = drop 32 key"

section \<open>Data and operations\<close>

datatype token_error =
    ErrTokenExpired
  | ErrInvalidToken
  | BadKeySize nat
  | NoIssuer
  | LifetimeNotPositive duration
  | NoPeerToIssueFor
  | TokenIDFailure
  | SigningFailure
  | NoPublicKey

record token =
  tok_Value :: string
  tok_PeerID :: string
  tok_ExpiresAt :: time

record claims =
  cl_PeerID :: string
  cl_ID :: string
  cl_ExpiresAt :: time

record token_issuer =
  ti_key :: "byte list"
  ti_issuer :: string
  ti_ttl :: duration

record token_verifier =
  tv_key :: "byte list"
  tv_issuer :: string

definition NewTokenIssuer :: "byte list \<Rightarrow> string \<Rightarrow> duration \<Rightarrow> token_error + token_issuer" where
  "NewTokenIssuer key issuer ttl =
     (if length key \<noteq> PrivateKeySize then Inl (BadKeySize (length key))
      else if TrimSpace issuer = [] then Inl NoIssuer
      else if ttl \<le> 0 then Inl (LifetimeNotPositive ttl)
      else Inr \<lparr>ti_key = key, ti_issuer = TrimSpace issuer, ti_ttl = ttl\<rparr>)"

definition newTokenID :: "byte list option \<Rightarrow> token_error + string" where
  "newTokenID rand =
     (case rand of None \<Rightarrow> Inl TokenIDFailure | Some buf \<Rightarrow> Inr (RawURLEncoding_EncodeToString buf))"

definition issuer_Issue ::
  "jwt \<Rightarrow> byte list option \<Rightarrow> time \<Rightarrow> string \<Rightarrow> token_issuer \<Rightarrow> token_error + token" where
  "issuer_Issue lib rand now peerID0 i =
     (let peerID = TrimSpace peerID0
      in if peerID = [] then Inl NoPeerToIssueFor
         else case newTokenID rand of
           Inl e \<Rightarrow> Inl e
         | Inr tid \<Rightarrow>
             let issued = now;
                 expires = time_Add issued (ti_ttl i);
                 c = \<lparr>jc_Subject = peerID, jc_Issuer = ti_issuer i, jc_ID = tid,
                      jc_IssuedAt = Some (NumericDate lib issued),
                      jc_ExpiresAt = Some (NumericDate lib expires)\<rparr>
             in case SignedString lib (ti_key i) c of
                  None \<Rightarrow> Inl SigningFailure
                | Some raw \<Rightarrow> Inr \<lparr>tok_Value = raw, tok_PeerID = peerID, tok_ExpiresAt = expires\<rparr>)"

definition issuer_PublicKey :: "token_issuer \<Rightarrow> byte list" where
  "issuer_PublicKey i = key_Public (ti_key i)"

definition NewTokenVerifier :: "byte list \<Rightarrow> string \<Rightarrow> token_verifier" where
  "NewTokenVerifier key issuer = \<lparr>tv_key = key, tv_issuer = TrimSpace issuer\<rparr>"

definition verifier_Verify :: "jwt \<Rightarrow> time \<Rightarrow> string \<Rightarrow> token_verifier \<Rightarrow> token_error + claims" where
  "verifier_Verify lib now raw v =
     (if length (tv_key v) \<noteq> PublicKeySize then Inl NoPublicKey
      else case ParseWithClaims lib (tv_key v) SigningMethod_Alg (tv_issuer v) now raw of
        Inl err \<Rightarrow> if is_expired err then Inl ErrTokenExpired else Inl ErrInvalidToken
      | Inr c \<Rightarrow>
          if TrimSpace (jc_Subject c) = [] then Inl ErrInvalidToken
          else case jc_ExpiresAt c of
            None \<Rightarrow> Inl ErrInvalidToken
          | Some e \<Rightarrow> Inr \<lparr>cl_PeerID = jc_Subject c, cl_ID = jc_ID c, cl_ExpiresAt = e\<rparr>)"

section \<open>What the library documents\<close>

text \<open>
  A numeric date is the instant cut to the second. A token signed with a private key
  parses under its public key and the method it was signed with, when the issuer
  required is the one it names, as the claims signed until the expiry they carry, and as
  an expired token from then on; with another issuer it does not parse; and nothing
  else parses under that key.
\<close>

definition jwt_documented :: "jwt \<Rightarrow> bool" where
  "jwt_documented lib \<longleftrightarrow>
     (\<forall>t. NumericDate lib t = t - t mod second) \<and>
     (\<forall>key c raw iss now e.
        length key = 64 \<longrightarrow> SignedString lib key c = Some raw \<longrightarrow> jc_ExpiresAt c = Some e \<longrightarrow> iss \<noteq> [] \<longrightarrow>
        ParseWithClaims lib (drop 32 key) ''EdDSA'' iss now raw =
          (if jc_Issuer c = iss \<and> now < e then Inr c else Inl (JwtError (e \<le> now)))) \<and>
     (\<forall>pub iss now raw c. iss \<noteq> [] \<longrightarrow>
        ParseWithClaims lib pub ''EdDSA'' iss now raw = Inr c \<longrightarrow>
        (\<exists>key e. length key = 64 \<and> drop 32 key = pub \<and> jc_ExpiresAt c = Some e \<and>
           SignedString lib key c = Some raw))"

lemma documented_parse:
  assumes "jwt_documented lib" and "length key = 64" and "SignedString lib key c = Some raw"
    and "jc_ExpiresAt c = Some e" and "iss \<noteq> []"
  shows "ParseWithClaims lib (drop 32 key) ''EdDSA'' iss now raw =
     (if jc_Issuer c = iss \<and> now < e then Inr c else Inl (JwtError (e \<le> now)))"
  using assms unfolding jwt_documented_def by blast

lemma documented_date: "jwt_documented lib \<Longrightarrow> NumericDate lib t = t - t mod second"
  by (simp add: jwt_documented_def)

section \<open>Properties\<close>

text \<open>A library over one token, for the witnesses: it signs one set of claims with one key.\<close>

definition one_claims :: jwt_claims where
  "one_claims = \<lparr>jc_Subject = ''alice'', jc_Issuer = ''dc'', jc_ID = ''AA'', jc_IssuedAt = Some 0,
     jc_ExpiresAt = Some (60 * second)\<rparr>"

definition one_key :: "byte list" where
  "one_key = replicate 64 1"

definition one_jwt :: jwt where
  "one_jwt =
     \<lparr>NumericDate = (\<lambda>t. t - t mod second),
      SignedString = (\<lambda>key c. if key = one_key \<and> c = one_claims then Some ''t'' else None),
      ParseWithClaims = (\<lambda>pub alg iss now raw.
        if raw = ''t'' \<and> pub = drop 32 one_key \<and> iss = ''dc'' \<and> now < 60 * second then Inr one_claims
        else Inl (JwtError (60 * second \<le> now)))\<rparr>"

lemma one_jwt_documented: "jwt_documented one_jwt"
proof -
  have "length one_key = 64" by (simp add: one_key_def)
  then show ?thesis by (auto simp: jwt_documented_def one_jwt_def one_claims_def split: if_splits)
qed

definition one_issuer :: token_issuer where
  "one_issuer = \<lparr>ti_key = one_key, ti_issuer = ''dc'', ti_ttl = 60 * second\<rparr>"

lemma one_trim: "TrimSpace ''dc'' = ''dc''" "TrimSpace ''alice'' = ''alice''"
  by (simp_all add: TrimSpace_plain plain_char_def)

lemma one_New: "NewTokenIssuer one_key ''dc'' (60 * second) = Inr one_issuer"
  by (simp add: NewTokenIssuer_def one_issuer_def one_trim PrivateKeySize_def one_key_def second_def)

lemma one_Issue:
  "issuer_Issue one_jwt (Some [0]) 0 ''alice'' one_issuer =
     Inr \<lparr>tok_Value = ''t'', tok_PeerID = ''alice'', tok_ExpiresAt = 60 * second\<rparr>"
proof -
  have enc: "RawURLEncoding_EncodeToString [0] = ''AA''" by code_simp
  show ?thesis
    by (simp add: issuer_Issue_def one_trim newTokenID_def enc Let_def time_Add_def)
      (simp add: one_jwt_def one_issuer_def one_claims_def)
qed

lemma Issue_Verify_parts:
  assumes "jwt_documented lib" and "NewTokenIssuer key issuer ttl = Inr i"
    and "issuer_Issue lib rand now peerID i = Inr t"
  shows "verifier_Verify lib later (tok_Value t) (NewTokenVerifier (issuer_PublicKey i) issuer) =
     (if later < tok_ExpiresAt t - tok_ExpiresAt t mod second
      then Inr \<lparr>cl_PeerID = TrimSpace peerID, cl_ID = RawURLEncoding_EncodeToString (the rand),
                cl_ExpiresAt = tok_ExpiresAt t - tok_ExpiresAt t mod second\<rparr>
      else Inl ErrTokenExpired) \<and>
     tok_PeerID t = TrimSpace peerID \<and> tok_ExpiresAt t = now + ttl"
proof -
  have i: "i = \<lparr>ti_key = key, ti_issuer = TrimSpace issuer, ti_ttl = ttl\<rparr>" "length key = 64" "TrimSpace issuer \<noteq> []"
    using assms(2) by (auto simp: NewTokenIssuer_def PrivateKeySize_def split: if_splits)
  obtain buf where buf: "rand = Some buf"
    using assms(3) by (auto simp: issuer_Issue_def newTokenID_def Let_def split: if_splits option.splits)
  define c where "c = \<lparr>jc_Subject = TrimSpace peerID, jc_Issuer = TrimSpace issuer,
      jc_ID = RawURLEncoding_EncodeToString buf, jc_IssuedAt = Some (now - now mod second),
      jc_ExpiresAt = Some (now + ttl - (now + ttl) mod second)\<rparr>"
  have issued: "TrimSpace peerID \<noteq> []" "SignedString lib key c = Some (tok_Value t)"
      "tok_PeerID t = TrimSpace peerID" "tok_ExpiresAt t = now + ttl"
    using assms(3)
    by (auto simp: issuer_Issue_def newTokenID_def buf i(1) c_def documented_date [OF assms(1)] time_Add_def Let_def
        split: if_splits option.splits)
  have "jc_ExpiresAt c = Some (now + ttl - (now + ttl) mod second)" by (simp add: c_def)
  note parse = documented_parse [OF assms(1) i(2) issued(2) this i(3)]
  have size: "length (drop 32 key) = PublicKeySize" using i(2) by (simp add: PublicKeySize_def)
  show ?thesis
    using issued size
    by (simp add: verifier_Verify_def NewTokenVerifier_def issuer_PublicKey_def key_Public_def i(1)
        SigningMethod_Alg_def parse buf) (simp add: c_def TrimSpace_idem)
qed

text \<open>
  Issue, then Verify. A token issued for a peer is accepted by a verifier over the
  issuer's public key and name as that peer, and until the second its lifetime ends in
  begins; from then on it is refused as expired, never as invalid. The expiry read back
  is the one issued, cut to the second.
\<close>

theorem Issue_Verify:
  assumes "jwt_documented lib" and "NewTokenIssuer key issuer ttl = Inr i"
    and "issuer_Issue lib rand now peerID i = Inr t"
  shows "verifier_Verify lib later (tok_Value t) (NewTokenVerifier (issuer_PublicKey i) issuer) =
     (if later < tok_ExpiresAt t - tok_ExpiresAt t mod second
      then Inr \<lparr>cl_PeerID = TrimSpace peerID, cl_ID = RawURLEncoding_EncodeToString (the rand),
                cl_ExpiresAt = tok_ExpiresAt t - tok_ExpiresAt t mod second\<rparr>
      else Inl ErrTokenExpired) \<and>
     tok_PeerID t = TrimSpace peerID \<and> tok_ExpiresAt t = now + ttl"
  by (rule Issue_Verify_parts [OF assms])

theorem Issue_Verify_witness:
  "verifier_Verify one_jwt 5 ''t'' (NewTokenVerifier (issuer_PublicKey one_issuer) ''dc'') =
     Inr \<lparr>cl_PeerID = ''alice'', cl_ID = ''AA'', cl_ExpiresAt = 60 * second\<rparr>"
proof -
  have enc: "RawURLEncoding_EncodeToString [0] = ''AA''" by code_simp
  show ?thesis
    using Issue_Verify [OF one_jwt_documented one_New one_Issue, of 5]
    by (simp add: enc one_trim second_def)
qed



text \<open>
  The expiry a token is answered with is the exact instant, and the one it is accepted
  until is cut to the second: the answer can name an instant at which it is refused.
\<close>

lemma token_answered_expiry_is_late:
  assumes "jwt_documented lib" and "NewTokenIssuer key issuer ttl = Inr i"
    and "issuer_Issue lib rand now peerID i = Inr t" and "tok_ExpiresAt t mod second \<noteq> 0"
  shows "tok_ExpiresAt t - 1 < tok_ExpiresAt t \<and>
     verifier_Verify lib (tok_ExpiresAt t - 1) (tok_Value t) (NewTokenVerifier (issuer_PublicKey i) issuer) =
       Inl ErrTokenExpired"
proof -
  have "0 \<le> tok_ExpiresAt t mod second" by (simp add: second_def)
  then have "\<not> tok_ExpiresAt t - 1 < tok_ExpiresAt t - tok_ExpiresAt t mod second" using assms(4) by linarith
  with Issue_Verify_parts [OF assms(1-3)] show ?thesis by simp
qed

end
