(* ===== verification/Go_Strings.thy ===== *)
theory Go_Strings
  imports Go_Text
begin

text \<open>
  The functions of Go's strings package the program uses on byte strings: Cut,
  CutPrefix, Split on one byte, Join, and EqualFold against a word of ASCII letters
  other than K and S, which no character outside ASCII folds to.
\<close>

definition Cut :: "string \<Rightarrow> char \<Rightarrow> string \<times> string \<times> bool" where
  "Cut s sep =
     (if sep \<in> set s then (takeWhile (\<lambda>c. c \<noteq> sep) s, tl (dropWhile (\<lambda>c. c \<noteq> sep) s), True)
      else (s, [], False))"

definition CutPrefix :: "string \<Rightarrow> string \<Rightarrow> string \<times> bool" where
  "CutPrefix s pre =
     (if take (length pre) s = pre then (drop (length pre) s, True) else (s, False))"

fun Split :: "char \<Rightarrow> string \<Rightarrow> string list" where
  "Split sep [] = [[]]"
| "Split sep (c # cs) =
     (if c = sep then [] # Split sep cs
      else (case Split sep cs of [] \<Rightarrow> [[c]] | field # fields \<Rightarrow> (c # field) # fields))"

fun Join :: "string \<Rightarrow> string list \<Rightarrow> string" where
  "Join sep [] = []"
| "Join sep [s] = s"
| "Join sep (s # t # ss) = s @ sep @ Join sep (t # ss)"

definition ascii_lower :: "char \<Rightarrow> char" where
  "ascii_lower c = (if CHR ''A'' \<le> c \<and> c \<le> CHR ''Z'' then char_of ((of_char c :: nat) + 32) else c)"

definition EqualFold :: "string \<Rightarrow> string \<Rightarrow> bool" where
  "EqualFold s t \<longleftrightarrow> map ascii_lower s = map ascii_lower t"

lemma Split_not_Nil [simp]: "Split sep s \<noteq> []"
  by (cases s) (auto split: list.split)

lemma Split_no_sep: "sep \<notin> set s \<Longrightarrow> Split sep s = [s]"
  by (induction s) auto

lemma Split_append: "sep \<notin> set s \<Longrightarrow> Split sep (s @ sep # t) = s # Split sep t"
  by (induction s) auto

lemma Split_fields: "f \<in> set (Split sep s) \<Longrightarrow> sep \<notin> set f"
  by (induction s arbitrary: f) (auto split: if_splits list.splits)

lemma Cut_append: "sep \<notin> set s \<Longrightarrow> Cut (s @ sep # t) sep = (s, t, True)"
  by (simp add: Cut_def takeWhile_append dropWhile_append)

lemma CutPrefix_append: "CutPrefix (pre @ s) pre = (s, True)"
  by (simp add: CutPrefix_def)

lemma Join_Cons: "ss \<noteq> [] \<Longrightarrow> Join sep (s # ss) = s @ sep @ Join sep ss"
  by (cases ss) simp_all

text \<open>Splitting what was joined gives back the fields without the separator, up to the first that has it.\<close>

lemma Split_Join_prefix:
  assumes "\<forall>f \<in> set (before @ [x]). sep \<notin> set f"
  shows "\<exists>rest. Split sep (Join [sep] (before @ x # after)) = before @ x # rest"
  using assms
proof (induction before)
  case Nil
  then show ?case
    by (cases after) (simp_all add: Split_no_sep Split_append Join_Cons)
next
  case (Cons f fs)
  then show ?case by (auto simp: Join_Cons Split_append)
qed

end
