(* ===== verification/Go_Parse.thy ===== *)
theory Go_Parse
  imports Go_Strings
begin

text \<open>
  The parsers of Go's strconv and net packages the configuration goes through: Atoi and
  SplitHostPort, on byte strings; and the parts of a parsed URL the program reads.
\<close>

record parsed_url =
  url_Scheme :: string
  url_Host :: string
  url_Opaque :: string
  url_Hostname :: string

definition is_digit :: "char \<Rightarrow> bool" where
  "is_digit c \<longleftrightarrow> CHR ''0'' \<le> c \<and> c \<le> CHR ''9''"

definition digits_value :: "string \<Rightarrow> int" where
  "digits_value ds = foldl (\<lambda>n c. n * 10 + (int (of_char c) - 48)) 0 ds"

text \<open>An optional sign and decimal digits, within the range of an int.\<close>

definition Atoi :: "string \<Rightarrow> int option" where
  "Atoi s =
     (let signed = (s \<noteq> [] \<and> (hd s = CHR ''-'' \<or> hd s = CHR ''+''));
          ds = (if signed then tl s else s)
      in if ds = [] \<or> (\<exists>c \<in> set ds. \<not> is_digit c) then None
         else
           let n = digits_value ds; v = (if signed \<and> hd s = CHR ''-'' then - n else n)
           in if v < - (2 ^ 63) \<or> 2 ^ 63 \<le> v then None else Some v)"

definition IndexByte :: "string \<Rightarrow> char \<Rightarrow> nat option" where
  "IndexByte s c = (if c \<in> set s then Some (length (takeWhile (\<lambda>x. x \<noteq> c) s)) else None)"

definition LastIndexByte :: "string \<Rightarrow> char \<Rightarrow> nat option" where
  "LastIndexByte s c =
     (if c \<in> set s then Some (length s - 1 - length (takeWhile (\<lambda>x. x \<noteq> c) (rev s))) else None)"

text \<open>
  The port starts after the last colon; a host in brackets must end just before it, any
  other host has no colon, and brackets stand nowhere else.
\<close>

definition SplitHostPort :: "string \<Rightarrow> (string \<times> string) option" where
  "SplitHostPort hostport =
     (case LastIndexByte hostport (CHR '':'') of
        None \<Rightarrow> None
      | Some i \<Rightarrow>
          let port = drop (Suc i) hostport
          in if hd hostport = CHR ''['' then
               (case IndexByte hostport (CHR '']'') of
                  None \<Rightarrow> None
                | Some close_at \<Rightarrow>
                    if Suc close_at \<noteq> i then None
                    else if CHR ''['' \<in> set (drop 1 hostport) \<or> CHR '']'' \<in> set (drop (Suc close_at) hostport) then None
                    else Some (drop 1 (take close_at hostport), port))
             else
               let host = take i hostport
               in if CHR '':'' \<in> set host then None
                  else if CHR ''['' \<in> set hostport \<or> CHR '']'' \<in> set hostport then None
                  else Some (host, port))"

end
