(* ===== verification/Go_Numbers.thy ===== *)
theory Go_Numbers
  imports Go_Parse
begin

text \<open>
  Numbers as Go writes them: strconv in base ten, digits padded to a width and fractions
  without their last zeros, as package time writes them, and time.Duration's String.
\<close>

section \<open>Decimal numbers\<close>

text \<open>strconv.FormatInt in base ten, and the number a reader of it takes from the digits.\<close>

definition digit_char :: "nat \<Rightarrow> char" where
  "digit_char d = char_of (48 + d)"

fun decimal :: "nat \<Rightarrow> string" where
  "decimal n = (if n < 10 then [digit_char n] else decimal (n div 10) @ [digit_char (n mod 10)])"

declare decimal.simps [simp del]

definition FormatInt :: "int \<Rightarrow> string" where
  "FormatInt i = (if i < 0 then CHR ''-'' # decimal (nat (- i)) else decimal (nat i))"

definition digit_value :: "char \<Rightarrow> nat" where
  "digit_value c = of_char c - 48"

definition read_decimal :: "string \<Rightarrow> nat" where
  "read_decimal s = foldl (\<lambda>n c. 10 * n + digit_value c) 0 s"

lemma digit_value_char: "d < 10 \<Longrightarrow> digit_value (digit_char d) = d"
  by (simp add: digit_value_def digit_char_def)

lemma read_decimal_decimal: "read_decimal (decimal n) = n"
proof (induction n rule: decimal.induct)
  case (1 n)
  show ?case
  proof (cases "n < 10")
    case True
    then show ?thesis by (simp add: decimal.simps [of n] read_decimal_def digit_value_char)
  next
    case False
    with 1 show ?thesis
      by (simp add: decimal.simps [of n] read_decimal_def digit_value_char)
  qed
qed

lemma digit_char_range: "d < 10 \<Longrightarrow> digit_char d \<noteq> CHR '':''"
  by (auto simp: digit_char_def dest!: arg_cong [of _ _ "of_char :: char \<Rightarrow> nat"])

lemma decimal_no_colon: "CHR '':'' \<notin> set (decimal n)"
proof (induction n rule: decimal.induct)
  case (1 n)
  then show ?case
    using digit_char_range [of n] digit_char_range [of "n mod 10"]
    by (subst decimal.simps) (auto dest: sym)
qed

lemma FormatInt_no_colon: "CHR '':'' \<notin> set (FormatInt i)"
  by (simp add: FormatInt_def decimal_no_colon)

section \<open>Digits of a width\<close>

fun padded :: "nat \<Rightarrow> nat \<Rightarrow> string" where
  "padded 0 n = []"
| "padded (Suc w) n = padded w (n div 10) @ [digit_char (n mod 10)]"

lemma length_padded [simp]: "length (padded w n) = w"
  by (induction w arbitrary: n) simp_all

lemma padded_numeral: "padded (numeral k) n = padded (pred_numeral k) (n div 10) @ [digit_char (n mod 10)]"
  by (subst numeral_eq_Suc) (rule padded.simps(2))

lemma code_digit: "d < 10 \<Longrightarrow> (of_char (digit_char d) :: nat) = 48 + d"
  by (simp add: digit_char_def)

lemma digit_char_is_digit: "d < 10 \<Longrightarrow> is_digit (digit_char d)"
  using code_digit [of d] by (simp add: is_digit_def less_eq_char_def)

lemma padded_digits: "list_all is_digit (padded w n)"
  by (induction w arbitrary: n) (simp_all add: digit_char_is_digit)

lemma decimal_digits: "list_all is_digit (decimal n)"
proof (induction n rule: decimal.induct)
  case (1 n)
  then show ?case by (subst decimal.simps) (simp add: digit_char_is_digit)
qed

lemma decimal_nonempty [simp]: "decimal n \<noteq> []"
  by (subst decimal.simps) simp

lemma read_decimal_snoc: "read_decimal (s @ [c]) = 10 * read_decimal s + digit_value c"
  by (simp add: read_decimal_def)

lemma read_decimal_padded: "read_decimal (padded w n) = n mod 10 ^ w"
proof (induction w arbitrary: n)
  case 0
  show ?case by (simp add: read_decimal_def)
next
  case (Suc w)
  have "10 * (n div 10 mod 10 ^ w) + n mod 10 = n mod (10 * 10 ^ w)" by (simp add: mod_mult2_eq)
  with Suc show ?case by (simp add: read_decimal_snoc digit_value_char)
qed

section \<open>Fractions\<close>

text \<open>The digits after the point, without the zeros at the end, and no point without digits.\<close>

definition trim_zeros :: "string \<Rightarrow> string" where
  "trim_zeros ds = rev (dropWhile (\<lambda>c. c = CHR ''0'') (rev ds))"

definition fraction :: "nat \<Rightarrow> nat \<Rightarrow> string" where
  "fraction w n = (let ds = trim_zeros (padded w n) in if ds = [] then [] else CHR ''.'' # ds)"

lemma trim_zeros_split: "\<exists>k. ds = trim_zeros ds @ replicate k (CHR ''0'')"
proof -
  let ?z = "takeWhile (\<lambda>c. c = CHR ''0'') (rev ds)"
  have "rev (?z @ dropWhile (\<lambda>c. c = CHR ''0'') (rev ds)) = ds" by simp
  then have "ds = trim_zeros ds @ rev ?z" by (simp only: trim_zeros_def rev_append)
  moreover have "rev ?z = replicate (length ?z) (CHR ''0'')"
    by (rule replicate_eqI) (auto dest: set_takeWhileD)
  ultimately show ?thesis by (intro exI [of _ "length ?z"]) simp
qed

lemma read_decimal_zeros: "read_decimal (s @ replicate k (CHR ''0'')) = read_decimal s * 10 ^ k"
proof (induction k)
  case (Suc k)
  have "s @ replicate (Suc k) (CHR ''0'') = (s @ replicate k (CHR ''0'')) @ [CHR ''0'']"
    by (simp add: replicate_append_same)
  then show ?case by (simp only: read_decimal_snoc Suc) (simp add: digit_value_def)
qed simp

lemma trim_zeros_value:
  assumes "length ds \<le> w"
  shows "read_decimal (trim_zeros ds) * 10 ^ (w - length (trim_zeros ds)) = read_decimal ds * 10 ^ (w - length ds)"
proof -
  obtain k where k: "ds = trim_zeros ds @ replicate k (CHR ''0'')" using trim_zeros_split by blast
  have len: "length ds = length (trim_zeros ds) + k" using arg_cong [OF k, of length] by simp
  then have "w - length (trim_zeros ds) = k + (w - length ds)" using assms by simp
  moreover have "read_decimal ds = read_decimal (trim_zeros ds) * 10 ^ k"
    using arg_cong [OF k, of read_decimal] by (simp add: read_decimal_zeros)
  ultimately show ?thesis by (simp add: power_add)
qed

lemma trim_zeros_digits: "list_all is_digit ds \<Longrightarrow> list_all is_digit (trim_zeros ds)"
  by (metis list_all_append trim_zeros_split)

lemma trim_zeros_length: "length (trim_zeros ds) \<le> length ds"
  using length_dropWhile_le [of "\<lambda>c. c = CHR ''0''" "rev ds"] by (simp add: trim_zeros_def)

section \<open>Durations\<close>

text \<open>Under a second in the largest unit that fits, otherwise in hours, minutes and seconds.\<close>

definition duration_String :: "duration \<Rightarrow> string" where
  "duration_String d =
     (let u = nat (abs d); secs = u div 1000000000; mins = secs div 60; hours = mins div 60
      in (if d < 0 then ''-'' else []) @
         (if u = 0 then ''0s''
          else if u < 1000 then decimal u @ ''ns''
          else if u < 1000000 then decimal (u div 1000) @ fraction 3 (u mod 1000) @ [CHR 0xC2, CHR 0xB5, CHR ''s'']
          else if u < 1000000000 then decimal (u div 1000000) @ fraction 6 (u mod 1000000) @ ''ms''
          else
            (if mins = 0 then []
             else (if hours = 0 then [] else decimal hours @ ''h'') @ decimal (mins mod 60) @ ''m'') @
            decimal (secs mod 60) @ fraction 9 (u mod 1000000000) @ ''s''))"

end
