(* ===== verification/Ice.thy ===== *)
theory Ice
  imports Clients Go_Numbers
begin

text \<open>
  internal/ice/ice.go: the ICE server list of a peer, with a relay credential that
  expires on its own: a username naming the expiry and the peer, and its HMAC-SHA1
  under the secret shared with the relay.
\<close>

section \<open>Data and operations\<close>

definition separator :: char where
  "separator = CHR '':''"

record credential =
  cr_Username :: string
  cr_Password :: string
  cr_ExpiresAt :: time

record server =
  sv_URLs :: "string list"
  sv_Username :: string
  sv_Credential :: string

record ice_config =
  ic_Servers :: "server list"
  ic_ExpiresAt :: time
  ic_RelayAvailable :: bool

record ice_options =
  io_STUNURLs :: "string list"
  io_TURNURLs :: "string list"
  io_Secret :: string
  io_CredentialTTL :: duration

record provider =
  pv_stun :: "string list"
  pv_turn :: "string list"
  pv_secret :: string
  pv_credentialTTL :: duration

datatype ice_error =
    NoPeerToName
  | PeerHasSeparator
  | NoSharedSecret
  | CredentialLifetimeNotPositive
  | RelayWithoutSecret
  | RelayLifetimeNotPositive

definition NewCredential :: "string \<Rightarrow> string \<Rightarrow> duration \<Rightarrow> time \<Rightarrow> ice_error + credential" where
  "NewCredential peerID secret lifetime now =
     (if TrimSpace peerID = [] then Inl NoPeerToName
      else if separator \<in> set peerID then Inl PeerHasSeparator
      else if secret = [] then Inl NoSharedSecret
      else if lifetime \<le> 0 then Inl CredentialLifetimeNotPositive
      else
        let expires = time_Add now lifetime;
            username = FormatInt (time_Unix expires) @ [separator] @ peerID
        in Inr \<lparr>cr_Username = username,
                cr_Password =
                  StdEncoding_EncodeToString
                    (hmac_Sum sha1_Sum (string_bytes secret) (string_bytes username)),
                cr_ExpiresAt = expires\<rparr>)"

definition NewProvider :: "ice_options \<Rightarrow> ice_error + provider" where
  "NewProvider opts =
     (if io_TURNURLs opts \<noteq> [] \<and> io_Secret opts = [] then Inl RelayWithoutSecret
      else if io_TURNURLs opts \<noteq> [] \<and> io_CredentialTTL opts \<le> 0 then Inl RelayLifetimeNotPositive
      else Inr
        \<lparr>pv_stun = io_STUNURLs opts, pv_turn = io_TURNURLs opts, pv_secret = io_Secret opts,
         pv_credentialTTL = io_CredentialTTL opts\<rparr>)"

definition provider_For :: "time \<Rightarrow> string \<Rightarrow> provider \<Rightarrow> ice_error + ice_config" where
  "provider_For now peerID p =
     (let stun_servers =
            (if length (pv_stun p) > 0
             then [\<lparr>sv_URLs = pv_stun p, sv_Username = [], sv_Credential = []\<rparr>] else []);
          config = \<lparr>ic_Servers = stun_servers, ic_ExpiresAt = 0, ic_RelayAvailable = length (pv_turn p) > 0\<rparr>
      in if \<not> ic_RelayAvailable config then Inr config
         else case NewCredential peerID (pv_secret p) (pv_credentialTTL p) now of
           Inl e \<Rightarrow> Inl e
         | Inr credential \<Rightarrow>
             Inr (config
               \<lparr>ic_Servers := ic_Servers config @
                  [\<lparr>sv_URLs = pv_turn p, sv_Username = cr_Username credential,
                    sv_Credential = cr_Password credential\<rparr>],
                ic_ExpiresAt := cr_ExpiresAt credential\<rparr>))"

section \<open>Properties\<close>

text \<open>The relay's reading of a username: it splits on the first separator.\<close>

definition relay_reads :: "string \<Rightarrow> string \<times> string" where
  "relay_reads username =
     (takeWhile (\<lambda>c. c \<noteq> separator) username, tl (dropWhile (\<lambda>c. c \<noteq> separator) username))"

lemma relay_reads_joined: "separator \<notin> set x \<Longrightarrow> relay_reads (x @ [separator] @ y) = (x, y)"
  by (simp add: relay_reads_def takeWhile_append dropWhile_append)

lemma NewCredential_cases:
  "case NewCredential peerID secret lifetime now of
     Inl e \<Rightarrow> TrimSpace peerID = [] \<or> CHR '':'' \<in> set peerID \<or> secret = [] \<or> lifetime \<le> 0
   | Inr c \<Rightarrow> TrimSpace peerID \<noteq> [] \<and> CHR '':'' \<notin> set peerID \<and> secret \<noteq> [] \<and> 0 < lifetime \<and>
       relay_reads (cr_Username c) = (FormatInt (time_Unix (now + lifetime)), peerID) \<and>
       (0 \<le> time_Unix (now + lifetime) \<longrightarrow>
          int (read_decimal (fst (relay_reads (cr_Username c)))) = time_Unix (now + lifetime)) \<and>
       cr_Password c = StdEncoding_EncodeToString
         (hmac_Sum sha1_Sum (string_bytes secret) (string_bytes (cr_Username c))) \<and>
       cr_ExpiresAt c = now + lifetime"
proof -
  have reads: "relay_reads (FormatInt i @ [separator] @ peerID) = (FormatInt i, peerID)" for i
    by (rule relay_reads_joined) (simp add: separator_def FormatInt_no_colon)
  have num: "int (read_decimal (FormatInt i)) = i" if "0 \<le> i" for i
    using that by (simp add: FormatInt_def read_decimal_decimal)
  show ?thesis
    using num [of "time_Unix (now + lifetime)"] reads [of "time_Unix (now + lifetime)"]
    by (auto simp: NewCredential_def separator_def time_Add_def Let_def split: sum.split)
qed

text \<open>
  A credential, on every branch. It is refused exactly for a blank peer, one with
  the separator in it, no secret or no lifetime; otherwise the relay reads back from
  its username exactly the expiry, in seconds of the Unix epoch, and the peer, and its
  password is the signature of the whole username.
\<close>

theorem NewCredential_spec:
  "case NewCredential peerID secret lifetime now of
     Inl e \<Rightarrow> TrimSpace peerID = [] \<or> CHR '':'' \<in> set peerID \<or> secret = [] \<or> lifetime \<le> 0
   | Inr c \<Rightarrow> TrimSpace peerID \<noteq> [] \<and> CHR '':'' \<notin> set peerID \<and> secret \<noteq> [] \<and> 0 < lifetime \<and>
       relay_reads (cr_Username c) = (FormatInt (time_Unix (now + lifetime)), peerID) \<and>
       (0 \<le> time_Unix (now + lifetime) \<longrightarrow>
          int (read_decimal (fst (relay_reads (cr_Username c)))) = time_Unix (now + lifetime)) \<and>
       cr_Password c = StdEncoding_EncodeToString
         (hmac_Sum sha1_Sum (string_bytes secret) (string_bytes (cr_Username c))) \<and>
       cr_ExpiresAt c = now + lifetime"
  by (rule NewCredential_cases)

theorem NewCredential_spec_witness:
  "case NewCredential ''alice'' ''secret'' (60 * second) (1700000000 * second) of
     Inr c \<Rightarrow> snd (relay_reads (cr_Username c)) = ''alice'' | Inl _ \<Rightarrow> False"
proof -
  have "TrimSpace ''alice'' = ''alice''" by (simp add: TrimSpace_plain plain_char_def)
  then show ?thesis
    using NewCredential_spec [of "''alice''" "''secret''" "60 * second" "1700000000 * second"]
    by (auto simp: second_def split: sum.splits)
qed

text \<open>
  C36: Once the server list is accepted at startup, no peer that can authenticate is
  refused its configuration: it gets the STUN servers first, then the relays with a
  credential of its own that is still good, and is told whether there is a relay at
  all; with none, nothing in the answer expires.
\<close>

theorem provider_For_total:
  assumes "NewProvider opts = Inr p" and "validPeerID peerID"
  shows "\<exists>cfg. provider_For now peerID p = Inr cfg \<and>
     (ic_RelayAvailable cfg \<longleftrightarrow> io_TURNURLs opts \<noteq> []) \<and>
     map sv_URLs (ic_Servers cfg) =
       (if io_STUNURLs opts \<noteq> [] then [io_STUNURLs opts] else []) @
       (if io_TURNURLs opts \<noteq> [] then [io_TURNURLs opts] else []) \<and>
     (\<forall>s \<in> set (ic_Servers cfg). sv_Credential s \<noteq> [] \<longrightarrow>
        snd (relay_reads (sv_Username s)) = peerID \<and>
        fst (relay_reads (sv_Username s)) = FormatInt (time_Unix (ic_ExpiresAt cfg))) \<and>
     (if io_TURNURLs opts \<noteq> [] then now < ic_ExpiresAt cfg else ic_ExpiresAt cfg = 0)"
proof (cases "io_TURNURLs opts = []")
  case True
  then show ?thesis using assms(1) by (auto simp: NewProvider_def provider_For_def split: if_splits)
next
  case False
  then have p: "p = \<lparr>pv_stun = io_STUNURLs opts, pv_turn = io_TURNURLs opts, pv_secret = io_Secret opts,
      pv_credentialTTL = io_CredentialTTL opts\<rparr>" "io_Secret opts \<noteq> []" "0 < io_CredentialTTL opts"
    using assms(1) by (auto simp: NewProvider_def split: if_splits)
  have peer: "TrimSpace peerID \<noteq> []" "CHR '':'' \<notin> set peerID"
    using validPeerID_plain [OF assms(2)] by simp_all
  obtain c where c: "NewCredential peerID (io_Secret opts) (io_CredentialTTL opts) now = Inr c"
    using NewCredential_cases [of peerID "io_Secret opts" "io_CredentialTTL opts" now] peer p(2,3)
    by (auto split: sum.splits)
  have "relay_reads (cr_Username c) = (FormatInt (time_Unix (now + io_CredentialTTL opts)), peerID)"
    "cr_ExpiresAt c = now + io_CredentialTTL opts"
    using NewCredential_cases [of peerID "io_Secret opts" "io_CredentialTTL opts" now] c by simp_all
  with False p c show ?thesis by (auto simp: provider_For_def Let_def)
qed

theorem provider_For_total_witness:
  "\<exists>cfg. provider_For 0 ''alice'' \<lparr>pv_stun = [''stun:x''], pv_turn = [], pv_secret = [], pv_credentialTTL = 0\<rparr> = Inr cfg \<and>
     \<not> ic_RelayAvailable cfg"
proof -
  let ?o = "\<lparr>io_STUNURLs = [''stun:x''], io_TURNURLs = [], io_Secret = [], io_CredentialTTL = 0\<rparr>"
  have "validPeerID ''alice''" by (simp add: validPeerID_def peerIDAllowed_def less_eq_char_def)
  from provider_For_total [of ?o _ "''alice''" 0, OF _ this] show ?thesis
    by (auto simp: NewProvider_def)
qed

end
