(* ===== verification/Transport.thy ===== *)
theory Transport
  imports Registry Session Signaling Limiter Clients Tokens Ice Go_Strings
begin

text \<open>
  internal/transport: the HTTP surface. A handler is a function of the request and of
  the component it acts on; what net/http and encoding/json do around it (reading and
  decoding a body, writing an encoded one) is the request's decoded body, absent when
  decoding failed, and the response's body as a value.
\<close>

section \<open>Requests and responses\<close>

datatype http_method = GET | POST | DELETE | OtherMethod string

text \<open>The peer identifier is what the context carries, empty when nothing put one there.\<close>

record 'b request =
  rq_Method :: http_method
  rq_PeerID :: string
  rq_PathID :: string
  rq_Authorization :: string
  rq_Protocols :: "string list"
  rq_Body :: "'b option"

definition PeerIDFrom :: "'b request \<Rightarrow> string" where
  "PeerIDFrom r = rq_PeerID r"

record peerResponse =
  pr_PeerID :: string
  pr_State :: string
  pr_LastSeen :: time
  pr_HeartbeatInterval :: "duration option"

record sessionResponse =
  sr_SessionID :: string
  sr_Caller :: string
  sr_Callee :: string
  sr_State :: string
  sr_Path :: string
  sr_OpenedAt :: time
  sr_ChangedAt :: time

record iceResponse =
  ir_ICEServers :: "server list"
  ir_ExpiresAt :: "time option"
  ir_RelayAvailable :: bool

record tokenResponse =
  tr_Token :: string
  tr_PeerID :: string
  tr_ExpiresAt :: time

datatype body =
    NoBody
  | ErrorBody string
  | PeerBody peerResponse
  | SessionBody sessionResponse
  | IceBody iceResponse
  | TokenBody tokenResponse

record response =
  rs_Status :: int
  rs_Headers :: "(string \<times> string) list"
  rs_Body :: body

definition json_headers :: "(string \<times> string) list" where
  "json_headers = [(''Content-Type'', ''application/json''), (''Cache-Control'', ''no-store'')]"

definition writeError :: "int \<Rightarrow> string \<Rightarrow> response" where
  "writeError status code = \<lparr>rs_Status = status, rs_Headers = json_headers, rs_Body = ErrorBody code\<rparr>"

definition writeTokenError :: "int \<Rightarrow> string \<Rightarrow> response" where
  "writeTokenError status code =
     (let r = writeError status code
      in r\<lparr>rs_Headers :=
            (''WWW-Authenticate'', ''Bearer error='' @ [CHR 0x22] @ code @ [CHR 0x22]) # rs_Headers r\<rparr>)"

definition writeJSONStatus :: "int \<Rightarrow> body \<Rightarrow> response" where
  "writeJSONStatus status b = \<lparr>rs_Status = status, rs_Headers = json_headers, rs_Body = b\<rparr>"

text \<open>The error codes.\<close>

definition codeInvalidClient :: string where "codeInvalidClient = ''invalid_client''"
definition codeInvalidRequest :: string where "codeInvalidRequest = ''invalid_request''"
definition codeTooManyAttempts :: string where "codeTooManyAttempts = ''too_many_attempts''"
definition codeInvalidToken :: string where "codeInvalidToken = ''invalid_token''"
definition codeTokenExpired :: string where "codeTokenExpired = ''token_expired''"
definition codeNotFound :: string where "codeNotFound = ''not_found''"
definition codeRegistrationRequired :: string where "codeRegistrationRequired = ''registration_required''"
definition codeRegistryFull :: string where "codeRegistryFull = ''registry_full''"
definition codeNotReachable :: string where "codeNotReachable = ''peer_not_reachable''"
definition codeSessionsFull :: string where "codeSessionsFull = ''too_many_sessions''"
definition codePeerSessions :: string where "codePeerSessions = ''too_many_sessions_for_you''"
definition codeBadTransition :: string where "codeBadTransition = ''not_a_valid_transition''"
definition codeCannotCallSelf :: string where "codeCannotCallSelf = ''cannot_call_yourself''"

lemmas codes = codeInvalidClient_def codeInvalidRequest_def codeTooManyAttempts_def codeInvalidToken_def
  codeTokenExpired_def codeNotFound_def codeRegistrationRequired_def codeRegistryFull_def
  codeNotReachable_def codeSessionsFull_def codePeerSessions_def codeBadTransition_def codeCannotCallSelf_def

section \<open>Peers\<close>

fun peer_state_string :: "peer_state \<Rightarrow> string" where
  "peer_state_string Online = ''online''"
| "peer_state_string Suspect = ''suspect''"
| "peer_state_string Gone = ''gone''"

definition as_peerResponse :: "duration option \<Rightarrow> peer \<Rightarrow> body" where
  "as_peerResponse hb p = PeerBody
     \<lparr>pr_PeerID = peer_ID p, pr_State = peer_state_string (peer_State p), pr_LastSeen = peer_LastSeen p,
      pr_HeartbeatInterval = hb\<rparr>"

definition h_Peers ::
  "string range_order \<Rightarrow> time \<Rightarrow> 'b request \<Rightarrow> registry \<Rightarrow> registry \<times> response" where
  "h_Peers ord now r reg =
     (let peerID = PeerIDFrom r
      in if peerID = [] then (reg, writeTokenError 401 codeInvalidToken)
         else case rq_Method r of
           POST \<Rightarrow>
             (case registry_Register ord now peerID reg of
                (reg', Inl e) \<Rightarrow>
                  if e = ErrRegistryFull then (reg', writeError 503 codeRegistryFull)
                  else (reg', writeError 400 codeInvalidRequest)
              | (reg', Inr peer) \<Rightarrow>
                  (reg', writeJSONStatus 200 (as_peerResponse (Some (registry_HeartbeatInterval reg')) peer)))
         | DELETE \<Rightarrow>
             (registry_Deregister peerID reg, \<lparr>rs_Status = 204, rs_Headers = [], rs_Body = NoBody\<rparr>)
         | _ \<Rightarrow>
             (let e = writeError 405 codeInvalidRequest
              in (reg, e\<lparr>rs_Headers := (''Allow'', ''POST, DELETE'') # rs_Headers e\<rparr>)))"

definition h_Heartbeat :: "time \<Rightarrow> 'b request \<Rightarrow> registry \<Rightarrow> registry \<times> response" where
  "h_Heartbeat now r reg =
     (let peerID = PeerIDFrom r
      in if peerID = [] then (reg, writeTokenError 401 codeInvalidToken)
         else case registry_Heartbeat now peerID reg of
           (reg', Inl _) \<Rightarrow> (reg', writeError 409 codeRegistrationRequired)
         | (reg', Inr peer) \<Rightarrow> (reg', writeJSONStatus 200 (as_peerResponse None peer)))"

definition h_PeerLookup :: "time \<Rightarrow> 'b request \<Rightarrow> registry \<Rightarrow> response" where
  "h_PeerLookup now r reg =
     (if PeerIDFrom r = [] then writeTokenError 401 codeInvalidToken
      else case registry_Lookup now (rq_PathID r) reg of
        None \<Rightarrow> writeError 404 codeNotFound
      | Some peer \<Rightarrow> writeJSONStatus 200 (as_peerResponse None peer))"

section \<open>Sessions\<close>

fun sess_state_string :: "sess_state \<Rightarrow> string" where
  "sess_state_string Negotiating = ''negotiating''"
| "sess_state_string Connected = ''connected''"
| "sess_state_string Failed = ''failed''"
| "sess_state_string Closed = ''closed''"

fun sess_path_string :: "sess_path \<Rightarrow> string" where
  "sess_path_string PathUnknown = []"
| "sess_path_string Direct = ''direct''"
| "sess_path_string Relayed = ''relayed''"

definition asResponse :: "session \<Rightarrow> sessionResponse" where
  "asResponse s =
     \<lparr>sr_SessionID = sess_ID s, sr_Caller = sess_Caller s, sr_Callee = sess_Callee s,
      sr_State = sess_state_string (sess_State s), sr_Path = sess_path_string (sess_Path s),
      sr_OpenedAt = sess_OpenedAt s, sr_ChangedAt = sess_ChangedAt s\<rparr>"

definition reportableState :: "string \<Rightarrow> sess_state option" where
  "reportableState raw =
     (if raw = sess_state_string Connected then Some Connected
      else if raw = sess_state_string Failed then Some Failed
      else if raw = sess_state_string Closed then Some Closed
      else None)"

definition reportablePath :: "string \<Rightarrow> sess_path option" where
  "reportablePath raw =
     (if raw = sess_path_string PathUnknown then Some PathUnknown
      else if raw = sess_path_string Direct then Some Direct
      else if raw = sess_path_string Relayed then Some Relayed
      else None)"

record openRequest =
  or_PeerID :: string

record reportRequest =
  rr_State :: string
  rr_Path :: string

text \<open>
  Ended is the hub, or nothing; what telling it does is what SessionEnded does to the
  connections, given which writes succeed.
\<close>

definition notifyEnded :: "(conn \<Rightarrow> message \<Rightarrow> bool) \<Rightarrow> hub option \<Rightarrow> session \<Rightarrow> hub_effect list" where
  "notifyEnded writes ended s =
     (case ended of
        None \<Rightarrow> []
      | Some h \<Rightarrow>
          if session_Live s then []
          else hub_SessionEnded writes (sess_ID s) (sess_state_string (sess_State s))
                 [sess_Caller s, sess_Callee s] h)"

definition h_OpenSession ::
  "(string \<Rightarrow> string range_order) \<Rightarrow> byte list option \<Rightarrow> time \<Rightarrow> (string \<Rightarrow> bool) option \<Rightarrow>
   openRequest request \<Rightarrow> store \<Rightarrow> store \<times> response"
where
  "h_OpenSession ord rand now peers r st =
     (let caller = PeerIDFrom r
      in if caller = [] then (st, writeTokenError 401 codeInvalidToken)
         else case rq_Body r of
           None \<Rightarrow> (st, writeError 400 codeInvalidRequest)
         | Some body \<Rightarrow>
             if or_PeerID body = [] then (st, writeError 400 codeInvalidRequest)
             else if or_PeerID body = caller then (st, writeError 400 codeCannotCallSelf)
             else if \<not> store_Reachable peers (or_PeerID body) then (st, writeError 404 codeNotReachable)
             else case store_Open ord rand now caller (or_PeerID body) st of
               (st', Inl e) \<Rightarrow>
                 (st', if e = ErrNotAllowed then writeError 404 codeNotReachable
                       else if e = ErrSelf then writeError 400 codeCannotCallSelf
                       else if e = ErrFull then writeError 503 codeSessionsFull
                       else if e = ErrTooManyForPeer then writeError 429 codePeerSessions
                       else writeError 400 codeInvalidRequest)
             | (st', Inr opened) \<Rightarrow> (st', writeJSONStatus 201 (SessionBody (asResponse opened))))"

definition h_GetSession ::
  "(conn \<Rightarrow> message \<Rightarrow> bool) \<Rightarrow> time \<Rightarrow> hub option \<Rightarrow> 'b request \<Rightarrow> store \<Rightarrow> store \<times> response \<times> hub_effect list"
where
  "h_GetSession writes now ended r st =
     (let peerID = PeerIDFrom r
      in if peerID = [] then (st, writeTokenError 401 codeInvalidToken, [])
         else case rq_Method r of
           GET \<Rightarrow>
             (case store_Get now (rq_PathID r) peerID st of
                (st', Inl _) \<Rightarrow> (st', writeError 404 codeNotFound, [])
              | (st', Inr found) \<Rightarrow> (st', writeJSONStatus 200 (SessionBody (asResponse found)), []))
         | DELETE \<Rightarrow>
             (case store_Report now (rq_PathID r) peerID Closed PathUnknown st of
                (st', Inl e) \<Rightarrow>
                  (st', if e = ErrNotFound then writeError 404 codeNotFound
                        else if e = ErrBadTransition then writeError 409 codeBadTransition
                        else writeError 400 codeInvalidRequest, [])
              | (st', Inr closed) \<Rightarrow>
                  (st', writeJSONStatus 200 (SessionBody (asResponse closed)), notifyEnded writes ended closed))
         | _ \<Rightarrow>
             (let e = writeError 405 codeInvalidRequest
              in (st, e\<lparr>rs_Headers := (''Allow'', ''GET, DELETE'') # rs_Headers e\<rparr>, [])))"

definition h_ReportSession ::
  "(conn \<Rightarrow> message \<Rightarrow> bool) \<Rightarrow> time \<Rightarrow> hub option \<Rightarrow> reportRequest request \<Rightarrow> store \<Rightarrow>
   store \<times> response \<times> hub_effect list"
where
  "h_ReportSession writes now ended r st =
     (let peerID = PeerIDFrom r
      in if peerID = [] then (st, writeTokenError 401 codeInvalidToken, [])
         else case rq_Body r of
           None \<Rightarrow> (st, writeError 400 codeInvalidRequest, [])
         | Some body \<Rightarrow>
             (case reportableState (rr_State body) of
                None \<Rightarrow> (st, writeError 400 codeInvalidRequest, [])
              | Some state \<Rightarrow>
                  (case reportablePath (rr_Path body) of
                     None \<Rightarrow> (st, writeError 400 codeInvalidRequest, [])
                   | Some path \<Rightarrow>
                       (case store_Report now (rq_PathID r) peerID state path st of
                          (st', Inl e) \<Rightarrow>
                            (st', if e = ErrNotFound then writeError 404 codeNotFound
                                  else if e = ErrBadTransition then writeError 409 codeBadTransition
                                  else writeError 400 codeInvalidRequest, [])
                        | (st', Inr moved) \<Rightarrow>
                            (st', writeJSONStatus 200 (SessionBody (asResponse moved)),
                             notifyEnded writes ended moved)))))"

section \<open>ICE\<close>

definition h_ICEConfig :: "time \<Rightarrow> 'b request \<Rightarrow> provider \<Rightarrow> response" where
  "h_ICEConfig now r p =
     (let peerID = PeerIDFrom r
      in if peerID = [] then writeTokenError 401 codeInvalidToken
         else case provider_For now peerID p of
           Inl _ \<Rightarrow> writeError 500 codeInvalidRequest
         | Inr config \<Rightarrow>
             writeJSONStatus 200 (IceBody
               \<lparr>ir_ICEServers = ic_Servers config,
                ir_ExpiresAt = (if ic_ExpiresAt config = 0 then None else Some (ic_ExpiresAt config)),
                ir_RelayAvailable = ic_RelayAvailable config\<rparr>))"

section \<open>Authentication\<close>

record credentialRequest =
  cq_ClientID :: string
  cq_ClientSecret :: string

definition maxClientIDLen :: nat where
  "maxClientIDLen = 128"

text \<open>
  The limiter is the only state; None when its call does not return. The clock of the
  limiter and that of the issuer are read one after the other.
\<close>

definition h_Auth ::
  "jwt \<Rightarrow> string range_order \<Rightarrow> byte list option \<Rightarrow> time \<Rightarrow> time \<Rightarrow> client_store \<Rightarrow> token_issuer \<Rightarrow>
   credentialRequest request \<Rightarrow> limiter \<Rightarrow> (limiter \<times> response) option"
where
  "h_Auth lib ord rand now issued clients issuer r l =
     (case rq_Body r of
        None \<Rightarrow> Some (l, writeError 400 codeInvalidRequest)
      | Some credentials \<Rightarrow>
          let clientID = TrimSpace (cq_ClientID credentials)
          in if clientID = [] \<or> length clientID > maxClientIDLen \<or> cq_ClientSecret credentials = []
             then Some (l, writeError 400 codeInvalidRequest)
             else if \<not> limiter_Allowed now clientID l
             then Some (l, writeError 429 codeTooManyAttempts)
             else case Authenticate clientID (cq_ClientSecret credentials) clients of
               Inl _ \<Rightarrow>
                 (case limiter_Failed ord now clientID l of
                    None \<Rightarrow> None
                  | Some l' \<Rightarrow> Some (l', writeError 401 codeInvalidClient))
             | Inr peerID \<Rightarrow>
                 (case issuer_Issue lib rand issued peerID issuer of
                    Inl _ \<Rightarrow> Some (l, writeError 500 codeInvalidRequest)
                  | Inr t \<Rightarrow>
                      Some (limiter_Succeeded clientID l,
                            writeJSONStatus 200 (TokenBody
                              \<lparr>tr_Token = tok_Value t, tr_PeerID = tok_PeerID t,
                               tr_ExpiresAt = tok_ExpiresAt t\<rparr>))))"

definition KeyID :: "byte list \<Rightarrow> string" where
  "KeyID public = RawURLEncoding_EncodeToString (Sum256 public)"

definition bearerToken :: "string \<Rightarrow> string option" where
  "bearerToken header =
     (let (scheme, value, found) = Cut header (CHR '' '')
      in if \<not> found \<or> \<not> EqualFold scheme ''Bearer'' then None
         else let value = TrimSpace value in if value = [] then None else Some value)"

text \<open>
  The middleware around a handler: the handler runs only on a request whose token
  verifies, with the peer the token names in its context.
\<close>

definition RequireToken ::
  "jwt \<Rightarrow> time \<Rightarrow> token_verifier \<Rightarrow> ('b request \<Rightarrow> 's \<Rightarrow> 's \<times> response) \<Rightarrow>
   'b request \<Rightarrow> 's \<Rightarrow> 's \<times> response"
where
  "RequireToken lib now verifier handler r s =
     (case bearerToken (rq_Authorization r) of
        None \<Rightarrow> (s, writeTokenError 401 codeInvalidToken)
      | Some raw \<Rightarrow>
          (case verifier_Verify lib now raw verifier of
             Inl e \<Rightarrow>
               (s, writeTokenError 401 (if e = ErrTokenExpired then codeTokenExpired else codeInvalidToken))
           | Inr c \<Rightarrow> handler (r\<lparr>rq_PeerID := cl_PeerID c\<rparr>) s))"

section \<open>Signaling\<close>

definition Subprotocol :: string where "Subprotocol = ''dc-signal.v1''"
definition tokenPrefix :: string where "tokenPrefix = ''dc-token.''"

definition offered_token :: "string \<Rightarrow> string option" where
  "offered_token offered0 =
     (let offered = TrimSpace offered0; (token, found) = CutPrefix offered tokenPrefix
      in if found \<and> token \<noteq> [] then Some token else None)"

fun first_token :: "string list \<Rightarrow> string option" where
  "first_token [] = None"
| "first_token (offered # rest) =
     (case offered_token offered of Some t \<Rightarrow> Some t | None \<Rightarrow> first_token rest)"

definition tokenFromSubprotocols :: "'b request \<Rightarrow> string option" where
  "tokenFromSubprotocols r = first_token (concat (map (Split (CHR '','')) (rq_Protocols r)))"

text \<open>
  What GET /signal does before the upgrade: a refusal to answer with, or the peer whose
  channel it is. The upgrade itself and the socket belong to the WebSocket library.
\<close>

definition signal_authenticate :: "jwt \<Rightarrow> time \<Rightarrow> token_verifier \<Rightarrow> 'b request \<Rightarrow> response + string" where
  "signal_authenticate lib now verifier r =
     (case tokenFromSubprotocols r of
        None \<Rightarrow> Inl (writeTokenError 401 codeInvalidToken)
      | Some raw \<Rightarrow>
          (case verifier_Verify lib now raw verifier of
             Inl e \<Rightarrow> Inl (writeTokenError 401 (if e = ErrTokenExpired then codeTokenExpired else codeInvalidToken))
           | Inr c \<Rightarrow> Inr (cl_PeerID c)))"

text \<open>A close frame carries at most 123 bytes of reason.\<close>

definition close_reason :: "string \<Rightarrow> string" where
  "close_reason reason = (if length reason > 123 then take 123 reason else reason)"

end
