(* ===== verification/Handlers.thy ===== *)
theory Handlers
  imports Transport
begin

text \<open>
  What the HTTP surface promises, handler by handler: who may write what, what a
  refusal tells and does not tell, and what an accepted credential is worth.
\<close>

section \<open>Peers\<close>

definition sample_request :: "'b option \<Rightarrow> 'b request" where
  "sample_request b =
     \<lparr>rq_Method = POST, rq_PeerID = ''mallory'', rq_PathID = ''s'', rq_Authorization = ''Bearer t'',
      rq_Protocols = [], rq_Body = b\<rparr>"

lemma h_Peers_others:
  assumes "registry_wf reg" and "range_ok ord" and "q \<notin> {rq_PeerID r, TrimSpace (rq_PeerID r)}"
  shows "live_peers (fst (h_Peers ord now r reg)) now q = live_peers reg now q"
proof -
  have "live_peers (fst (registry_Register ord now (rq_PeerID r) reg)) now q = live_peers reg now q"
    using live_peers_Register [OF assms(1,2), of now "rq_PeerID r"] assms(3)
      registry_Register_ok [of ord now "rq_PeerID r" reg]
    by (auto split: sum.splits)
  moreover have "fst (h_Peers ord now r reg) \<in>
      {reg, fst (registry_Register ord now (rq_PeerID r) reg), registry_Deregister (rq_PeerID r) reg}"
    by (auto simp: h_Peers_def PeerIDFrom_def Let_def split: http_method.split sum.split prod.split)
  ultimately show ?thesis using assms(3) by (auto simp: live_peers_Deregister)
qed

lemma h_Heartbeat_others:
  assumes "registry_wf reg" and "q \<noteq> rq_PeerID r"
  shows "live_peers (fst (h_Heartbeat now r reg)) now q = live_peers reg now q"
proof -
  have "fst (h_Heartbeat now r reg) \<in> {reg, fst (registry_Heartbeat now (rq_PeerID r) reg)}"
    by (auto simp: h_Heartbeat_def PeerIDFrom_def Let_def split: sum.split prod.split)
  with assms(2) show ?thesis by (auto simp: live_peers_Heartbeat [OF assms(1)] split: option.splits)
qed

text \<open>
  A peer writes itself and nothing else. Behind the token middleware the routes
  that register, deregister and keep a peer alive change nothing unless the request
  carries a token that verifies, and then only the record of the peer the token names;
  what the request itself claims to be makes no difference.
\<close>

theorem peer_routes_write_only_the_caller:
  assumes "registry_wf reg" and "range_ok ord"
    and "handler = h_Peers ord now \<or> handler = h_Heartbeat now"
    and "live_peers (fst (RequireToken lib now' v handler r reg)) now q \<noteq> live_peers reg now q"
  shows "\<exists>raw cl. bearerToken (rq_Authorization r) = Some raw \<and> verifier_Verify lib now' raw v = Inr cl \<and>
       (q = cl_PeerID cl \<or> q = TrimSpace (cl_PeerID cl)) \<and>
     (\<forall>p. RequireToken lib now' v handler (r\<lparr>rq_PeerID := p\<rparr>) reg = RequireToken lib now' v handler r reg)"
proof -
  obtain raw cl where ok: "bearerToken (rq_Authorization r) = Some raw" "verifier_Verify lib now' raw v = Inr cl"
    using assms(4) by (auto simp: RequireToken_def split: option.splits sum.splits)
  then have run: "RequireToken lib now' v handler r reg = handler (r\<lparr>rq_PeerID := cl_PeerID cl\<rparr>) reg"
    by (simp add: RequireToken_def)
  have "q \<in> {cl_PeerID cl, TrimSpace (cl_PeerID cl)}"
    using assms(3,4) h_Peers_others [OF assms(1,2), of q "r\<lparr>rq_PeerID := cl_PeerID cl\<rparr>" now]
      h_Heartbeat_others [OF assms(1), of q "r\<lparr>rq_PeerID := cl_PeerID cl\<rparr>" now]
    by (auto simp: run)
  moreover have "RequireToken lib now' v handler (r\<lparr>rq_PeerID := p\<rparr>) reg = RequireToken lib now' v handler r reg" for p
    by (simp add: RequireToken_def split: option.split sum.split)
  ultimately show ?thesis using ok by auto
qed

definition sample_verifier :: token_verifier where
  "sample_verifier = NewTokenVerifier (issuer_PublicKey one_issuer) ''dc''"

lemma sample_verified:
  "verifier_Verify one_jwt 5 ''t'' sample_verifier =
     Inr \<lparr>cl_PeerID = ''alice'', cl_ID = ''AA'', cl_ExpiresAt = 60 * second\<rparr>"
proof -
  have "RawURLEncoding_EncodeToString [0] = ''AA''" by code_simp
  then show ?thesis
    using Issue_Verify_parts [OF one_jwt_documented one_New one_Issue, of 5]
    by (simp add: one_trim second_def sample_verifier_def)
qed

lemma sample_bearer: "bearerToken (rq_Authorization (sample_request b)) = Some ''t''"
  by code_simp

theorem peer_routes_write_only_the_caller_witness:
  "live_peers (fst (RequireToken one_jwt 5 sample_verifier (h_Peers rev 1) (sample_request (None :: unit option)) sample_registry))
     1 ''mallory'' = live_peers sample_registry 1 ''mallory'' \<and>
   live_peers (fst (RequireToken one_jwt 5 sample_verifier (h_Peers rev 1) (sample_request (None :: unit option)) sample_registry))
     1 ''alice'' \<noteq> live_peers sample_registry 1 ''alice''"
proof -
  let ?r = "RequireToken one_jwt 5 sample_verifier (h_Peers rev 1) (sample_request (None :: unit option)) sample_registry"
  have run: "?r = h_Peers rev 1 ((sample_request (None :: unit option))\<lparr>rq_PeerID := ''alice''\<rparr>) sample_registry"
    by (simp add: RequireToken_def sample_bearer sample_verified)
  have "\<not> live_peers (fst ?r) 1 ''mallory'' \<noteq> live_peers sample_registry 1 ''mallory''"
    using peer_routes_write_only_the_caller [OF sample_registry_wf range_ok_rev disjI1 [OF refl],
        where lib = one_jwt and now' = 5 and v = sample_verifier and r = "sample_request (None :: unit option)"
          and now = 1 and q = "''mallory''"]
    by (auto simp: sample_bearer sample_verified one_trim)
  moreover have "live_peers (fst ?r) 1 ''alice'' \<noteq> live_peers sample_registry 1 ''alice''"
    unfolding run
    by (simp add: h_Peers_def PeerIDFrom_def sample_request_def registry_Register_def one_trim sample_registry_def
        live_peers_def stateOf_def time_Sub_def second_def max_duration_def min_duration_def Let_def)
  ultimately show ?thesis by simp
qed

section \<open>Sessions\<close>

lemma Report_outsider:
  assumes "\<forall>h. st_sess st sid = Some h \<longrightarrow> \<not> session_Has h p"
  shows "store_Report now sid p state path st = (st, Inl ErrNotFound)"
  using assms by (auto simp: store_Report_def split: option.split)

lemma Get_outsider:
  assumes "\<forall>h. st_sess st sid = Some h \<longrightarrow> \<not> session_Has h p"
  shows "store_Get now sid p st = (st, Inl ErrNotFound)"
  using assms by (auto simp: store_Get_def split: option.split)

definition sample_report :: "string \<Rightarrow> string \<Rightarrow> reportRequest request" where
  "sample_report caller state =
     \<lparr>rq_Method = POST, rq_PeerID = caller, rq_PathID = ''s'', rq_Authorization = [], rq_Protocols = [],
      rq_Body = Some \<lparr>rr_State = state, rr_Path = []\<rparr>\<rparr>"

text \<open>
  C37: A session is nobody else's business. To a peer that is not in it, every session
  route answers exactly as for an identifier no session has, whatever is asked or
  reported, writes nothing to any channel and changes nothing in the store; asking for
  it or ending it is not found.
\<close>

theorem session_routes_hide_outsiders:
  assumes "\<forall>h. st_sess st (rq_PathID r) = Some h \<longrightarrow> \<not> session_Has h (rq_PeerID r)"
    and "\<forall>h. st_sess st (rq_PathID q) = Some h \<longrightarrow> \<not> session_Has h (rq_PeerID q)"
    and "st_sess st unknown = None"
  shows "h_GetSession writes now ended r st = h_GetSession writes now ended (r\<lparr>rq_PathID := unknown\<rparr>) st \<and>
     h_ReportSession writes now ended q st = h_ReportSession writes now ended (q\<lparr>rq_PathID := unknown\<rparr>) st \<and>
     (\<exists>rs. h_GetSession writes now ended r st = (st, rs, [])) \<and>
     (\<exists>rs. h_ReportSession writes now ended q st = (st, rs, [])) \<and>
     (rq_PeerID r \<noteq> [] \<and> (rq_Method r = GET \<or> rq_Method r = DELETE) \<longrightarrow>
        h_GetSession writes now ended r st = (st, writeError 404 codeNotFound, []))"
proof -
  have none: "\<forall>h. st_sess st unknown = Some h \<longrightarrow> \<not> session_Has h p" for p using assms(3) by simp
  note out = Get_outsider [OF assms(1)] Get_outsider [OF none] Report_outsider [OF assms(1)]
    Report_outsider [OF assms(2)] Report_outsider [OF none]
  show ?thesis
    by (auto simp: h_GetSession_def h_ReportSession_def PeerIDFrom_def Let_def out
        split: http_method.split option.split)
qed

theorem session_routes_hide_outsiders_witness:
  "h_ReportSession (\<lambda>_ _. True) 5 (Some sample_hub) (sample_report ''mallory'' ''closed'') sample_store =
     (sample_store, writeError 404 codeNotFound, [])"
proof -
  have "h_ReportSession (\<lambda>_ _. True) 5 (Some sample_hub) (sample_report ''mallory'' ''closed'') sample_store =
      h_ReportSession (\<lambda>_ _. True) 5 (Some sample_hub) (sample_report ''mallory'' ''closed''\<lparr>rq_PathID := ''x''\<rparr>) sample_store"
    using session_routes_hide_outsiders [where st = sample_store and q = "sample_report ''mallory'' ''closed''"
        and r = "sample_report ''mallory'' ''closed''" and unknown = "''x''" and writes = "\<lambda>_ _. True" and now = 5
        and ended = "Some sample_hub"]
    by (simp add: sample_report_def sample_store_sess sample_session_fields)
  moreover have "store_Report 5 ''x'' ''mallory'' Closed PathUnknown sample_store = (sample_store, Inl ErrNotFound)"
    by (rule Report_outsider) (simp add: sample_store_sess)
  ultimately show ?thesis
    by (simp add: h_ReportSession_def sample_report_def PeerIDFrom_def reportableState_def reportablePath_def Let_def)
qed

text \<open>What SessionEnded writes: one message on the channel of each peer that has one.\<close>

definition ended_message :: "session \<Rightarrow> message" where
  "ended_message s =
     message_zero\<lparr>msg_Type := SessionState, msg_SessionID := sess_ID s, msg_State := sess_state_string (sess_State s)\<rparr>"

lemma hub_Tell_wrote:
  "Wrote c m \<in> set (hub_Tell writes p msg h) \<longleftrightarrow> m = msg \<and> hub_conn h p = Some c \<and> writes c msg"
  by (cases "hub_conn h p") (auto simp: hub_Tell_def hub_send_conn split: if_splits)

lemma SessionEnded_wrote:
  "Wrote c m \<in> set (hub_SessionEnded writes (sess_ID s) (sess_state_string (sess_State s)) ps h) \<longleftrightarrow>
     m = ended_message s \<and> writes c m \<and> (\<exists>p \<in> set ps. hub_conn h p = Some c)"
  by (auto simp: hub_SessionEnded_def hub_Tell_wrote ended_message_def simp del: map_option_eq_Some)

lemma notifyEnded_wrote:
  "Wrote c m \<in> set (notifyEnded writes ended s) \<longleftrightarrow>
     (\<exists>h p. ended = Some h \<and> \<not> session_Live s \<and> m = ended_message s \<and> writes c m \<and>
        session_Has s p \<and> hub_conn h p = Some c)"
  by (cases ended) (auto simp: notifyEnded_def SessionEnded_wrote session_Has_def simp del: map_option_eq_Some)

text \<open>The two routes that end sessions, as what they report to the store.\<close>

definition report_target :: "reportRequest request \<Rightarrow> (sess_state \<times> sess_path) option" where
  "report_target r =
     (case rq_Body r of None \<Rightarrow> None
      | Some b \<Rightarrow> (case (reportableState (rr_State b), reportablePath (rr_Path b)) of
                   (Some s, Some p) \<Rightarrow> Some (s, p) | _ \<Rightarrow> None))"

lemma Report_answer:
  assumes "store_wf st" and "store_Report now sid p state path st = (st', Inr h')"
  shows "\<exists>h. st_sess st sid = Some h \<and> session_Has h p \<and> canMove (sess_State h) state \<and> store_wf st' \<and>
     h' = reported now state path h \<and> st_sess st' = (st_sess st)(sid \<mapsto> h')"
  using store_Report_cases [OF assms(1), where now = now and sid = sid and p = p and state = state and path = path] assms(2)
  by auto


lemma settle_live_view:
  assumes "store_wf st" and "st_sess st sid = Some h"
  shows "live_view (fst (settleLocked now h st)) now = live_view st now"
proof -
  note eff = settle_effect [OF store_wf_loose [OF assms(1)] assms(2), of now]
  have "(if session_Live (settled d now (settled d now h)) then Some (settled d now h) else None) =
      (if session_Live (settled d now h) then Some h else None)" for d
    by (simp add: settled_live)
  then show ?thesis
    unfolding live_view_def eff(2) settings_fields(1) [OF eff(3)] using assms(2) by auto
qed

lemma Report_refusal_view:
  assumes "store_wf st" and "store_Report now sid p state path st = (st', Inl e)"
  shows "live_view st' now = live_view st now \<and> (e = ErrNotFound \<or> e = ErrBadTransition)"
  using store_Report_cases [OF assms(1), where now = now and sid = sid and p = p and state = state and path = path]
    assms(2) settle_live_view [OF assms(1)] by auto

text \<open>Both routes answer a report the same way.\<close>

definition report_answer ::
  "(conn \<Rightarrow> message \<Rightarrow> bool) \<Rightarrow> time \<Rightarrow> hub option \<Rightarrow> string \<Rightarrow> string \<Rightarrow> sess_state \<Rightarrow> sess_path \<Rightarrow> store \<Rightarrow>
   store \<times> response \<times> hub_effect list"
where
  "report_answer writes now ended sid p state path st =
     (case store_Report now sid p state path st of
        (st', Inl e) \<Rightarrow>
          (st', if e = ErrNotFound then writeError 404 codeNotFound
                else if e = ErrBadTransition then writeError 409 codeBadTransition
                else writeError 400 codeInvalidRequest, [])
      | (st', Inr moved) \<Rightarrow>
          (st', writeJSONStatus 200 (SessionBody (asResponse moved)), notifyEnded writes ended moved))"

lemma h_ReportSession_answer:
  "h_ReportSession writes now ended r st =
     (if rq_PeerID r = [] then (st, writeTokenError 401 codeInvalidToken, [])
      else case report_target r of
        None \<Rightarrow> (st, writeError 400 codeInvalidRequest, [])
      | Some (state, path) \<Rightarrow> report_answer writes now ended (rq_PathID r) (rq_PeerID r) state path st)"
proof (cases "rq_Body r")
  case (Some b)
  then show ?thesis
    by (cases "reportableState (rr_State b)"; cases "reportablePath (rr_Path b)")
      (simp_all add: h_ReportSession_def report_target_def report_answer_def PeerIDFrom_def)
qed (simp add: h_ReportSession_def report_target_def PeerIDFrom_def)

lemma h_GetSession_delete:
  "rq_Method r = DELETE \<Longrightarrow> h_GetSession writes now ended r st =
     (if rq_PeerID r = [] then (st, writeTokenError 401 codeInvalidToken, [])
      else report_answer writes now ended (rq_PathID r) (rq_PeerID r) Closed PathUnknown st)"
  by (simp add: h_GetSession_def report_answer_def PeerIDFrom_def Let_def)

definition ended_tells :: "(conn \<Rightarrow> message \<Rightarrow> bool) \<Rightarrow> hub \<Rightarrow> session \<Rightarrow> (conn \<times> message) set" where
  "ended_tells writes h g =
     (if session_Live g then {}
      else {(c, m). m = ended_message g \<and> writes c m \<and>
              (hub_conn h (sess_Caller g) = Some c \<or> hub_conn h (sess_Callee g) = Some c)})"

lemma notifyEnded_tells: "{(c, m). Wrote c m \<in> set (notifyEnded writes (Some h) g)} = ended_tells writes h g"
  unfolding notifyEnded_wrote session_Has_def ended_tells_def by auto

lemma report_answer_effect:
  assumes "store_wf st" and "report_answer writes now (Some h) sid p state path st = (st', rs, eff)"
  shows "(if \<exists>g. st_sess st sid = Some g \<and> session_Has g p \<and> canMove (sess_State (settled (st_timeout st) now g)) state
     then \<exists>g. rs = writeJSONStatus 200 (SessionBody (asResponse g)) \<and> st_sess st' = (st_sess st)(sid \<mapsto> g) \<and>
        sess_State g = state \<and> {(c, m). Wrote c m \<in> set eff} = ended_tells writes h g
     else rs_Status rs \<in> {404, 409} \<and> eff = [] \<and> live_view st' now = live_view st now)"
proof -
  let ?rep = "store_Report now sid p state path st"
  note cases = store_Report_cases [OF assms(1), where now = now and sid = sid and p = p and state = state and path = path]
  show ?thesis
  proof (cases "snd ?rep")
    case (Inl e)
    then have rep: "?rep = (fst ?rep, Inl e)" by (metis prod.collapse)
    note ref = Report_refusal_view [OF assms(1) rep]
    have "\<not> (\<exists>g. st_sess st sid = Some g \<and> session_Has g p \<and> canMove (sess_State (settled (st_timeout st) now g)) state)"
      using cases Inl by auto
    moreover have "st' = fst ?rep" "eff = []" "rs_Status rs \<in> {404, 409}"
      using assms(2) rep ref
      by (auto simp: report_answer_def writeError_def split_beta split: sum.splits if_splits)
    ultimately show ?thesis using ref by auto
  next
    case (Inr g)
    then obtain g0 where g0: "st_sess st sid = Some g0" "session_Has g0 p"
        "canMove (sess_State (settled (st_timeout st) now g0)) state" "g = reported now state path g0"
        "st_sess (fst ?rep) = (st_sess st)(sid \<mapsto> g)"
      using cases by auto
    have st: "sess_State g = state" by (simp add: g0(4) reported_def Let_def)
    have "st' = fst ?rep" "rs = writeJSONStatus 200 (SessionBody (asResponse g))"
        "eff = notifyEnded writes (Some h) g"
      using assms(2) Inr by (auto simp: report_answer_def split_beta)
    with g0 st notifyEnded_tells show ?thesis by auto
  qed
qed



text \<open>
  The status POST /sessions answers with, over the sessions live at the instant of the
  request and the peers that are reachable.
\<close>

definition open_status :: "store \<Rightarrow> time \<Rightarrow> (string \<Rightarrow> bool) option \<Rightarrow> string \<Rightarrow> string \<Rightarrow> int" where
  "open_status st now peers caller callee =
     (if callee = [] \<or> callee = caller then 400
      else if \<not> store_Reachable peers callee then 404
      else case open_refusal st now caller (TrimSpace callee) of
        None \<Rightarrow> 201
      | Some e \<Rightarrow>
          if e = ErrNotAllowed then 404 else if e = ErrFull then 503
          else if e = ErrTooManyForPeer then 429 else 400)"

lemma store_Open_not_allowed:
  assumes "store_Open ord rand now a b st = (st', Inl ErrNotAllowed)" and "store_wf st" and "open_inputs ord rand st"
  shows "st' = st"
proof -
  have "open_refusal st now (TrimSpace a) (TrimSpace b) = Some ErrNotAllowed"
    using store_Open_promise [OF assms(2,3,1)] by (simp add: open_promise_def)
  then have "TrimSpace a \<noteq> []" "TrimSpace b \<noteq> []" "TrimSpace a \<noteq> TrimSpace b" "\<not> st_authorizer st (TrimSpace a) (TrimSpace b)"
    by (auto simp: open_refusal_def split: if_splits)
  with assms(1) show ?thesis by (simp add: store_Open_def Let_def)
qed

lemma OpenSession_parts:
  assumes "store_wf st" and "open_inputs ord (Some buf) st" and "validPeerID (rq_PeerID r)"
    and "rq_Body r = Some b" and "h_OpenSession ord (Some buf) now peers r st = (st', rs)"
  shows "rs_Status rs = open_status st now peers (rq_PeerID r) (or_PeerID b) \<and>
     (rs_Status rs = 404 \<longrightarrow> rs = writeError 404 codeNotReachable \<and> st' = st) \<and>
     (rs_Status rs = 201 \<longrightarrow> (\<exists>h. rs = writeJSONStatus 201 (SessionBody (asResponse h)) \<and>
        live_view st' now (sess_ID h) = Some h \<and>
        pairKey (sess_Caller h) (sess_Callee h) = pairKey (rq_PeerID r) (TrimSpace (or_PeerID b)))) \<and>
     (rs_Status rs \<noteq> 201 \<longrightarrow> live_view st' now = live_view st now)"
proof -
  let ?caller = "rq_PeerID r" and ?callee = "or_PeerID b"
  have caller: "TrimSpace ?caller = ?caller" "?caller \<noteq> []" using validPeerID_plain [OF assms(3)] by simp_all
  show ?thesis
  proof (cases "?callee = [] \<or> ?callee = ?caller \<or> \<not> store_Reachable peers ?callee")
    case True
    with assms(4,5) caller show ?thesis
      by (auto simp: h_OpenSession_def PeerIDFrom_def open_status_def writeError_def Let_def)
  next
    case False
    obtain st1 x where run: "store_Open ord (Some buf) now ?caller ?callee st = (st1, x)" by fastforce
    note promise = store_Open_promise [OF assms(1,2) run, unfolded open_promise_def caller(1)]
    show ?thesis
    proof (cases x)
      case (Inl e)
      with promise have ref: "open_refusal st now ?caller (TrimSpace ?callee) = Some e"
        and view: "live_view st1 now = live_view st now" by auto
      have res: "st' = st1" "rs = (if e = ErrNotAllowed then writeError 404 codeNotReachable
           else if e = ErrSelf then writeError 400 codeCannotCallSelf
           else if e = ErrFull then writeError 503 codeSessionsFull
           else if e = ErrTooManyForPeer then writeError 429 codePeerSessions
           else writeError 400 codeInvalidRequest)"
        using assms(4,5) False caller by (simp_all add: h_OpenSession_def PeerIDFrom_def run Inl Let_def)
      have "e = ErrNotAllowed \<Longrightarrow> st1 = st" using store_Open_not_allowed run Inl assms(1,2) by blast
      with False ref view show ?thesis by (auto simp: res open_status_def writeError_def)
    next
      case (Inr h)
      have "st' = st1" "rs = writeJSONStatus 201 (SessionBody (asResponse h))"
        using assms(4,5) False caller by (simp_all add: h_OpenSession_def PeerIDFrom_def run Inr Let_def)
      with promise Inr False show ?thesis
        by (auto simp: open_status_def sess_key_def writeJSONStatus_def split: if_splits)
    qed
  qed
qed

text \<open>
  Opening a session, on every branch. The status is the abstract one; a peer that
  cannot be reached and one the policy refuses are the same answer, and leave the store
  as it was; when the answer is 201 it shows a session of the pair that is live in the
  store; any other answer leaves what is live as it was.
\<close>

theorem OpenSession_spec:
  assumes "store_wf st" and "open_inputs ord (Some buf) st" and "validPeerID (rq_PeerID r)"
    and "rq_Body r = Some b" and "h_OpenSession ord (Some buf) now peers r st = (st', rs)"
  shows "rs_Status rs = open_status st now peers (rq_PeerID r) (or_PeerID b) \<and>
     (rs_Status rs = 404 \<longrightarrow> rs = writeError 404 codeNotReachable \<and> st' = st) \<and>
     (rs_Status rs = 201 \<longrightarrow> (\<exists>h. rs = writeJSONStatus 201 (SessionBody (asResponse h)) \<and>
        live_view st' now (sess_ID h) = Some h \<and>
        pairKey (sess_Caller h) (sess_Callee h) = pairKey (rq_PeerID r) (TrimSpace (or_PeerID b)))) \<and>
     (rs_Status rs \<noteq> 201 \<longrightarrow> live_view st' now = live_view st now)"
  by (rule OpenSession_parts [OF assms])

definition sample_open :: "string \<Rightarrow> openRequest request" where
  "sample_open callee =
     \<lparr>rq_Method = POST, rq_PeerID = ''a'', rq_PathID = [], rq_Authorization = [], rq_Protocols = [],
      rq_Body = Some \<lparr>or_PeerID = callee\<rparr>\<rparr>"

theorem OpenSession_spec_witness:
  "rs_Status (snd (h_OpenSession (\<lambda>_. rev) (Some [0]) 1 (Some (\<lambda>p. p = ''b'')) (sample_open ''b'') sample_store)) = 201 \<and>
   snd (h_OpenSession (\<lambda>_. rev) (Some [0]) 1 (Some (\<lambda>p. p = ''b'')) (sample_open ''c'') sample_store) =
     writeError 404 codeNotReachable"
proof -
  have enc: "RawURLEncoding_EncodeToString [0] = ''AA''" by code_simp
  have inputs: "open_inputs (\<lambda>_. rev) (Some [0]) sample_store"
    by (simp add: open_inputs_def enc sample_store_sess)
  have a: "validPeerID ''a''" by (simp add: validPeerID_def peerIDAllowed_def less_eq_char_def)
  have tr: "TrimSpace ''b'' = ''b''" by (simp add: TrimSpace_plain plain_char_def)
  have "live_view sample_store 1 = [''s'' \<mapsto> sample_session]"
    by (rule sample_live_view) (simp_all add: second_def)
  then have pl: "pair_live sample_store 1 ''a'' ''b''"
    by (simp add: pair_live_def sess_key_def sample_session_fields)
  then have ref: "open_refusal sample_store 1 ''a'' ''b'' = None"
    by (simp add: open_refusal_def sample_store_fields AllowAll_Allows_def)
  note spec = OpenSession_spec [OF sample_store_wf inputs, OF _ _ surjective_pairing, where now = 1 and peers = "Some (\<lambda>p. p = ''b'')"]
  have "rs_Status (snd (h_OpenSession (\<lambda>_. rev) (Some [0]) 1 (Some (\<lambda>p. p = ''b'')) (sample_open ''b'') sample_store)) = 201"
    using spec [of "sample_open ''b''" "\<lparr>or_PeerID = ''b''\<rparr>"] a
    by (simp add: sample_open_def open_status_def store_Reachable_def tr ref)
  moreover have "snd (h_OpenSession (\<lambda>_. rev) (Some [0]) 1 (Some (\<lambda>p. p = ''b'')) (sample_open ''c'') sample_store) =
      writeError 404 codeNotReachable"
    using spec [of "sample_open ''c''" "\<lparr>or_PeerID = ''c''\<rparr>"] a
    by (simp add: sample_open_def open_status_def store_Reachable_def)
  ultimately show ?thesis ..
qed

end
