(* ===== verification/Handlers_Auth.thy ===== *)
theory Handlers_Auth
  imports Handlers
begin

text \<open>
  What POST /auth promises, and what the token it answers with is worth on the two
  transports a token is presented on.
\<close>

section \<open>Exchanging a credential\<close>

definition sample_credential :: "string \<Rightarrow> string \<Rightarrow> credentialRequest request" where
  "sample_credential cid secret =
     \<lparr>rq_Method = POST, rq_PeerID = [], rq_PathID = [], rq_Authorization = [], rq_Protocols = [],
      rq_Body = Some \<lparr>cq_ClientID = cid, cq_ClientSecret = secret\<rparr>\<rparr>"

text \<open>A credential that is well formed, and is looked at.\<close>

definition credential_of :: "credentialRequest request \<Rightarrow> (string \<times> string) option" where
  "credential_of r =
     (case rq_Body r of None \<Rightarrow> None
      | Some c \<Rightarrow>
          if TrimSpace (cq_ClientID c) = [] \<or> 128 < length (TrimSpace (cq_ClientID c)) \<or> cq_ClientSecret c = []
          then None else Some (TrimSpace (cq_ClientID c), cq_ClientSecret c))"

lemma h_Auth_steps:
  "h_Auth lib ord rand now issued clients issuer r l =
     (case credential_of r of
        None \<Rightarrow> Some (l, writeError 400 codeInvalidRequest)
      | Some (cid, secret) \<Rightarrow>
          if \<not> limiter_Allowed now cid l then Some (l, writeError 429 codeTooManyAttempts)
          else case Authenticate cid secret clients of
            Inl _ \<Rightarrow> map_option (\<lambda>l'. (l', writeError 401 codeInvalidClient)) (limiter_Failed ord now cid l)
          | Inr p \<Rightarrow>
              (case issuer_Issue lib rand issued p issuer of
                 Inl _ \<Rightarrow> Some (l, writeError 500 codeInvalidRequest)
               | Inr t \<Rightarrow> Some (limiter_Succeeded cid l, writeJSONStatus 200 (TokenBody
                   \<lparr>tr_Token = tok_Value t, tr_PeerID = tok_PeerID t, tr_ExpiresAt = tok_ExpiresAt t\<rparr>))))"
proof (cases "rq_Body r")
  case (Some c)
  then show ?thesis
    by (cases "Authenticate (TrimSpace (cq_ClientID c)) (cq_ClientSecret c) clients";
        cases "limiter_Failed ord now (TrimSpace (cq_ClientID c)) l")
      (simp_all add: h_Auth_def credential_of_def maxClientIDLen_def Let_def not_le)
qed (simp add: h_Auth_def credential_of_def)

lemma limiter_Failed_total:
  assumes "limiter_bounded l" and "range_ok ord"
  obtains l' where "limiter_Failed ord now cid l = Some l'" "limiter_bounded l'"
  using limiter_Failed_effect [OF assms, of now cid] by blast

lemma h_Auth_outcome:
  assumes "limiter_bounded l" and "range_ok ord"
  shows "\<exists>l' rs. h_Auth lib ord rand now issued clients issuer r l = Some (l', rs) \<and> limiter_bounded l' \<and>
     (rs_Status rs = 200 \<longrightarrow> (\<exists>cid secret p t.
        credential_of r = Some (cid, secret) \<and> limiter_Allowed now cid l \<and> Authenticate cid secret clients = Inr p \<and>
        issuer_Issue lib rand issued p issuer = Inr t \<and> l' = limiter_Succeeded cid l \<and>
        rs_Body rs = TokenBody \<lparr>tr_Token = tok_Value t, tr_PeerID = tok_PeerID t, tr_ExpiresAt = tok_ExpiresAt t\<rparr>)) \<and>
     (\<forall>cid secret p. credential_of r = Some (cid, secret) \<and> limiter_Allowed now cid l \<and>
        Authenticate cid secret clients = Inr p \<longrightarrow> rs_Status rs = 200 \<or> rs_Status rs = 500)"
proof (cases "credential_of r")
  case None
  with assms show ?thesis by (simp add: h_Auth_steps writeError_def)
next
  case (Some x)
  then obtain cid secret where cred: "credential_of r = Some (cid, secret)" by (cases x) auto
  obtain l' where l': "limiter_Failed ord now cid l = Some l'" "limiter_bounded l'"
    using limiter_Failed_total [OF assms] .
  note ok = limiter_Succeeded_bounded [OF assms(1), of cid]
  show ?thesis
  proof (cases "Authenticate cid secret clients")
    case (Inl e)
    with cred l' assms(1) show ?thesis by (simp add: h_Auth_steps writeError_def)
  next
    case (Inr p)
    with cred ok assms(1) show ?thesis
      by (cases "issuer_Issue lib rand issued p issuer")
        (simp_all add: h_Auth_steps writeError_def writeJSONStatus_def)
  qed
qed

text \<open>
  C39: A token is issued for a configured client and for nobody else. POST /auth always
  answers and keeps the limiter's bounds; when it answers with a token the credential
  presented is that of a configured client whose allowance was not spent, the token is
  accepted as that client's peer by this server's verifier until the second its
  lifetime ends in begins, and the client's failures are forgotten; and the credential
  of a configured client that has allowance left is never answered as wrong.
\<close>

theorem Auth_issues_to_clients:
  assumes "NewClientStore configs = Inr clients" and "NewTokenIssuer key iss ttl = Inr issuer"
    and "jwt_documented lib" and "limiter_bounded l" and "range_ok ord"
  shows "\<exists>l' rs. h_Auth lib ord rand now issued clients issuer r l = Some (l', rs) \<and> limiter_bounded l' \<and>
     (rs_Status rs = 200 \<longrightarrow> (\<exists>cid secret cfg tr.
        credential_of r = Some (cid, secret) \<and> cfg \<in> set configs \<and> TrimSpace (cc_ID cfg) = cid \<and>
        Sum256 (string_bytes secret) = Sum256 (string_bytes (cc_Secret cfg)) \<and> limiter_Allowed now cid l \<and>
        rs_Body rs = TokenBody tr \<and> tr_PeerID tr = TrimSpace (cc_PeerID cfg) \<and> tr_ExpiresAt tr = issued + ttl \<and>
        map_of (lim_failures l') cid = None \<and>
        (\<forall>later < tr_ExpiresAt tr - tr_ExpiresAt tr mod second. \<exists>cl.
           verifier_Verify lib later (tr_Token tr) (NewTokenVerifier (issuer_PublicKey issuer) iss) = Inr cl \<and>
           cl_PeerID cl = tr_PeerID tr))) \<and>
     (\<forall>cfg \<in> set configs. credential_of r = Some (TrimSpace (cc_ID cfg), cc_Secret cfg) \<and>
        limiter_Allowed now (TrimSpace (cc_ID cfg)) l \<longrightarrow> rs_Status rs = 200 \<or> rs_Status rs = 500)"
proof -
  note auth = Authenticate_parts [OF assms(1)]
  obtain l' rs where out: "h_Auth lib ord rand now issued clients issuer r l = Some (l', rs)" "limiter_bounded l'"
      "rs_Status rs = 200 \<longrightarrow> (\<exists>cid secret p t.
        credential_of r = Some (cid, secret) \<and> limiter_Allowed now cid l \<and> Authenticate cid secret clients = Inr p \<and>
        issuer_Issue lib rand issued p issuer = Inr t \<and> l' = limiter_Succeeded cid l \<and>
        rs_Body rs = TokenBody \<lparr>tr_Token = tok_Value t, tr_PeerID = tok_PeerID t, tr_ExpiresAt = tok_ExpiresAt t\<rparr>)"
      "\<forall>cid secret p. credential_of r = Some (cid, secret) \<and> limiter_Allowed now cid l \<and>
        Authenticate cid secret clients = Inr p \<longrightarrow> rs_Status rs = 200 \<or> rs_Status rs = 500"
    using h_Auth_outcome [OF assms(4,5), of lib rand now issued clients issuer r] by (elim exE conjE) (rule that)
  have known: "rs_Status rs = 200 \<or> rs_Status rs = 500"
    if "cfg \<in> set configs" "credential_of r = Some (TrimSpace (cc_ID cfg), cc_Secret cfg)"
      "limiter_Allowed now (TrimSpace (cc_ID cfg)) l" for cfg
    using out(4) auth that by blast
  have "\<exists>cid secret cfg tr. credential_of r = Some (cid, secret) \<and> cfg \<in> set configs \<and> TrimSpace (cc_ID cfg) = cid \<and>
      Sum256 (string_bytes secret) = Sum256 (string_bytes (cc_Secret cfg)) \<and> limiter_Allowed now cid l \<and>
      rs_Body rs = TokenBody tr \<and> tr_PeerID tr = TrimSpace (cc_PeerID cfg) \<and> tr_ExpiresAt tr = issued + ttl \<and>
      map_of (lim_failures l') cid = None \<and>
      (\<forall>later < tr_ExpiresAt tr - tr_ExpiresAt tr mod second. \<exists>cl.
         verifier_Verify lib later (tr_Token tr) (NewTokenVerifier (issuer_PublicKey issuer) iss) = Inr cl \<and>
         cl_PeerID cl = tr_PeerID tr)" if ok: "rs_Status rs = 200"
  proof -
    obtain cid secret p t where s: "credential_of r = Some (cid, secret)" "limiter_Allowed now cid l"
        "Authenticate cid secret clients = Inr p" "issuer_Issue lib rand issued p issuer = Inr t"
        "l' = limiter_Succeeded cid l"
        "rs_Body rs = TokenBody \<lparr>tr_Token = tok_Value t, tr_PeerID = tok_PeerID t, tr_ExpiresAt = tok_ExpiresAt t\<rparr>"
      using out(3) ok by blast
    obtain cfg where cfg: "cfg \<in> set configs" "TrimSpace (cc_ID cfg) = cid" "TrimSpace (cc_PeerID cfg) = p"
        "Sum256 (string_bytes secret) = Sum256 (string_bytes (cc_Secret cfg))"
      using auth s(3) by metis
    have gone: "map_of (lim_failures l') cid = None" by (simp add: s(5) limiter_Succeeded_def)
    have tok: "tok_PeerID t = TrimSpace (cc_PeerID cfg)" "tok_ExpiresAt t = issued + ttl"
      using Issue_Verify_parts [OF assms(3,2) s(4), of 0] by (simp_all add: cfg(3) [symmetric])
    have ver: "\<exists>cl. verifier_Verify lib later (tok_Value t) (NewTokenVerifier (issuer_PublicKey issuer) iss) = Inr cl \<and>
        cl_PeerID cl = tok_PeerID t" if "later < tok_ExpiresAt t - tok_ExpiresAt t mod second" for later
      using Issue_Verify_parts [OF assms(3,2) s(4), of later] that by simp
    let ?tr = "\<lparr>tr_Token = tok_Value t, tr_PeerID = tok_PeerID t, tr_ExpiresAt = tok_ExpiresAt t\<rparr>"
    show ?thesis
      by (rule exI [of _ cid], rule exI [of _ secret], rule exI [of _ cfg], rule exI [of _ ?tr])
        (use s(1,2,6) cfg(1,2,4) gone tok ver in simp)
  qed
  with out(1,2) known show ?thesis by blast
qed

theorem Auth_issues_to_clients_witness:
  "\<exists>s l' rs. NewClientStore [sample_config] = Inr s \<and>
     h_Auth one_jwt rev (Some [0]) 0 0 s one_issuer (sample_credential ''c'' (replicate 32 (CHR ''k''))) sample_limiter =
       Some (l', rs) \<and> (rs_Status rs = 200 \<or> rs_Status rs = 500)"
proof -
  obtain s where s: "NewClientStore [sample_config] = Inr s" using sample_configs_accepted by blast
  have "limiter_Allowed 0 ''c'' sample_limiter" by (simp add: limiter_Allowed_def sample_limiter_def)
  then show ?thesis
    using Auth_issues_to_clients [OF s one_New one_jwt_documented NewAttemptLimiter_bounded [OF sample_limiter_New]
        range_ok_rev, where rand = "Some [0]" and now = 0 and issued = 0
        and r = "sample_credential ''c'' (replicate 32 (CHR ''k''))"] s
    by (auto simp: credential_of_def sample_credential_def sample_config_trim sample_config_def)
qed

text \<open>
  C40: What a refused caller learns. With its allowance spent an identifier is refused
  before its credential is looked at, the right one included; otherwise a wrong
  credential is the same answer whether the client exists or not, and, unless the table
  of failures is full of others, counts one more failure against the identifier
  presented; nobody else is refused for it, then or later.
\<close>

theorem Auth_refusals_uniform:
  assumes "limiter_bounded l" and "range_ok ord" and "credential_of r = Some (cid, secret)"
    and "\<not> limiter_Allowed now cid l \<or> Authenticate cid secret clients = Inl e"
  shows "\<exists>l'. h_Auth lib ord rand now issued clients issuer r l =
       Some (l', if limiter_Allowed now cid l then writeError 401 codeInvalidClient
                 else writeError 429 codeTooManyAttempts) \<and>
     (if limiter_Allowed now cid l
      then limiter_Tracked l < 8192 \<or> map_of (lim_failures l) cid \<noteq> None \<longrightarrow>
             live_failures l' now cid = Some (next_failure now (live_failures l now cid))
      else l' = l) \<and>
     (\<forall>q t. q \<noteq> cid \<and> now \<le> t \<and> limiter_Allowed t q l \<longrightarrow> limiter_Allowed t q l')"
proof (cases "limiter_Allowed now cid l")
  case False
  with assms(3) show ?thesis by (simp add: h_Auth_steps)
next
  case True
  obtain l' E where eff: "limiter_Failed ord now cid l = Some l'" "limiter_settings l' = limiter_settings l"
      "E \<noteq> {} \<longrightarrow> limiter_Tracked l = maxTracked \<and> map_of (lim_failures l) cid = None"
      "\<forall>t \<ge> now. live_failures l' t = (\<lambda>c. if c \<in> E then None
        else if c = cid then
          (let fr = next_failure now (live_failures l now cid) in if fr_expired t fr l then None else Some fr)
        else live_failures l t c)"
    using limiter_Failed_effect [OF assms(1,2), of now cid] by blast
  have "lim_allowance l' = lim_allowance l" using eff(2) by (simp add: limiter_settings_def)
  then have others: "limiter_Allowed t q l'" if "q \<noteq> cid" "now \<le> t" "limiter_Allowed t q l" for q t
    using that eff(4) by (auto simp: limiter_Allowed_live split: option.splits)
  have "h_Auth lib ord rand now issued clients issuer r l = Some (l', writeError 401 codeInvalidClient)"
    using True assms(3,4) eff(1) by (simp add: h_Auth_steps)
  moreover have "live_failures l' now cid = Some (next_failure now (live_failures l now cid))"
    if "limiter_Tracked l < 8192 \<or> map_of (lim_failures l) cid \<noteq> None"
  proof -
    have "cid \<notin> E" using eff(3) that by (auto simp: maxTracked_def)
    moreover have "\<not> fr_expired now (next_failure now (live_failures l now cid)) l"
      using assms(1)
      by (auto simp: next_failure_def fr_expired_def live_failures_def limiter_bounded_def limiter_wf_def
          split: option.splits if_splits)
    ultimately show ?thesis using eff(4) by (simp add: Let_def)
  qed
  ultimately show ?thesis using True others by auto
qed

theorem Auth_refusals_uniform_witness:
  "\<exists>l'. h_Auth one_jwt rev None 0 0 \<lparr>cs_clients = [], cs_dummy = []\<rparr> one_issuer (sample_credential ''c'' ''x'') sample_limiter =
     Some (l', writeError 401 codeInvalidClient) \<and> live_failures l' 0 ''c'' = Some \<lparr>fr_count = 1, fr_startedAt = 0\<rparr>"
proof -
  have cred: "credential_of (sample_credential ''c'' ''x'') = Some (''c'', ''x'')"
    by (simp add: credential_of_def sample_credential_def sample_config_trim)
  have "limiter_Allowed 0 ''c'' sample_limiter" "limiter_Tracked sample_limiter < 8192"
    "live_failures sample_limiter 0 ''c'' = None"
    by (simp_all add: limiter_Allowed_def sample_limiter_def limiter_Tracked_def live_failures_def)
  moreover have "Authenticate ''c'' ''x'' \<lparr>cs_clients = [], cs_dummy = []\<rparr> = Inl ErrUnknownClient"
    by (simp add: Authenticate_def)
  ultimately show ?thesis
    using Auth_refusals_uniform [OF NewAttemptLimiter_bounded [OF sample_limiter_New] range_ok_rev cred,
        where now = 0 and clients = "\<lparr>cs_clients = [], cs_dummy = []\<rparr>" and lib = one_jwt and rand = None
          and issued = 0 and issuer = one_issuer]
    by (auto simp: next_failure_def)
qed

section \<open>Presenting a token\<close>

text \<open>The characters a token is made of: printable ASCII without the comma.\<close>

definition token_text :: "string \<Rightarrow> bool" where
  "token_text t \<longleftrightarrow> t \<noteq> [] \<and> (\<forall>c \<in> set t. plain_char c \<and> c \<noteq> CHR '','')"

lemma bearerToken_of:
  assumes "token_text t"
  shows "bearerToken (''Bearer '' @ t) = Some t"
proof -
  have "Cut (''Bearer'' @ CHR '' '' # t) (CHR '' '') = (''Bearer'', t, True)"
    by (rule Cut_append) simp
  then have "Cut (''Bearer '' @ t) (CHR '' '') = (''Bearer'', t, True)" by simp
  with assms show ?thesis by (simp add: bearerToken_def token_text_def TrimSpace_plain EqualFold_def)
qed

text \<open>
  One token, two transports. A token presented as a bearer token on the HTTP routes
  and the same token offered among the subprotocols of the signaling channel, wherever
  in the list and whatever white space is around it, are the same token: both routes
  accept it or refuse it alike, and as the same peer.
\<close>

theorem token_transports_agree:
  assumes "token_text t" and "\<forall>f \<in> set before. CHR '','' \<notin> set f \<and> offered_token f = None"
    and "rq_Authorization r = ''Bearer '' @ t"
    and "TrimSpace x = tokenPrefix @ t" and "CHR '','' \<notin> set x"
    and "rq_Protocols q = [Join '','' (before @ [x] @ after)]"
  shows "bearerToken (rq_Authorization r) = Some t \<and> tokenFromSubprotocols q = Some t \<and>
     RequireToken lib now v (\<lambda>r s. (s, writeError 200 (rq_PeerID r))) r () =
       (case signal_authenticate lib now v q of
          Inl rs \<Rightarrow> ((), rs) | Inr p \<Rightarrow> ((), writeError 200 p))"
proof -
  have tok: "offered_token x = Some t"
    using assms(1) by (simp add: offered_token_def assms(4) CutPrefix_append token_text_def)
  have skip: "first_token (fs @ gs) = first_token gs" if "\<forall>f \<in> set fs. offered_token f = None" for fs gs
    using that by (induction fs) simp_all
  have "\<forall>f \<in> set (before @ [x]). CHR '','' \<notin> set f" using assms(2,5) by auto
  from Split_Join_prefix [OF this, of after] obtain rest where
    "Split (CHR '','') (Join '','' (before @ [x] @ after)) = before @ x # rest" by auto
  then have "tokenFromSubprotocols q = Some t"
    using assms(2) by (simp add: tokenFromSubprotocols_def assms(6) skip tok)
  moreover have "bearerToken (rq_Authorization r) = Some t" unfolding assms(3) by (rule bearerToken_of [OF assms(1)])
  ultimately show ?thesis
    by (simp add: RequireToken_def signal_authenticate_def split: sum.split)
qed

theorem token_transports_agree_witness:
  "signal_authenticate one_jwt 5 sample_verifier
     ((sample_request None :: unit request)\<lparr>rq_Protocols := [''dc-signal.v1, dc-token.t'']\<rparr>) = Inr ''alice''"
proof -
  let ?r = "sample_request (None :: unit option)"
  let ?q = "?r\<lparr>rq_Protocols := [''dc-signal.v1, dc-token.t'']\<rparr>"
  have "token_text ''t''" by (simp add: token_text_def plain_char_def)
  moreover have "\<forall>f \<in> set [''dc-signal.v1'']. CHR '','' \<notin> set f \<and> offered_token f = None"
    by (simp add: offered_token_def TrimSpace_plain plain_char_def CutPrefix_def tokenPrefix_def)
  moreover have "rq_Authorization ?r = ''Bearer '' @ ''t''" by (simp add: sample_request_def)
  moreover have "rq_Protocols ?q = [Join '','' ([''dc-signal.v1''] @ ['' dc-token.t''] @ [])]" by simp
  moreover have "TrimSpace '' dc-token.t'' = tokenPrefix @ ''t''" by code_simp
  moreover have "CHR '','' \<notin> set '' dc-token.t''" by simp
  ultimately have "tokenFromSubprotocols ?q = Some ''t''"
    using token_transports_agree [of "''t''" "[''dc-signal.v1'']" ?r "'' dc-token.t''" ?q "[]"] by blast
  then show ?thesis by (simp add: signal_authenticate_def sample_verified)
qed

end
