(* ===== verification/Wiring.thy ===== *)
theory Wiring
  imports Handlers_Auth
begin

text \<open>
  cmd/central/main.go: the adapters between the components, and the control plane as
  one system. The state of the process is the record \<open>central\<close>; what is fixed once it
  serves (the credentials, the keys, the relay) is the record \<open>deployment\<close>. A request,
  a message on a channel and a tick of each background loop are functions of that
  state; \<open>central_step\<close> is the relation of one of them happening.
\<close>

section \<open>The adapters\<close>

text \<open>reachable.Lookup: what the session store asks of the registry.\<close>

definition reachable_Lookup :: "time \<Rightarrow> registry \<Rightarrow> string \<Rightarrow> bool" where
  "reachable_Lookup now peers peerID \<longleftrightarrow> registry_Lookup now peerID peers \<noteq> None"

text \<open>sessionsAsPairs.Other: what the hub asks of the session store.\<close>

definition sessionsAsPairs_Other :: "time \<Rightarrow> store sessions_iface" where
  "sessionsAsPairs_Other now sessionID peerID sessions =
     (case store_Get now sessionID peerID sessions of
        (sessions', Inl _) \<Rightarrow> (sessions', [], False)
      | (sessions', Inr held) \<Rightarrow>
          if \<not> session_Live held then (sessions', [], False)
          else (sessions', session_Other held peerID, True))"

text \<open>presence.Connected: a report, and a registration when the report is refused.\<close>

definition presence_Connected ::
  "string range_order \<Rightarrow> time \<Rightarrow> time \<Rightarrow> string \<Rightarrow> registry \<Rightarrow> registry" where
  "presence_Connected ord now now' peerID peers =
     (case registry_Heartbeat now peerID peers of
        (peers', Inl _) \<Rightarrow> fst (registry_Register ord now' peerID peers')
      | (peers', Inr _) \<Rightarrow> peers')"

definition presence_Disconnected :: "string \<Rightarrow> registry \<Rightarrow> registry" where
  "presence_Disconnected _ peers = peers"

text \<open>What the hub's calls of its presence do to the registry, in the order it makes them.\<close>

definition run_presence ::
  "string range_order \<Rightarrow> time \<Rightarrow> time \<Rightarrow> hub_effect list \<Rightarrow> registry \<Rightarrow> registry" where
  "run_presence ord now now' eff = fold (presence_effect (presence_Connected ord now now') presence_Disconnected) eff"

text \<open>
  What the sweep does with the peers it removed: every session of each is closed, and
  both sides of each session closed are told. Each ClosePeer reads the clock for itself.
\<close>

fun tell_closed :: "(conn \<Rightarrow> message \<Rightarrow> bool) \<Rightarrow> hub \<Rightarrow> session list \<Rightarrow> hub_effect list" where
  "tell_closed writes h [] = []"
| "tell_closed writes h (ended # rest) =
     hub_SessionEnded writes (sess_ID ended) (sess_state_string (sess_State ended))
       [sess_Caller ended, sess_Callee ended] h @ tell_closed writes h rest"

fun close_expired ::
  "(string \<Rightarrow> string range_order) \<Rightarrow> (string \<Rightarrow> time) \<Rightarrow> (conn \<Rightarrow> message \<Rightarrow> bool) \<Rightarrow> hub \<Rightarrow>
   string list \<Rightarrow> store \<times> hub_effect list \<Rightarrow> store \<times> hub_effect list"
where
  "close_expired ord clock writes h [] (st, eff) = (st, eff)"
| "close_expired ord clock writes h (peerID # removed) (st, eff) =
     (let (st', closed) = store_ClosePeer (ord peerID) (clock peerID) peerID st
      in close_expired ord clock writes h removed (st', eff @ tell_closed writes h closed))"

text \<open>One tick of refreshPresence: every peer holding a channel reports in.\<close>

fun refresh_peers ::
  "(string \<Rightarrow> string range_order) \<Rightarrow> (string \<Rightarrow> time \<times> time) \<Rightarrow> string list \<Rightarrow> registry \<Rightarrow> registry"
where
  "refresh_peers ord clock [] peers = peers"
| "refresh_peers ord clock (peerID # rest) peers =
     refresh_peers ord clock rest
       (case registry_Heartbeat (fst (clock peerID)) peerID peers of
          (peers', Inl _) \<Rightarrow> fst (registry_Register (ord peerID) (snd (clock peerID)) peerID peers')
        | (peers', Inr _) \<Rightarrow> peers')"

text \<open>How often the two loops tick: the interval asked for, or a minute.\<close>

definition tick_every :: "duration \<Rightarrow> duration" where
  "tick_every every = (if every \<le> 0 then minute else every)"

section \<open>The contract of the hub's sessions\<close>

lemma Other_answer:
  assumes "store_wf st"
  shows "snd (sessionsAsPairs_Other now sid p st) =
     (case live_view st now sid of
        Some h \<Rightarrow> if session_Has h p then (session_Other h p, True) else ([], False)
      | None \<Rightarrow> ([], False))"
proof (cases "st_sess st sid")
  case None
  then show ?thesis by (simp add: sessionsAsPairs_Other_def store_Get_def live_view_def)
next
  case (Some h)
  have "snd (store_Get now sid p st) = (if session_Has h p then Inr (settled (st_timeout st) now h) else Inl ErrNotFound)"
    using store_Get_effect(1) [OF assms, of now sid p] Some by simp
  with Some settled_live [of "st_timeout st" now h] show ?thesis
    by (cases "store_Get now sid p st")
      (auto simp: sessionsAsPairs_Other_def live_view_def split: sum.splits if_splits)
qed

lemma Other_store: "fst (sessionsAsPairs_Other now sid p st) = fst (store_Get now sid p st)"
  by (simp add: sessionsAsPairs_Other_def split_beta split: sum.split)

lemma store_Get_view:
  assumes "store_wf st"
  shows "live_view (fst (store_Get now sid p st)) now = live_view st now"
  using settle_live_view [OF assms]
  by (auto simp: store_Get_def split_beta Let_def split: option.split)

interpretation pairs: sessions_answer "sessionsAsPairs_Other now" store_wf for now :: time
proof unfold_locales
  fix sid sid' p q :: string and e :: store
  assume wf: "store_wf e"
  show "store_wf (fst (sessionsAsPairs_Other now sid p e))"
    unfolding Other_store using wf by (rule store_Get_wf)
  then show "snd (sessionsAsPairs_Other now sid' q (fst (sessionsAsPairs_Other now sid p e))) =
      snd (sessionsAsPairs_Other now sid' q e)"
    using wf by (simp add: Other_answer) (simp add: Other_store store_Get_view)
  assume "snd (sessionsAsPairs_Other now sid p e) = (q, True)"
  then obtain h where h: "live_view e now sid = Some h" "session_Has h p" "q = session_Other h p"
    using wf by (auto simp: Other_answer split: option.splits if_splits)
  have "sess_Caller h \<noteq> sess_Callee h"
    using store_loose_clauses(3) [OF store_wf_loose [OF wf] live_viewD(1) [OF h(1)]] by (simp add: session_fits_def)
  with h wf show "q \<noteq> p \<and> snd (sessionsAsPairs_Other now sid q e) = (p, True)"
    by (auto simp: Other_answer session_Other_def session_Has_def)
qed

section \<open>The state of the process\<close>

text \<open>
  Beside the components' own state: the tokens answered so far, the channels whose
  sockets are open with the peer each authenticated as, and what the sockets were sent.
\<close>

record central =
  ce_limiter :: limiter
  ce_peers :: registry
  ce_sessions :: store
  ce_hub :: hub
  ce_tokens :: "string list"
  ce_channels :: "(conn \<times> string) list"
  ce_wrote :: "hub_effect list"

record deployment =
  dp_lib :: jwt
  dp_clients :: client_store
  dp_issuer :: token_issuer
  dp_verifier :: token_verifier
  dp_ice :: provider

section \<open>The routes\<close>

datatype endpoint =
    Healthz | AuthRoute | Jwks | PeersRoute | HeartbeatRoute | PeerRoute string | IceRoute
  | SessionsRoute | SessionRoute string | StateRoute string | SignalRoute | AssetsRoute

text \<open>
  What the multiplexer matches: a method (GET matches HEAD) and the segments of the
  cleaned path; a wildcard is one segment that is not empty.
\<close>

definition is_get :: "http_method \<Rightarrow> bool" where
  "is_get m \<longleftrightarrow> m = GET \<or> m = OtherMethod ''HEAD''"

definition routes :: "bool \<Rightarrow> http_method \<Rightarrow> string list \<Rightarrow> endpoint option" where
  "routes serveDemo m path =
     (if path = [''healthz''] \<and> is_get m then Some Healthz
      else if path = [''auth''] \<and> m = POST then Some AuthRoute
      else if path = [''.well-known'', ''jwks.json''] \<and> is_get m then Some Jwks
      else if path = [''peers''] \<and> (m = POST \<or> m = DELETE) then Some PeersRoute
      else if path = [''peers'', ''heartbeat''] \<and> m = POST then Some HeartbeatRoute
      else if path = [''ice-config''] \<and> is_get m then Some IceRoute
      else if path = [''sessions''] \<and> m = POST then Some SessionsRoute
      else if path = [''signal''] \<and> is_get m then Some SignalRoute
      else case path of
        [a, b] \<Rightarrow>
          if a = ''peers'' \<and> b \<noteq> [] \<and> is_get m then Some (PeerRoute b)
          else if a = ''sessions'' \<and> b \<noteq> [] \<and> (is_get m \<or> m = DELETE) then Some (SessionRoute b)
          else if serveDemo \<and> (a = ''demo'' \<or> a = ''sdk'') \<and> is_get m then Some AssetsRoute
          else None
      | a # b # rest \<Rightarrow>
          if a = ''sessions'' \<and> b \<noteq> [] \<and> rest = [''state''] \<and> m = POST then Some (StateRoute b)
          else if serveDemo \<and> (a = ''demo'' \<or> a = ''sdk'') \<and> is_get m then Some AssetsRoute
          else None
      | _ \<Rightarrow> None)"

text \<open>Each route behind the guard, on the state of the process.\<close>

definition guard ::
  "deployment \<Rightarrow> time \<Rightarrow> ('b request \<Rightarrow> central \<Rightarrow> central \<times> response) \<Rightarrow>
   'b request \<Rightarrow> central \<Rightarrow> central \<times> response" where
  "guard dp now = RequireToken (dp_lib dp) now (dp_verifier dp)"

definition serve_Peers ::
  "deployment \<Rightarrow> time \<Rightarrow> string range_order \<Rightarrow> time \<Rightarrow> unit request \<Rightarrow> central \<Rightarrow> central \<times> response" where
  "serve_Peers dp verified ord now = guard dp verified (\<lambda>r c.
     let (peers, rs) = h_Peers ord now r (ce_peers c) in (c\<lparr>ce_peers := peers\<rparr>, rs))"

definition serve_Heartbeat ::
  "deployment \<Rightarrow> time \<Rightarrow> time \<Rightarrow> unit request \<Rightarrow> central \<Rightarrow> central \<times> response" where
  "serve_Heartbeat dp verified now = guard dp verified (\<lambda>r c.
     let (peers, rs) = h_Heartbeat now r (ce_peers c) in (c\<lparr>ce_peers := peers\<rparr>, rs))"

definition serve_PeerLookup ::
  "deployment \<Rightarrow> time \<Rightarrow> time \<Rightarrow> unit request \<Rightarrow> central \<Rightarrow> central \<times> response" where
  "serve_PeerLookup dp verified now = guard dp verified (\<lambda>r c. (c, h_PeerLookup now r (ce_peers c)))"

definition serve_ICEConfig ::
  "deployment \<Rightarrow> time \<Rightarrow> time \<Rightarrow> unit request \<Rightarrow> central \<Rightarrow> central \<times> response" where
  "serve_ICEConfig dp verified now = guard dp verified (\<lambda>r c. (c, h_ICEConfig now r (dp_ice dp)))"

definition serve_OpenSession ::
  "deployment \<Rightarrow> time \<Rightarrow> (string \<Rightarrow> string range_order) \<Rightarrow> byte list option \<Rightarrow> time \<Rightarrow> time \<Rightarrow>
   openRequest request \<Rightarrow> central \<Rightarrow> central \<times> response" where
  "serve_OpenSession dp verified ord rand looked now = guard dp verified (\<lambda>r c.
     let (st, rs) = h_OpenSession ord rand now (Some (reachable_Lookup looked (ce_peers c))) r (ce_sessions c)
     in (c\<lparr>ce_sessions := st\<rparr>, rs))"

definition serve_GetSession ::
  "deployment \<Rightarrow> time \<Rightarrow> (conn \<Rightarrow> message \<Rightarrow> bool) \<Rightarrow> time \<Rightarrow> unit request \<Rightarrow> central \<Rightarrow> central \<times> response" where
  "serve_GetSession dp verified writes now = guard dp verified (\<lambda>r c.
     let (st, rs, eff) = h_GetSession writes now (Some (ce_hub c)) r (ce_sessions c)
     in (c\<lparr>ce_sessions := st, ce_wrote := ce_wrote c @ eff\<rparr>, rs))"

definition serve_ReportSession ::
  "deployment \<Rightarrow> time \<Rightarrow> (conn \<Rightarrow> message \<Rightarrow> bool) \<Rightarrow> time \<Rightarrow> reportRequest request \<Rightarrow> central \<Rightarrow>
   central \<times> response" where
  "serve_ReportSession dp verified writes now = guard dp verified (\<lambda>r c.
     let (st, rs, eff) = h_ReportSession writes now (Some (ce_hub c)) r (ce_sessions c)
     in (c\<lparr>ce_sessions := st, ce_wrote := ce_wrote c @ eff\<rparr>, rs))"

definition answered_tokens :: "response \<Rightarrow> string list" where
  "answered_tokens rs = (case rs_Body rs of TokenBody t \<Rightarrow> [tr_Token t] | _ \<Rightarrow> [])"

definition serve_Auth ::
  "deployment \<Rightarrow> string range_order \<Rightarrow> byte list option \<Rightarrow> time \<Rightarrow> time \<Rightarrow> credentialRequest request \<Rightarrow>
   central \<Rightarrow> (central \<times> response) option" where
  "serve_Auth dp ord rand now issued r c =
     map_option (\<lambda>(l, rs). (c\<lparr>ce_limiter := l, ce_tokens := ce_tokens c @ answered_tokens rs\<rparr>, rs))
       (h_Auth (dp_lib dp) ord rand now issued (dp_clients dp) (dp_issuer dp) r (ce_limiter c))"

section \<open>The signaling channel\<close>

text \<open>
  A channel opens with the peer its token names, is registered with the hub, which
  reports the peer present; a message that arrives on it is routed as that peer's; when
  it closes it is deregistered.
\<close>

definition signal_open ::
  "deployment \<Rightarrow> time \<Rightarrow> string range_order \<Rightarrow> time \<Rightarrow> time \<Rightarrow> time \<Rightarrow> conn \<Rightarrow> unit request \<Rightarrow> central \<Rightarrow>
   central \<times> response option" where
  "signal_open dp verified ord registered now now' cn r c =
     (case signal_authenticate (dp_lib dp) verified (dp_verifier dp) r of
        Inl rs \<Rightarrow> (c, Some rs)
      | Inr p \<Rightarrow>
          let (h, eff) = hub_Register registered p cn (ce_hub c)
          in (c\<lparr>ce_hub := h, ce_peers := run_presence ord now now' eff (ce_peers c),
                ce_channels := (cn, p) # ce_channels c, ce_wrote := ce_wrote c @ eff\<rparr>, None))"

definition signal_message ::
  "(conn \<Rightarrow> message \<Rightarrow> bool) \<Rightarrow> time \<Rightarrow> time \<Rightarrow> string \<Rightarrow> message \<Rightarrow> central \<Rightarrow> central" where
  "signal_message writes now looked p msg c =
     (let ((h, st), eff, _) =
        hub_Route (sessionsAsPairs_Other looked) writes now p msg (ce_hub c, ce_sessions c)
      in c\<lparr>ce_hub := h, ce_sessions := st, ce_wrote := ce_wrote c @ eff\<rparr>)"

text \<open>
  readLoop, left to itself: the messages of one channel are routed in the order they
  come until one cannot be, not even by telling its sender so; what is left is unread.
\<close>

fun read_loop ::
  "(conn \<Rightarrow> message \<Rightarrow> bool) \<Rightarrow> string \<Rightarrow> (time \<times> time \<times> message) list \<Rightarrow> central \<Rightarrow>
   central \<times> (time \<times> time \<times> message) list" where
  "read_loop writes p [] c = (c, [])"
| "read_loop writes p ((now, looked, msg) # rest) c =
     (let (_, _, err) = hub_Route (sessionsAsPairs_Other looked) writes now p msg (ce_hub c, ce_sessions c);
          c' = signal_message writes now looked p msg c
      in if err \<noteq> None then (c', rest) else read_loop writes p rest c')"

text \<open>keepAlive closes the connection at the first ping that is not answered.\<close>

fun keepAlive :: "bool list \<Rightarrow> bool" where
  "keepAlive [] = False"
| "keepAlive (answered # pings) = (if \<not> answered then True else keepAlive pings)"

text \<open>The limits a channel gets: the largest message, the ping interval and the wait for its answer.\<close>

definition signal_limits :: "int \<Rightarrow> duration \<Rightarrow> duration \<Rightarrow> int \<times> duration \<times> duration" where
  "signal_limits maxMessageBytes pingInterval pongTimeout =
     (if maxMessageBytes \<le> 0 then 128 * 1024 else maxMessageBytes,
      if pingInterval \<le> 0 then 20 * second else pingInterval,
      if pongTimeout \<le> 0 then 10 * second else pongTimeout)"

definition signal_close ::
  "string range_order \<Rightarrow> time \<Rightarrow> time \<Rightarrow> conn \<Rightarrow> string \<Rightarrow> central \<Rightarrow> central" where
  "signal_close ord now now' cn p c =
     (let (h, eff) = hub_Deregister p cn (ce_hub c)
      in c\<lparr>ce_hub := h, ce_peers := run_presence ord now now' eff (ce_peers c),
           ce_channels := filter (\<lambda>ch. fst ch \<noteq> cn) (ce_channels c), ce_wrote := ce_wrote c @ eff\<rparr>)"

section \<open>The background loops\<close>

definition sweep_tick ::
  "string range_order \<Rightarrow> time \<Rightarrow> (string \<Rightarrow> string range_order) \<Rightarrow> (string \<Rightarrow> time) \<Rightarrow>
   (conn \<Rightarrow> message \<Rightarrow> bool) \<Rightarrow> central \<Rightarrow> central" where
  "sweep_tick ord now orders clock writes c =
     (let (peers, st, eff) =
        registry_Sweep (Some (close_expired orders clock writes (ce_hub c))) [(ord, now)]
          (ce_peers c, ce_sessions c, [])
      in c\<lparr>ce_peers := peers, ce_sessions := st, ce_wrote := ce_wrote c @ eff\<rparr>)"

definition reap_tick :: "string range_order \<Rightarrow> time \<Rightarrow> central \<Rightarrow> central \<times> int \<times> int" where
  "reap_tick ord now c =
     (let (st, failed, forgotten) = store_Reap ord now (ce_sessions c)
      in (c\<lparr>ce_sessions := st\<rparr>, failed, forgotten))"

definition refresh_tick ::
  "string range_order \<Rightarrow> (string \<Rightarrow> string range_order) \<Rightarrow> (string \<Rightarrow> time \<times> time) \<Rightarrow> central \<Rightarrow> central" where
  "refresh_tick ord registers clock c =
     c\<lparr>ce_peers := refresh_peers registers clock (hub_Peers ord (ce_hub c)) (ce_peers c)\<rparr>"

end
