(* ===== verification/System.thy ===== *)
theory System
  imports Wiring
begin

text \<open>
  The control plane as one system: one event after another, whatever the clock reads,
  and what holds in every state it can reach.
\<close>

section \<open>Who is in the registry\<close>

abbreviation reg_dom :: "registry \<Rightarrow> string set" where
  "reg_dom r \<equiv> dom (map_of (reg_peers r))"

lemma Expire_dom: "registry_wf r \<Longrightarrow> range_ok ord \<Longrightarrow> reg_dom (fst (expireLocked ord now r)) \<subseteq> reg_dom r"
  by (auto simp: expireLocked_get registry_wf_def live_peers_def split: option.splits if_splits)

lemma Register_dom:
  assumes "registry_wf r" and "range_ok ord"
  shows "reg_dom (fst (registry_Register ord now p r)) \<subseteq> insert (TrimSpace p) (reg_dom r)"
  using Expire_dom [OF assms, of now] by (auto simp: registry_Register_def Let_def)

lemma Heartbeat_dom: "reg_dom (fst (registry_Heartbeat now p r)) \<subseteq> reg_dom r"
  by (auto simp: registry_Heartbeat_def split: option.splits)

lemma Deregister_dom: "reg_dom (registry_Deregister p r) \<subseteq> reg_dom r"
  by (auto simp: registry_Deregister_def)

text \<open>A registry whose every record is of a peer that satisfies a predicate.\<close>

definition registry_of :: "(string \<Rightarrow> bool) \<Rightarrow> registry \<Rightarrow> bool" where
  "registry_of P r \<longleftrightarrow> registry_wf r \<and> (\<forall>p \<in> reg_dom r. P p)"

lemma registry_of_grow:
  "registry_of P r \<Longrightarrow> registry_wf r' \<Longrightarrow> reg_dom r' \<subseteq> insert q (reg_dom r) \<Longrightarrow> P q \<Longrightarrow> registry_of P r'"
  unfolding registry_of_def by blast

lemma registry_of_shrink: "registry_of P r \<Longrightarrow> registry_wf r' \<Longrightarrow> reg_dom r' \<subseteq> reg_dom r \<Longrightarrow> registry_of P r'"
  unfolding registry_of_def by blast

lemma registry_of_wf: "registry_of P r \<Longrightarrow> registry_wf r"
  by (simp add: registry_of_def)

lemma registry_of_ops:
  assumes "registry_of P r"
  shows "range_ok ord \<Longrightarrow> P (TrimSpace p) \<Longrightarrow> registry_of P (fst (registry_Register ord now p r))"
    and "registry_of P (fst (registry_Heartbeat now p r))"
    and "registry_of P (registry_Deregister p r)"
    and "range_ok ord \<Longrightarrow> registry_of P (fst (registry_Expire ord now r))"
  using registry_of_grow [OF assms registry_Register_wf Register_dom]
    registry_of_shrink [OF assms registry_Heartbeat_wf Heartbeat_dom]
    registry_of_shrink [OF assms registry_Deregister_wf Deregister_dom]
    registry_of_shrink [OF assms expireLocked_wf Expire_dom] registry_of_wf [OF assms]
  by (simp_all add: registry_Expire_def)

lemma registry_of_Connected:
  assumes "registry_of P r" and "range_ok ord" and "P (TrimSpace p)"
  shows "registry_of P (presence_Connected ord now now' p r)"
  using registry_of_ops(1) [OF registry_of_ops(2) [OF assms(1)] assms(2,3)] registry_of_ops(2) [OF assms(1)]
  by (simp add: presence_Connected_def split_beta split: sum.split)

lemma registry_of_run_presence:
  assumes "registry_of P r" and "range_ok ord" and "\<forall>p. PresenceConnected p \<in> set eff \<longrightarrow> P (TrimSpace p)"
  shows "registry_of P (run_presence ord now now' eff r)"
  using assms(1,3)
proof (induction eff arbitrary: r)
  case (Cons e es)
  let ?r = "presence_effect (presence_Connected ord now now') presence_Disconnected e r"
  have "registry_of P ?r"
    using Cons.prems registry_of_Connected [OF Cons.prems(1) assms(2)] by (cases e) (auto simp: presence_Disconnected_def)
  with Cons show ?case by (simp add: run_presence_def)
qed (simp add: run_presence_def)

lemma registry_of_refresh:
  assumes "registry_of P r" and "\<forall>p. range_ok (ord p)" and "\<forall>p \<in> set ps. P (TrimSpace p)"
  shows "registry_of P (refresh_peers ord clock ps r)"
  using assms(1,3)
proof (induction ps arbitrary: r)
  case (Cons p ps)
  let ?h = "registry_Heartbeat (fst (clock p)) p r"
  have h: "registry_of P (fst ?h)" by (rule registry_of_ops(2) [OF Cons.prems(1)])
  have "range_ok (ord p)" "P (TrimSpace p)" using assms(2) Cons.prems(2) by simp_all
  with h have "registry_of P (case ?h of (peers', Inl _) \<Rightarrow> fst (registry_Register (ord p) (snd (clock p)) p peers')
      | (peers', Inr _) \<Rightarrow> peers')"
    using registry_of_ops(1) [OF h] by (simp add: split_beta split: sum.split)
  with Cons show ?case by simp
qed simp

section \<open>Who is in a session\<close>

text \<open>A store whose every record is between two peers that satisfy a predicate.\<close>

definition store_of :: "(string \<Rightarrow> bool) \<Rightarrow> store \<Rightarrow> bool" where
  "store_of P st \<longleftrightarrow> store_wf st \<and>
     (\<forall>sid h. st_sess st sid = Some h \<longrightarrow> P (sess_Caller h) \<and> P (sess_Callee h))"

text \<open>No record is added, and those that stay keep their participants.\<close>

definition same_peers :: "store \<Rightarrow> store \<Rightarrow> bool" where
  "same_peers st st' \<longleftrightarrow> (\<forall>sid h'. st_sess st' sid = Some h' \<longrightarrow>
     (\<exists>h. st_sess st sid = Some h \<and> sess_Caller h' = sess_Caller h \<and> sess_Callee h' = sess_Callee h))"

lemma store_of_same: "store_of P st \<Longrightarrow> same_peers st st' \<Longrightarrow> store_wf st' \<Longrightarrow> store_of P st'"
  unfolding store_of_def same_peers_def by metis

lemma same_peers_Get: "store_wf st \<Longrightarrow> same_peers st (fst (store_Get now sid p st))"
  by (auto simp: same_peers_def store_Get_effect split: option.splits if_splits)

lemma same_peers_Report:
  assumes "store_wf st"
  shows "same_peers st (fst (store_Report now sid p state path st))"
  using store_Report_cases [OF assms, where now = now and sid = sid and p = p and state = state and path = path]
    settle_effect(2) [OF store_wf_loose [OF assms], of sid _ now]
  by (auto simp: same_peers_def reported_def Let_def split: if_splits)

lemma closed_by_peers [simp]:
  "sess_Caller (closed_by d now p h) = sess_Caller h" "sess_Callee (closed_by d now p h) = sess_Callee h"
  by (simp_all add: closed_by_def)

lemma same_peers_ClosePeer:
  "store_wf st \<Longrightarrow> range_ok ord \<Longrightarrow> same_peers st (fst (store_ClosePeer ord now p st))"
  by (auto simp: same_peers_def store_ClosePeer_effect(3))

lemma same_peers_Reap:
  assumes "store_wf st" and "range_ok ord"
  shows "same_peers st (fst (store_Reap ord now st))"
proof -
  obtain st' x y where run: "store_Reap ord now st = (st', x, y)" by (cases "store_Reap ord now st")
  show ?thesis
    using store_Reap_effect(3) [OF assms run]
    by (auto simp: same_peers_def run reaped_def bind_eq_Some_conv split: if_splits)
qed

lemma Open_peers:
  assumes "store_of P st" and "open_inputs ord rand st" and "P (TrimSpace a0)" and "P (TrimSpace b0)"
  shows "store_of P (fst (store_Open ord rand now a0 b0 st))"
proof -
  have wf: "store_wf st" and old: "\<And>sid h. st_sess st sid = Some h \<Longrightarrow> P (sess_Caller h) \<and> P (sess_Callee h)"
    using assms(1) by (auto simp: store_of_def)
  obtain st' r where run: "store_Open ord rand now a0 b0 st = (st', r)" by fastforce
  note promise = store_Open_promise [OF wf assms(2) run, unfolded open_promise_def]
  have around: "P (sess_Caller h') \<and> P (sess_Callee h')"
    if "opens_around now i st st'" "sid \<noteq> i" "st_sess st' sid = Some h'" for i sid h'
  proof -
    have "st_sess st' sid = st_sess st sid \<or>
        st_sess st' sid = map_option (settled (st_timeout st) now) (st_sess st sid) \<or> st_sess st' sid = None"
      by (rule that(1) [unfolded opens_around_def, rule_format, OF that(2)])
    then show ?thesis
      using that(3) by (elim disjE) (auto dest: old)
  qed
  have "P (sess_Caller h') \<and> P (sess_Callee h')" if h': "st_sess st' sid = Some h'" for sid h'
  proof (cases r)
    case (Inl e)
    then have "opens_around now (sid @ ''x'') st st'" using promise by simp
    from around [OF this _ h'] show ?thesis by simp
  next
    case (Inr g)
    then have ar: "opens_around now (sess_ID g) st st'"
      and new: "if pair_live st now (TrimSpace a0) (TrimSpace b0)
        then live_view st now (sess_ID g) = Some g \<and> live_view st' now = live_view st now
        else st_sess st (sess_ID g) = None \<and>
          (\<exists>buf. rand = Some buf \<and> g = new_session now (RawURLEncoding_EncodeToString buf) (TrimSpace a0) (TrimSpace b0)) \<and>
          live_view st' now = (live_view st now)(sess_ID g \<mapsto> g)"
      using promise by simp_all
    show ?thesis
    proof (cases "sid = sess_ID g")
      case False
      from around [OF ar this h'] show ?thesis .
    next
      case True
      have "live_view st' now sid = Some g" using new True by (simp split: if_splits)
      then have g: "h' = g" using h' live_viewD(1) by fastforce
      show ?thesis
      proof (cases "pair_live st now (TrimSpace a0) (TrimSpace b0)")
        case True
        then have "live_view st now (sess_ID g) = Some g" using new by simp
        then have "st_sess st (sess_ID g) = Some g" by (rule live_viewD(1))
        then show ?thesis using old g by simp
      next
        case False
        then show ?thesis using new assms(3,4) by (auto simp: g new_session_def)
      qed
    qed
  qed
  moreover have "store_wf st'" using promise by simp
  ultimately show ?thesis by (simp add: store_of_def run)
qed

section \<open>Closing the sessions of the peers a sweep removed\<close>

text \<open>The sessions a pass closed: live before it and closed after it.\<close>

definition closed_now :: "store \<Rightarrow> store \<Rightarrow> session set" where
  "closed_now st st' =
     {h'. \<exists>sid h. st_sess st sid = Some h \<and> session_Live h \<and> st_sess st' sid = Some h' \<and> sess_State h' = Closed}"

text \<open>What one pass over the removed peers leaves of each record.\<close>

fun closed_by_all :: "duration \<Rightarrow> (string \<Rightarrow> time) \<Rightarrow> string list \<Rightarrow> session \<Rightarrow> session" where
  "closed_by_all d clock [] h = h"
| "closed_by_all d clock (p # ps) h = closed_by_all d clock ps (closed_by d (clock p) p h)"

lemma closed_by_dead: "\<not> session_Live h \<Longrightarrow> closed_by d now p h = h"
  using settled_dead [of h d now] by (auto simp: closed_by_def closes_def)

lemma closed_by_ends: "session_Has h p \<Longrightarrow> \<not> session_Live (closed_by d now p h)"
  by (auto simp: closed_by_def closes_def session_Live_def)

lemma closed_by_all_dead: "\<not> session_Live h \<Longrightarrow> closed_by_all d clock ps h = h"
  by (induction ps) (simp_all add: closed_by_dead)

lemma session_Has_closed [simp]: "session_Has (closed_by d now p h) q = session_Has h q"
  by (simp add: session_Has_def)

lemma closed_by_all_ends: "session_Has h p \<Longrightarrow> p \<in> set ps \<Longrightarrow> \<not> session_Live (closed_by_all d clock ps h)"
proof (induction ps arbitrary: h)
  case (Cons q ps)
  show ?case
  proof (cases "q = p")
    case True
    then have "\<not> session_Live (closed_by d (clock q) q h)" using Cons.prems(1) closed_by_ends by blast
    then show ?thesis by (simp add: closed_by_all_dead)
  next
    case False
    with Cons show ?thesis by simp
  qed
qed simp

lemma closed_by_all_others: "\<forall>p \<in> set ps. \<not> session_Has h p \<Longrightarrow> closed_by_all d clock ps h = h"
  by (induction ps) (simp_all add: closed_by_def closes_def)

lemma closed_by_all_fields [simp]:
  "sess_ID (closed_by_all d clock ps h) = sess_ID h"
  "sess_Caller (closed_by_all d clock ps h) = sess_Caller h"
  "sess_Callee (closed_by_all d clock ps h) = sess_Callee h"
  by (induction ps arbitrary: h) (simp_all add: closed_by_def)

lemma tell_closed_wrote:
  "Wrote c m \<in> set (tell_closed writes h ss) \<longleftrightarrow>
     (\<exists>s \<in> set ss. m = ended_message s \<and> writes c m \<and> (\<exists>p \<in> {sess_Caller s, sess_Callee s}. hub_conn h p = Some c))"
  by (induction ss) (auto simp: SessionEnded_wrote simp del: map_option_eq_Some)

lemma closed_now_map:
  assumes "\<forall>sid. st_sess st1 sid = map_option g (st_sess st sid)"
    and "\<forall>sid. st_sess st' sid = map_option f (st_sess st sid)"
  shows "x \<in> closed_now st1 st' \<longleftrightarrow>
     (\<exists>sid h. st_sess st sid = Some h \<and> session_Live (g h) \<and> x = f h \<and> sess_State x = Closed)"
proof
  assume "x \<in> closed_now st1 st'"
  then obtain sid h1 where h1: "st_sess st1 sid = Some h1" "session_Live h1" "st_sess st' sid = Some x" "sess_State x = Closed"
    by (auto simp: closed_now_def)
  then obtain h where "st_sess st sid = Some h" "h1 = g h" using assms(1) by auto
  with h1 assms(2) show "\<exists>sid h. st_sess st sid = Some h \<and> session_Live (g h) \<and> x = f h \<and> sess_State x = Closed" by auto
next
  assume "\<exists>sid h. st_sess st sid = Some h \<and> session_Live (g h) \<and> x = f h \<and> sess_State x = Closed"
  then obtain sid h where h: "st_sess st sid = Some h" "session_Live (g h)" "x = f h" "sess_State x = Closed" by blast
  then have "st_sess st1 sid = Some (g h)" "st_sess st' sid = Some x" using assms by simp_all
  with h show "x \<in> closed_now st1 st'" unfolding closed_now_def by blast
qed

lemma closed_now_from: "\<forall>sid. st_sess st' sid = map_option f (st_sess st sid) \<Longrightarrow>
    x \<in> closed_now st st' \<longleftrightarrow> (\<exists>sid h. st_sess st sid = Some h \<and> session_Live h \<and> x = f h \<and> sess_State x = Closed)"
  by (rule closed_now_map [where g = "\<lambda>h. h"]) (simp_all add: option.map_ident)

lemma ClosePeer_closed:
  assumes "store_wf st" and "range_ok ord"
  shows "set (snd (store_ClosePeer ord now p st)) = closed_now st (fst (store_ClosePeer ord now p st))"
proof -
  let ?d = "st_timeout st"
  have ids: "set (ord (mkeys (st_sessions st))) = dom (st_sess st)"
    using range_okD(2) [OF assms(2) mwf_mkeys [OF indexed_clauses(1) [OF store_wf_indexed [OF assms(1)]]]] by simp
  have "x \<in> set (snd (store_ClosePeer ord now p st)) \<longleftrightarrow>
      (\<exists>sid h. st_sess st sid = Some h \<and> closes ?d now p h \<and> x = closed_by ?d now p h)" for x
    unfolding store_ClosePeer_effect(4) [OF assms] set_map_filter ids
    by (auto simp: closed_entry_def split: option.splits if_splits)
  moreover have "closes ?d now p h \<longleftrightarrow> session_Live h \<and> sess_State (closed_by ?d now p h) = Closed" for h
    using settled_live [of ?d now h]
    by (auto simp: closed_by_def closes_def session_Live_def settled_def split: if_splits)
  moreover have "x \<in> closed_now st (fst (store_ClosePeer ord now p st)) \<longleftrightarrow>
      (\<exists>sid h. st_sess st sid = Some h \<and> session_Live h \<and> x = closed_by ?d now p h \<and> sess_State x = Closed)" for x
    by (rule closed_now_from) (simp add: store_ClosePeer_effect(3) [OF assms])
  ultimately show ?thesis by (auto simp: set_eq_iff)
qed

lemma closed_by_live: "session_Live h \<Longrightarrow> session_Live (closed_by d now p h) \<Longrightarrow> closed_by d now p h = h"
  using settled_live [of d now h] by (auto simp: closed_by_def closes_def session_Live_def)

lemma closed_now_trans:
  assumes "\<forall>sid. st_sess st1 sid = map_option (closed_by d now p) (st_sess st sid)"
    and "\<forall>sid. st_sess st' sid = map_option (closed_by_all d clock ps) (st_sess st1 sid)"
  shows "closed_now st st' = closed_now st st1 \<union> closed_now st1 st'"
proof -
  let ?g = "closed_by d now p" and ?f = "closed_by_all d clock ps"
  have comp: "\<forall>sid. st_sess st' sid = map_option (\<lambda>h. ?f (?g h)) (st_sess st sid)"
    using assms by (simp add: option.map_comp comp_def)
  have dead: "?f (?g h) = ?g h" if "\<not> session_Live (?g h)" for h using that by (rule closed_by_all_dead)
  have was: "session_Live h" if "session_Live (?g h)" for h using that closed_by_dead by metis
  have closed: "\<not> session_Live x" if "sess_State x = Closed" for x using that by (simp add: session_Live_def)
  show ?thesis
  proof (rule set_eqI, unfold Un_iff closed_now_from [OF assms(1)] closed_now_from [OF comp]
      closed_now_map [OF assms(1) comp], rule iffI)
    fix x
    assume "\<exists>sid h. st_sess st sid = Some h \<and> session_Live h \<and> x = ?f (?g h) \<and> sess_State x = Closed"
    then obtain sid h where h: "st_sess st sid = Some h" "session_Live h" "x = ?f (?g h)" "sess_State x = Closed" by blast
    with dead [of h] show "(\<exists>sid h. st_sess st sid = Some h \<and> session_Live h \<and> x = ?g h \<and> sess_State x = Closed) \<or>
        (\<exists>sid h. st_sess st sid = Some h \<and> session_Live (?g h) \<and> x = ?f (?g h) \<and> sess_State x = Closed)"
      by (cases "session_Live (?g h)") auto
  next
    fix x
    assume "(\<exists>sid h. st_sess st sid = Some h \<and> session_Live h \<and> x = ?g h \<and> sess_State x = Closed) \<or>
        (\<exists>sid h. st_sess st sid = Some h \<and> session_Live (?g h) \<and> x = ?f (?g h) \<and> sess_State x = Closed)"
    then obtain sid h where "st_sess st sid = Some h" "sess_State x = Closed"
        "session_Live h \<and> x = ?g h \<or> session_Live (?g h) \<and> x = ?f (?g h)" by blast
    moreover from this have "session_Live h \<and> x = ?f (?g h)"
      using dead [of h] was [of h] closed [of x] by auto
    ultimately show "\<exists>sid h. st_sess st sid = Some h \<and> session_Live h \<and> x = ?f (?g h) \<and> sess_State x = Closed" by blast
  qed
qed

lemma close_expired_effect:
  assumes "store_wf st" and "\<forall>p. range_ok (ord p)" and "close_expired ord clock writes h ps (st, eff) = (st', eff')"
  shows "store_wf st' \<and> st_settings st' = st_settings st \<and>
     st_sess st' = (\<lambda>sid. map_option (closed_by_all (st_timeout st) clock ps) (st_sess st sid)) \<and>
     (\<forall>c m. Wrote c m \<in> set eff' \<longleftrightarrow> Wrote c m \<in> set eff \<or>
        (\<exists>s \<in> closed_now st st'. m = ended_message s \<and> writes c m \<and>
           (\<exists>p \<in> {sess_Caller s, sess_Callee s}. hub_conn h p = Some c)))"
  using assms(1,3)
proof (induction ps arbitrary: st eff)
  case Nil
  then show ?case by (auto simp: closed_now_def session_Live_def option.map_ident fun_eq_iff)
next
  case (Cons p ps)
  obtain st1 closed where cl: "store_ClosePeer (ord p) (clock p) p st = (st1, closed)" by fastforce
  have ord: "range_ok (ord p)" using assms(2) by simp
  note e1 = store_ClosePeer_effect [OF Cons.prems(1) ord, of "clock p" p, unfolded cl fst_conv snd_conv]
  have run: "close_expired ord clock writes h ps (st1, eff @ tell_closed writes h closed) = (st', eff')"
    using Cons.prems(2) cl by simp
  note IH = Cons.IH [OF e1(1) run]
  have d: "st_timeout st1 = st_timeout st" using settings_fields(1) [OF e1(2)] .
  have sess: "st_sess st' sid = map_option (closed_by_all (st_timeout st) clock (p # ps)) (st_sess st sid)" for sid
    using IH e1(3) [of sid] by (cases "st_sess st sid") (simp_all add: d)
  have closed: "set closed = closed_now st st1"
    using ClosePeer_closed [OF Cons.prems(1) ord, of "clock p" p] by (simp add: cl)
  have "closed_now st st' = closed_now st st1 \<union> closed_now st1 st'"
    by (rule closed_now_trans [where d = "st_timeout st" and clock = clock and now = "clock p" and p = p and ps = ps])
      (use e1(3) IH in \<open>simp_all add: d\<close>)
  moreover have "st_sess st' = (\<lambda>sid. map_option (closed_by_all (st_timeout st) clock (p # ps)) (st_sess st sid))"
    by (rule ext) (rule sess)
  moreover have "closed_by_all (st_timeout st) clock (p # ps) =
      (\<lambda>g. closed_by_all (st_timeout st) clock ps (closed_by (st_timeout st) (clock p) p g))"
    by (rule ext) simp
  ultimately show ?case using IH closed e1(2) by (simp add: tell_closed_wrote bex_Un disj_assoc del: map_option_eq_Some)
qed

end
