(* ===== verification/System_Steps.thy ===== *)
theory System_Steps
  imports System
begin

section \<open>The events\<close>

text \<open>
  The signing key is this server's alone: a token a request presents that verifies is
  one this server answered with. It is the one assumption about the outside the
  steps make.
\<close>

definition only_issued :: "deployment \<Rightarrow> central \<Rightarrow> 'b request \<Rightarrow> bool" where
  "only_issued dp c r \<longleftrightarrow> (\<forall>raw now cl.
     (bearerToken (rq_Authorization r) = Some raw \<or> tokenFromSubprotocols r = Some raw) \<longrightarrow>
     verifier_Verify (dp_lib dp) now raw (dp_verifier dp) = Inr cl \<longrightarrow> raw \<in> set (ce_tokens c))"

inductive central_step :: "deployment \<Rightarrow> central \<Rightarrow> central \<Rightarrow> bool" for dp where
  step_Auth: "range_ok ord \<Longrightarrow> serve_Auth dp ord rand now issued r c = Some (c', rs) \<Longrightarrow> central_step dp c c'"
| step_Peers: "range_ok ord \<Longrightarrow> only_issued dp c r \<Longrightarrow>
     central_step dp c (fst (serve_Peers dp verified ord now r c))"
| step_Heartbeat: "only_issued dp c r \<Longrightarrow> central_step dp c (fst (serve_Heartbeat dp verified now r c))"
| step_PeerLookup: "central_step dp c (fst (serve_PeerLookup dp verified now r c))"
| step_ICEConfig: "central_step dp c (fst (serve_ICEConfig dp verified now r c))"
| step_OpenSession: "open_inputs ord rand (ce_sessions c) \<Longrightarrow> only_issued dp c r' \<Longrightarrow>
     central_step dp c (fst (serve_OpenSession dp verified ord rand looked now r' c))"
| step_GetSession: "central_step dp c (fst (serve_GetSession dp verified writes now r c))"
| step_ReportSession: "central_step dp c (fst (serve_ReportSession dp verified writes now r'' c))"
| step_SignalOpen: "range_ok ord \<Longrightarrow> only_issued dp c r \<Longrightarrow> cn \<notin> fst ` set (ce_channels c) \<Longrightarrow>
     central_step dp c (fst (signal_open dp verified ord registered now now' cn r c))"
| step_SignalMessage: "(cn, p) \<in> set (ce_channels c) \<Longrightarrow>
     central_step dp c (signal_message writes now looked p msg c)"
| step_SignalClose: "range_ok ord \<Longrightarrow> (cn, p) \<in> set (ce_channels c) \<Longrightarrow>
     central_step dp c (signal_close ord now now' cn p c)"
| step_Sweep: "range_ok ord \<Longrightarrow> \<forall>p. range_ok (orders p) \<Longrightarrow>
     central_step dp c (sweep_tick ord now orders clock writes c)"
| step_Reap: "range_ok ord \<Longrightarrow> central_step dp c (fst (reap_tick ord now c))"
| step_Refresh: "range_ok ord \<Longrightarrow> \<forall>p. range_ok (orders p) \<Longrightarrow>
     central_step dp c (refresh_tick ord orders reads c)"

text \<open>The process as run assembles it, before anything has happened.\<close>

definition central_start ::
  "registry_options \<Rightarrow> session_options \<Rightarrow> hub_options \<Rightarrow> int \<Rightarrow> duration \<Rightarrow> central \<Rightarrow> bool" where
  "central_start ro so ho failures window c \<longleftrightarrow>
     registry_New ro = Inr (ce_peers c) \<and> store_New so = Inr (ce_sessions c) \<and> hub_New ho = Inr (ce_hub c) \<and>
     NewAttemptLimiter failures window = Inr (ce_limiter c) \<and>
     ce_tokens c = [] \<and> ce_channels c = [] \<and> ce_wrote c = []"

inductive central_reachable :: "deployment \<Rightarrow> central \<Rightarrow> bool" for dp where
  start: "central_start ro so ho failures window c \<Longrightarrow> so_MaxSessions so < 2 ^ 61 \<Longrightarrow> central_reachable dp c"
| step: "central_reachable dp c \<Longrightarrow> central_step dp c c' \<Longrightarrow> central_reachable dp c'"

section \<open>The invariant of the system\<close>

definition deployed :: "client_config list \<Rightarrow> byte list \<Rightarrow> string \<Rightarrow> duration \<Rightarrow> deployment \<Rightarrow> bool" where
  "deployed configs key iss ttl dp \<longleftrightarrow>
     jwt_documented (dp_lib dp) \<and> NewClientStore configs = Inr (dp_clients dp) \<and>
     NewTokenIssuer key iss ttl = Inr (dp_issuer dp) \<and>
     dp_verifier dp = NewTokenVerifier (issuer_PublicKey (dp_issuer dp)) iss"

text \<open>The peers of the configured clients.\<close>

definition configured :: "client_config list \<Rightarrow> string \<Rightarrow> bool" where
  "configured configs p \<longleftrightarrow> (\<exists>cfg \<in> set configs. TrimSpace (cc_PeerID cfg) = p)"

definition names_configured :: "client_config list \<Rightarrow> deployment \<Rightarrow> string \<Rightarrow> bool" where
  "names_configured configs dp raw \<longleftrightarrow> (\<forall>now cl.
     verifier_Verify (dp_lib dp) now raw (dp_verifier dp) = Inr cl \<longrightarrow> configured configs (cl_PeerID cl))"

definition channels_ok :: "(string \<Rightarrow> bool) \<Rightarrow> (conn \<times> string) list \<Rightarrow> hub \<Rightarrow> bool" where
  "channels_ok P chs h \<longleftrightarrow> hub_wf h \<and> distinct (map fst chs) \<and> (\<forall>(cn, p) \<in> set chs. P p) \<and>
     (\<forall>p cn. hub_conn h p = Some cn \<longrightarrow> (cn, p) \<in> set chs)"

definition central_inv :: "client_config list \<Rightarrow> deployment \<Rightarrow> central \<Rightarrow> bool" where
  "central_inv configs dp c \<longleftrightarrow>
     limiter_bounded (ce_limiter c) \<and> registry_of (configured configs) (ce_peers c) \<and>
     store_of (configured configs) (ce_sessions c) \<and>
     channels_ok (configured configs) (ce_channels c) (ce_hub c) \<and>
     (\<forall>raw \<in> set (ce_tokens c). names_configured configs dp raw)"

lemma configured_valid:
  assumes "NewClientStore configs = Inr s" and "configured configs p"
  shows "validPeerID p"
  using NewClientStore_entries(1) [OF assms(1)] assms(2)
  by (auto simp: configured_def configs_ok_def config_ok_def list_all_iff)

lemma configured_trim:
  "NewClientStore configs = Inr s \<Longrightarrow> configured configs p \<Longrightarrow> TrimSpace p = p"
  using configured_valid validPeerID_plain by blast

lemma guard_cases:
  assumes "guard dp now handler r c = (c', rs)"
  shows "c' = c \<or> (\<exists>raw cl. bearerToken (rq_Authorization r) = Some raw \<and>
     verifier_Verify (dp_lib dp) now raw (dp_verifier dp) = Inr cl \<and>
     handler (r\<lparr>rq_PeerID := cl_PeerID cl\<rparr>) c = (c', rs))"
  using assms by (auto simp: guard_def RequireToken_def split: option.splits sum.splits)

text \<open>Behind the guard the caller is the peer of a configured client.\<close>

lemma guarded:
  assumes "central_inv configs dp c" and "only_issued dp c r"
    and "\<And>p. configured configs p \<Longrightarrow> central_inv configs dp (fst (handler (r\<lparr>rq_PeerID := p\<rparr>) c))"
  shows "central_inv configs dp (fst (guard dp now handler r c))"
proof -
  obtain c' rs where run: "guard dp now handler r c = (c', rs)" by fastforce
  from guard_cases [OF run] show ?thesis
  proof
    assume "c' = c"
    with assms(1) show ?thesis by (simp add: run)
  next
    assume "\<exists>raw cl. bearerToken (rq_Authorization r) = Some raw \<and>
     verifier_Verify (dp_lib dp) now raw (dp_verifier dp) = Inr cl \<and>
     handler (r\<lparr>rq_PeerID := cl_PeerID cl\<rparr>) c = (c', rs)"
    then obtain raw cl where ok: "bearerToken (rq_Authorization r) = Some raw"
        "verifier_Verify (dp_lib dp) now raw (dp_verifier dp) = Inr cl"
        "handler (r\<lparr>rq_PeerID := cl_PeerID cl\<rparr>) c = (c', rs)" by blast
    then have "raw \<in> set (ce_tokens c)" using assms(2) unfolding only_issued_def by blast
    then have "configured configs (cl_PeerID cl)"
      using assms(1) ok(2) unfolding central_inv_def names_configured_def by blast
    from assms(3) [OF this] show ?thesis by (simp add: run ok(3))
  qed
qed

text \<open>Handlers that leave the peers of the store as they were need no caller.\<close>

lemma guarded_any:
  assumes "central_inv configs dp c" and "\<And>p. central_inv configs dp (fst (handler (r\<lparr>rq_PeerID := p\<rparr>) c))"
  shows "central_inv configs dp (fst (guard dp now handler r c))"
proof -
  obtain c' rs where run: "guard dp now handler r c = (c', rs)" by fastforce
  show ?thesis using guard_cases [OF run] assms by (auto simp: run) (metis fst_conv)
qed

lemma inv_peers:
  "central_inv configs dp c \<Longrightarrow> registry_of (configured configs) reg \<Longrightarrow> central_inv configs dp (c\<lparr>ce_peers := reg\<rparr>)"
  by (simp add: central_inv_def)

lemma inv_sessions:
  "central_inv configs dp c \<Longrightarrow> store_of (configured configs) st \<Longrightarrow>
   central_inv configs dp (c\<lparr>ce_sessions := st, ce_wrote := w\<rparr>)"
  "central_inv configs dp c \<Longrightarrow> store_of (configured configs) st \<Longrightarrow> central_inv configs dp (c\<lparr>ce_sessions := st\<rparr>)"
  by (simp_all add: central_inv_def)

lemma inv_parts:
  assumes "central_inv configs dp c"
  shows "limiter_bounded (ce_limiter c)" "registry_of (configured configs) (ce_peers c)"
    "store_of (configured configs) (ce_sessions c)"
    "channels_ok (configured configs) (ce_channels c) (ce_hub c)"
    "\<forall>raw \<in> set (ce_tokens c). names_configured configs dp raw"
    "store_wf (ce_sessions c)"
  using assms by (simp_all add: central_inv_def store_of_def)

section \<open>Each event keeps it\<close>

lemma h_Peers_of:
  assumes "registry_of P reg" and "range_ok ord" and "P (TrimSpace (rq_PeerID r))"
  shows "registry_of P (fst (h_Peers ord now r reg))"
proof -
  have "fst (h_Peers ord now r reg) \<in>
      {reg, fst (registry_Register ord now (rq_PeerID r) reg), registry_Deregister (rq_PeerID r) reg}"
    by (auto simp: h_Peers_def PeerIDFrom_def Let_def split: http_method.split sum.split prod.split)
  with registry_of_ops [OF assms(1)] assms show ?thesis by auto
qed

lemma h_Heartbeat_of: "registry_of P reg \<Longrightarrow> registry_of P (fst (h_Heartbeat now r reg))"
proof -
  assume reg: "registry_of P reg"
  have "fst (h_Heartbeat now r reg) \<in> {reg, fst (registry_Heartbeat now (rq_PeerID r) reg)}"
    by (auto simp: h_Heartbeat_def PeerIDFrom_def Let_def split: sum.split prod.split)
  with registry_of_ops(2) [OF reg] reg show ?thesis by auto
qed

lemma store_of_Report: "store_of P st \<Longrightarrow> store_of P (fst (store_Report now sid p state path st))"
  by (rule store_of_same [OF _ same_peers_Report store_Report_wf]) (simp_all add: store_of_def)

lemma store_of_Get: "store_of P st \<Longrightarrow> store_of P (fst (store_Get now sid p st))"
  by (rule store_of_same [OF _ same_peers_Get store_Get_wf]) (simp_all add: store_of_def)

lemma report_answer_store:
  "fst (report_answer writes now ended sid p state path st) = fst (store_Report now sid p state path st)"
  by (simp add: report_answer_def split_beta split: sum.split)

lemma h_ReportSession_of:
  assumes "store_of P st"
  shows "store_of P (fst (h_ReportSession writes now ended r st))"
proof (cases "report_target r")
  case None
  with assms show ?thesis by (simp add: h_ReportSession_answer)
next
  case (Some x)
  with assms store_of_Report [OF assms] show ?thesis
    by (cases x) (simp add: h_ReportSession_answer report_answer_store)
qed

lemma h_GetSession_of:
  assumes "store_of P st"
  shows "store_of P (fst (h_GetSession writes now ended r st))"
proof (cases "rq_Method r = DELETE")
  case True
  with assms store_of_Report [OF assms] show ?thesis by (simp add: h_GetSession_delete report_answer_store)
next
  case False
  have "fst (h_GetSession writes now ended r st) \<in> {st, fst (store_Get now (rq_PathID r) (rq_PeerID r) st)}"
    using False by (auto simp: h_GetSession_def PeerIDFrom_def Let_def split: http_method.split sum.split prod.split)
  with assms store_of_Get [OF assms] show ?thesis by auto
qed

lemma reachable_registered: "registry_of P reg \<Longrightarrow> reachable_Lookup now reg p \<Longrightarrow> P p"
  by (auto simp: reachable_Lookup_def registry_Lookup_def registry_of_def split: option.splits)

lemma h_OpenSession_of:
  assumes "store_of P st" and "open_inputs ord rand st" and "registry_of P reg"
    and "\<And>p. P p \<Longrightarrow> TrimSpace p = p" and "P (rq_PeerID r)"
  shows "store_of P (fst (h_OpenSession ord rand now (Some (reachable_Lookup looked reg)) r st))"
proof (cases "\<exists>b. rq_Body r = Some b \<and> reachable_Lookup looked reg (or_PeerID b)")
  case False
  with assms(1) show ?thesis
    by (auto simp: h_OpenSession_def PeerIDFrom_def store_Reachable_def Let_def split: option.split)
next
  case True
  then obtain b where b: "rq_Body r = Some b" "reachable_Lookup looked reg (or_PeerID b)" by blast
  have "P (or_PeerID b)" by (rule reachable_registered [OF assms(3) b(2)])
  then have "store_of P (fst (store_Open ord rand now (rq_PeerID r) (or_PeerID b) st))"
    using assms(4,5) by (intro Open_peers [OF assms(1,2)]) simp_all
  with assms(1) b show ?thesis
    by (auto simp: h_OpenSession_def PeerIDFrom_def store_Reachable_def Let_def split_beta split: sum.split)
qed

text \<open>The only tokens POST /auth answers with are those it issued for an authenticated credential.\<close>

lemma h_Auth_answered:
  assumes "h_Auth lib ord rand now issued clients issuer r l = Some (l', rs)" and "raw \<in> set (answered_tokens rs)"
  shows "\<exists>cid secret p t. Authenticate cid secret clients = Inr p \<and> issuer_Issue lib rand issued p issuer = Inr t \<and>
     raw = tok_Value t"
  using assms
  by (auto simp: h_Auth_steps answered_tokens_def writeError_def writeJSONStatus_def
      split: option.splits sum.splits if_splits prod.splits) blast

lemma answered_names_configured:
  assumes "deployed configs key iss ttl dp"
    and "h_Auth (dp_lib dp) ord rand now issued (dp_clients dp) (dp_issuer dp) r l = Some (l', rs)"
    and "raw \<in> set (answered_tokens rs)"
  shows "names_configured configs dp raw"
proof -
  note dep = assms(1) [unfolded deployed_def]
  obtain cid secret p t where t: "Authenticate cid secret (dp_clients dp) = Inr p"
      "issuer_Issue (dp_lib dp) rand issued p (dp_issuer dp) = Inr t" "raw = tok_Value t"
    using h_Auth_answered [OF assms(2,3)] by blast
  have store: "NewClientStore configs = Inr (dp_clients dp)" using dep by blast
  have p: "configured configs p"
    using t(1) Authenticate_parts [OF store, of cid secret p] unfolding configured_def by blast
  then have trim: "TrimSpace p = p" by (rule configured_trim [OF store])
  have new: "jwt_documented (dp_lib dp)" "NewTokenIssuer key iss ttl = Inr (dp_issuer dp)"
    "dp_verifier dp = NewTokenVerifier (issuer_PublicKey (dp_issuer dp)) iss"
    using dep by blast+
  show ?thesis
    unfolding names_configured_def t(3) new(3)
    using Issue_Verify_parts [OF new(1,2) t(2)] p trim by (auto split: if_splits)
qed

lemma serve_Auth_inv:
  assumes "central_inv configs dp c" and "deployed configs key iss ttl dp" and "range_ok ord"
    and "serve_Auth dp ord rand now issued r c = Some (c', rs)"
  shows "central_inv configs dp c'"
proof -
  note dep = assms(2) [unfolded deployed_def]
  note parts = inv_parts [OF assms(1)]
  obtain l where run: "h_Auth (dp_lib dp) ord rand now issued (dp_clients dp) (dp_issuer dp) r (ce_limiter c) = Some (l, rs)"
    "c' = c\<lparr>ce_limiter := l, ce_tokens := ce_tokens c @ answered_tokens rs\<rparr>"
    using assms(4) by (auto simp: serve_Auth_def)
  obtain l' rs' where out: "h_Auth (dp_lib dp) ord rand now issued (dp_clients dp) (dp_issuer dp) r (ce_limiter c) = Some (l', rs')"
      "limiter_bounded l'"
    using h_Auth_outcome [OF parts(1) assms(3), of "dp_lib dp" rand now issued "dp_clients dp" "dp_issuer dp" r]
    by (elim exE conjE) (rule that)
  have "names_configured configs dp raw" if "raw \<in> set (answered_tokens rs)" for raw
    by (rule answered_names_configured [OF assms(2) run(1) that])
  with run out parts show ?thesis by (auto simp: central_inv_def)
qed

lemma channels_allowed:
  "channels_ok P chs h \<Longrightarrow> channels_ok P chs (fst (hub_allowed now p h))"
  unfolding channels_ok_def hub_allowed_conn by (simp add: hub_allowed_wf)

lemma signal_message_inv:
  assumes "central_inv configs dp c"
  shows "central_inv configs dp (signal_message writes now looked p msg c)"
proof -
  note parts = inv_parts [OF assms]
  obtain h st eff err where run: "hub_Route (sessionsAsPairs_Other looked) writes now p msg (ce_hub c, ce_sessions c) = ((h, st), eff, err)"
    by (metis prod.exhaust)
  have h: "h = (if carriable (msg_Type msg) then fst (hub_allowed now p (ce_hub c)) else ce_hub c)"
    using hub_Route_hub [of "sessionsAsPairs_Other looked" writes now p msg "ce_hub c" "ce_sessions c"] by (simp add: run)
  have "st \<in> {ce_sessions c, fst (store_Get looked (msg_SessionID msg) p (ce_sessions c))}"
    using arg_cong [OF run, of "\<lambda>x. snd (fst x)"]
    by (auto simp: hub_Route_def Let_def split_beta Other_store split: if_splits option.splits)
  with store_of_Get [OF parts(3)] parts(3) have "store_of (configured configs) st" by auto
  with parts h channels_allowed [OF parts(4)] show ?thesis
    by (simp add: signal_message_def run central_inv_def)
qed

lemma signal_open_inv:
  assumes "central_inv configs dp c" and "deployed configs key iss ttl dp" and "range_ok ord"
    and "only_issued dp c r" and "cn \<notin> fst ` set (ce_channels c)"
  shows "central_inv configs dp (fst (signal_open dp verified ord registered now now' cn r c))"
proof (cases "signal_authenticate (dp_lib dp) verified (dp_verifier dp) r")
  case (Inl rs)
  with assms(1) show ?thesis by (simp add: signal_open_def)
next
  case (Inr p)
  note parts = inv_parts [OF assms(1)]
  obtain raw cl where ok: "tokenFromSubprotocols r = Some raw"
      "verifier_Verify (dp_lib dp) verified raw (dp_verifier dp) = Inr cl" "p = cl_PeerID cl"
    using Inr by (auto simp: signal_authenticate_def split: option.splits sum.splits)
  then have "raw \<in> set (ce_tokens c)" using assms(4) unfolding only_issued_def by blast
  then have p: "configured configs p" using parts(5) ok(2,3) unfolding names_configured_def by blast
  then have trim: "TrimSpace p = p" using assms(2) configured_trim unfolding deployed_def by blast
  obtain h eff where reg: "hub_Register registered p cn (ce_hub c) = (h, eff)" by fastforce
  have conn: "hub_conn h q = (if q = p then Some cn else hub_conn (ce_hub c) q)" for q
    using hub_Register_conn [of registered p cn "ce_hub c" q] by (simp add: reg)
  have "channels_ok (configured configs) ((cn, p) # ce_channels c) h"
    using parts(4) hub_Register_wf [of "ce_hub c" registered p cn] p assms(5)
    unfolding channels_ok_def conn by (auto simp: reg)
  moreover have "PresenceConnected q \<in> set eff \<Longrightarrow> q = p" for q
    using reg by (auto simp: hub_Register_def Let_def split: option.splits if_splits)
  then have "registry_of (configured configs) (run_presence ord now now' eff (ce_peers c))"
    using p trim by (intro registry_of_run_presence [OF parts(2) assms(3)]) auto
  ultimately show ?thesis using parts by (simp add: signal_open_def Inr reg central_inv_def)
qed

lemma signal_close_inv:
  assumes "central_inv configs dp c" and "range_ok ord" and "(cn, p) \<in> set (ce_channels c)"
  shows "central_inv configs dp (signal_close ord now now' cn p c)"
proof -
  note parts = inv_parts [OF assms(1)]
  obtain h eff where dereg: "hub_Deregister p cn (ce_hub c) = (h, eff)" by fastforce
  have conn: "hub_conn h q = (if q = p \<and> hub_conn (ce_hub c) p = Some cn then None else hub_conn (ce_hub c) q)" for q
    using hub_Deregister_conn [of p cn "ce_hub c" q] by (simp add: dereg)
  have dist: "distinct (map fst (ce_channels c))" and held: "\<And>q d. hub_conn (ce_hub c) q = Some d \<Longrightarrow> (d, q) \<in> set (ce_channels c)"
    using parts(4) by (auto simp: channels_ok_def simp del: map_option_eq_Some)
  have uniq: "q = p" if "(cn, q) \<in> set (ce_channels c)" for q
    using map_of_is_SomeI [OF dist that] map_of_is_SomeI [OF dist assms(3)] by simp
  have keep: "(d, q) \<in> set (filter (\<lambda>ch. fst ch \<noteq> cn) (ce_channels c))" if "hub_conn h q = Some d" for q d
  proof -
    have old: "hub_conn (ce_hub c) q = Some d" and n: "\<not> (q = p \<and> hub_conn (ce_hub c) p = Some cn)"
      using that unfolding conn by (auto split: if_splits)
    have "(d, q) \<in> set (ce_channels c)" by (rule held [OF old])
    moreover have "d \<noteq> cn" using uniq [of q] held [OF old] old n by blast
    ultimately show ?thesis by simp
  qed
  have "channels_ok (configured configs) (filter (\<lambda>ch. fst ch \<noteq> cn) (ce_channels c)) h"
    unfolding channels_ok_def
  proof (intro conjI allI impI)
    show "hub_wf h" using parts(4) hub_Deregister_wf [of "ce_hub c" p cn] by (simp add: channels_ok_def dereg)
    show "distinct (map fst (filter (\<lambda>ch. fst ch \<noteq> cn) (ce_channels c)))" using dist by (rule distinct_map_filter)
    show "\<forall>(cn, p) \<in> set (filter (\<lambda>ch. fst ch \<noteq> cn) (ce_channels c)). configured configs p"
      using parts(4) by (auto simp: channels_ok_def)
  qed (rule keep)
  moreover have "PresenceConnected q \<notin> set eff" for q
    using dereg by (auto simp: hub_Deregister_def split: option.splits if_splits)
  then have "registry_of (configured configs) (run_presence ord now now' eff (ce_peers c))"
    by (intro registry_of_run_presence [OF parts(2) assms(2)]) auto
  ultimately show ?thesis using parts by (simp add: signal_close_def dereg central_inv_def)
qed

lemma sweep_tick_parts:
  assumes "sweep_tick ord now orders clock writes c = c'"
  shows "\<exists>removed st eff. registry_Expire ord now (ce_peers c) = (ce_peers c', removed) \<and>
     close_expired orders clock writes (ce_hub c) removed (ce_sessions c, []) = (st, eff) \<and>
     c' = c\<lparr>ce_peers := ce_peers c', ce_sessions := st, ce_wrote := ce_wrote c @ eff\<rparr>"
proof -
  obtain peers removed where ex: "registry_Expire ord now (ce_peers c) = (peers, removed)" by fastforce
  obtain st eff where cl: "close_expired orders clock writes (ce_hub c) removed (ce_sessions c, []) = (st, eff)" by fastforce
  have "removed = [] \<Longrightarrow> st = ce_sessions c \<and> eff = []" using cl by simp
  with ex cl assms show ?thesis by (auto simp: sweep_tick_def)
qed

lemma sweep_tick_inv:
  assumes "central_inv configs dp c" and "range_ok ord" and "\<forall>p. range_ok (orders p)"
  shows "central_inv configs dp (sweep_tick ord now orders clock writes c)"
proof -
  note parts = inv_parts [OF assms(1)]
  obtain peers removed st eff where t: "registry_Expire ord now (ce_peers c) = (peers, removed)"
      "close_expired orders clock writes (ce_hub c) removed (ce_sessions c, []) = (st, eff)"
      "sweep_tick ord now orders clock writes c =
         c\<lparr>ce_peers := peers, ce_sessions := st, ce_wrote := ce_wrote c @ eff\<rparr>"
    using sweep_tick_parts [OF refl, where ord = ord and now = now and orders = orders and clock = clock
        and writes = writes and c = c] by (elim exE conjE) (rule that)
  have "registry_of (configured configs) peers"
    using registry_of_ops(4) [OF parts(2) assms(2), of now] by (simp add: t(1))
  moreover have "store_of (configured configs) st"
    using close_expired_effect [OF parts(6) assms(3) t(2)]
    by (intro store_of_same [OF parts(3)]) (auto simp: same_peers_def)
  ultimately show ?thesis using parts by (simp add: t(3) central_inv_def)
qed

lemma reap_tick_inv:
  assumes "central_inv configs dp c" and "range_ok ord"
  shows "central_inv configs dp (fst (reap_tick ord now c))"
proof -
  note parts = inv_parts [OF assms(1)]
  have "store_of (configured configs) (fst (store_Reap ord now (ce_sessions c)))"
    by (rule store_of_same [OF parts(3) same_peers_Reap [OF parts(6) assms(2)] store_Reap_wf(1) [OF parts(6) assms(2)]])
  with parts show ?thesis by (simp add: reap_tick_def split_beta central_inv_def)
qed

lemma refresh_tick_inv:
  assumes "central_inv configs dp c" and "deployed configs key iss ttl dp" and "range_ok ord" and "\<forall>p. range_ok (orders p)"
  shows "central_inv configs dp (refresh_tick ord orders reads c)"
proof -
  note parts = inv_parts [OF assms(1)]
  have "configured configs (TrimSpace p)" if "p \<in> set (hub_Peers ord (ce_hub c))" for p
  proof -
    have "mwf (hub_conns (ce_hub c))" using parts(4) by (simp add: channels_ok_def hub_wf_def)
    then have "p \<in> dom (map_of (hub_conns (ce_hub c)))"
      using that unfolding hub_Peers_def range_okD(2) [OF assms(3) mwf_mkeys [OF \<open>mwf (hub_conns (ce_hub c))\<close>]]
      by simp
    then have "configured configs p" using parts(4) by (force simp: channels_ok_def)
    moreover from this have "TrimSpace p = p" using assms(2) configured_trim unfolding deployed_def by blast
    ultimately show ?thesis by simp
  qed
  then have "registry_of (configured configs) (refresh_peers orders reads (hub_Peers ord (ce_hub c)) (ce_peers c))"
    by (intro registry_of_refresh [OF parts(2) assms(4)]) simp
  with assms(1) show ?thesis by (simp add: refresh_tick_def inv_peers)
qed

lemma Peers_inv:
  assumes "central_inv configs dp c" and "deployed configs key iss ttl dp" and "range_ok ord" and "only_issued dp c r"
  shows "central_inv configs dp (fst (serve_Peers dp verified ord now r c))"
  unfolding serve_Peers_def
proof (rule guarded [OF assms(1,4)])
  fix p
  assume p: "configured configs p"
  then have "TrimSpace p = p" using assms(2) configured_trim unfolding deployed_def by blast
  then have "registry_of (configured configs) (fst (h_Peers ord now (r\<lparr>rq_PeerID := p\<rparr>) (ce_peers c)))"
    using p by (intro h_Peers_of [OF inv_parts(2) [OF assms(1)] assms(3)]) simp
  with assms(1) show "central_inv configs dp (fst (let (peers, rs) = h_Peers ord now (r\<lparr>rq_PeerID := p\<rparr>) (ce_peers c)
      in (c\<lparr>ce_peers := peers\<rparr>, rs)))"
    by (simp add: split_beta inv_peers)
qed

lemma Heartbeat_inv:
  assumes "central_inv configs dp c"
  shows "central_inv configs dp (fst (serve_Heartbeat dp verified now r c))"
  unfolding serve_Heartbeat_def
  by (rule guarded_any [OF assms]) (simp add: split_beta inv_peers [OF assms h_Heartbeat_of [OF inv_parts(2) [OF assms]]])

lemma OpenSession_inv:
  assumes "central_inv configs dp c" and "deployed configs key iss ttl dp" and "open_inputs ord rand (ce_sessions c)"
    and "only_issued dp c r"
  shows "central_inv configs dp (fst (serve_OpenSession dp verified ord rand looked now r c))"
  unfolding serve_OpenSession_def
proof (rule guarded [OF assms(1,4)])
  fix p
  assume p: "configured configs p"
  have trim: "configured configs q \<Longrightarrow> TrimSpace q = q" for q
    using assms(2) configured_trim unfolding deployed_def by blast
  have "store_of (configured configs) (fst (h_OpenSession ord rand now (Some (reachable_Lookup looked (ce_peers c)))
      (r\<lparr>rq_PeerID := p\<rparr>) (ce_sessions c)))"
    using p by (intro h_OpenSession_of [OF inv_parts(3) [OF assms(1)] assms(3) inv_parts(2) [OF assms(1)] trim]) simp_all
  with assms(1) show "central_inv configs dp (fst (let (st, rs) = h_OpenSession ord rand now
      (Some (reachable_Lookup looked (ce_peers c))) (r\<lparr>rq_PeerID := p\<rparr>) (ce_sessions c) in (c\<lparr>ce_sessions := st\<rparr>, rs)))"
    by (simp add: split_beta inv_sessions)
qed

lemma GetSession_inv:
  assumes "central_inv configs dp c"
  shows "central_inv configs dp (fst (serve_GetSession dp verified writes now r c))"
  unfolding serve_GetSession_def
  by (rule guarded_any [OF assms])
    (simp add: split_beta inv_sessions(1) [OF assms h_GetSession_of [OF inv_parts(3) [OF assms]]])

lemma ReportSession_inv:
  assumes "central_inv configs dp c"
  shows "central_inv configs dp (fst (serve_ReportSession dp verified writes now r c))"
  unfolding serve_ReportSession_def
  by (rule guarded_any [OF assms])
    (simp add: split_beta inv_sessions(1) [OF assms h_ReportSession_of [OF inv_parts(3) [OF assms]]])

lemma lookup_inv:
  assumes "central_inv configs dp c"
  shows "central_inv configs dp (fst (serve_PeerLookup dp verified now r c))"
    and "central_inv configs dp (fst (serve_ICEConfig dp verified now r c))"
  unfolding serve_PeerLookup_def serve_ICEConfig_def by (rule guarded_any [OF assms], use assms in simp)+

lemma central_step_inv:
  assumes "central_step dp c c'" and "central_inv configs dp c" and "deployed configs key iss ttl dp"
  shows "central_inv configs dp c'"
  using assms(1)
proof cases
  case step_Auth
  then show ?thesis by (blast intro: serve_Auth_inv [OF assms(2,3)])
next
  case step_Peers
  then show ?thesis by (simp add: Peers_inv [OF assms(2,3)])
next
  case step_Heartbeat
  then show ?thesis by (simp add: Heartbeat_inv [OF assms(2)])
next
  case step_PeerLookup
  then show ?thesis by (simp add: lookup_inv [OF assms(2)])
next
  case step_ICEConfig
  then show ?thesis by (simp add: lookup_inv [OF assms(2)])
next
  case step_OpenSession
  then show ?thesis by (simp add: OpenSession_inv [OF assms(2,3)])
next
  case step_GetSession
  then show ?thesis by (simp add: GetSession_inv [OF assms(2)])
next
  case step_ReportSession
  then show ?thesis by (simp add: ReportSession_inv [OF assms(2)])
next
  case step_SignalOpen
  then show ?thesis by (simp add: signal_open_inv [OF assms(2,3)])
next
  case step_SignalMessage
  then show ?thesis by (simp add: signal_message_inv [OF assms(2)])
next
  case step_SignalClose
  then show ?thesis by (simp add: signal_close_inv [OF assms(2)])
next
  case step_Sweep
  then show ?thesis by (simp add: sweep_tick_inv [OF assms(2)])
next
  case step_Reap
  then show ?thesis by (simp add: reap_tick_inv [OF assms(2)])
next
  case step_Refresh
  then show ?thesis by (simp add: refresh_tick_inv [OF assms(2,3)])
qed

lemma central_start_inv:
  assumes "central_start ro so ho failures window c" and "so_MaxSessions so < 2 ^ 61"
  shows "central_inv configs dp c"
proof -
  note s = assms(1) [unfolded central_start_def]
  have sess: "store_New so = Inr (ce_sessions c)" and reg: "registry_New ro = Inr (ce_peers c)"
    and hub: "hub_New ho = Inr (ce_hub c)" and lim: "NewAttemptLimiter failures window = Inr (ce_limiter c)"
    using s by blast+
  have "st_sess (ce_sessions c) sid = None" for sid
    using sess by (auto simp: store_New_def dest!: sym [of _ "ce_sessions c"] split: if_splits)
  moreover have "reg_dom (ce_peers c) = {}"
    using reg by (auto simp: registry_New_def Let_def dest!: sym [of _ "ce_peers c"] split: if_splits)
  moreover have "hub_conn (ce_hub c) p = None" for p
    using hub by (auto simp: hub_New_def dest!: sym [of _ "ce_hub c"] split: if_splits)
  ultimately show ?thesis
    using s NewAttemptLimiter_bounded [OF lim] registry_New_wf [OF reg] store_New_wf [OF sess assms(2)] hub_New_wf [OF hub]
    by (simp add: central_inv_def registry_of_def store_of_def channels_ok_def)
qed

lemma central_reachable_inv:
  assumes "central_reachable dp c" and "deployed configs key iss ttl dp"
  shows "central_inv configs dp c"
  using assms(1)
proof induction
  case (start ro so ho failures window c)
  then show ?case by (rule central_start_inv)
next
  case (step c c')
  then show ?case using central_step_inv [OF _ _ assms(2)] by blast
qed

text \<open>What is read on a channel, left to itself, is a run of the system.\<close>

lemma signal_message_channels: "ce_channels (signal_message writes now looked p msg c) = ce_channels c"
  by (simp add: signal_message_def split_beta)

lemma read_loop_reachable:
  assumes "central_reachable dp c" and "(cn, p) \<in> set (ce_channels c)"
  shows "central_reachable dp (fst (read_loop writes p msgs c))"
  using assms
proof (induction msgs arbitrary: c)
  case (Cons m msgs)
  obtain now looked msg where m: "m = (now, looked, msg)" by (metis prod_cases3)
  have "central_reachable dp (signal_message writes now looked p msg c)"
    using Cons.prems by (blast intro: central_reachable.step step_SignalMessage)
  with Cons show ?case by (simp add: m split_beta Let_def signal_message_channels)
qed simp

text \<open>
  The server leaves messages unread only after one it could neither deliver nor refuse:
  the sender's own channel was gone or did not take the refusal.
\<close>

lemma read_loop_stops:
  assumes "read_loop writes p msgs c = (c', rest)" and "rest \<noteq> []"
  shows "\<exists>now looked msg (c1 :: central) code. route_refusal (sessionsAsPairs_Other looked) writes now p msg (ce_hub c1) (ce_sessions c1) = Some code \<and>
     (\<forall>cn. hub_conn (ce_hub c1) p = Some cn \<longrightarrow> \<not> writes cn (refusal_message msg code))"
  using assms
proof (induction msgs arbitrary: c)
  case (Cons m msgs)
  obtain now looked msg where m: "m = (now, looked, msg)" by (metis prod_cases3)
  obtain h st eff err where run: "hub_Route (sessionsAsPairs_Other looked) writes now p msg (ce_hub c, ce_sessions c) = ((h, st), eff, err)"
    by (metis prod.exhaust)
  show ?case
  proof (cases err)
    case None
    with Cons run show ?thesis by (auto simp: m)
  next
    case (Some e)
    then obtain code where code: "route_refusal (sessionsAsPairs_Other looked) writes now p msg (ce_hub c) (ce_sessions c) = Some code"
        "err = snd (hub_send writes p (refusal_message msg code) (ce_hub c))"
      using hub_Route_effects [OF run] by (auto split: option.splits)
    have "\<not> writes cn (refusal_message msg code)" if "hub_conn (ce_hub c) p = Some cn" for cn
      using code(2) Some that by (auto simp: hub_send_conn simp del: map_option_eq_Some split: if_splits)
    then have none: "\<forall>cn. hub_conn (ce_hub c) p = Some cn \<longrightarrow> \<not> writes cn (refusal_message msg code)"
      by (intro allI impI)
    show ?thesis
      by (rule exI [of _ now], rule exI [of _ looked], rule exI [of _ msg], rule exI [of _ c], rule exI [of _ code])
        (rule conjI [OF code(1) none])
  qed
qed simp

end
