(* ===== verification/Control_Plane.thy ===== *)
theory Control_Plane
  imports System_Steps
begin

text \<open>
  What the control plane promises as a whole, in every state it can reach.
\<close>

section \<open>Presence\<close>

text \<open>A peer that has been heard of since an instant.\<close>

definition seen_since :: "time \<Rightarrow> string \<Rightarrow> registry \<Rightarrow> bool" where
  "seen_since t0 p r \<longleftrightarrow> (\<exists>held. map_of (reg_peers r) p = Some held \<and> t0 \<le> rec_lastSeen held)"

lemma seen_since_online:
  assumes "seen_since t0 p r" and "registry_wf r" and "time_Sub t t0 \<le> reg_suspect r"
  shows "\<exists>v. registry_Lookup t p r = Some v \<and> peer_State v = Online"
proof -
  obtain held where held: "map_of (reg_peers r) p = Some held" "t0 \<le> rec_lastSeen held"
    using assms(1) by (auto simp: seen_since_def)
  have "time_Sub t (rec_lastSeen held) \<le> time_Sub t t0" using held(2) by (auto simp: time_Sub_def)
  with assms(2,3) have "stateOf r held t = Online" by (auto simp: stateOf_def Let_def registry_wf_def)
  with held(1) show ?thesis by (simp add: registry_Lookup_def)
qed

text \<open>
  When every peer there is fits under the ceiling, a channel's peer is never refused a
  registration, and nobody else is dropped to make room for it.
\<close>

definition roomy :: "string set \<Rightarrow> registry \<Rightarrow> bool" where
  "roomy Q r \<longleftrightarrow> registry_of (\<lambda>p. p \<in> Q) r \<and> finite Q \<and> int (card Q) \<le> reg_ceiling r"

lemma roomy_Register:
  assumes "roomy Q r" and "p \<in> Q" and "TrimSpace p = p" and "p \<noteq> []"
  shows "map_of (reg_peers (fst (registry_Register ord now p r))) q =
     (if q = p then Some \<lparr>rec_registeredAt = (case map_of (reg_peers r) p of Some e \<Rightarrow> rec_registeredAt e | None \<Rightarrow> now),
                          rec_lastSeen = now\<rparr>
      else map_of (reg_peers r) q)"
proof -
  have wf: "mwf (reg_peers r)" using assms(1) by (simp add: roomy_def registry_of_def registry_wf_def)
  have "int (length (reg_peers r)) < reg_ceiling r" if "map_of (reg_peers r) p = None"
  proof -
    have "reg_dom r \<subset> Q" using assms(1,2) that by (auto simp: roomy_def registry_of_def)
    then have "card (reg_dom r) < card Q" using assms(1) by (intro psubset_card_mono) (auto simp: roomy_def)
    with assms(1) wf show ?thesis by (simp add: roomy_def gm.len_card)
  qed
  then show ?thesis using assms(3,4) by (auto simp: registry_Register_def Let_def)
qed

lemma registry_frame [simp]:
  "reg_ceiling (fst (registry_Register ord now p r)) = reg_ceiling r"
  "reg_ceiling (fst (registry_Heartbeat now p r)) = reg_ceiling r"
  "reg_suspect (fst (registry_Register ord now p r)) = reg_suspect r"
  "reg_suspect (fst (registry_Heartbeat now p r)) = reg_suspect r"
  by (simp_all add: registry_Register_def registry_Heartbeat_def Let_def split: option.splits)

lemma roomy_ops:
  assumes "roomy Q r"
  shows "p \<in> Q \<Longrightarrow> TrimSpace p = p \<Longrightarrow> range_ok ord \<Longrightarrow> roomy Q (fst (registry_Register ord now p r))"
    and "roomy Q (fst (registry_Heartbeat now p r))"
  using assms registry_of_ops(1,2) [of "\<lambda>p. p \<in> Q" r] by (simp_all add: roomy_def)

lemma Connected_seen:
  assumes "roomy Q r" and "range_ok ord" and "p \<in> Q" and "TrimSpace p = p" and "p \<noteq> []"
    and "t0 \<le> now" and "t0 \<le> now'"
  shows "roomy Q (presence_Connected ord now now' p r)"
    and "reg_suspect (presence_Connected ord now now' p r) = reg_suspect r"
    and "seen_since t0 p (presence_Connected ord now now' p r)"
    and "seen_since t0 q r \<Longrightarrow> seen_since t0 q (presence_Connected ord now now' p r)"
proof -
  obtain r1 x where hb: "registry_Heartbeat now p r = (r1, x)" by fastforce
  have room1: "roomy Q r1" using roomy_ops(2) [OF assms(1), of now p] by (simp add: hb)
  have suspect: "reg_suspect r1 = reg_suspect r" using registry_frame(4) [of now p r] by (simp add: hb)
  have res: "presence_Connected ord now now' p r = (case x of Inl _ \<Rightarrow> fst (registry_Register ord now' p r1) | Inr _ \<Rightarrow> r1)"
    by (simp add: presence_Connected_def hb split: sum.split)
  have mine: "x = Inr y \<Longrightarrow> seen_since t0 p r1" for y
    using hb assms(6) by (auto simp: registry_Heartbeat_def seen_since_def split: option.splits if_splits)
  have others: "map_of (reg_peers r1) q = map_of (reg_peers r) q" if "q \<noteq> p" for q
    using hb that by (auto simp: registry_Heartbeat_def split: option.splits if_splits)
  note reg = roomy_Register [OF room1 assms(3-5), of ord now']
  show "roomy Q (presence_Connected ord now now' p r)" "reg_suspect (presence_Connected ord now now' p r) = reg_suspect r"
    using room1 roomy_ops(1) [OF room1 assms(3,4,2)] suspect by (simp_all add: res split: sum.split)
  show p: "seen_since t0 p (presence_Connected ord now now' p r)"
    using mine assms(7) reg [of p] by (auto simp: res seen_since_def split: sum.split)
  show "seen_since t0 q (presence_Connected ord now now' p r)" if q: "seen_since t0 q r"
  proof (cases "q = p")
    case False
    then show ?thesis using q others [of q] reg [of q] by (auto simp: res seen_since_def split: sum.split)
  qed (use p in simp)
qed

text \<open>
  The registry as the hub's Presence: the readings of the clock are no earlier than an
  instant, the peers known are in the set the registry has room for, and a peer is
  present when it has been heard of since that instant.
\<close>

definition presence_good ::
  "time \<Rightarrow> string set \<Rightarrow> (string \<Rightarrow> string range_order) \<Rightarrow> (string \<Rightarrow> time \<times> time) \<Rightarrow> duration \<Rightarrow> registry \<Rightarrow> bool" where
  "presence_good t0 Q ord clock d r \<longleftrightarrow>
     roomy Q r \<and> reg_suspect r = d \<and> (\<forall>p. range_ok (ord p)) \<and> (\<forall>p. t0 \<le> fst (clock p) \<and> t0 \<le> snd (clock p))"

interpretation online: presence_answer
  "\<lambda>p. presence_Connected (ord p) (fst (clock p)) (snd (clock p)) p" presence_Disconnected "seen_since t0"
  "\<lambda>p. p \<in> Q \<and> TrimSpace p = p \<and> p \<noteq> []" "presence_good t0 Q ord clock d"
  for t0 :: time and Q ord clock d
proof unfold_locales
  fix r p q
  assume good: "presence_good t0 Q ord clock d r"
  show "presence_good t0 Q ord clock d (presence_Disconnected p r)" using good by (simp add: presence_Disconnected_def)
  show "seen_since t0 q (presence_Disconnected p r)" if "seen_since t0 q r" using that by (simp add: presence_Disconnected_def)
  assume p: "p \<in> Q \<and> TrimSpace p = p \<and> p \<noteq> []"
  have "roomy Q r" "range_ok (ord p)" "p \<in> Q" "TrimSpace p = p" "p \<noteq> []" "t0 \<le> fst (clock p)" "t0 \<le> snd (clock p)"
    using good p by (simp_all add: presence_good_def)
  note c = Connected_seen [OF this]
  show "presence_good t0 Q ord clock d (presence_Connected (ord p) (fst (clock p)) (snd (clock p)) p r)"
    using c(1,2) good by (simp add: presence_good_def)
  show "seen_since t0 p (presence_Connected (ord p) (fst (clock p)) (snd (clock p)) p r)" by (rule c(3))
  show "seen_since t0 q (presence_Connected (ord p) (fst (clock p)) (snd (clock p)) p r)" if "seen_since t0 q r"
    using that by (rule c(4))
qed

text \<open>One turn of the refresh loop is what opening a channel does.\<close>

lemma refresh_fold:
  "refresh_peers ord clock ps = fold (\<lambda>p. presence_Connected (ord p) (fst (clock p)) (snd (clock p)) p) ps"
proof (rule ext)
  show "refresh_peers ord clock ps r = fold (\<lambda>p. presence_Connected (ord p) (fst (clock p)) (snd (clock p)) p) ps r" for r
    by (induction ps arbitrary: r) (simp_all add: presence_Connected_def)
qed

lemma refresh_seen:
  assumes "roomy Q r" and "\<forall>p. range_ok (ord p)" and "\<forall>p \<in> set ps. p \<in> Q \<and> TrimSpace p = p \<and> p \<noteq> []"
    and "\<forall>p. t0 \<le> fst (clock p) \<and> t0 \<le> snd (clock p)"
  shows "roomy Q (refresh_peers ord clock ps r) \<and> reg_suspect (refresh_peers ord clock ps r) = reg_suspect r \<and>
     (\<forall>p. p \<in> set ps \<or> seen_since t0 p r \<longrightarrow> seen_since t0 p (refresh_peers ord clock ps r))"
proof -
  have "presence_good t0 Q ord clock (reg_suspect r) r" using assms(1,2,4) by (simp add: presence_good_def)
  from online.all_present [OF this assms(3)] show ?thesis
    unfolding refresh_fold by (simp add: presence_good_def)
qed

text \<open>Opening a channel brings its peer online at once.\<close>

lemma signal_open_seen:
  assumes "roomy Q (ce_peers c)" and "range_ok ord" and "t0 \<le> now" and "t0 \<le> now'" and "hub_presence (ce_hub c)"
    and "signal_authenticate (dp_lib dp) verified (dp_verifier dp) r = Inr p" and "p \<in> Q" and "TrimSpace p = p" and "p \<noteq> []"
  shows "seen_since t0 p (ce_peers (fst (signal_open dp verified ord registered now now' cn r c)))"
    and "roomy Q (ce_peers (fst (signal_open dp verified ord registered now now' cn r c)))"
    and "reg_suspect (ce_peers (fst (signal_open dp verified ord registered now now' cn r c))) = reg_suspect (ce_peers c)"
proof -
  obtain h eff where reg: "hub_Register registered p cn (ce_hub c) = (h, eff)" by fastforce
  have only: "\<forall>q. PresenceConnected q \<in> set eff \<longrightarrow> q \<in> Q \<and> TrimSpace q = q \<and> q \<noteq> []"
    using reg assms(7-9) by (auto simp: hub_Register_def Let_def split: option.splits if_splits)
  have good: "presence_good t0 Q (\<lambda>_. ord) (\<lambda>_. (now, now')) (reg_suspect (ce_peers c)) (ce_peers c)"
    using assms(1-4) by (simp add: presence_good_def)
  have "seen_since t0 p (fold (presence_effect (presence_Connected ord now now') presence_Disconnected) eff (ce_peers c))"
    using online.Register_present [OF good _ assms(5) reg] assms(7-9) by simp
  moreover note online.effects_present [OF good only]
  ultimately show "seen_since t0 p (ce_peers (fst (signal_open dp verified ord registered now now' cn r c)))"
    "roomy Q (ce_peers (fst (signal_open dp verified ord registered now now' cn r c)))"
    "reg_suspect (ce_peers (fst (signal_open dp verified ord registered now now' cn r c))) = reg_suspect (ce_peers c)"
    by (simp_all add: signal_open_def assms(6) reg run_presence_def presence_good_def)
qed

lemma inv_roomy:
  assumes "central_inv configs dp c" and "int (length configs) \<le> reg_ceiling (ce_peers c)"
  shows "roomy (Collect (configured configs)) (ce_peers c)"
proof -
  have Q: "Collect (configured configs) = set (map (\<lambda>cfg. TrimSpace (cc_PeerID cfg)) configs)"
    by (auto simp: configured_def)
  have "card (Collect (configured configs)) \<le> length configs" unfolding Q by (rule le_trans [OF card_length]) simp
  with assms show ?thesis by (simp add: roomy_def central_inv_def) (simp add: Q)
qed

lemma deployed_peer:
  assumes "deployed configs key iss ttl dp" and "configured configs p"
  shows "validPeerID p" and "TrimSpace p = p" and "p \<noteq> []"
proof -
  show "validPeerID p" using assms configured_valid unfolding deployed_def by blast
  from validPeerID_plain [OF this] show "TrimSpace p = p" "p \<noteq> []" by simp_all
qed

section \<open>The invariant\<close>

text \<open>Three clients, the deployment that knows them and the process it starts, for the witnesses.\<close>

definition sample_client :: "string \<Rightarrow> client_config" where
  "sample_client p = \<lparr>cc_ID = p, cc_PeerID = p, cc_Secret = replicate 32 (CHR ''k'')\<rparr>"

definition sample_clients :: "client_config list" where
  "sample_clients = [sample_config, sample_client ''a'', sample_client ''b'']"

definition sample_deployment :: "client_store \<Rightarrow> deployment" where
  "sample_deployment s =
     \<lparr>dp_lib = one_jwt, dp_clients = s, dp_issuer = one_issuer, dp_verifier = sample_verifier,
      dp_ice = \<lparr>pv_stun = [], pv_turn = [], pv_secret = [], pv_credentialTTL = 0\<rparr>\<rparr>"

definition sample_central :: central where
  "sample_central =
     \<lparr>ce_limiter = sample_limiter, ce_peers = sample_registry\<lparr>reg_peers := [], reg_ceiling := 3\<rparr>,
      ce_sessions = sample_empty, ce_hub = sample_hub\<lparr>hub_conns := []\<rparr>, ce_tokens = [], ce_channels = [], ce_wrote = []\<rparr>"

lemma sample_clients_accepted: "\<exists>s. NewClientStore sample_clients = Inr s"
  unfolding NewClientStore_accepted
  by (simp add: sample_clients_def sample_client_def sample_config_def sample_config_trim sample_trim validPeerID_def
      peerIDAllowed_def less_eq_char_def)

lemma sample_configured: "configured sample_clients p \<longleftrightarrow> p \<in> {''alice'', ''a'', ''b''}"
  by (auto simp: configured_def sample_clients_def sample_client_def sample_config_def sample_config_trim sample_trim)

lemma sample_deployed:
  "NewClientStore sample_clients = Inr s \<Longrightarrow> deployed sample_clients one_key ''dc'' (60 * second) (sample_deployment s)"
  by (simp add: deployed_def sample_deployment_def one_jwt_documented one_New sample_verifier_def)

lemma sample_start:
  "central_start (sample_options\<lparr>ro_MaxPeers := 3\<rparr>) sample_session_options
     \<lparr>ho_Sessions = True, ho_Presence = True, ho_MessagesPerWindow = 2, ho_Window = 0, ho_SendTimeout = 0\<rparr>
     3 minute sample_central"
  by (simp add: central_start_def sample_central_def sample_New sample_limiter_New hub_New_def sample_hub_def
      DefaultWindow_def DefaultSendTimeout_def registry_New_def sample_options_def sample_registry_def second_def)

text \<open>
  C1: The invariant of the system. Whatever requests, messages and ticks have happened,
  in whatever order and whatever the clock read, the components' invariants hold
  together: only the peers of the configured clients are in the registry, in a session
  or behind a channel, every token answered names one of them, the registry is within
  its ceiling and the table of failures within its own, and each channel the hub holds
  is one whose socket is open, opened by that peer.
\<close>

theorem system_invariant:
  assumes "central_reachable dp c" and "deployed configs key iss ttl dp"
  shows "central_inv configs dp c \<and>
     int (length (reg_peers (ce_peers c))) \<le> reg_ceiling (ce_peers c) \<and> limiter_Tracked (ce_limiter c) \<le> 8192 \<and>
     (\<forall>p. map_of (reg_peers (ce_peers c)) p \<noteq> None \<longrightarrow> configured configs p) \<and>
     (\<forall>sid h. st_sess (ce_sessions c) sid = Some h \<longrightarrow>
        configured configs (sess_Caller h) \<and> configured configs (sess_Callee h)) \<and>
     (\<forall>p cn. hub_conn (ce_hub c) p = Some cn \<longrightarrow> configured configs p \<and> (cn, p) \<in> set (ce_channels c)) \<and>
     (\<forall>raw now cl. raw \<in> set (ce_tokens c) \<and> verifier_Verify (dp_lib dp) now raw (dp_verifier dp) = Inr cl \<longrightarrow>
        configured configs (cl_PeerID cl))"
proof -
  note inv = central_reachable_inv [OF assms]
  note parts = inv_parts [OF inv]
  have "int (length (reg_peers (ce_peers c))) \<le> reg_ceiling (ce_peers c)"
    "\<forall>p. map_of (reg_peers (ce_peers c)) p \<noteq> None \<longrightarrow> configured configs p"
    using parts(2) by (auto simp: registry_of_def registry_wf_def)
  moreover have "limiter_Tracked (ce_limiter c) \<le> 8192" using parts(1) by (simp add: limiter_bounded_def maxTracked_def)
  moreover have "configured configs p \<and> (cn, p) \<in> set (ce_channels c)" if "hub_conn (ce_hub c) p = Some cn" for p cn
  proof -
    have "(cn, p) \<in> set (ce_channels c)" using parts(4) that unfolding channels_ok_def by blast
    with parts(4) show ?thesis unfolding channels_ok_def by blast
  qed
  ultimately show ?thesis using inv parts(3,5) unfolding store_of_def names_configured_def by blast
qed

lemma sample_exchange:
  assumes "NewClientStore sample_clients = Inr s"
  shows "serve_Auth (sample_deployment s) rev (Some [0]) 0 0 (sample_credential ''c'' (replicate 32 (CHR ''k''))) sample_central =
     Some (sample_central\<lparr>ce_tokens := [''t'']\<rparr>, writeJSONStatus 200 (TokenBody
       \<lparr>tr_Token = ''t'', tr_PeerID = ''alice'', tr_ExpiresAt = 60 * second\<rparr>))"
proof -
  have "sample_config \<in> set sample_clients" by (simp add: sample_clients_def)
  then have "Authenticate (TrimSpace (cc_ID sample_config)) (cc_Secret sample_config) s = Inr (TrimSpace (cc_PeerID sample_config))"
    using Authenticate_parts [OF assms] by blast
  then have "Authenticate ''c'' (replicate 32 (CHR ''k'')) s = Inr ''alice''"
    by (simp add: sample_config_def sample_config_trim)
  then show ?thesis
    by (simp add: serve_Auth_def h_Auth_steps credential_of_def sample_credential_def sample_config_trim sample_deployment_def
        sample_central_def limiter_Allowed_def limiter_Succeeded_def sample_limiter_def one_Issue answered_tokens_def writeJSONStatus_def mdel_def)
qed

theorem system_invariant_witness:
  "\<exists>s. NewClientStore sample_clients = Inr s \<and>
     (\<exists>c. central_reachable (sample_deployment s) c \<and> ce_tokens c = [''t''] \<and> central_inv sample_clients (sample_deployment s) c)"
proof -
  obtain s where s: "NewClientStore sample_clients = Inr s" using sample_clients_accepted by blast
  let ?c = "sample_central\<lparr>ce_tokens := [''t'']\<rparr>"
  have "central_reachable (sample_deployment s) sample_central"
    by (rule central_reachable.start [OF sample_start]) (simp add: sample_session_options_def)
  then have r: "central_reachable (sample_deployment s) ?c"
    by (rule central_reachable.step [OF _ step_Auth [OF range_ok_rev sample_exchange [OF s]]])
  have "ce_tokens ?c = [''t'']" by simp
  with system_invariant [OF r sample_deployed [OF s]] r s show ?thesis by blast
qed

section \<open>The sweep\<close>

text \<open>Whether a peer's record is past the offline window, and its removal due.\<close>

definition overdue :: "time \<Rightarrow> registry \<Rightarrow> string \<Rightarrow> bool" where
  "overdue now reg p \<longleftrightarrow> map_of (reg_peers reg) p \<noteq> None \<and> registry_Lookup now p reg = None"

lemma Expire_overdue:
  assumes "registry_wf reg" and "range_ok ord" and "registry_Expire ord now reg = (reg', removed)"
  shows "set removed = Collect (overdue now reg)"
    and "map_of (reg_peers reg') p = (if overdue now reg p then None else map_of (reg_peers reg) p)"
proof -
  have m: "mwf (reg_peers reg)" using assms(1) by (simp add: registry_wf_def)
  have o: "overdue now reg p \<longleftrightarrow> (\<exists>held. map_of (reg_peers reg) p = Some held \<and> stateOf reg held now = Gone)" for p
    by (auto simp: overdue_def registry_Lookup_def Let_def split: option.splits if_splits)
  have "removed = snd (expireLocked ord now reg)" and r: "reg' = fst (expireLocked ord now reg)"
    using assms(3) by (simp_all add: registry_Expire_def)
  then show "set removed = Collect (overdue now reg)"
    using map_prune_all_removed [OF assms(2) m, of "\<lambda>_ held. stateOf reg held now = Gone"]
    by (auto simp: expireLocked_def split_beta o)
  show "map_of (reg_peers reg') p = (if overdue now reg p then None else map_of (reg_peers reg) p)"
    using fun_cong [OF expireLocked_get [OF assms(2) m, of now], of p]
    by (auto simp: r o live_peers_def split: option.splits)
qed

text \<open>
  C2: The sweep, the registry, the sessions and the channels together. One tick removes
  exactly the peers past the offline window; no session such a peer was in is live any
  more, every other session is as it was, and both peers of each session the tick
  closed, and nobody else, are told over the channel they hold.
\<close>

theorem sweep_ends_sessions:
  assumes "central_inv configs dp c" and "range_ok ord" and "\<forall>p. range_ok (orders p)"
    and "sweep_tick ord now orders clock writes c = c'"
  shows "(\<forall>p. map_of (reg_peers (ce_peers c')) p =
       (if overdue now (ce_peers c) p then None else map_of (reg_peers (ce_peers c)) p)) \<and>
     (\<forall>sid h. st_sess (ce_sessions c) sid = Some h \<longrightarrow> (\<exists>h'. st_sess (ce_sessions c') sid = Some h' \<and>
        (if \<exists>p. overdue now (ce_peers c) p \<and> session_Has h p then \<not> session_Live h' else h' = h))) \<and>
     (\<exists>eff. ce_wrote c' = ce_wrote c @ eff \<and>
        (\<forall>cn m. Wrote cn m \<in> set eff \<longleftrightarrow>
           (\<exists>s \<in> closed_now (ce_sessions c) (ce_sessions c'). m = ended_message s \<and> writes cn m \<and>
              (\<exists>p \<in> {sess_Caller s, sess_Callee s}. hub_conn (ce_hub c) p = Some cn)))) \<and>
     ce_hub c' = ce_hub c \<and> central_inv configs dp c'"
proof -
  note parts = inv_parts [OF assms(1)]
  obtain peers removed st eff where t: "registry_Expire ord now (ce_peers c) = (peers, removed)"
      "close_expired orders clock writes (ce_hub c) removed (ce_sessions c, []) = (st, eff)"
      "c' = c\<lparr>ce_peers := peers, ce_sessions := st, ce_wrote := ce_wrote c @ eff\<rparr>"
    using sweep_tick_parts [OF assms(4)] by (elim exE conjE) simp
  note gone = Expire_overdue [OF registry_of_wf [OF parts(2)] assms(2) t(1)]
  note close = close_expired_effect [OF parts(6) assms(3) t(2)]
  have sess: "\<exists>h'. st_sess st sid = Some h' \<and>
      (if \<exists>p. overdue now (ce_peers c) p \<and> session_Has h p then \<not> session_Live h' else h' = h)"
    if h: "st_sess (ce_sessions c) sid = Some h" for sid h
  proof -
    let ?f = "closed_by_all (st_timeout (ce_sessions c)) clock removed"
    have "st_sess st sid = Some (?f h)" using close h by simp
    moreover have "\<not> session_Live (?f h)" if "overdue now (ce_peers c) p" "session_Has h p" for p
      using that by (intro closed_by_all_ends [of h p]) (simp_all add: gone(1))
    moreover have "?f h = h" if "\<forall>p. overdue now (ce_peers c) p \<longrightarrow> \<not> session_Has h p"
      using that by (intro closed_by_all_others) (simp add: gone(1))
    ultimately show ?thesis by auto
  qed
  have "central_inv configs dp c'" using sweep_tick_inv [OF assms(1-3)] assms(4) by blast
  with gone(2) sess close show ?thesis by (simp add: t(3))
qed

text \<open>A state for the witnesses: \<open>a\<close>, last heard of long ago, in a session with \<open>b\<close>, both with a channel.\<close>

definition sample_busy :: central where
  "sample_busy = sample_central
     \<lparr>ce_peers := (ce_peers sample_central)\<lparr>reg_peers := [(''a'', \<lparr>rec_registeredAt = 0, rec_lastSeen = 0\<rparr>),
        (''b'', \<lparr>rec_registeredAt = 0, rec_lastSeen = 20 * second\<rparr>)]\<rparr>,
      ce_sessions := sample_store, ce_hub := sample_hub, ce_channels := [(1, ''a''), (2, ''b'')]\<rparr>"

lemma sample_busy_inv: "central_inv sample_clients dp sample_busy"
proof -
  have "registry_of (configured sample_clients) (ce_peers sample_busy)"
    by (simp add: registry_of_def registry_wf_def sample_busy_def sample_central_def sample_registry_def sample_configured
        mwf_def second_def)
  moreover have "store_of (configured sample_clients) (ce_sessions sample_busy)"
    by (simp add: store_of_def sample_busy_def sample_store_wf sample_store_sess sample_session_fields sample_configured)
  moreover have "hub_conn sample_hub p = Some cn \<Longrightarrow> (cn, p) \<in> {(1, ''a''), (2, ''b'')}" for p cn
    by (auto simp: sample_hub_def split: if_splits)
  then have "channels_ok (configured sample_clients) (ce_channels sample_busy) (ce_hub sample_busy)"
    by (auto simp: channels_ok_def sample_busy_def hub_wf_def sample_hub_def mwf_def minute_def second_def sample_configured)
  ultimately show ?thesis
    using NewAttemptLimiter_bounded [OF sample_limiter_New]
    by (simp add: central_inv_def) (simp add: sample_busy_def sample_central_def)
qed

theorem sweep_ends_sessions_witness:
  "let c' = sweep_tick rev (70 * second) (\<lambda>_. rev) (\<lambda>_. 70 * second) (\<lambda>_ _. True) sample_busy
   in map_of (reg_peers (ce_peers c')) ''a'' = None \<and> map_of (reg_peers (ce_peers c')) ''b'' \<noteq> None \<and>
      (\<exists>h'. st_sess (ce_sessions c') ''s'' = Some h' \<and> \<not> session_Live h')"
proof -
  let ?c = "sweep_tick rev (70 * second) (\<lambda>_. rev) (\<lambda>_. 70 * second) (\<lambda>_ _. True) sample_busy"
  have "overdue (70 * second) (ce_peers sample_busy) ''a''" "\<not> overdue (70 * second) (ce_peers sample_busy) ''b''"
    by (simp_all add: overdue_def registry_Lookup_def stateOf_def Let_def sample_busy_def sample_central_def sample_registry_def
        time_Sub_def second_def max_duration_def min_duration_def)
  moreover have held: "st_sess (ce_sessions sample_busy) ''s'' = Some sample_session" and a: "session_Has sample_session ''a''"
    by (simp_all add: sample_busy_def sample_store_sess sample_session_fields)
  moreover have "map_of (reg_peers (ce_peers sample_busy)) ''b'' \<noteq> None" by (simp add: sample_busy_def)
  moreover note spec = sweep_ends_sessions [OF sample_busy_inv range_ok_rev, where orders = "\<lambda>_. rev", OF _ refl,
      where now = "70 * second" and clock = "\<lambda>_. 70 * second" and writes = "\<lambda>_ _. True"]
  have "\<forall>p :: string. range_ok (rev :: string range_order)" by simp
  note spec = spec [OF this]
  have "map_of (reg_peers (ce_peers ?c)) p =
      (if overdue (70 * second) (ce_peers sample_busy) p then None else map_of (reg_peers (ce_peers sample_busy)) p)" for p
    using conjunct1 [OF spec] by blast
  moreover have "\<exists>h'. st_sess (ce_sessions ?c) ''s'' = Some h' \<and>
      (if \<exists>p. overdue (70 * second) (ce_peers sample_busy) p \<and> session_Has sample_session p then \<not> session_Live h'
       else h' = sample_session)"
    by (rule conjunct1 [OF conjunct2 [OF spec], rule_format, OF held])
  ultimately show ?thesis using a unfolding Let_def by metis
qed

section \<open>Signaling\<close>

text \<open>A message within the allowance, on a live session whose other peer has a channel that takes it, is delivered.\<close>

lemma signal_message_delivers:
  assumes "store_wf (ce_sessions c)" and "live_view (ce_sessions c) looked (msg_SessionID msg) = Some h" and "session_Has h p"
    and "msg_SessionID msg \<noteq> []" and "carriable (msg_Type msg)" and "snd (hub_allowed now p (ce_hub c))"
    and "hub_conn (ce_hub c) (session_Other h p) = Some cn" and "writes cn (carried p msg)"
  shows "ce_wrote (signal_message writes now looked p msg c) = ce_wrote c @ [Wrote cn (carried p msg)]"
proof -
  obtain hb st eff err where run: "hub_Route (sessionsAsPairs_Other looked) writes now p msg (ce_hub c, ce_sessions c) = ((hb, st), eff, err)"
    by (metis prod.exhaust)
  have other: "snd (sessionsAsPairs_Other looked (msg_SessionID msg) p (ce_sessions c)) = (session_Other h p, True)"
    using assms(2,3) by (simp add: Other_answer [OF assms(1)])
  have target: "route_target writes p msg (session_Other h p) (ce_hub c) = Some cn"
    unfolding route_target_def assms(7) using assms(8) by simp
  have "route_refusal (sessionsAsPairs_Other looked) writes now p msg (ce_hub c) (ce_sessions c) = None"
    using assms(4-6) target by (simp add: route_refusal_def other)
  with hub_Route_effects [OF run] other target have "eff = [Wrote cn (carried p msg)]" by auto
  then show ?thesis by (simp add: signal_message_def run)
qed

text \<open>
  C3: Signaling reaches the other peer of a live session and nobody else. Whatever a
  message says of itself, what a channel is written of it is the message as sent by the
  peer whose channel it came in on, on the channel the other peer of the session
  opened; that peer is a configured one, different from the sender, and can answer on
  the same session.
\<close>

theorem signaling_between_the_pair:
  assumes "central_inv configs dp c" and "signal_message writes now looked p msg c = c'"
  shows "(\<exists>eff. ce_wrote c' = ce_wrote c @ eff \<and>
       (\<forall>cn m. Wrote cn m \<in> set eff \<and> carriable (msg_Type m) \<longrightarrow> m = carried p msg \<and>
          (\<exists>h. live_view (ce_sessions c) looked (msg_SessionID msg) = Some h \<and> session_Has h p \<and>
             session_Other h p \<noteq> p \<and> configured configs (session_Other h p) \<and> (cn, session_Other h p) \<in> set (ce_channels c) \<and>
             snd (sessionsAsPairs_Other looked (msg_SessionID m) (session_Other h p) (ce_sessions c')) = (p, True)))) \<and>
     ce_peers c' = ce_peers c \<and> live_view (ce_sessions c') looked = live_view (ce_sessions c) looked \<and>
     central_inv configs dp c'"
proof -
  note parts = inv_parts [OF assms(1)]
  obtain h st eff err where run: "hub_Route (sessionsAsPairs_Other looked) writes now p msg (ce_hub c, ce_sessions c) = ((h, st), eff, err)"
    by (metis prod.exhaust)
  have c': "c' = c\<lparr>ce_hub := h, ce_sessions := st, ce_wrote := ce_wrote c @ eff\<rparr>"
    using assms(2) by (simp add: signal_message_def run)
  have written: "m = carried p msg \<and>
      (\<exists>h. live_view (ce_sessions c) looked (msg_SessionID msg) = Some h \<and> session_Has h p \<and>
         session_Other h p \<noteq> p \<and> configured configs (session_Other h p) \<and> (cn, session_Other h p) \<in> set (ce_channels c) \<and>
         snd (sessionsAsPairs_Other looked (msg_SessionID m) (session_Other h p) st) = (p, True))"
    if m: "Wrote cn m \<in> set eff" "carriable (msg_Type m)" for cn m
  proof -
    obtain q where q: "snd (sessionsAsPairs_Other looked (msg_SessionID msg) p (ce_sessions c)) = (q, True)" "q \<noteq> p"
        "hub_conn (ce_hub c) q = Some cn" "m = carried p msg"
      using pairs.Route_delivers [OF parts(6) run m] by blast
    obtain q' where q': "hub_conn (ce_hub c) q' = Some cn" "snd (sessionsAsPairs_Other looked (msg_SessionID m) q' st) = (p, True)"
      using pairs.Route_answers [OF parts(6) run m] by blast
    obtain g where g: "live_view (ce_sessions c) looked (msg_SessionID msg) = Some g" "session_Has g p" "q = session_Other g p"
      using q(1) by (auto simp: Other_answer [OF parts(6)] split: option.splits if_splits)
    have ch: "(cn, q) \<in> set (ce_channels c)" "(cn, q') \<in> set (ce_channels c)"
      using parts(4) q(3) q'(1) unfolding channels_ok_def by blast+
    moreover have "distinct (map fst (ce_channels c))" using parts(4) unfolding channels_ok_def by blast
    ultimately have "q' = q" using map_of_is_SomeI by fastforce
    moreover have "configured configs q" using parts(4) ch(1) unfolding channels_ok_def by blast
    ultimately show ?thesis using q g q' ch by blast
  qed
  have "st \<in> {ce_sessions c, fst (store_Get looked (msg_SessionID msg) p (ce_sessions c))}"
    using arg_cong [OF run, of "\<lambda>x. snd (fst x)"]
    by (auto simp: hub_Route_def Let_def split_beta Other_store split: if_splits option.splits)
  then have "live_view st looked = live_view (ce_sessions c) looked" using store_Get_view [OF parts(6)] by auto
  moreover have "central_inv configs dp c'" using signal_message_inv [OF assms(1)] assms(2) by blast
  moreover have "ce_wrote c' = ce_wrote c @ eff" "ce_sessions c' = st" "ce_peers c' = ce_peers c" by (simp_all add: c')
  ultimately show ?thesis using written by metis
qed

theorem signaling_between_the_pair_witness:
  "ce_wrote (signal_message (\<lambda>_ _. True) 5 5 ''a'' sample_offer sample_busy) = [Wrote 2 (carried ''a'' sample_offer)] \<and>
   snd (sessionsAsPairs_Other 5 ''s'' ''b'' (ce_sessions (signal_message (\<lambda>_ _. True) 5 5 ''a'' sample_offer sample_busy))) = (''a'', True)"
proof -
  let ?c = "signal_message (\<lambda>_ _. True) 5 5 ''a'' sample_offer sample_busy"
  have view: "live_view (ce_sessions sample_busy) 5 (msg_SessionID sample_offer) = Some sample_session"
    using sample_live_view [of 5] by (simp add: sample_busy_def sample_offer_def second_def)
  have conn: "hub_conn (ce_hub sample_busy) (session_Other sample_session ''a'') = Some 2"
    by (simp add: sample_busy_def sample_hub_def session_Other_def sample_session_fields)
  have offer: "msg_SessionID sample_offer \<noteq> []" "carriable (msg_Type sample_offer)"
    by (simp_all add: sample_offer_def carriable_def)
  have allowed: "snd (hub_allowed 5 ''a'' (ce_hub sample_busy))"
    by (simp add: hub_allowed_def sample_busy_def sample_hub_def time_Sub_def max_duration_def min_duration_def minute_def second_def)
  have wrote: "ce_wrote ?c = [Wrote 2 (carried ''a'' sample_offer)]"
    using signal_message_delivers [OF inv_parts(6) [OF sample_busy_inv] view _ offer allowed conn, of "\<lambda>_ _. True"]
    by (simp add: sample_session_fields) (simp add: sample_busy_def sample_central_def)
  obtain eff where eff: "ce_wrote ?c = ce_wrote sample_busy @ eff"
      "\<forall>cn m. Wrote cn m \<in> set eff \<and> carriable (msg_Type m) \<longrightarrow> m = carried ''a'' sample_offer \<and>
          (\<exists>h. live_view (ce_sessions sample_busy) 5 (msg_SessionID sample_offer) = Some h \<and> session_Has h ''a'' \<and>
             session_Other h ''a'' \<noteq> ''a'' \<and> configured sample_clients (session_Other h ''a'') \<and>
             (cn, session_Other h ''a'') \<in> set (ce_channels sample_busy) \<and>
             snd (sessionsAsPairs_Other 5 (msg_SessionID m) (session_Other h ''a'') (ce_sessions ?c)) = (''a'', True))"
    using signaling_between_the_pair [OF sample_busy_inv [of "sample_deployment \<lparr>cs_clients = [], cs_dummy = []\<rparr>"] refl, where writes = "\<lambda>_ _. True" and now = 5 and looked = 5
        and p = "''a''" and msg = sample_offer] by (elim conjE exE) (rule that)
  have "Wrote 2 (carried ''a'' sample_offer) \<in> set eff" using eff(1) wrote by (simp add: sample_busy_def sample_central_def)
  with eff(2) offer(2) view wrote show ?thesis
    by (fastforce simp: carried_def session_Other_def sample_session_fields sample_offer_def)
qed

section \<open>Presence behind a channel\<close>

lemma signal_caller:
  assumes "central_inv configs dp c" and "only_issued dp c r"
    and "signal_authenticate (dp_lib dp) verified (dp_verifier dp) r = Inr p"
  shows "configured configs p"
proof -
  obtain raw cl where ok: "tokenFromSubprotocols r = Some raw"
      "verifier_Verify (dp_lib dp) verified raw (dp_verifier dp) = Inr cl" "p = cl_PeerID cl"
    using assms(3) by (auto simp: signal_authenticate_def split: option.splits sum.splits)
  then have "raw \<in> set (ce_tokens c)" using assms(2) unfolding only_issued_def by blast
  with assms(1) ok(2,3) show ?thesis unfolding central_inv_def names_configured_def by blast
qed

lemma refresh_online:
  assumes "central_inv configs dp c" and "deployed configs key iss ttl dp"
    and "int (length configs) \<le> reg_ceiling (ce_peers c)"
    and "range_ok ord" and "\<forall>p. range_ok (orders p)" and "\<forall>p. t0 \<le> fst (reads p) \<and> t0 \<le> snd (reads p)"
    and "hub_conn (ce_hub c) p = Some cn" and "time_Sub t t0 \<le> reg_suspect (ce_peers c)"
  shows "\<exists>v. registry_Lookup t p (ce_peers (refresh_tick ord orders reads c)) = Some v \<and> peer_State v = Online"
proof -
  note parts = inv_parts [OF assms(1)]
  have wf: "mwf (hub_conns (ce_hub c))" using parts(4) by (simp add: channels_ok_def hub_wf_def)
  have ps: "set (hub_Peers ord (ce_hub c)) = {q. hub_conn (ce_hub c) q \<noteq> None}"
    unfolding hub_Peers_def range_okD(2) [OF assms(4) mwf_mkeys [OF wf]] by (auto simp: dom_def)
  have all: "\<forall>q \<in> set (hub_Peers ord (ce_hub c)). q \<in> Collect (configured configs) \<and> TrimSpace q = q \<and> q \<noteq> []"
  proof
    fix q
    assume "q \<in> set (hub_Peers ord (ce_hub c))"
    then obtain d where "hub_conn (ce_hub c) q = Some d" unfolding ps mem_Collect_eq not_None_eq by (elim exE)
    then have "(d, q) \<in> set (ce_channels c)" using parts(4) unfolding channels_ok_def by blast
    then have "configured configs q" using parts(4) unfolding channels_ok_def by blast
    with deployed_peer [OF assms(2)] show "q \<in> Collect (configured configs) \<and> TrimSpace q = q \<and> q \<noteq> []" by simp
  qed
  have mem: "p \<in> set (hub_Peers ord (ce_hub c))" unfolding ps using assms(7) by blast
  note seen = refresh_seen [OF inv_roomy [OF assms(1,3)] assms(5) all assms(6)]
  have "seen_since t0 p (ce_peers (refresh_tick ord orders reads c))" using seen mem by (simp add: refresh_tick_def)
  moreover have "registry_wf (ce_peers (refresh_tick ord orders reads c))"
    using seen by (simp add: refresh_tick_def roomy_def registry_of_def)
  moreover have "time_Sub t t0 \<le> reg_suspect (ce_peers (refresh_tick ord orders reads c))"
    using assms(8) seen by (simp add: refresh_tick_def)
  ultimately show ?thesis by (rule seen_since_online)
qed

lemma open_online:
  assumes "central_inv configs dp c" and "deployed configs key iss ttl dp"
    and "int (length configs) \<le> reg_ceiling (ce_peers c)" and "range_ok ord" and "t0 \<le> now" and "t0 \<le> now'"
    and "hub_presence (ce_hub c)" and "only_issued dp c r"
    and "signal_authenticate (dp_lib dp) verified (dp_verifier dp) r = Inr q" and "time_Sub t t0 \<le> reg_suspect (ce_peers c)"
  shows "\<exists>v. registry_Lookup t q (ce_peers (fst (signal_open dp verified ord registered now now' cn r c))) = Some v \<and>
     peer_State v = Online"
proof -
  have conf: "configured configs q" by (rule signal_caller [OF assms(1,8,9)])
  then have mem: "q \<in> Collect (configured configs)" by simp
  note seen = signal_open_seen [OF inv_roomy [OF assms(1,3)] assms(4-7,9) mem deployed_peer(2,3) [OF assms(2) conf],
      of registered cn]
  have "registry_wf (ce_peers (fst (signal_open dp verified ord registered now now' cn r c)))"
    using seen(2) by (simp add: roomy_def registry_of_def)
  with seen(1,3) assms(10) show ?thesis by (intro seen_since_online [where ?t0.0 = t0]) simp_all
qed



section \<open>A call from end to end\<close>

lemma guard_accepted:
  assumes "guard dp now handler r c = (c', rs)" and "rs_Status rs \<noteq> 401"
  shows "\<exists>raw cl. bearerToken (rq_Authorization r) = Some raw \<and>
     verifier_Verify (dp_lib dp) now raw (dp_verifier dp) = Inr cl \<and>
     handler (r\<lparr>rq_PeerID := cl_PeerID cl\<rparr>) c = (c', rs)"
  using assms
  by (auto simp: guard_def RequireToken_def writeTokenError_def writeError_def split: option.splits sum.splits)

lemma guard_caller:
  assumes "central_inv configs dp c" and "only_issued dp c r"
    and "bearerToken (rq_Authorization r) = Some raw" and "verifier_Verify (dp_lib dp) now raw (dp_verifier dp) = Inr cl"
  shows "configured configs (cl_PeerID cl)"
proof -
  have "raw \<in> set (ce_tokens c)" using assms(2-4) unfolding only_issued_def by blast
  with assms(1,4) show ?thesis unfolding central_inv_def names_configured_def by blast
qed

lemma live_view_later:
  assumes "live_view st now sid = Some h"
    and "sess_State h = Negotiating \<longrightarrow> time_Sub t (sess_OpenedAt h) \<le> st_timeout st"
  shows "live_view st t sid = Some h"
  using live_viewD [OF assms(1)] assms(2) by (auto simp: live_view_def settled_def)

lemma h_OpenSession_settings:
  assumes "store_wf st" and "open_inputs ord rand st" and "h_OpenSession ord rand now peers r st = (st', rs)"
  shows "st_settings st' = st_settings st"
proof -
  have "st' = st \<or> (\<exists>a b. st' = fst (store_Open ord rand now a b st))"
    using assms(3) by (auto simp: h_OpenSession_def PeerIDFrom_def Let_def split_beta split: option.splits sum.splits if_splits)
  moreover have "st_settings (fst (store_Open ord rand now a b st)) = st_settings st" for a b
    using store_Open_promise [OF assms(1,2) surjective_pairing] by (simp add: open_promise_def)
  ultimately show ?thesis by auto
qed

lemma h_OpenSession_body: "h_OpenSession ord rand now peers r st = (st', rs) \<Longrightarrow> rs_Status rs = 201 \<Longrightarrow> \<exists>b. rq_Body r = Some b"
  by (cases "rq_Body r") (auto simp: h_OpenSession_def PeerIDFrom_def writeError_def writeTokenError_def Let_def split: if_splits)

lemma OpenSession_created:
  assumes "central_inv configs dp c" and "deployed configs key iss ttl dp"
    and "open_inputs ord (Some buf) (ce_sessions c)" and "only_issued dp c r"
    and "serve_OpenSession dp verified ord (Some buf) looked now r c = (c', rs)" and "rs_Status rs = 201"
  obtains h where "rs = writeJSONStatus 201 (SessionBody (asResponse h))"
    "live_view (ce_sessions c') now (sess_ID h) = Some h" "ce_hub c' = ce_hub c" "ce_wrote c' = ce_wrote c"
    "st_timeout (ce_sessions c') = st_timeout (ce_sessions c)" "central_inv configs dp c'"
proof -
  have ne: "rs_Status rs \<noteq> 401" using assms(6) by simp
  obtain raw cl where ok: "bearerToken (rq_Authorization r) = Some raw"
      "verifier_Verify (dp_lib dp) verified raw (dp_verifier dp) = Inr cl"
      "(let (st, rs) = h_OpenSession ord (Some buf) now (Some (reachable_Lookup looked (ce_peers c)))
           (r\<lparr>rq_PeerID := cl_PeerID cl\<rparr>) (ce_sessions c) in (c\<lparr>ce_sessions := st\<rparr>, rs)) = (c', rs)"
    using guard_accepted [OF assms(5) [unfolded serve_OpenSession_def] ne] by blast
  let ?r = "r\<lparr>rq_PeerID := cl_PeerID cl\<rparr>"
  obtain st x where run: "h_OpenSession ord (Some buf) now (Some (reachable_Lookup looked (ce_peers c))) ?r (ce_sessions c) = (st, x)"
    by fastforce
  with ok(3) have st: "h_OpenSession ord (Some buf) now (Some (reachable_Lookup looked (ce_peers c))) ?r (ce_sessions c) = (st, rs)"
      "c' = c\<lparr>ce_sessions := st\<rparr>"
    by simp_all
  have valid: "validPeerID (rq_PeerID ?r)"
    using deployed_peer(1) [OF assms(2) guard_caller [OF assms(1,4) ok(1,2)]] by simp
  obtain b where b: "rq_Body ?r = Some b"
    using h_OpenSession_body [OF st(1) assms(6)] by blast
  note parts = OpenSession_parts [OF inv_parts(6) [OF assms(1)] assms(3) valid b st(1)]
  then obtain h where h: "rs = writeJSONStatus 201 (SessionBody (asResponse h))" "live_view st now (sess_ID h) = Some h"
    using assms(6) by blast
  have "st_settings st = st_settings (ce_sessions c)"
    using h_OpenSession_settings [OF inv_parts(6) [OF assms(1)] assms(3) st(1)] .
  then have "st_timeout st = st_timeout (ce_sessions c)" by (rule settings_fields(1))
  moreover have "central_inv configs dp c'" using OpenSession_inv [OF assms(1-4)] by (metis assms(5) fst_conv)
  ultimately show thesis using that [OF h(1)] h(2) by (simp add: st(2))
qed


text \<open>The state for the witness: \<open>alice\<close> holds a token, \<open>b\<close> is online with a channel, and there is no session.\<close>

definition sample_calm :: central where
  "sample_calm = sample_busy\<lparr>ce_sessions := sample_empty, ce_tokens := [''t'']\<rparr>"

lemma sample_calm_inv:
  "NewClientStore sample_clients = Inr s \<Longrightarrow> central_inv sample_clients (sample_deployment s) sample_calm"
proof -
  assume s: "NewClientStore sample_clients = Inr s"
  have "names_configured sample_clients (sample_deployment s) ''t''"
    using Issue_Verify_parts [OF one_jwt_documented one_New one_Issue]
    by (auto simp: names_configured_def sample_deployment_def sample_verifier_def sample_configured one_trim split: if_splits)
  moreover have "store_of (configured sample_clients) sample_empty"
    by (simp add: store_of_def sample_empty_wf) (simp add: sample_empty_def)
  ultimately show ?thesis
    using inv_parts [OF sample_busy_inv [of "sample_deployment s"]] by (simp add: central_inv_def sample_calm_def)
qed

definition sample_call :: "openRequest request" where
  "sample_call = (sample_request (Some \<lparr>or_PeerID = ''b''\<rparr>))\<lparr>rq_Protocols := []\<rparr>"

lemma sample_call_issued: "only_issued dp sample_calm sample_call"
proof -
  have "tokenFromSubprotocols sample_call = None" by code_simp
  moreover have "bearerToken (rq_Authorization sample_call) = Some ''t''"
    using sample_bearer [of "Some \<lparr>or_PeerID = ''b''\<rparr>"] by (simp add: sample_call_def)
  ultimately show ?thesis by (simp add: only_issued_def sample_calm_def)
qed

lemma sample_call_status:
  "rs_Status (snd (serve_OpenSession (sample_deployment s) 5 (\<lambda>_. rev) (Some [0]) 5 5 sample_call sample_calm)) = 201"
proof -
  have tok: "bearerToken (rq_Authorization sample_call) = Some ''t''"
    using sample_bearer [of "Some \<lparr>or_PeerID = ''b''\<rparr>"] by (simp add: sample_call_def)
  have enc: "RawURLEncoding_EncodeToString [0] = ''AA''" by code_simp
  have inputs: "open_inputs (\<lambda>_. rev) (Some [0]) sample_empty" by (simp add: open_inputs_def) (simp add: sample_empty_def)
  have view: "live_view sample_empty 5 = Map.empty" by (rule ext) (simp add: live_view_def sample_empty_def)
  have "open_refusal sample_empty 5 ''alice'' ''b'' = None"
    by (simp add: open_refusal_def pair_live_def pair_stale_def caps_ok_def now_live_ids_def view)
      (simp add: sample_empty_def AllowAll_Allows_def)
  moreover have "reachable_Lookup 5 (ce_peers sample_calm) ''b''"
    by (simp add: reachable_Lookup_def registry_Lookup_def stateOf_def sample_calm_def sample_busy_def sample_central_def
        sample_registry_def time_Sub_def second_def max_duration_def min_duration_def)
  moreover have "validPeerID ''alice''" by (simp add: validPeerID_def peerIDAllowed_def less_eq_char_def)
  ultimately have "rs_Status (snd (h_OpenSession (\<lambda>_. rev) (Some [0]) 5 (Some (reachable_Lookup 5 (ce_peers sample_calm)))
      (sample_call\<lparr>rq_PeerID := ''alice''\<rparr>) sample_empty)) = 201"
    using OpenSession_parts [OF sample_empty_wf inputs _ _ surjective_pairing, where r = "sample_call\<lparr>rq_PeerID := ''alice''\<rparr>"
        and b = "\<lparr>or_PeerID = ''b''\<rparr>" and now = 5 and peers = "Some (reachable_Lookup 5 (ce_peers sample_calm))"]
    by (simp add: sample_call_def sample_request_def open_status_def store_Reachable_def sample_trim)
  then show ?thesis
    by (simp add: serve_OpenSession_def guard_def RequireToken_def tok sample_deployment_def sample_verified split_beta Let_def)
      (simp add: sample_calm_def)
qed


text \<open>
  What the sweep does not see: a peer that leaves by DELETE /peers has no record left to
  expire, so no later sweep closes the sessions it was in.
\<close>

lemma deregistered_sessions_stay:
  assumes "central_inv configs dp c" and "range_ok ord" and "\<forall>p. range_ok (orders p)"
    and "st_sess (ce_sessions c) sid = Some h" and "session_Live h"
    and "\<not> overdue now (registry_Deregister p (ce_peers c)) (session_Other h p)" and "session_Has h p"
  shows "st_sess (ce_sessions (sweep_tick ord now orders clock writes
     (c\<lparr>ce_peers := registry_Deregister p (ce_peers c)\<rparr>))) sid = Some h"
proof -
  let ?c = "c\<lparr>ce_peers := registry_Deregister p (ce_peers c)\<rparr>"
  note parts = inv_parts [OF assms(1)]
  have reg: "registry_of (configured configs) (registry_Deregister p (ce_peers c))"
    by (rule registry_of_ops(3) [OF parts(2)])
  obtain peers removed st eff where t: "registry_Expire ord now (ce_peers ?c) = (peers, removed)"
      "close_expired orders clock writes (ce_hub ?c) removed (ce_sessions ?c, []) = (st, eff)"
      "sweep_tick ord now orders clock writes ?c = ?c\<lparr>ce_peers := peers, ce_sessions := st, ce_wrote := ce_wrote ?c @ eff\<rparr>"
    using sweep_tick_parts [OF refl, where ord = ord and now = now and orders = orders and clock = clock and writes = writes
        and c = ?c] by (elim exE conjE) (rule that)
  have "set removed = Collect (overdue now (registry_Deregister p (ce_peers c)))"
    using Expire_overdue(1) [OF registry_of_wf [OF reg] assms(2)] t(1) by simp
  moreover have "\<not> overdue now (registry_Deregister p (ce_peers c)) p" by (simp add: overdue_def registry_Deregister_def)
  ultimately have "\<forall>q \<in> set removed. \<not> session_Has h q"
    using assms(6,7) by (auto simp: session_Has_def session_Other_def split: if_splits)
  then have "closed_by_all (st_timeout (ce_sessions c)) clock removed h = h" by (rule closed_by_all_others)
  with close_expired_effect [OF _ assms(3) t(2)] parts(6) assms(4) show ?thesis unfolding t(3) by simp
qed

end
