(* ===== verification/Authclient.thy ===== *)
theory Authclient
  imports Handlers_Auth Go_Parse
begin

text \<open>
  internal/authclient/client.go, the peer side of authentication, and the key set of
  internal/transport/auth.go it reads. The URL parser is the argument \<open>url_Parse\<close>; what
  the server answers to a request is an argument too, with its body already decoded
  (None where it does not decode). What the client sends is returned, in order.
\<close>

section \<open>The published key set\<close>

record jwk =
  jwk_Kty :: string
  jwk_Crv :: string
  jwk_X :: string
  jwk_Use :: string
  jwk_Alg :: string
  jwk_Kid :: string

definition JWKS :: "byte list \<Rightarrow> jwk list" where
  "JWKS public =
     [\<lparr>jwk_Kty = ''OKP'', jwk_Crv = ''Ed25519'', jwk_X = RawURLEncoding_EncodeToString public,
       jwk_Use = ''sig'', jwk_Alg = SigningMethod_Alg, jwk_Kid = KeyID public\<rparr>]"

section \<open>The client\<close>

datatype client_error =
    NotAServerURL string
  | ExpectedKeySize nat
  | NotHTTPS string
  | RequestFailed
  | KeySetStatus int
  | KeySetUnreadable
  | ErrKeyMismatch
  | ErrRefused int
  | TokenUnreadable
  | AnswerWithoutToken

record auth_client =
  ac_baseURL :: string
  ac_expected :: "byte list"
  ac_allowInsecure :: bool
  ac_pinned :: "byte list option"

text \<open>The HTTP client an option replaces is the server's answers here.\<close>

datatype client_option = WithHTTPClient | WithInsecureTransport

fun apply_option :: "client_option \<Rightarrow> auth_client \<Rightarrow> auth_client" where
  "apply_option WithHTTPClient c = c"
| "apply_option WithInsecureTransport c = c\<lparr>ac_allowInsecure := True\<rparr>"

definition TrimRight :: "string \<Rightarrow> char \<Rightarrow> string" where
  "TrimRight s x = rev (dropWhile (\<lambda>c. c = x) (rev s))"

definition client_New ::
  "(string \<Rightarrow> parsed_url option) \<Rightarrow> string \<Rightarrow> byte list \<Rightarrow> client_option list \<Rightarrow> client_error + auth_client" where
  "client_New url_Parse baseURL expected opts =
     (let trimmed = TrimRight (TrimSpace baseURL) (CHR ''/'')
      in case url_Parse trimmed of
           None \<Rightarrow> Inl (NotAServerURL baseURL)
         | Some parsed \<Rightarrow>
             if url_Scheme parsed = [] \<or> url_Host parsed = [] then Inl (NotAServerURL baseURL)
             else if length expected \<noteq> PublicKeySize then Inl (ExpectedKeySize (length expected))
             else
               let client = fold apply_option opts
                     \<lparr>ac_baseURL = trimmed, ac_expected = expected, ac_allowInsecure = False, ac_pinned = None\<rparr>
               in if url_Scheme parsed \<noteq> ''https'' \<and> \<not> ac_allowInsecure client then Inl (NotHTTPS trimmed)
                  else Inr client)"

text \<open>An exchange: it fails to be built or to reach the server, or a status and a body come back.\<close>

datatype 'b exchange = Failed_exchange | Replied int "'b option"

text \<open>What the client decodes of a key: the three fields it reads.\<close>

record key_entry =
  ke_Kty :: string
  ke_Crv :: string
  ke_X :: string

fun find_key :: "byte list \<Rightarrow> key_entry list \<Rightarrow> client_error + byte list" where
  "find_key expected [] = Inl ErrKeyMismatch"
| "find_key expected (key # keys) =
     (if ke_Kty key \<noteq> ''OKP'' \<or> ke_Crv key \<noteq> ''Ed25519'' then find_key expected keys
      else case RawURLEncoding_DecodeString (ke_X key) of
        None \<Rightarrow> find_key expected keys
      | Some decoded \<Rightarrow>
          if length decoded \<noteq> PublicKeySize then find_key expected keys
          else if ConstantTimeCompare decoded expected = 1 then Inr decoded
          else find_key expected keys)"

datatype sent = FetchKeys string | SendCredential string string string

definition fetchKey :: "key_entry list exchange \<Rightarrow> auth_client \<Rightarrow> sent list \<times> (client_error + byte list)" where
  "fetchKey reply c =
     ([FetchKeys (ac_baseURL c @ ''/.well-known/jwks.json'')],
      (case reply of
         Failed_exchange \<Rightarrow> Inl RequestFailed
       | Replied status body \<Rightarrow>
           if status \<noteq> 200 then Inl (KeySetStatus status)
           else case body of None \<Rightarrow> Inl KeySetUnreadable | Some keys \<Rightarrow> find_key (ac_expected c) keys))"

definition VerifyServerKey ::
  "key_entry list exchange \<Rightarrow> auth_client \<Rightarrow> auth_client \<times> sent list \<times> (client_error + unit)" where
  "VerifyServerKey reply c =
     (case ac_pinned c of
        Some _ \<Rightarrow> (c, [], Inr ())
      | None \<Rightarrow>
          (case fetchKey reply c of
             (out, Inl e) \<Rightarrow> (c, out, Inl e)
           | (out, Inr published) \<Rightarrow> (c\<lparr>ac_pinned := Some published\<rparr>, out, Inr ())))"

record client_token =
  ct_Value :: string
  ct_PeerID :: string
  ct_ExpiresAt :: time

definition client_Authenticate ::
  "key_entry list exchange \<Rightarrow> client_token exchange \<Rightarrow> string \<Rightarrow> string \<Rightarrow> auth_client \<Rightarrow>
   auth_client \<times> sent list \<times> (client_error + client_token)" where
  "client_Authenticate keys answer clientID clientSecret c =
     (case VerifyServerKey keys c of
        (c', out, Inl e) \<Rightarrow> (c', out, Inl e)
      | (c', out, Inr _) \<Rightarrow>
          let out' = out @ [SendCredential (ac_baseURL c' @ ''/auth'') clientID clientSecret]
          in (c', out',
              (case answer of
                 Failed_exchange \<Rightarrow> Inl RequestFailed
               | Replied status body \<Rightarrow>
                   if status \<noteq> 200 then Inl (ErrRefused status)
                   else case body of
                     None \<Rightarrow> Inl TokenUnreadable
                   | Some token \<Rightarrow>
                       if ct_Value token = [] \<or> ct_PeerID token = [] then Inl AnswerWithoutToken else Inr token)))"

section \<open>The key is checked before the credential is sent\<close>

text \<open>A key set that publishes a key.\<close>

definition publishes :: "key_entry list exchange \<Rightarrow> byte list \<Rightarrow> bool" where
  "publishes reply public \<longleftrightarrow> (\<exists>keys. reply = Replied 200 (Some keys) \<and>
     (\<exists>k \<in> set keys. ke_Kty k = ''OKP'' \<and> ke_Crv k = ''Ed25519'' \<and> RawURLEncoding_DecodeString (ke_X k) = Some public))"

lemma find_key_result:
  assumes "length expected = 32"
  shows "find_key expected keys =
     (if \<exists>k \<in> set keys. ke_Kty k = ''OKP'' \<and> ke_Crv k = ''Ed25519'' \<and> RawURLEncoding_DecodeString (ke_X k) = Some expected
      then Inr expected else Inl ErrKeyMismatch)"
  using assms
  by (induction keys) (auto simp: PublicKeySize_def ConstantTimeCompare_def split: option.split)

lemma fetchKey_result:
  assumes "length (ac_expected c) = 32"
  shows "snd (fetchKey reply c) = Inr p \<longleftrightarrow> publishes reply (ac_expected c) \<and> p = ac_expected c"
    and "fst (fetchKey reply c) = [FetchKeys (ac_baseURL c @ ''/.well-known/jwks.json'')]"
  by (auto simp: fetchKey_def publishes_def find_key_result [OF assms] split: exchange.split option.split)

text \<open>A run of one client: the answers to each of its calls, and the credential of each.\<close>

record login =
  lg_keys :: "key_entry list exchange"
  lg_answer :: "client_token exchange"
  lg_id :: string
  lg_secret :: string

fun client_run :: "login list \<Rightarrow> auth_client \<Rightarrow> auth_client \<times> (sent list \<times> (client_error + client_token)) list" where
  "client_run [] c = (c, [])"
| "client_run (l # ls) c =
     (let (c1, out, res) = client_Authenticate (lg_keys l) (lg_answer l) (lg_id l) (lg_secret l) c;
          (c2, rest) = client_run ls c1
      in (c2, (out, res) # rest))"

text \<open>A client as New leaves it, or later.\<close>

definition client_ok :: "string \<Rightarrow> byte list \<Rightarrow> auth_client \<Rightarrow> bool" where
  "client_ok base expected c \<longleftrightarrow>
     length expected = 32 \<and> ac_baseURL c = base \<and> ac_expected c = expected \<and> ac_pinned c \<in> {None, Some expected}"

lemma apply_options:
  "ac_baseURL (fold apply_option opts c) = ac_baseURL c" "ac_expected (fold apply_option opts c) = ac_expected c"
  "ac_pinned (fold apply_option opts c) = ac_pinned c"
  "ac_allowInsecure (fold apply_option opts c) = (ac_allowInsecure c \<or> WithInsecureTransport \<in> set opts)"
proof (induction opts arbitrary: c)
  case (Cons x xs)
  {
    case 1
    show ?case using Cons(1) by (cases x) simp_all
  next
    case 2
    show ?case using Cons(2) by (cases x) simp_all
  next
    case 3
    show ?case using Cons(3) by (cases x) simp_all
  next
    case 4
    show ?case using Cons(4) by (cases x) simp_all
  }
qed simp_all

lemma client_New_ok:
  assumes "client_New url_Parse baseURL expected opts = Inr c"
  shows "client_ok (TrimRight (TrimSpace baseURL) (CHR ''/'')) expected c \<and> ac_pinned c = None \<and>
     (\<exists>u. url_Parse (TrimRight (TrimSpace baseURL) (CHR ''/'')) = Some u \<and> url_Host u \<noteq> [] \<and>
        (url_Scheme u = ''https'' \<or> WithInsecureTransport \<in> set opts))"
  using assms
  by (auto simp: client_New_def client_ok_def PublicKeySize_def Let_def apply_options split: option.splits if_splits)

lemma client_Authenticate_step:
  assumes "client_ok base expected c" and "client_Authenticate keys answer cid secret c = (c', out, res)"
  shows "client_ok base expected c' \<and> (ac_pinned c' = Some expected \<longleftrightarrow> ac_pinned c = Some expected \<or> publishes keys expected) \<and>
     (SendCredential u i s \<in> set out \<longleftrightarrow> u = base @ ''/auth'' \<and> i = cid \<and> s = secret \<and> ac_pinned c' = Some expected) \<and>
     (ac_pinned c' = None \<longrightarrow> (\<exists>e. res = Inl e))"
proof (cases "ac_pinned c")
  case (Some p)
  with assms show ?thesis by (auto simp: client_Authenticate_def VerifyServerKey_def client_ok_def Let_def)
next
  case None
  have len: "length (ac_expected c) = 32" and same: "ac_expected c = expected" "ac_baseURL c = base"
    using assms(1) by (auto simp: client_ok_def)
  obtain out0 x where f: "fetchKey keys c = (out0, x)" by fastforce
  have out0: "out0 = [FetchKeys (base @ ''/.well-known/jwks.json'')]"
    using fetchKey_result(2) [OF len, of keys] by (simp add: f same)
  show ?thesis
  proof (cases x)
    case (Inl e)
    then have "\<not> publishes keys expected"
      using fetchKey_result(1) [OF len, of keys expected] by (simp add: f same)
    with None Inl assms out0 show ?thesis
      by (auto simp: client_Authenticate_def VerifyServerKey_def f client_ok_def)
  next
    case (Inr p)
    then have p: "publishes keys expected \<and> p = expected"
      using fetchKey_result(1) [OF len, of keys p] by (simp add: f same)
    with None Inr assms out0 show ?thesis
      by (auto simp: client_Authenticate_def VerifyServerKey_def f client_ok_def Let_def)
  qed
qed

lemma ex_le_Suc: "(\<exists>j \<le> Suc k. P j) \<longleftrightarrow> P 0 \<or> (\<exists>j \<le> k. P (Suc j))"
  by (metis Suc_le_mono le0 not0_implies_Suc)

lemma client_run_credentials:
  assumes "client_ok base expected c" and "client_run ls c = (c', log)" and "i < length ls"
  shows "length log = length ls \<and>
     (SendCredential u cid s \<in> set (fst (log ! i)) \<longleftrightarrow>
        u = base @ ''/auth'' \<and> cid = lg_id (ls ! i) \<and> s = lg_secret (ls ! i) \<and>
        (ac_pinned c = Some expected \<or> (\<exists>j \<le> i. publishes (lg_keys (ls ! j)) expected)))"
  using assms
proof (induction ls arbitrary: c i log)
  case (Cons l ls)
  obtain c1 out res where a: "client_Authenticate (lg_keys l) (lg_answer l) (lg_id l) (lg_secret l) c = (c1, out, res)"
    by (metis prod_cases3)
  obtain log1 where r: "client_run ls c1 = (c', log1)" and log: "log = (out, res) # log1"
    using Cons.prems(2) by (auto simp: a split: prod.splits)
  note step = client_Authenticate_step [OF Cons.prems(1) a]
  have ok1: "client_ok base expected c1" using step by blast
  have len: "length log1 = length ls"
  proof (cases ls)
    case Nil
    then show ?thesis using r by simp
  next
    case (Cons x xs)
    then show ?thesis using Cons.IH [OF ok1 r, of 0] by simp
  qed
  show ?case
  proof (cases i)
    case 0
    then show ?thesis using step [of u cid s] len by (auto simp: log)
  next
    case (Suc k)
    then have "k < length ls" using Cons.prems(3) by simp
    note IH = Cons.IH [OF ok1 r this]
    have "(\<exists>j \<le> Suc k. publishes (lg_keys ((l # ls) ! j)) expected) \<longleftrightarrow>
        publishes (lg_keys l) expected \<or> (\<exists>j \<le> k. publishes (lg_keys (ls ! j)) expected)"
      by (simp add: ex_le_Suc)
    with IH step [of u cid s] len show ?thesis by (auto simp: log Suc)
  qed
qed simp


definition sample_url :: parsed_url where
  "sample_url = \<lparr>url_Scheme = ''https'', url_Host = ''h'', url_Opaque = [], url_Hostname = ''h''\<rparr>"

definition sample_key_set :: "byte list \<Rightarrow> key_entry list exchange" where
  "sample_key_set public =
     Replied 200 (Some [\<lparr>ke_Kty = ''OKP'', ke_Crv = ''Ed25519'', ke_X = RawURLEncoding_EncodeToString public\<rparr>])"

lemma sample_key_set_publishes: "publishes (sample_key_set public) p \<longleftrightarrow> p = public"
  by (auto simp: publishes_def sample_key_set_def RawURLEncoding_decode_encode)


section \<open>The client and this server\<close>

text \<open>How the client reads what this server sends: the fields by name, the token of a 200.\<close>

definition read_key :: "jwk \<Rightarrow> key_entry" where
  "read_key k = \<lparr>ke_Kty = jwk_Kty k, ke_Crv = jwk_Crv k, ke_X = jwk_X k\<rparr>"

definition read_answer :: "response \<Rightarrow> client_token exchange" where
  "read_answer rs = Replied (rs_Status rs)
     (case rs_Body rs of
        TokenBody t \<Rightarrow> Some \<lparr>ct_Value = tr_Token t, ct_PeerID = tr_PeerID t, ct_ExpiresAt = tr_ExpiresAt t\<rparr>
      | _ \<Rightarrow> None)"

lemma JWKS_publishes: "publishes (Replied 200 (Some (map read_key (JWKS public)))) p \<longleftrightarrow> p = public"
  by (auto simp: publishes_def JWKS_def read_key_def RawURLEncoding_decode_encode)

text \<open>Against this server the client goes on exactly when the key is the one it expects.\<close>

lemma Authenticate_this_server:
  assumes "client_New url_Parse baseURL expected opts = Inr cl"
    and "client_Authenticate (Replied 200 (Some (map read_key (JWKS public)))) answer cid secret cl = (cl', out, res)"
  shows "if expected = public
     then res = (case answer of
         Failed_exchange \<Rightarrow> Inl RequestFailed
       | Replied status body \<Rightarrow>
           if status \<noteq> 200 then Inl (ErrRefused status)
           else case body of
             None \<Rightarrow> Inl TokenUnreadable
           | Some token \<Rightarrow> if ct_Value token = [] \<or> ct_PeerID token = [] then Inl AnswerWithoutToken else Inr token)
     else res = Inl ErrKeyMismatch \<and> out = [FetchKeys (ac_baseURL cl @ ''/.well-known/jwks.json'')]"
proof -
  note new = client_New_ok [OF assms(1)]
  have exp: "ac_expected cl = expected" "length (ac_expected cl) = 32" and unpinned: "ac_pinned cl = None"
    using new by (auto simp: client_ok_def)
  obtain out0 x where f: "fetchKey (Replied 200 (Some (map read_key (JWKS public)))) cl = (out0, x)" by fastforce
  have "x = (if expected = public then Inr expected else Inl ErrKeyMismatch)"
    using find_key_result [OF exp(2), of "map read_key (JWKS public)"] JWKS_publishes [of public expected] f
    by (auto simp: fetchKey_def publishes_def exp(1))
  moreover have "out0 = [FetchKeys (ac_baseURL cl @ ''/.well-known/jwks.json'')]"
    using fetchKey_result(2) [OF exp(2)] f by (metis fst_conv)
  ultimately show ?thesis
    using assms(2) by (auto simp: client_Authenticate_def VerifyServerKey_def unpinned f Let_def)
qed

text \<open>What this server answers to the credential of a configured client with allowance left.\<close>

lemma Auth_answers_client:
  assumes "NewClientStore configs = Inr clients" and "cfg \<in> set configs"
    and "credential_of r = Some (TrimSpace (cc_ID cfg), cc_Secret cfg)" and "limiter_Allowed now (TrimSpace (cc_ID cfg)) l"
    and "h_Auth lib ord rand now issued clients issuer r l = Some (l', rs)"
  shows "rs = writeError 500 codeInvalidRequest \<or>
     (\<exists>t k c. issuer_Issue lib rand issued (TrimSpace (cc_PeerID cfg)) issuer = Inr t \<and>
        SignedString lib k c = Some (tok_Value t) \<and> TrimSpace (cc_PeerID cfg) \<noteq> [] \<and>
        rs = writeJSONStatus 200 (TokenBody
          \<lparr>tr_Token = tok_Value t, tr_PeerID = tok_PeerID t, tr_ExpiresAt = tok_ExpiresAt t\<rparr>))"
proof -
  have auth: "Authenticate (TrimSpace (cc_ID cfg)) (cc_Secret cfg) clients = Inr (TrimSpace (cc_PeerID cfg))"
    using Authenticate_parts [OF assms(1)] assms(2) by blast
  show ?thesis
  proof (cases "issuer_Issue lib rand issued (TrimSpace (cc_PeerID cfg)) issuer")
    case (Inl e)
    then show ?thesis using assms(5) by (simp add: h_Auth_steps assms(3,4) auth)
  next
    case (Inr t)
    then have "\<exists>k c. SignedString lib k c = Some (tok_Value t)" "TrimSpace (cc_PeerID cfg) \<noteq> []"
      by (auto simp: issuer_Issue_def Let_def split: if_splits sum.splits option.splits) blast+
    then show ?thesis using Inr assms(5) by (auto simp: h_Auth_steps assms(3,4) auth)
  qed
qed

text \<open>
  Logging in, both sides. A client configured with this server's public key, asking
  with a configured client's credential that has allowance left, either gets a token
  the server's verifier accepts as that client's peer until the second its lifetime
  ends in begins, or, where the server had no randomness or could not sign, is refused
  with a 500; a client configured with any other key sends nothing but the request for
  the key set.
\<close>

theorem login_end_to_end:
  assumes "NewClientStore configs = Inr clients" and "NewTokenIssuer key iss ttl = Inr issuer"
    and "jwt_documented lib" and "\<forall>k c. SignedString lib k c \<noteq> Some []" and "cfg \<in> set configs"
    and "credential_of r = Some (TrimSpace (cc_ID cfg), cc_Secret cfg)" and "limiter_Allowed now (TrimSpace (cc_ID cfg)) l"
    and "h_Auth lib ord rand now issued clients issuer r l = Some (l', rs)"
    and "client_New url_Parse baseURL expected opts = Inr cl"
    and "client_Authenticate (Replied 200 (Some (map read_key (JWKS (issuer_PublicKey issuer))))) (read_answer rs)
           (TrimSpace (cc_ID cfg)) (cc_Secret cfg) cl = (cl', out, res)"
  shows "if expected = issuer_PublicKey issuer
     then (case res of
        Inr t \<Rightarrow> ct_PeerID t = TrimSpace (cc_PeerID cfg) \<and>
          (\<forall>later < ct_ExpiresAt t - ct_ExpiresAt t mod second. \<exists>c.
             verifier_Verify lib later (ct_Value t) (NewTokenVerifier (issuer_PublicKey issuer) iss) = Inr c \<and>
             cl_PeerID c = ct_PeerID t)
      | Inl e \<Rightarrow> e = ErrRefused 500)
     else res = Inl ErrKeyMismatch \<and> (\<forall>u i s. SendCredential u i s \<notin> set out)"
proof (cases "expected = issuer_PublicKey issuer")
  case False
  with Authenticate_this_server [OF assms(9,10)] show ?thesis by simp
next
  case True
  note seen = Authenticate_this_server [OF assms(9,10), unfolded if_P [OF True]]
  from Auth_answers_client [OF assms(1,5-8)] show ?thesis
  proof
    assume "rs = writeError 500 codeInvalidRequest"
    with True seen show ?thesis by (simp add: read_answer_def writeError_def)
  next
    assume "\<exists>t k c. issuer_Issue lib rand issued (TrimSpace (cc_PeerID cfg)) issuer = Inr t \<and>
        SignedString lib k c = Some (tok_Value t) \<and> TrimSpace (cc_PeerID cfg) \<noteq> [] \<and>
        rs = writeJSONStatus 200 (TokenBody
          \<lparr>tr_Token = tok_Value t, tr_PeerID = tok_PeerID t, tr_ExpiresAt = tok_ExpiresAt t\<rparr>)"
    then obtain t where t: "issuer_Issue lib rand issued (TrimSpace (cc_PeerID cfg)) issuer = Inr t"
        "tok_Value t \<noteq> []" "TrimSpace (cc_PeerID cfg) \<noteq> []"
        "rs = writeJSONStatus 200 (TokenBody
          \<lparr>tr_Token = tok_Value t, tr_PeerID = tok_PeerID t, tr_ExpiresAt = tok_ExpiresAt t\<rparr>)"
      using assms(4) by metis
    note ver = Issue_Verify_parts [OF assms(3,2) t(1)]
    then have "res = Inr \<lparr>ct_Value = tok_Value t, ct_PeerID = tok_PeerID t, ct_ExpiresAt = tok_ExpiresAt t\<rparr>"
      using seen t(2,3) by (simp add: read_answer_def writeJSONStatus_def t(4))
    with True ver show ?thesis by simp
  qed
qed

lemma find_key_error: "find_key expected keys = Inl e \<Longrightarrow> e = ErrKeyMismatch"
  by (induction keys) (auto split: if_splits option.splits)

lemma VerifyServerKey_error: "VerifyServerKey keys c = (c', out, Inl (ErrRefused s)) \<Longrightarrow> False"
  by (auto simp: VerifyServerKey_def fetchKey_def split: option.splits exchange.splits if_splits sum.splits dest: find_key_error)

lemma one_jwt_nonempty: "\<forall>k c. SignedString one_jwt k c \<noteq> Some []"
  by (simp add: one_jwt_def)

theorem login_end_to_end_witness:
  "\<exists>s c t. NewClientStore [sample_config] = Inr s \<and>
     client_New (\<lambda>_. Some sample_url) ''https://h'' (replicate 32 1) [] = Inr c \<and>
     snd (snd (client_Authenticate (Replied 200 (Some (map read_key (JWKS (issuer_PublicKey one_issuer)))))
       (read_answer (snd (the (h_Auth one_jwt rev (Some [0]) 0 0 s one_issuer
          (sample_credential ''c'' (replicate 32 (CHR ''k''))) sample_limiter))))
       ''c'' (replicate 32 (CHR ''k'')) c)) = Inr t \<and> ct_PeerID t = ''alice''"
proof -
  obtain s where s: "NewClientStore [sample_config] = Inr s" using sample_configs_accepted by blast
  obtain c where c: "client_New (\<lambda>_. Some sample_url) ''https://h'' (replicate 32 1) [] = Inr c"
    by (simp add: client_New_def sample_url_def PublicKeySize_def Let_def)
  have cred: "credential_of (sample_credential ''c'' (replicate 32 (CHR ''k''))) =
      Some (TrimSpace (cc_ID sample_config), cc_Secret sample_config)"
    by (simp add: credential_of_def sample_credential_def sample_config_trim sample_config_def)
  have allowed: "limiter_Allowed 0 (TrimSpace (cc_ID sample_config)) sample_limiter"
    by (simp add: limiter_Allowed_def sample_limiter_def)
  have "Authenticate (TrimSpace (cc_ID sample_config)) (cc_Secret sample_config) s = Inr (TrimSpace (cc_PeerID sample_config))"
    using Authenticate_parts [OF s] by simp
  then have auth: "h_Auth one_jwt rev (Some [0]) 0 0 s one_issuer (sample_credential ''c'' (replicate 32 (CHR ''k''))) sample_limiter =
      Some (limiter_Succeeded ''c'' sample_limiter, writeJSONStatus 200 (TokenBody
        \<lparr>tr_Token = ''t'', tr_PeerID = ''alice'', tr_ExpiresAt = 60 * second\<rparr>))"
    using allowed one_Issue by (simp add: h_Auth_steps cred) (simp add: sample_config_def sample_config_trim)
  have key: "issuer_PublicKey one_issuer = replicate 32 1" by (simp add: issuer_PublicKey_def key_Public_def one_issuer_def one_key_def)
  obtain c' out res where run: "client_Authenticate (Replied 200 (Some (map read_key (JWKS (issuer_PublicKey one_issuer)))))
      (read_answer (writeJSONStatus 200 (TokenBody \<lparr>tr_Token = ''t'', tr_PeerID = ''alice'', tr_ExpiresAt = 60 * second\<rparr>)))
      (TrimSpace (cc_ID sample_config)) (cc_Secret sample_config) c = (c', out, res)"
    by (metis prod_cases3)
  have "sample_config \<in> set [sample_config]" by simp
  note spec = login_end_to_end [OF s one_New one_jwt_documented one_jwt_nonempty this cred allowed auth c run]
  have "res \<noteq> Inl (ErrRefused 500)"
    using run
    by (auto simp: client_Authenticate_def read_answer_def writeJSONStatus_def Let_def dest: VerifyServerKey_error
        split: sum.splits prod.splits)
  then obtain t where "res = Inr t" "ct_PeerID t = TrimSpace (cc_PeerID sample_config)"
    using spec key by (cases res) auto
  with s c run auth show ?thesis by (auto simp: sample_config_def sample_config_trim)
qed

end
