(* ===== verification/Config.thy ===== *)
theory Config
  imports Clients Go_Base64 Go_Parse Ice
begin

text \<open>
  internal/config/config.go: the settings of one process, read from the environment. The
  environment is the argument \<open>getenv\<close>; what the code reads through the rest of the
  standard library (the file system, the JSON decoder, the URL and duration parsers,
  the rendering of a duration, the derivation of a key from its seed) is the record
  \<open>config_lib\<close>.
\<close>

record config_lib =
  lb_ParseDuration :: "string \<Rightarrow> duration option"
  lb_Duration_String :: "duration \<Rightarrow> string"
  lb_url_Parse :: "string \<Rightarrow> parsed_url option"
  lb_ReadFile :: "string \<Rightarrow> string option"
  lb_UnmarshalClients :: "string \<Rightarrow> client_config list option"
  lb_NewKeyFromSeed :: "byte list \<Rightarrow> byte list"

section \<open>Data\<close>

record config =
  cf_ListenAddr :: string
  cf_ShutdownTimeout :: duration
  cf_AllowedOrigins :: "string list"
  cf_TokenSigningKey :: "byte list"
  cf_TokenTTL :: duration
  cf_Issuer :: string
  cf_Clients :: "client_config list"
  cf_AuthMaxFailures :: int
  cf_AuthFailureWindow :: duration
  cf_HeartbeatInterval :: duration
  cf_SuspectAfter :: duration
  cf_OfflineAfter :: duration
  cf_NegotiationTimeout :: duration
  cf_MaxPeers :: int
  cf_MaxSessions :: int
  cf_MaxSessionsPerPeer :: int
  cf_SessionRetention :: duration
  cf_ExpiryInterval :: duration
  cf_ServeDemo :: bool
  cf_MaxSignalMessageBytes :: int
  cf_SignalMessagesPerWindow :: int
  cf_SignalWindow :: duration
  cf_STUNURLs :: "string list"
  cf_TURNURLs :: "string list"
  cf_TURNSecret :: string
  cf_TURNCredentialTTL :: duration

datatype config_problem =
    NoEnvironment
  | NotADuration string string
  | NotAPositiveDuration string duration
  | NotAWholeNumber string string
  | ClientsFileUnreadable
  | NoClientsConfigured
  | ClientsNotJSON
  | ClientsRefused "client_problem list"
  | KeyFileUnreadable
  | NoSigningKey
  | KeyNotBase64
  | KeyDecodesTo nat
  | NotHostPort string
  | NoUsableKey
  | NoOrigins
  | NoIssuerConfigured
  | SuspectTooShort duration duration
  | OfflineTooShort duration duration
  | ICENotAURL string string
  | ICEScheme string string string
  | ICENoHost string string
  | SecretRequired
  | SecretUnused

definition AnyOrigin :: string where
  "AnyOrigin = ''*''"

definition SigningKeySeedLen :: nat where
  "SigningKeySeedLen = 32"

section \<open>Helpers\<close>

definition splitList :: "string \<Rightarrow> string list" where
  "splitList raw =
     (if TrimSpace raw = [] then []
      else
        let fields = Split (CHR '','') raw;
            out = filter (\<lambda>v. v \<noteq> []) (map TrimSpace fields)
        in if length out = 0 then [] else out)"

definition containsFold :: "string list \<Rightarrow> string \<Rightarrow> bool" where
  "containsFold values want \<longleftrightarrow> (\<exists>v \<in> set values. EqualFold v want)"

definition hostOf :: "parsed_url \<Rightarrow> string" where
  "hostOf u =
     (if url_Opaque u \<noteq> [] then
        (case SplitHostPort (url_Opaque u) of
           None \<Rightarrow> TrimSpace (url_Opaque u)
         | Some (host, _) \<Rightarrow> TrimSpace host)
      else TrimSpace (url_Hostname u))"

fun validateICEURLs :: "config_lib \<Rightarrow> string \<Rightarrow> string list \<Rightarrow> string list \<Rightarrow> config_problem list" where
  "validateICEURLs lib key [] schemes = []"
| "validateICEURLs lib key (raw # urls) schemes =
     (case lb_url_Parse lib raw of
        None \<Rightarrow> [ICENotAURL key raw]
      | Some u \<Rightarrow>
          if \<not> containsFold schemes (url_Scheme u) then [ICEScheme key raw (url_Scheme u)]
          else if hostOf u = [] then [ICENoHost key raw] else []) @ validateICEURLs lib key urls schemes"

definition AnyOriginAllowed :: "config \<Rightarrow> bool" where
  "AnyOriginAllowed c \<longleftrightarrow> length (cf_AllowedOrigins c) = 1 \<and> cf_AllowedOrigins c ! 0 = AnyOrigin"

definition RelayConfigured :: "config \<Rightarrow> bool" where
  "RelayConfigured c \<longleftrightarrow> length (cf_TURNURLs c) > 0 \<and> cf_TURNSecret c \<noteq> []"

definition validate :: "config_lib \<Rightarrow> config \<Rightarrow> config_problem list" where
  "validate lib c =
     (if SplitHostPort (cf_ListenAddr c) = None then [NotHostPort (cf_ListenAddr c)] else []) @
     (if length (cf_TokenSigningKey c) \<noteq> 64 then [NoUsableKey] else []) @
     (if length (cf_AllowedOrigins c) = 0 then [NoOrigins] else []) @
     (if TrimSpace (cf_Issuer c) = [] then [NoIssuerConfigured] else []) @
     (if cf_SuspectAfter c > 0 \<and> cf_HeartbeatInterval c > 0 \<and> cf_SuspectAfter c \<le> cf_HeartbeatInterval c
      then [SuspectTooShort (cf_SuspectAfter c) (cf_HeartbeatInterval c)] else []) @
     (if cf_OfflineAfter c > 0 \<and> cf_SuspectAfter c > 0 \<and> cf_OfflineAfter c \<le> cf_SuspectAfter c
      then [OfflineTooShort (cf_OfflineAfter c) (cf_SuspectAfter c)] else []) @
     validateICEURLs lib ''STUN_URLS'' (cf_STUNURLs c) [''stun'', ''stuns''] @
     validateICEURLs lib ''TURN_URLS'' (cf_TURNURLs c) [''turn'', ''turns''] @
     (if length (cf_TURNURLs c) > 0 \<and> cf_TURNSecret c = [] then [SecretRequired] else []) @
     (if length (cf_TURNURLs c) = 0 \<and> cf_TURNSecret c \<noteq> [] then [SecretUnused] else [])"

section \<open>Loading\<close>

text \<open>The key, or the problem; a missing key is the empty one.\<close>

definition loadSigningKey :: "config_lib \<Rightarrow> string \<Rightarrow> string \<Rightarrow> config_problem + byte list" where
  "loadSigningKey lib inline path =
     (case (if path \<noteq> [] then map_option TrimSpace (lb_ReadFile lib path) else Some inline) of
        None \<Rightarrow> Inl KeyFileUnreadable
      | Some raw \<Rightarrow>
          if raw = [] then Inl NoSigningKey
          else case StdEncoding_DecodeString raw of
            None \<Rightarrow> Inl KeyNotBase64
          | Some seed \<Rightarrow>
              if length seed \<noteq> SigningKeySeedLen then Inl (KeyDecodesTo (length seed))
              else Inr (lb_NewKeyFromSeed lib seed))"

definition loadClients :: "config_lib \<Rightarrow> string \<Rightarrow> string \<Rightarrow> config_problem list + client_config list" where
  "loadClients lib inline path =
     (case (if path \<noteq> [] then lb_ReadFile lib path else Some inline) of
        None \<Rightarrow> Inl [ClientsFileUnreadable]
      | Some raw \<Rightarrow>
          if TrimSpace raw = [] then Inl [NoClientsConfigured]
          else case lb_UnmarshalClients lib raw of
            None \<Rightarrow> Inl [ClientsNotJSON]
          | Some clients \<Rightarrow>
              (case NewClientStore clients of Inl ps \<Rightarrow> Inl [ClientsRefused ps] | Inr _ \<Rightarrow> Inr clients))"

definition cfg_get :: "(string \<Rightarrow> string) \<Rightarrow> string \<Rightarrow> string \<Rightarrow> string" where
  "cfg_get getenv key fallback =
     (let v = TrimSpace (getenv (''CENTRAL_'' @ key)) in if v \<noteq> [] then v else fallback)"

text \<open>A setting's value with the problem it is, if any.\<close>

definition cfg_duration ::
  "config_lib \<Rightarrow> (string \<Rightarrow> string) \<Rightarrow> string \<Rightarrow> string \<Rightarrow> duration \<times> config_problem list" where
  "cfg_duration lib getenv key fallback =
     (let raw = cfg_get getenv key fallback
      in case lb_ParseDuration lib raw of
           None \<Rightarrow> (0, [NotADuration key raw])
         | Some d \<Rightarrow> if d \<le> 0 then (0, [NotAPositiveDuration key d]) else (d, []))"

definition cfg_whole :: "(string \<Rightarrow> string) \<Rightarrow> string \<Rightarrow> string \<Rightarrow> int \<times> config_problem list" where
  "cfg_whole getenv key fallback =
     (let raw = cfg_get getenv key fallback
      in case Atoi raw of
           None \<Rightarrow> (0, [NotAWholeNumber key raw])
         | Some n \<Rightarrow> if n \<le> 0 then (0, [NotAWholeNumber key raw]) else (n, []))"

definition read_clients_setting :: "config_lib \<Rightarrow> (string \<Rightarrow> string) \<Rightarrow> config_problem list + client_config list" where
  "read_clients_setting lib getenv = loadClients lib (cfg_get getenv ''CLIENTS'' []) (cfg_get getenv ''CLIENTS_FILE'' [])"

definition read_key_setting :: "config_lib \<Rightarrow> (string \<Rightarrow> string) \<Rightarrow> config_problem + byte list" where
  "read_key_setting lib getenv =
     loadSigningKey lib (cfg_get getenv ''TOKEN_SIGNING_KEY'' []) (cfg_get getenv ''TOKEN_SIGNING_KEY_FILE'' [])"

text \<open>The struct literal: every setting's value, zero where it is a problem.\<close>

definition read_config :: "config_lib \<Rightarrow> (string \<Rightarrow> string) \<Rightarrow> config" where
  "read_config lib getenv =
     (let get = cfg_get getenv; dur = cfg_duration lib getenv; whole = cfg_whole getenv in
       \<lparr>cf_ListenAddr = get ''LISTEN_ADDR'' '':8080'',
        cf_ShutdownTimeout = fst (dur ''SHUTDOWN_TIMEOUT'' ''15s''),
        cf_AllowedOrigins = splitList (get ''ALLOWED_ORIGINS'' []),
        cf_TokenSigningKey = (case read_key_setting lib getenv of Inl _ \<Rightarrow> [] | Inr k \<Rightarrow> k),
        cf_TokenTTL = fst (dur ''TOKEN_TTL'' ''1h''),
        cf_Issuer = get ''ISSUER'' ''dc-streaming-p2p'',
        cf_Clients = (case read_clients_setting lib getenv of Inl _ \<Rightarrow> [] | Inr cs \<Rightarrow> cs),
        cf_AuthMaxFailures = fst (whole ''AUTH_MAX_FAILURES'' ''10''),
        cf_AuthFailureWindow = fst (dur ''AUTH_FAILURE_WINDOW'' ''5m''),
        cf_HeartbeatInterval = fst (dur ''HEARTBEAT_INTERVAL'' ''15s''),
        cf_SuspectAfter = fst (dur ''SUSPECT_AFTER'' ''30s''),
        cf_OfflineAfter = fst (dur ''OFFLINE_AFTER'' ''60s''),
        cf_NegotiationTimeout = fst (dur ''NEGOTIATION_TIMEOUT'' ''2m''),
        cf_MaxPeers = fst (whole ''MAX_PEERS'' ''10000''),
        cf_MaxSessions = fst (whole ''MAX_SESSIONS'' ''10000''),
        cf_MaxSessionsPerPeer = fst (whole ''MAX_SESSIONS_PER_PEER'' ''64''),
        cf_SessionRetention = fst (dur ''SESSION_RETENTION'' ''10m''),
        cf_ExpiryInterval = fst (dur ''EXPIRY_INTERVAL'' ''15s''),
        cf_ServeDemo = (get ''SERVE_DEMO'' ''false'' = ''true''),
        cf_MaxSignalMessageBytes = fst (whole ''MAX_SIGNAL_MESSAGE_BYTES'' ''131072''),
        cf_SignalMessagesPerWindow = fst (whole ''SIGNAL_MESSAGES_PER_WINDOW'' ''120''),
        cf_SignalWindow = fst (dur ''SIGNAL_WINDOW'' ''1m''),
        cf_STUNURLs = splitList (get ''STUN_URLS'' ''stun:stun.l.google.com:19302''),
        cf_TURNURLs = splitList (get ''TURN_URLS'' []),
        cf_TURNSecret = get ''TURN_SECRET'' [],
        cf_TURNCredentialTTL = fst (dur ''TURN_CREDENTIAL_TTL'' ''10m'')\<rparr>)"

text \<open>
  The problems are appended where each setting is read: the clients and the key first,
  then the settings in the order of the struct literal, then what validate finds.
\<close>

definition read_problems :: "config_lib \<Rightarrow> (string \<Rightarrow> string) \<Rightarrow> config_problem list" where
  "read_problems lib getenv =
     (let dur = cfg_duration lib getenv; whole = cfg_whole getenv in
       (case read_clients_setting lib getenv of Inl ps \<Rightarrow> ps | Inr _ \<Rightarrow> []) @
       (case read_key_setting lib getenv of Inl p \<Rightarrow> [p] | Inr _ \<Rightarrow> []) @
       concat
         [snd (dur ''SHUTDOWN_TIMEOUT'' ''15s''), snd (dur ''TOKEN_TTL'' ''1h''), snd (whole
          ''AUTH_MAX_FAILURES'' ''10''), snd (dur ''AUTH_FAILURE_WINDOW'' ''5m''), snd (dur
          ''HEARTBEAT_INTERVAL'' ''15s''), snd (dur ''SUSPECT_AFTER'' ''30s''), snd (dur ''OFFLINE_AFTER''
          ''60s''), snd (dur ''NEGOTIATION_TIMEOUT'' ''2m''), snd (whole ''MAX_PEERS'' ''10000''), snd (whole
          ''MAX_SESSIONS'' ''10000''), snd (whole ''MAX_SESSIONS_PER_PEER'' ''64''), snd (dur
          ''SESSION_RETENTION'' ''10m''), snd (dur ''EXPIRY_INTERVAL'' ''15s''), snd (whole
          ''MAX_SIGNAL_MESSAGE_BYTES'' ''131072''), snd (whole ''SIGNAL_MESSAGES_PER_WINDOW'' ''120''), snd
          (dur ''SIGNAL_WINDOW'' ''1m''), snd (dur ''TURN_CREDENTIAL_TTL'' ''10m'')])"

definition Load :: "config_lib \<Rightarrow> (string \<Rightarrow> string) option \<Rightarrow> config_problem list + config" where
  "Load lib env =
     (case env of
        None \<Rightarrow> Inl [NoEnvironment]
      | Some getenv \<Rightarrow>
          let cfg = read_config lib getenv; problems = read_problems lib getenv @ validate lib cfg
          in if length problems > 0 then Inl problems else Inr cfg)"

section \<open>The startup log line\<close>

definition signingKeyState :: "byte list \<Rightarrow> string" where
  "signingKeyState key = (if length key = 0 then ''unset'' else ''loaded'')"

definition bool_string :: "bool \<Rightarrow> string" where
  "bool_string b = (if b then ''true'' else ''false'')"

definition config_String :: "config_lib \<Rightarrow> config \<Rightarrow> string" where
  "config_String lib c =
     (let d = lb_Duration_String lib in
      ''listen='' @ cf_ListenAddr c @ '' origins='' @ FormatInt (int (length (cf_AllowedOrigins c))) @
      '' any_origin='' @ bool_string (AnyOriginAllowed c) @ '' issuer='' @ cf_Issuer c @
      '' token_ttl='' @ d (cf_TokenTTL c) @ '' signing_key='' @ signingKeyState (cf_TokenSigningKey c) @
      '' clients='' @ FormatInt (int (length (cf_Clients c))) @ '' heartbeat='' @ d (cf_HeartbeatInterval c) @
      '' suspect='' @ d (cf_SuspectAfter c) @ '' offline='' @ d (cf_OfflineAfter c) @
      '' negotiation='' @ d (cf_NegotiationTimeout c) @ '' max_peers='' @ FormatInt (cf_MaxPeers c) @
      '' expiry='' @ d (cf_ExpiryInterval c) @ '' stun='' @ FormatInt (int (length (cf_STUNURLs c))) @
      '' relay='' @ bool_string (RelayConfigured c) @ '' turn_credential_ttl='' @ d (cf_TURNCredentialTTL c))"

section \<open>Lists of settings\<close>

lemma strip_runes_keeps:
  "c \<in> set s \<Longrightarrow> \<forall>r \<in> set runes. c \<notin> set r \<Longrightarrow> c \<in> set (strip_runes runes s)"
proof (induction runes s rule: strip_runes.induct)
  case (1 runes s)
  let ?n = "lead_rune runes s"
  show ?case
  proof (cases "?n = 0")
    case True
    then show ?thesis using 1(2) by (simp add: strip_runes_stop)
  next
    case False
    then obtain r where "find (\<lambda>r. prefix r s) runes = Some r" "?n = length r"
      by (auto simp: lead_rune_def split: option.splits)
    then have r: "r \<in> set runes" "take ?n s = r" by (auto simp: find_Some_iff prefix_def)
    have "c \<in> set (take ?n s @ drop ?n s)" using 1(2) by simp
    then have "c \<in> set (drop ?n s)" using r 1(3) by (auto simp del: append_take_drop_id)
    then have "c \<in> set (strip_runes runes (drop ?n s))" using 1 False by simp
    with False show ?thesis by (simp add: strip_runes.simps [of runes s] Let_def)
  qed
qed

lemma TrimSpace_keeps:
  assumes "c \<in> set s" and "\<forall>r \<in> set space_runes. c \<notin> set r"
  shows "TrimSpace s \<noteq> []"
proof -
  have "c \<in> set (strip_runes space_runes s)" using assms by (rule strip_runes_keeps)
  then have "c \<in> set (strip_runes (map rev space_runes) (rev (strip_runes space_runes s)))"
    using assms(2) by (intro strip_runes_keeps) simp_all
  then show ?thesis by (auto simp: TrimSpace_def)
qed

lemma splitList_eq: "splitList raw = filter (\<lambda>v. v \<noteq> []) (map TrimSpace (Split (CHR '','') raw))"
proof (cases "TrimSpace raw = []")
  case True
  have "\<forall>r \<in> set space_runes. CHR '','' \<notin> set r" by (simp add: space_runes_def)
  then have "CHR '','' \<notin> set raw" using TrimSpace_keeps [of "CHR '',''" raw] True by blast
  then show ?thesis by (simp add: splitList_def True Split_no_sep)
next
  case False
  then show ?thesis by (simp add: splitList_def Let_def)
qed

lemma Split_Join: "xs \<noteq> [] \<Longrightarrow> \<forall>x \<in> set xs. sep \<notin> set x \<Longrightarrow> Split sep (Join [sep] xs) = xs"
proof (induction xs)
  case (Cons x xs)
  then show ?case by (cases xs) (simp_all add: Split_no_sep Split_append)
qed simp

lemma splitList_entries: "v \<in> set (splitList raw) \<Longrightarrow> v \<noteq> [] \<and> TrimSpace v = v \<and> CHR '','' \<notin> set v"
  using TrimSpace_set Split_fields by (fastforce simp: splitList_eq)

lemma splitList_Join:
  assumes "\<forall>x \<in> set xs. x \<noteq> [] \<and> TrimSpace x = x \<and> CHR '','' \<notin> set x"
  shows "splitList (Join '','' xs) = xs"
proof (cases "xs = []")
  case True
  then show ?thesis by (simp add: splitList_def)
next
  case False
  then have "splitList (Join '','' xs) = filter (\<lambda>v. v \<noteq> []) (map TrimSpace xs)"
    using assms by (simp add: splitList_eq Split_Join)
  moreover have "map TrimSpace xs = xs" "filter (\<lambda>v. v \<noteq> []) xs = xs"
    using assms by (simp_all add: map_idI filter_id_conv)
  ultimately show ?thesis by simp
qed

text \<open>
  A list setting. Written with commas, any entries without commas, empty entries and
  surrounding space are read back as they are; and whatever is read is of that kind, so
  that writing it again changes nothing.
\<close>

theorem splitList_roundtrip:
  "((\<forall>x \<in> set xs. x \<noteq> [] \<and> TrimSpace x = x \<and> CHR '','' \<notin> set x) \<longrightarrow> splitList (Join '','' xs) = xs) \<and>
   splitList (Join '','' (splitList raw)) = splitList raw"
  using splitList_Join splitList_entries by blast

theorem splitList_roundtrip_witness: "splitList (Join '','' [''a'', ''b c'']) = [''a'', ''b c'']"
proof -
  have "TrimSpace ''a'' = ''a''" "TrimSpace ''b c'' = ''b c''" by code_simp+
  then show ?thesis using splitList_roundtrip [of "[''a'', ''b c'']" "[]"] by simp
qed

section \<open>What Load accepts\<close>

lemma cfg_duration_ok: "snd (cfg_duration lib getenv key fallback) = [] \<longleftrightarrow> 0 < fst (cfg_duration lib getenv key fallback)"
  by (auto simp: cfg_duration_def Let_def split: option.split)

lemma cfg_whole_ok: "snd (cfg_whole getenv key fallback) = [] \<longleftrightarrow> 0 < fst (cfg_whole getenv key fallback)"
  by (auto simp: cfg_whole_def Let_def split: option.split)

lemma cfg_whole_bound: "fst (cfg_whole getenv key fallback) < 2 ^ 63"
  by (auto simp: cfg_whole_def Atoi_def Let_def split: option.split)

lemma validate_ok:
  "validate lib c = [] \<longleftrightarrow>
     SplitHostPort (cf_ListenAddr c) \<noteq> None \<and> length (cf_TokenSigningKey c) = 64 \<and> cf_AllowedOrigins c \<noteq> [] \<and>
     TrimSpace (cf_Issuer c) \<noteq> [] \<and>
     \<not> (cf_SuspectAfter c > 0 \<and> cf_HeartbeatInterval c > 0 \<and> cf_SuspectAfter c \<le> cf_HeartbeatInterval c) \<and>
     \<not> (cf_OfflineAfter c > 0 \<and> cf_SuspectAfter c > 0 \<and> cf_OfflineAfter c \<le> cf_SuspectAfter c) \<and>
     validateICEURLs lib ''STUN_URLS'' (cf_STUNURLs c) [''stun'', ''stuns''] = [] \<and>
     validateICEURLs lib ''TURN_URLS'' (cf_TURNURLs c) [''turn'', ''turns''] = [] \<and>
     (cf_TURNURLs c \<noteq> [] \<longleftrightarrow> cf_TURNSecret c \<noteq> [])"
  by (auto simp: validate_def)

text \<open>A configuration every setting of which is usable.\<close>

definition config_ok :: "config_lib \<Rightarrow> config \<Rightarrow> bool" where
  "config_ok lib c \<longleftrightarrow>
     validate lib c = [] \<and> (\<exists>s. NewClientStore (cf_Clients c) = Inr s) \<and>
     0 < cf_ShutdownTimeout c \<and> 0 < cf_TokenTTL c \<and> 0 < cf_AuthMaxFailures c \<and> 0 < cf_AuthFailureWindow c \<and>
     0 < cf_HeartbeatInterval c \<and> 0 < cf_SuspectAfter c \<and> 0 < cf_OfflineAfter c \<and> 0 < cf_NegotiationTimeout c \<and>
     0 < cf_MaxPeers c \<and> 0 < cf_MaxSessions c \<and> 0 < cf_MaxSessionsPerPeer c \<and> 0 < cf_SessionRetention c \<and>
     0 < cf_ExpiryInterval c \<and> 0 < cf_MaxSignalMessageBytes c \<and> 0 < cf_SignalMessagesPerWindow c \<and>
     0 < cf_SignalWindow c \<and> 0 < cf_TURNCredentialTTL c"

lemma loadClients_ok: "loadClients lib inline path = Inr cs \<Longrightarrow> \<exists>s. NewClientStore cs = Inr s"
  by (auto simp: loadClients_def split: option.splits if_splits sum.splits)

lemma loadClients_problem: "loadClients lib inline path = Inl ps \<Longrightarrow> ps \<noteq> []"
  by (auto simp: loadClients_def split: option.splits if_splits sum.splits)

lemma read_config_fields:
  "cf_ListenAddr (read_config lib getenv) = cfg_get getenv ''LISTEN_ADDR'' '':8080''"
  "cf_ShutdownTimeout (read_config lib getenv) = fst (cfg_duration lib getenv ''SHUTDOWN_TIMEOUT'' ''15s'')"
  "cf_AllowedOrigins (read_config lib getenv) = splitList (cfg_get getenv ''ALLOWED_ORIGINS'' [])"
  "cf_TokenSigningKey (read_config lib getenv) = (case read_key_setting lib getenv of Inl _ \<Rightarrow> [] | Inr k \<Rightarrow> k)"
  "cf_TokenTTL (read_config lib getenv) = fst (cfg_duration lib getenv ''TOKEN_TTL'' ''1h'')"
  "cf_Issuer (read_config lib getenv) = cfg_get getenv ''ISSUER'' ''dc-streaming-p2p''"
  "cf_Clients (read_config lib getenv) = (case read_clients_setting lib getenv of Inl _ \<Rightarrow> [] | Inr cs \<Rightarrow> cs)"
  "cf_AuthMaxFailures (read_config lib getenv) = fst (cfg_whole getenv ''AUTH_MAX_FAILURES'' ''10'')"
  "cf_AuthFailureWindow (read_config lib getenv) = fst (cfg_duration lib getenv ''AUTH_FAILURE_WINDOW'' ''5m'')"
  "cf_HeartbeatInterval (read_config lib getenv) = fst (cfg_duration lib getenv ''HEARTBEAT_INTERVAL'' ''15s'')"
  "cf_SuspectAfter (read_config lib getenv) = fst (cfg_duration lib getenv ''SUSPECT_AFTER'' ''30s'')"
  "cf_OfflineAfter (read_config lib getenv) = fst (cfg_duration lib getenv ''OFFLINE_AFTER'' ''60s'')"
  "cf_NegotiationTimeout (read_config lib getenv) = fst (cfg_duration lib getenv ''NEGOTIATION_TIMEOUT'' ''2m'')"
  "cf_MaxPeers (read_config lib getenv) = fst (cfg_whole getenv ''MAX_PEERS'' ''10000'')"
  "cf_MaxSessions (read_config lib getenv) = fst (cfg_whole getenv ''MAX_SESSIONS'' ''10000'')"
  "cf_MaxSessionsPerPeer (read_config lib getenv) = fst (cfg_whole getenv ''MAX_SESSIONS_PER_PEER'' ''64'')"
  "cf_SessionRetention (read_config lib getenv) = fst (cfg_duration lib getenv ''SESSION_RETENTION'' ''10m'')"
  "cf_ExpiryInterval (read_config lib getenv) = fst (cfg_duration lib getenv ''EXPIRY_INTERVAL'' ''15s'')"
  "cf_ServeDemo (read_config lib getenv) = (cfg_get getenv ''SERVE_DEMO'' ''false'' = ''true'')"
  "cf_MaxSignalMessageBytes (read_config lib getenv) = fst (cfg_whole getenv ''MAX_SIGNAL_MESSAGE_BYTES'' ''131072'')"
  "cf_SignalMessagesPerWindow (read_config lib getenv) = fst (cfg_whole getenv ''SIGNAL_MESSAGES_PER_WINDOW'' ''120'')"
  "cf_SignalWindow (read_config lib getenv) = fst (cfg_duration lib getenv ''SIGNAL_WINDOW'' ''1m'')"
  "cf_STUNURLs (read_config lib getenv) = splitList (cfg_get getenv ''STUN_URLS'' ''stun:stun.l.google.com:19302'')"
  "cf_TURNURLs (read_config lib getenv) = splitList (cfg_get getenv ''TURN_URLS'' [])"
  "cf_TURNSecret (read_config lib getenv) = cfg_get getenv ''TURN_SECRET'' []"
  "cf_TURNCredentialTTL (read_config lib getenv) = fst (cfg_duration lib getenv ''TURN_CREDENTIAL_TTL'' ''10m'')"
  by (simp_all add: read_config_def Let_def)

lemma read_problems_none:
  "read_problems lib getenv = [] \<Longrightarrow>
     (\<exists>s. NewClientStore (cf_Clients (read_config lib getenv)) = Inr s) \<and>
     (\<forall>d \<in> {cf_ShutdownTimeout, cf_TokenTTL, cf_AuthFailureWindow, cf_HeartbeatInterval, cf_SuspectAfter, cf_OfflineAfter,
         cf_NegotiationTimeout, cf_SessionRetention, cf_ExpiryInterval, cf_SignalWindow, cf_TURNCredentialTTL,
         cf_AuthMaxFailures, cf_MaxPeers, cf_MaxSessions, cf_MaxSessionsPerPeer, cf_MaxSignalMessageBytes,
         cf_SignalMessagesPerWindow}. 0 < d (read_config lib getenv))"
proof -
  assume none: "read_problems lib getenv = []"
  have "\<exists>cs. read_clients_setting lib getenv = Inr cs"
    using none loadClients_problem by (fastforce simp: read_problems_def read_clients_setting_def Let_def split: sum.splits)
  then have "\<exists>s. NewClientStore (cf_Clients (read_config lib getenv)) = Inr s"
    by (auto simp: read_config_fields read_clients_setting_def dest: loadClients_ok)
  moreover have "\<forall>d \<in> {cf_ShutdownTimeout, cf_TokenTTL, cf_AuthFailureWindow, cf_HeartbeatInterval, cf_SuspectAfter, cf_OfflineAfter,
         cf_NegotiationTimeout, cf_SessionRetention, cf_ExpiryInterval, cf_SignalWindow, cf_TURNCredentialTTL,
         cf_AuthMaxFailures, cf_MaxPeers, cf_MaxSessions, cf_MaxSessionsPerPeer, cf_MaxSignalMessageBytes,
         cf_SignalMessagesPerWindow}. 0 < d (read_config lib getenv)"
    using none unfolding read_problems_def Let_def
    by (simp only: ball_simps concat.simps append_is_Nil_conv cfg_duration_ok cfg_whole_ok read_config_fields simp_thms)
  ultimately show ?thesis ..
qed

lemma Load_accepted:
  assumes "Load lib env = Inr cfg"
  shows "config_ok lib cfg"
proof -
  obtain getenv where env: "env = Some getenv" using assms by (cases env) (auto simp: Load_def)
  have cfg: "cfg = read_config lib getenv" and none: "read_problems lib getenv = []" "validate lib cfg = []"
    using assms by (simp_all add: env Load_def Let_def split: if_splits)
  show ?thesis unfolding config_ok_def using read_problems_none [OF none(1)] none(2) by (simp add: cfg)
qed

text \<open>The settings that are durations and those that are whole numbers, with their defaults.\<close>

definition duration_settings :: "(string \<times> string) list" where
  "duration_settings =
     [(''SHUTDOWN_TIMEOUT'', ''15s''), (''TOKEN_TTL'', ''1h''), (''AUTH_FAILURE_WINDOW'', ''5m''),
      (''HEARTBEAT_INTERVAL'', ''15s''), (''SUSPECT_AFTER'', ''30s''), (''OFFLINE_AFTER'', ''60s''),
      (''NEGOTIATION_TIMEOUT'', ''2m''), (''SESSION_RETENTION'', ''10m''), (''EXPIRY_INTERVAL'', ''15s''),
      (''SIGNAL_WINDOW'', ''1m''), (''TURN_CREDENTIAL_TTL'', ''10m'')]"

definition whole_settings :: "(string \<times> string) list" where
  "whole_settings =
     [(''AUTH_MAX_FAILURES'', ''10''), (''MAX_PEERS'', ''10000''), (''MAX_SESSIONS'', ''10000''),
      (''MAX_SESSIONS_PER_PEER'', ''64''), (''MAX_SIGNAL_MESSAGE_BYTES'', ''131072''),
      (''SIGNAL_MESSAGES_PER_WINDOW'', ''120'')]"

lemma read_problems_durations:
  "\<forall>(k, f) \<in> set duration_settings. set (snd (cfg_duration lib getenv k f)) \<subseteq> set (read_problems lib getenv)"
  unfolding duration_settings_def list.set ball_simps prod.case read_problems_def Let_def by auto

lemma read_problems_wholes:
  "\<forall>(k, f) \<in> set whole_settings. set (snd (cfg_whole getenv k f)) \<subseteq> set (read_problems lib getenv)"
  unfolding whole_settings_def list.set ball_simps prod.case read_problems_def Let_def by auto

lemma read_problems_credentials:
  "read_clients_setting lib getenv = Inl qs \<Longrightarrow> set qs \<subseteq> set (read_problems lib getenv)"
  "read_key_setting lib getenv = Inl q \<Longrightarrow> q \<in> set (read_problems lib getenv)"
  by (simp_all add: read_problems_def Let_def)

text \<open>
  C17: Starting up on a bad environment. Load either answers the settings, every one of them
  usable, or reports every problem there is and not the first: each setting that is not
  a duration, not a positive one or not a whole number above zero by name and text, the
  clients' problems, the key's, and all that validation finds.
\<close>

theorem Load_reports_every_problem:
  "case Load lib (Some getenv) of
     Inr cfg \<Rightarrow> cfg = read_config lib getenv \<and> config_ok lib cfg
   | Inl ps \<Rightarrow> ps \<noteq> [] \<and>
       (\<forall>(k, f) \<in> set duration_settings.
          case lb_ParseDuration lib (cfg_get getenv k f) of
            None \<Rightarrow> NotADuration k (cfg_get getenv k f) \<in> set ps
          | Some d \<Rightarrow> d \<le> 0 \<longrightarrow> NotAPositiveDuration k d \<in> set ps) \<and>
       (\<forall>(k, f) \<in> set whole_settings.
          case Atoi (cfg_get getenv k f) of
            None \<Rightarrow> NotAWholeNumber k (cfg_get getenv k f) \<in> set ps
          | Some n \<Rightarrow> n \<le> 0 \<longrightarrow> NotAWholeNumber k (cfg_get getenv k f) \<in> set ps) \<and>
       (\<forall>qs. read_clients_setting lib getenv = Inl qs \<longrightarrow> set qs \<subseteq> set ps) \<and>
       (\<forall>q. read_key_setting lib getenv = Inl q \<longrightarrow> q \<in> set ps) \<and>
       set (validate lib (read_config lib getenv)) \<subseteq> set ps"
proof (cases "Load lib (Some getenv)")
  case (Inr cfg)
  then have "cfg = read_config lib getenv" by (simp add: Load_def Let_def split: if_splits)
  with Load_accepted [OF Inr] Inr show ?thesis by simp
next
  case (Inl ps)
  then have ps: "ps = read_problems lib getenv @ validate lib (read_config lib getenv)" "ps \<noteq> []"
    by (auto simp: Load_def Let_def split: if_splits)
  have dur: "case lb_ParseDuration lib (cfg_get getenv k f) of
      None \<Rightarrow> NotADuration k (cfg_get getenv k f) \<in> set ps
    | Some d \<Rightarrow> d \<le> 0 \<longrightarrow> NotAPositiveDuration k d \<in> set ps" if "(k, f) \<in> set duration_settings" for k f
    using read_problems_durations [of lib getenv] that
    by (auto simp: ps(1) cfg_duration_def Let_def split: option.split dest!: bspec)
  have whole: "case Atoi (cfg_get getenv k f) of
      None \<Rightarrow> NotAWholeNumber k (cfg_get getenv k f) \<in> set ps
    | Some n \<Rightarrow> n \<le> 0 \<longrightarrow> NotAWholeNumber k (cfg_get getenv k f) \<in> set ps" if "(k, f) \<in> set whole_settings" for k f
    using read_problems_wholes [of getenv lib] that
    by (auto simp: ps(1) cfg_whole_def Let_def split: option.split dest!: bspec)
  have rest: "\<forall>qs. read_clients_setting lib getenv = Inl qs \<longrightarrow> set qs \<subseteq> set ps"
    "\<forall>q. read_key_setting lib getenv = Inl q \<longrightarrow> q \<in> set ps" "set (validate lib (read_config lib getenv)) \<subseteq> set ps"
    using read_problems_credentials [of lib getenv] by (auto simp: ps(1))
  show ?thesis unfolding Inl sum.case using ps(2) dur whole rest by blast
qed

text \<open>A library and an environment for the witnesses.\<close>

definition sample_lib :: config_lib where
  "sample_lib =
     \<lparr>lb_ParseDuration = map_of [(''15s'', 15 * second), (''1h'', 60 * minute), (''5m'', 5 * minute), (''30s'', 30 * second),
        (''60s'', 60 * second), (''2m'', 2 * minute), (''10m'', 10 * minute), (''1m'', minute)],
      lb_Duration_String = (\<lambda>_. ''d''),
      lb_url_Parse = (\<lambda>s. Some \<lparr>url_Scheme = ''stun'', url_Host = [], url_Opaque = drop 5 s, url_Hostname = []\<rparr>),
      lb_ReadFile = (\<lambda>_. None),
      lb_UnmarshalClients = (\<lambda>_. Some [sample_config]),
      lb_NewKeyFromSeed = (\<lambda>seed. seed @ seed)\<rparr>"

definition sample_env :: "string \<Rightarrow> string" where
  "sample_env key =
     (if key = ''CENTRAL_CLIENTS'' then ''[c]''
      else if key = ''CENTRAL_TOKEN_SIGNING_KEY'' then replicate 43 (CHR ''A'') @ ''=''
      else if key = ''CENTRAL_ALLOWED_ORIGINS'' then ''*''
      else [])"

theorem Load_reports_every_problem_witness:
  "\<exists>ps. Load sample_lib (Some (\<lambda>key. if key = ''CENTRAL_TOKEN_TTL'' then ''soon'' else [])) = Inl ps \<and>
     NotADuration ''TOKEN_TTL'' ''soon'' \<in> set ps \<and> NoOrigins \<in> set ps"
proof -
  let ?env = "\<lambda>key :: string. if key = ''CENTRAL_TOKEN_TTL'' then ''soon'' else []"
  have get: "cfg_get ?env ''TOKEN_TTL'' ''1h'' = ''soon''" by code_simp
  have soon: "lb_ParseDuration sample_lib ''soon'' = None" by (simp add: sample_lib_def)
  have "cf_AllowedOrigins (read_config sample_lib ?env) = []"
    by (simp add: read_config_fields cfg_get_def splitList_def)
  then have no: "NoOrigins \<in> set (validate sample_lib (read_config sample_lib ?env))" by (simp add: validate_def)
  then have bad: "\<not> config_ok sample_lib (read_config sample_lib ?env)" by (auto simp: config_ok_def)
  have in_list: "(''TOKEN_TTL'', ''1h'') \<in> set duration_settings" by (simp add: duration_settings_def)
  show ?thesis
    using Load_reports_every_problem [where lib = sample_lib and getenv = ?env] bad no in_list get soon
    by (cases "Load sample_lib (Some ?env)") (auto dest!: bspec [OF _ in_list])
qed

section \<open>The startup log\<close>



text \<open>
  A star among other origins is not the star alone: the process does not say that every
  origin may connect, and hands the star to the upgrade as a pattern with the others.
\<close>

lemma star_among_origins:
  "splitList ''*,https://a'' = [''*'', ''https://a''] \<and>
   (cf_AllowedOrigins c = splitList ''*,https://a'' \<longrightarrow> \<not> AnyOriginAllowed c \<and> AnyOrigin \<in> set (cf_AllowedOrigins c))"
proof -
  have "TrimSpace ''*'' = ''*''" "TrimSpace ''https://a'' = ''https://a''" by code_simp+
  then have "splitList ''*,https://a'' = [''*'', ''https://a'']" by (simp add: splitList_eq)
  then show ?thesis by (simp add: AnyOriginAllowed_def AnyOrigin_def)
qed

end
