(* ===== verification/Middleware.thy ===== *)
theory Middleware
  imports Go_Strings
begin

text \<open>
  internal/transport/middleware.go, health.go and the defaults of server.go, and
  internal/buildinfo: what every request passes through. A handler is a function of the
  request's context and of the writer it answers on; the writer is the list of calls
  that reached the connection. Random bytes and the number of bytes a write takes are
  arguments.
\<close>

section \<open>The request identifier\<close>

definition RequestIDHeader :: string where
  "RequestIDHeader = ''X-Request-ID''"

definition maxInboundRequestID :: nat where
  "maxInboundRequestID = 64"

definition request_id_char :: "char \<Rightarrow> bool" where
  "request_id_char r \<longleftrightarrow>
     CHR ''a'' \<le> r \<and> r \<le> CHR ''z'' \<or> CHR ''A'' \<le> r \<and> r \<le> CHR ''Z'' \<or> CHR ''0'' \<le> r \<and> r \<le> CHR ''9'' \<or>
     r = CHR ''-'' \<or> r = CHR ''_'' \<or> r = CHR ''.''"

text \<open>The loop over the runes refuses every byte above ASCII, as a rune of its own or as part of one.\<close>

definition sanitizeRequestID :: "string \<Rightarrow> string" where
  "sanitizeRequestID raw0 =
     (let raw = TrimSpace raw0
      in if raw = [] \<or> length raw > maxInboundRequestID then []
         else if \<exists>r \<in> set raw. \<not> request_id_char r then [] else raw)"

definition hex_digits :: string where
  "hex_digits = ''0123456789abcdef''"

definition hex_EncodeToString :: "byte list \<Rightarrow> string" where
  "hex_EncodeToString bs = concat (map (\<lambda>b. [hex_digits ! (unat b div 16), hex_digits ! (unat b mod 16)]) bs)"

text \<open>Sixteen random bytes.\<close>

definition newRequestID :: "byte list \<Rightarrow> string" where
  "newRequestID rand = hex_EncodeToString (take 16 rand)"

section \<open>Handlers and their writers\<close>

record http_ctx =
  cx_RequestID :: string
  cx_Header :: string
  cx_Method :: string
  cx_Pattern :: string
  cx_Path :: string

datatype writer_call = SetHeader string string | SendStatus int | SendBody "byte list"

type_synonym handler = "http_ctx \<Rightarrow> writer_call list \<Rightarrow> writer_call list"

text \<open>The context carries the inbound header in \<open>cx_Header\<close> and the identifier given in \<open>cx_RequestID\<close>.\<close>

definition RequestIDFrom :: "http_ctx \<Rightarrow> string" where
  "RequestIDFrom cx = cx_RequestID cx"

definition withRequestID :: "string \<Rightarrow> http_ctx \<Rightarrow> http_ctx" where
  "withRequestID rid cx = cx\<lparr>cx_RequestID := rid\<rparr>"

definition WithRequestID :: "byte list \<Rightarrow> handler \<Rightarrow> handler" where
  "WithRequestID rand next_handler cx w =
     (let rid0 = sanitizeRequestID (cx_Header cx);
          rid = (if rid0 = [] then newRequestID rand else rid0)
      in next_handler (withRequestID rid cx) (w @ [SetHeader RequestIDHeader rid]))"

fun chain_handlers :: "handler \<Rightarrow> (handler \<Rightarrow> handler) list \<Rightarrow> handler" where
  "chain_handlers h [] = h"
| "chain_handlers h (m # ms) = m (chain_handlers h ms)"

section \<open>The status recorder\<close>

record statusRecorder =
  sr_Under :: "writer_call list"
  sr_Status :: int
  sr_Written :: int
  sr_WroteHeader :: bool

definition new_recorder :: "writer_call list \<Rightarrow> statusRecorder" where
  "new_recorder w = \<lparr>sr_Under = w, sr_Status = 200, sr_Written = 0, sr_WroteHeader = False\<rparr>"

definition recorder_WriteHeader :: "int \<Rightarrow> statusRecorder \<Rightarrow> statusRecorder" where
  "recorder_WriteHeader status r =
     (if sr_WroteHeader r then r
      else r\<lparr>sr_Status := status, sr_WroteHeader := True, sr_Under := sr_Under r @ [SendStatus status]\<rparr>)"

text \<open>The number of bytes the connection took is an argument.\<close>

definition recorder_Write :: "byte list \<Rightarrow> nat \<Rightarrow> statusRecorder \<Rightarrow> statusRecorder" where
  "recorder_Write b n r =
     (let r1 = (if \<not> sr_WroteHeader r then recorder_WriteHeader 200 r else r)
      in r1\<lparr>sr_Under := sr_Under r1 @ [SendBody b], sr_Written := sr_Written r1 + int n\<rparr>)"

definition recorder_Unwrap :: "statusRecorder \<Rightarrow> writer_call list" where
  "recorder_Unwrap r = sr_Under r"

text \<open>What a handler does with the writer it is given: headers set, a status, bodies.\<close>

datatype writer_op = OpHeader string string | OpStatus int | OpWrite "byte list" nat

fun recorder_op :: "writer_op \<Rightarrow> statusRecorder \<Rightarrow> statusRecorder" where
  "recorder_op (OpHeader k v) r = r\<lparr>sr_Under := sr_Under r @ [SetHeader k v]\<rparr>"
| "recorder_op (OpStatus s) r = recorder_WriteHeader s r"
| "recorder_op (OpWrite b n) r = recorder_Write b n r"

section \<open>The request log\<close>

datatype log_level = LevelInfo | LevelError

definition levelFor :: "int \<Rightarrow> log_level" where
  "levelFor status = (if status \<ge> 500 then LevelError else LevelInfo)"

definition routeOf :: "http_ctx \<Rightarrow> string" where
  "routeOf cx = (if cx_Pattern cx \<noteq> [] then cx_Pattern cx else cx_Path cx)"

record log_line =
  ll_Level :: log_level
  ll_RequestID :: string
  ll_Method :: string
  ll_Route :: string
  ll_Status :: int
  ll_Bytes :: int

text \<open>
  A handler under the logger is the operations it does on its writer; the line is
  written after it completes, without the time it took.
\<close>

definition WithLogging ::
  "(http_ctx \<Rightarrow> writer_op list) \<Rightarrow> http_ctx \<Rightarrow> writer_call list \<Rightarrow> writer_call list \<times> log_line" where
  "WithLogging next_handler cx w =
     (let recorder = fold recorder_op (next_handler cx) (new_recorder w)
      in (sr_Under recorder,
          \<lparr>ll_Level = levelFor (sr_Status recorder), ll_RequestID = RequestIDFrom cx, ll_Method = cx_Method cx,
           ll_Route = routeOf cx, ll_Status = sr_Status recorder, ll_Bytes = sr_Written recorder\<rparr>))"

section \<open>Health and build\<close>

record health_deps =
  hd_PeersOnline :: "int option"
  hd_SessionsLive :: "int option"
  hd_ChannelsOpen :: "int option"
  hd_RelayConfigured :: bool
  hd_Build :: string

record healthResponse =
  hr_Status :: string
  hr_Build :: string
  hr_UptimeSeconds :: int
  hr_PeersOnline :: int
  hr_SessionsLive :: int
  hr_ChannelsOpen :: int
  hr_RelayConfigured :: bool

definition StatusOK :: string where
  "StatusOK = ''ok''"

definition health_count :: "int option \<Rightarrow> int" where
  "health_count f = (case f of None \<Rightarrow> 0 | Some n \<Rightarrow> n)"

text \<open>
  Whole seconds of a duration: the conversion of the seconds to an int64 cuts toward
  zero. The seconds pass through a float64, exact to the second for any uptime up to
  2^52 seconds.
\<close>

definition whole_seconds :: "duration \<Rightarrow> int" where
  "whole_seconds d = (if 0 \<le> d then d div second else - ((- d) div second))"

definition Health :: "time \<Rightarrow> time \<Rightarrow> health_deps \<Rightarrow> healthResponse" where
  "Health started now deps =
     \<lparr>hr_Status = StatusOK, hr_Build = hd_Build deps,
      hr_UptimeSeconds = whole_seconds (time_Sub now started),
      hr_PeersOnline = health_count (hd_PeersOnline deps),
      hr_SessionsLive = health_count (hd_SessionsLive deps),
      hr_ChannelsOpen = health_count (hd_ChannelsOpen deps),
      hr_RelayConfigured = hd_RelayConfigured deps\<rparr>"

definition orDefault :: "duration \<Rightarrow> duration \<Rightarrow> duration" where
  "orDefault configured fallback = (if configured \<le> 0 then fallback else configured)"

definition ShortCommit :: "string \<Rightarrow> string" where
  "ShortCommit commit = (if length commit \<le> 7 then commit else take 7 commit)"

definition build_String :: "string \<Rightarrow> string \<Rightarrow> string \<Rightarrow> string" where
  "build_String version commit date =
     (let parts = [''central'', version];
          parts = (if commit \<noteq> ''unknown'' \<and> commit \<noteq> [] then parts @ [''('' @ ShortCommit commit @ '')''] else parts);
          parts = (if date \<noteq> ''unknown'' \<and> date \<noteq> [] then parts @ [''built '' @ date] else parts)
      in Join '' '' parts)"

section \<open>The identifier a request gets\<close>

text \<open>An identifier that is safe in a header and a log line.\<close>

definition safe_id :: "string \<Rightarrow> bool" where
  "safe_id rid \<longleftrightarrow> rid \<noteq> [] \<and> length rid \<le> maxInboundRequestID \<and> (\<forall>c \<in> set rid. request_id_char c)"

lemma request_id_plain: "request_id_char c \<Longrightarrow> plain_char c"
proof -
  have "c = char_of (of_char c :: nat)" by simp
  moreover assume "request_id_char c"
  then have "(of_char c :: nat) \<in> {45, 46, 95} \<union> {48..57} \<union> {65..90} \<union> {97..122}"
    by (auto simp: request_id_char_def less_eq_char_def)
  then show ?thesis by (auto simp: plain_char_def)
qed

lemma sanitize_safe: "sanitizeRequestID raw = (if safe_id (TrimSpace raw) then TrimSpace raw else [])"
  by (auto simp: sanitizeRequestID_def safe_id_def Let_def)

lemma safe_id_trim: "safe_id rid \<Longrightarrow> TrimSpace rid = rid"
  by (rule TrimSpace_plain) (simp add: safe_id_def request_id_plain)

lemma hex_digit_char: "n < 16 \<Longrightarrow> request_id_char (hex_digits ! n)"
proof -
  assume "n < 16"
  moreover have "\<forall>n \<in> set [0..<16]. request_id_char (hex_digits ! n)" by code_simp
  ultimately show ?thesis by simp
qed

lemma newRequestID_safe: "16 \<le> length rand \<Longrightarrow> safe_id (newRequestID rand) \<and> length (newRequestID rand) = 32"
proof -
  have len: "length (hex_EncodeToString bs) = 2 * length bs" for bs
    by (induction bs) (simp_all add: hex_EncodeToString_def)
  have "unat (b :: byte) div 16 < 16" "unat b mod 16 < 16" for b
    using unsigned_less [of b, where ?'a = nat] by auto
  then have "request_id_char c" if "c \<in> set (hex_EncodeToString bs)" for c bs
    using that hex_digit_char by (auto simp: hex_EncodeToString_def)
  moreover assume "16 \<le> length rand"
  ultimately show ?thesis
    using len [of "take 16 rand"]
    by (auto simp: safe_id_def newRequestID_def maxInboundRequestID_def)
qed

text \<open>
  C20: The identifier of a request. Whatever a caller puts in the header, the request is
  handled under an identifier of 1 to 64 safe characters, which the response carries and
  which another hop of this middleware keeps; it is the caller's own, trimmed, exactly
  when that is usable, and otherwise 32 hexadecimal digits.
\<close>

theorem WithRequestID_spec:
  assumes "16 \<le> length rand"
  shows "\<exists>rid. WithRequestID rand h cx w = h (cx\<lparr>cx_RequestID := rid\<rparr>) (w @ [SetHeader ''X-Request-ID'' rid]) \<and>
     rid \<noteq> [] \<and> length rid \<le> 64 \<and> (\<forall>c \<in> set rid. request_id_char c) \<and>
     sanitizeRequestID rid = rid \<and>
     (if safe_id (TrimSpace (cx_Header cx)) then rid = TrimSpace (cx_Header cx) else length rid = 32)"
proof -
  let ?rid = "if safe_id (TrimSpace (cx_Header cx)) then TrimSpace (cx_Header cx) else newRequestID rand"
  have "sanitizeRequestID (cx_Header cx) = [] \<longleftrightarrow> \<not> safe_id (TrimSpace (cx_Header cx))"
    by (auto simp: sanitize_safe safe_id_def)
  then have "WithRequestID rand h cx w = h (cx\<lparr>cx_RequestID := ?rid\<rparr>) (w @ [SetHeader ''X-Request-ID'' ?rid])"
    by (simp add: WithRequestID_def withRequestID_def RequestIDHeader_def sanitize_safe Let_def)
  moreover have safe: "safe_id ?rid" using newRequestID_safe [OF assms] by simp
  then have "sanitizeRequestID ?rid = ?rid" by (simp only: sanitize_safe safe_id_trim if_True)
  moreover have "if safe_id (TrimSpace (cx_Header cx)) then ?rid = TrimSpace (cx_Header cx) else length ?rid = 32"
    using newRequestID_safe [OF assms] by simp
  moreover have "?rid \<noteq> []" "length ?rid \<le> 64" "\<forall>c \<in> set ?rid. request_id_char c"
    using safe unfolding safe_id_def maxInboundRequestID_def by blast+
  ultimately show ?thesis by blast
qed

theorem WithRequestID_spec_witness:
  "WithRequestID (replicate 16 255) (\<lambda>cx w. w @ [SendStatus 200])
     \<lparr>cx_RequestID = [], cx_Header = '' req-1 '', cx_Method = [], cx_Pattern = [], cx_Path = []\<rparr> [] =
     [SetHeader ''X-Request-ID'' ''req-1'', SendStatus 200]"
proof -
  let ?cx = "\<lparr>cx_RequestID = [], cx_Header = '' req-1 '', cx_Method = [], cx_Pattern = [], cx_Path = []\<rparr>"
  have trim: "TrimSpace '' req-1 '' = ''req-1''" by code_simp
  have "safe_id ''req-1''" by code_simp
  then show ?thesis
    using WithRequestID_spec [of "replicate 16 255" "\<lambda>cx w. w @ [SendStatus 200]" ?cx "[]"] by (simp add: trim)
qed

section \<open>The recorder\<close>

fun statuses :: "writer_call list \<Rightarrow> int list" where
  "statuses [] = []"
| "statuses (SendStatus s # w) = s # statuses w"
| "statuses (_ # w) = statuses w"

fun bodies :: "writer_call list \<Rightarrow> byte list list" where
  "bodies [] = []"
| "bodies (SendBody b # w) = b # bodies w"
| "bodies (_ # w) = bodies w"

lemma writer_append [simp]:
  "statuses (v @ w) = statuses v @ statuses w" "bodies (v @ w) = bodies v @ bodies w"
  by (induction v rule: statuses.induct) simp_all

text \<open>The recorder agrees with what the connection was sent.\<close>

definition recorder_ok :: "statusRecorder \<Rightarrow> bool" where
  "recorder_ok r \<longleftrightarrow>
     statuses (sr_Under r) = (if sr_WroteHeader r then [sr_Status r] else []) \<and>
     (\<not> sr_WroteHeader r \<longrightarrow> sr_Status r = 200 \<and> bodies (sr_Under r) = [])"

lemma recorder_op_ok: "recorder_ok r \<Longrightarrow> recorder_ok (recorder_op e r)"
  by (cases e) (auto simp: recorder_ok_def recorder_WriteHeader_def recorder_Write_def)

lemma recorder_fold_ok: "recorder_ok r \<Longrightarrow> recorder_ok (fold recorder_op es r)"
  by (induction es arbitrary: r) (simp_all add: recorder_op_ok)

lemma recorder_fold_bodies:
  "bodies (sr_Under (fold recorder_op es r)) =
     bodies (sr_Under r) @ concat (map (\<lambda>e. case e of OpWrite b _ \<Rightarrow> [b] | _ \<Rightarrow> []) es) \<and>
   sr_Written (fold recorder_op es r) = sr_Written r + (\<Sum>e \<leftarrow> es. case e of OpWrite _ n \<Rightarrow> int n | _ \<Rightarrow> 0)"
proof (induction es arbitrary: r)
  case (Cons e es)
  then show ?case by (cases e) (simp_all add: recorder_WriteHeader_def recorder_Write_def Let_def)
qed simp

text \<open>The status a handler means to answer with: the first it sets, unless it writes before.\<close>

fun meant_status :: "writer_op list \<Rightarrow> int" where
  "meant_status [] = 200"
| "meant_status (OpHeader _ _ # es) = meant_status es"
| "meant_status (OpStatus s # es) = s"
| "meant_status (OpWrite _ _ # es) = 200"

lemma recorder_fold_done: "sr_WroteHeader r \<Longrightarrow> sr_Status (fold recorder_op es r) = sr_Status r"
proof (induction es arbitrary: r)
  case (Cons e es)
  then show ?case by (cases e) (simp_all add: recorder_WriteHeader_def recorder_Write_def Let_def)
qed simp

lemma recorder_fold_status: "\<not> sr_WroteHeader r \<Longrightarrow> sr_Status r = 200 \<Longrightarrow> sr_Status (fold recorder_op es r) = meant_status es"
proof (induction es arbitrary: r)
  case (Cons e es)
  then show ?case
    by (cases e) (simp_all add: recorder_WriteHeader_def recorder_Write_def Let_def recorder_fold_done)
qed simp

text \<open>
  C21: The request log tells the truth. Whatever a handler does with its writer, the
  connection is sent at most one status line, every body it writes in order and
  nothing else; the line logged carries that status (200 when the handler set none, as
  the connection then answers), the bytes the connection took, and the identifier the
  request was given, and is an error exactly for a status of 500 or more.
\<close>

theorem WithLogging_truthful:
  assumes "statuses w = []" and "bodies w = []" and "WithLogging h cx w = (w', line)"
  shows "ll_Status line = meant_status (h cx) \<and>
     (statuses w' = [ll_Status line] \<or> statuses w' = [] \<and> bodies w' = [] \<and> ll_Status line = 200) \<and>
     bodies w' = concat (map (\<lambda>e. case e of OpWrite b _ \<Rightarrow> [b] | _ \<Rightarrow> []) (h cx)) \<and>
     ll_Bytes line = (\<Sum>e \<leftarrow> h cx. case e of OpWrite _ n \<Rightarrow> int n | _ \<Rightarrow> 0) \<and>
     ll_RequestID line = cx_RequestID cx \<and> (ll_Level line = LevelError \<longleftrightarrow> 500 \<le> ll_Status line)"
proof -
  let ?r = "fold recorder_op (h cx) (new_recorder w)"
  have "recorder_ok (new_recorder w)" using assms(1,2) by (simp add: recorder_ok_def new_recorder_def)
  then have "recorder_ok ?r" by (rule recorder_fold_ok)
  moreover have "sr_Status ?r = meant_status (h cx)" by (rule recorder_fold_status) (simp_all add: new_recorder_def)
  moreover note recorder_fold_bodies [of "h cx" "new_recorder w"]
  ultimately show ?thesis
    using assms(2,3)
    by (auto simp: WithLogging_def Let_def recorder_ok_def new_recorder_def RequestIDFrom_def levelFor_def split: if_splits)
qed

theorem WithLogging_truthful_witness:
  "ll_Status (snd (WithLogging (\<lambda>_. [OpHeader ''a'' ''b'', OpStatus 503, OpStatus 200, OpWrite [1, 2] 2])
     \<lparr>cx_RequestID = ''x'', cx_Header = [], cx_Method = [], cx_Pattern = [], cx_Path = []\<rparr> [])) = 503"
  using WithLogging_truthful [where w = "[]" and h = "\<lambda>_. [OpHeader ''a'' ''b'', OpStatus 503, OpStatus 200, OpWrite [1, 2] 2]"
      and cx = "\<lparr>cx_RequestID = ''x'', cx_Header = [], cx_Method = [], cx_Pattern = [], cx_Path = []\<rparr>", OF _ _ surjective_pairing]
  by simp

end
