(* ===== verification/Startup.thy ===== *)
theory Startup
  imports Control_Plane Authclient Config Middleware
begin

text \<open>
  cmd/central/main.go, from the command line to a serving process: the components are
  built from the configuration in the order run builds them, and what they make is a
  state the system's steps start from. What the flag package makes of the arguments,
  whether the address can be bound and how serving ends are arguments.
\<close>

section \<open>Building the components\<close>

datatype startup_error =
    BadFlags
  | UnknownLogFormat string
  | BadConfig "config_problem list"
  | ClientsError "client_problem list"
  | IssuerError token_error
  | LimiterError limiter_error
  | RegistryError "registry_error list"
  | SessionsError session_error
  | HubError hub_error
  | ICEError ice_error
  | ListenError string

definition newLogger :: "string \<Rightarrow> bool" where
  "newLogger format \<longleftrightarrow> format = ''json'' \<or> format = ''text''"

definition registry_options_of :: "config \<Rightarrow> registry_options" where
  "registry_options_of cfg =
     \<lparr>ro_HeartbeatInterval = cf_HeartbeatInterval cfg, ro_SuspectAfter = cf_SuspectAfter cfg,
      ro_OfflineAfter = cf_OfflineAfter cfg, ro_MaxPeers = cf_MaxPeers cfg\<rparr>"

definition session_options_of :: "config \<Rightarrow> session_options" where
  "session_options_of cfg =
     \<lparr>so_NegotiationTimeout = cf_NegotiationTimeout cfg, so_Retention = cf_SessionRetention cfg,
      so_MaxSessions = cf_MaxSessions cfg, so_MaxSessionsPerPeer = cf_MaxSessionsPerPeer cfg, so_Authorizer = None\<rparr>"

definition hub_options_of :: "config \<Rightarrow> hub_options" where
  "hub_options_of cfg =
     \<lparr>ho_Sessions = True, ho_Presence = True, ho_MessagesPerWindow = cf_SignalMessagesPerWindow cfg,
      ho_Window = cf_SignalWindow cfg, ho_SendTimeout = 0\<rparr>"

definition ice_options_of :: "config \<Rightarrow> ice_options" where
  "ice_options_of cfg =
     \<lparr>io_STUNURLs = cf_STUNURLs cfg, io_TURNURLs = cf_TURNURLs cfg, io_Secret = cf_TURNSecret cfg,
      io_CredentialTTL = cf_TURNCredentialTTL cfg\<rparr>"

definition assemble :: "jwt \<Rightarrow> config \<Rightarrow> startup_error + (deployment \<times> central)" where
  "assemble lib cfg =
     (case NewClientStore (cf_Clients cfg) of Inl e \<Rightarrow> Inl (ClientsError e) | Inr clients \<Rightarrow>
      case NewTokenIssuer (cf_TokenSigningKey cfg) (cf_Issuer cfg) (cf_TokenTTL cfg) of
        Inl e \<Rightarrow> Inl (IssuerError e) | Inr issuer \<Rightarrow>
      case NewAttemptLimiter (cf_AuthMaxFailures cfg) (cf_AuthFailureWindow cfg) of
        Inl e \<Rightarrow> Inl (LimiterError e) | Inr limiter \<Rightarrow>
      case registry_New (registry_options_of cfg) of Inl e \<Rightarrow> Inl (RegistryError e) | Inr peers \<Rightarrow>
      case store_New (session_options_of cfg) of Inl e \<Rightarrow> Inl (SessionsError e) | Inr sessions \<Rightarrow>
      case hub_New (hub_options_of cfg) of Inl e \<Rightarrow> Inl (HubError e) | Inr hub \<Rightarrow>
      case NewProvider (ice_options_of cfg) of Inl e \<Rightarrow> Inl (ICEError e) | Inr ice \<Rightarrow>
        Inr (\<lparr>dp_lib = lib, dp_clients = clients, dp_issuer = issuer,
              dp_verifier = NewTokenVerifier (issuer_PublicKey issuer) (cf_Issuer cfg), dp_ice = ice\<rparr>,
             \<lparr>ce_limiter = limiter, ce_peers = peers, ce_sessions = sessions, ce_hub = hub,
              ce_tokens = [], ce_channels = [], ce_wrote = []\<rparr>))"

section \<open>The HTTP server\<close>

text \<open>The timeouts NewServer settles on: header, read, write and idle.\<close>

definition server_timeouts :: "duration \<Rightarrow> duration \<Rightarrow> duration \<Rightarrow> duration \<Rightarrow> duration list" where
  "server_timeouts readHeader read_t write_t idle =
     [orDefault readHeader (10 * second), orDefault read_t (30 * second), orDefault write_t (30 * second),
      orDefault idle (120 * second)]"

text \<open>
  How serving ends: Serve returns first, or the context is cancelled first and the
  server is drained. An error is its text; the server's own closing is not one.
\<close>

datatype serve_result = ServerClosed | ServeStopped | ServeFailed string
datatype shutdown_result = Drained | DeadlineExceeded | ShutdownFailed string

definition serve_error :: "serve_result \<Rightarrow> string list" where
  "serve_error r = (case r of ServeFailed e \<Rightarrow> [e] | _ \<Rightarrow> [])"

definition server_Run :: "serve_result \<Rightarrow> (shutdown_result \<times> string list) option \<Rightarrow> string list" where
  "server_Run serve drain =
     (case drain of
        None \<Rightarrow> serve_error serve
      | Some (shutdown, close_error) \<Rightarrow>
          serve_error serve @
          (case shutdown of Drained \<Rightarrow> [] | DeadlineExceeded \<Rightarrow> close_error | ShutdownFailed e \<Rightarrow> [e]))"

section \<open>The process\<close>

datatype flags_result = FlagsHelp | FlagsError | Flags bool string

datatype run_result = Exited | PrintedVersion | RunFailed startup_error | Serving config deployment central

definition run ::
  "config_lib \<Rightarrow> jwt \<Rightarrow> flags_result \<Rightarrow> (string \<Rightarrow> string) option \<Rightarrow> (string \<Rightarrow> string option) \<Rightarrow> run_result" where
  "run clib lib flags getenv listen_on =
     (case flags of
        FlagsHelp \<Rightarrow> Exited
      | FlagsError \<Rightarrow> RunFailed BadFlags
      | Flags showVersion logFormat \<Rightarrow>
          if showVersion then PrintedVersion
          else if \<not> newLogger logFormat then RunFailed (UnknownLogFormat logFormat)
          else case Load clib getenv of
            Inl ps \<Rightarrow> RunFailed (BadConfig ps)
          | Inr cfg \<Rightarrow>
              (case assemble lib cfg of
                 Inl e \<Rightarrow> RunFailed e
               | Inr (dp, c) \<Rightarrow>
                   (case listen_on (cf_ListenAddr cfg) of
                      Some e \<Rightarrow> RunFailed (ListenError e)
                    | None \<Rightarrow> Serving cfg dp c)))"

text \<open>The health check on the state of the process.\<close>

definition serve_Health :: "string \<Rightarrow> config \<Rightarrow> time \<Rightarrow> time \<Rightarrow> central \<Rightarrow> healthResponse" where
  "serve_Health build cfg started now c =
     Health started now
       \<lparr>hd_PeersOnline = Some (counts_Online (registry_Count now (ce_peers c))),
        hd_SessionsLive = Some (store_Count (ce_sessions c)),
        hd_ChannelsOpen = Some (hub_Count (ce_hub c)),
        hd_RelayConfigured = RelayConfigured cfg, hd_Build = build\<rparr>"

section \<open>A loaded configuration starts\<close>

lemma config_ok_parts:
  assumes "config_ok lib c"
  shows "length (cf_TokenSigningKey c) = 64" "TrimSpace (cf_Issuer c) \<noteq> []" "cf_AllowedOrigins c \<noteq> []"
    "cf_HeartbeatInterval c < cf_SuspectAfter c" "cf_SuspectAfter c < cf_OfflineAfter c"
    "cf_TURNURLs c \<noteq> [] \<longleftrightarrow> cf_TURNSecret c \<noteq> []"
  using assms by (auto simp: config_ok_def validate_ok)

lemma assemble_accepts:
  assumes "config_ok clib cfg"
  shows "\<exists>dp c. assemble lib cfg = Inr (dp, c) \<and> NewClientStore (cf_Clients cfg) = Inr (dp_clients dp) \<and>
     NewTokenIssuer (cf_TokenSigningKey cfg) (cf_Issuer cfg) (cf_TokenTTL cfg) = Inr (dp_issuer dp) \<and>
     dp_verifier dp = NewTokenVerifier (issuer_PublicKey (dp_issuer dp)) (cf_Issuer cfg) \<and> dp_lib dp = lib \<and>
     NewProvider (ice_options_of cfg) = Inr (dp_ice dp) \<and>
     central_start (registry_options_of cfg) (session_options_of cfg) (hub_options_of cfg) (cf_AuthMaxFailures cfg)
       (cf_AuthFailureWindow cfg) c"
proof -
  note parts = config_ok_parts [OF assms]
  have pos: "0 < cf_TokenTTL cfg" "0 < cf_AuthMaxFailures cfg" "0 < cf_AuthFailureWindow cfg" "0 < cf_HeartbeatInterval cfg"
    "0 < cf_NegotiationTimeout cfg" "0 < cf_SessionRetention cfg" "0 < cf_TURNCredentialTTL cfg"
    using assms by (simp_all add: config_ok_def)
  obtain clients where clients: "NewClientStore (cf_Clients cfg) = Inr clients" using assms by (auto simp: config_ok_def)
  obtain issuer where issuer: "NewTokenIssuer (cf_TokenSigningKey cfg) (cf_Issuer cfg) (cf_TokenTTL cfg) = Inr issuer"
    using parts(1,2) pos(1) by (simp add: NewTokenIssuer_def PrivateKeySize_def)
  obtain limiter where limiter: "NewAttemptLimiter (cf_AuthMaxFailures cfg) (cf_AuthFailureWindow cfg) = Inr limiter"
    using pos(2,3) by (simp add: NewAttemptLimiter_def)
  obtain peers where peers: "registry_New (registry_options_of cfg) = Inr peers"
    using parts(4,5) pos(4) by (simp add: registry_New_def registry_options_of_def Let_def)
  obtain sessions where sessions: "store_New (session_options_of cfg) = Inr sessions"
    using pos(5,6) by (simp add: store_New_def session_options_of_def)
  obtain hub where hub: "hub_New (hub_options_of cfg) = Inr hub" by (simp add: hub_New_def hub_options_of_def)
  obtain ice where ice: "NewProvider (ice_options_of cfg) = Inr ice"
    using parts(6) pos(7) by (auto simp: NewProvider_def ice_options_of_def)
  show ?thesis
    by (simp add: assemble_def clients issuer limiter peers sessions hub ice central_start_def)
qed

text \<open>
  C16: Starting up. Once Load accepts the environment no component refuses its part of it:
  run serves, or says that the address cannot be bound, and the process it serves is a
  deployment of exactly the configured clients in a state the system starts from, where
  the ceiling on sessions is below 2^61; so every state it comes to satisfies the
  invariant of the system.
\<close>

theorem loaded_configuration_serves:
  assumes "Load clib getenv = Inr cfg" and "newLogger format"
  shows "\<exists>dp c. run clib lib (Flags False format) getenv listen_on =
       (case listen_on (cf_ListenAddr cfg) of Some e \<Rightarrow> RunFailed (ListenError e) | None \<Rightarrow> Serving cfg dp c) \<and>
     (jwt_documented lib \<longrightarrow>
        deployed (cf_Clients cfg) (cf_TokenSigningKey cfg) (cf_Issuer cfg) (cf_TokenTTL cfg) dp) \<and>
     (jwt_documented lib \<and> cf_MaxSessions cfg < 2 ^ 61 \<longrightarrow>
        central_reachable dp c \<and>
        (\<forall>c'. central_reachable dp c' \<longrightarrow> central_inv (cf_Clients cfg) dp c'))"
proof -
  obtain dp c where a: "assemble lib cfg = Inr (dp, c)" "NewClientStore (cf_Clients cfg) = Inr (dp_clients dp)"
      "NewTokenIssuer (cf_TokenSigningKey cfg) (cf_Issuer cfg) (cf_TokenTTL cfg) = Inr (dp_issuer dp)"
      "dp_verifier dp = NewTokenVerifier (issuer_PublicKey (dp_issuer dp)) (cf_Issuer cfg)" "dp_lib dp = lib"
      "central_start (registry_options_of cfg) (session_options_of cfg) (hub_options_of cfg) (cf_AuthMaxFailures cfg)
         (cf_AuthFailureWindow cfg) c"
    using assemble_accepts [OF Load_accepted [OF assms(1)], of lib] by blast
  have dep: "deployed (cf_Clients cfg) (cf_TokenSigningKey cfg) (cf_Issuer cfg) (cf_TokenTTL cfg) dp"
    if "jwt_documented lib" using that a(2-5) by (simp add: deployed_def)
  have "central_reachable dp c" if "cf_MaxSessions cfg < 2 ^ 61"
    using central_reachable.start [OF a(6)] that by (simp add: session_options_of_def)
  moreover have "run clib lib (Flags False format) getenv listen_on =
      (case listen_on (cf_ListenAddr cfg) of Some e \<Rightarrow> RunFailed (ListenError e) | None \<Rightarrow> Serving cfg dp c)"
    using assms by (simp add: run_def a(1))
  ultimately show ?thesis using dep central_reachable_inv [OF _ dep] by blast
qed

lemma sample_get:
  "k \<notin> {''CLIENTS'', ''TOKEN_SIGNING_KEY'', ''ALLOWED_ORIGINS''} \<Longrightarrow> cfg_get sample_env k f = f"
  by (simp add: cfg_get_def sample_env_def)

lemma sample_settings:
  "\<forall>(k, f) \<in> set duration_settings. snd (cfg_duration sample_lib sample_env k f) = []"
  "\<forall>(k, f) \<in> set whole_settings. snd (cfg_whole sample_env k f) = []"
proof -
  have "Atoi ''10'' = Some 10" "Atoi ''10000'' = Some 10000" "Atoi ''64'' = Some 64" "Atoi ''131072'' = Some 131072"
    "Atoi ''120'' = Some 120" by code_simp+
  then show "\<forall>(k, f) \<in> set whole_settings. snd (cfg_whole sample_env k f) = []"
    by (simp add: whole_settings_def cfg_whole_def sample_get)
  show "\<forall>(k, f) \<in> set duration_settings. snd (cfg_duration sample_lib sample_env k f) = []"
    by (simp add: duration_settings_def cfg_duration_def sample_get) (simp add: sample_lib_def minute_def second_def)
qed

lemma sample_key_read: "read_key_setting sample_lib sample_env = Inr (replicate 64 0)"
proof -
  have "cfg_get sample_env ''TOKEN_SIGNING_KEY'' [] = replicate 43 (CHR ''A'') @ ''=''" by code_simp
  moreover have "StdEncoding_DecodeString (replicate 43 (CHR ''A'') @ ''='') = Some (replicate 32 0)" by code_simp
  moreover have "replicate 32 (0 :: byte) @ replicate 32 0 = replicate 64 0" by (simp flip: replicate_add)
  ultimately show ?thesis
    by (simp add: read_key_setting_def loadSigningKey_def sample_get SigningKeySeedLen_def) (simp add: sample_lib_def)
qed

lemma sample_clients_read: "read_clients_setting sample_lib sample_env = Inr [sample_config]"
proof -
  have "cfg_get sample_env ''CLIENTS'' [] = ''[c]''" "TrimSpace ''[c]'' = ''[c]''" by code_simp+
  moreover obtain s where "NewClientStore [sample_config] = Inr s" using sample_configs_accepted by blast
  ultimately show ?thesis
    by (simp add: read_clients_setting_def loadClients_def sample_get) (simp add: sample_lib_def)
qed

lemma sample_validated: "validate sample_lib (read_config sample_lib sample_env) = []"
proof -
  have origins: "splitList (cfg_get sample_env ''ALLOWED_ORIGINS'' []) \<noteq> []" by code_simp
  have addr: "SplitHostPort '':8080'' \<noteq> None" by code_simp
  have issuer: "TrimSpace ''dc-streaming-p2p'' \<noteq> []" by code_simp
  have stun: "splitList ''stun:stun.l.google.com:19302'' = [''stun:stun.l.google.com:19302'']"
    "validateICEURLs sample_lib ''STUN_URLS'' [''stun:stun.l.google.com:19302''] [''stun'', ''stuns''] = []"
    by code_simp+
  have "splitList [] = []" by (simp add: splitList_def)
  then show ?thesis
    using origins addr issuer stun sample_key_read
    by (simp add: validate_ok read_config_fields sample_get cfg_duration_def) (simp add: sample_lib_def second_def)
qed

lemma sample_Load: "\<exists>cfg. Load sample_lib (Some sample_env) = Inr cfg \<and> cf_MaxSessions cfg = 10000"
proof -
  have "read_problems sample_lib sample_env = []"
    using sample_settings by (simp add: read_problems_def Let_def sample_key_read sample_clients_read duration_settings_def
        whole_settings_def)
  moreover have "Atoi ''10000'' = Some 10000" by code_simp
  then have "cf_MaxSessions (read_config sample_lib sample_env) = 10000"
    by (simp add: read_config_fields cfg_whole_def sample_get)
  ultimately show ?thesis by (simp add: Load_def sample_validated Let_def)
qed

theorem loaded_configuration_serves_witness:
  "\<exists>cfg dp c. run sample_lib one_jwt (Flags False ''json'') (Some sample_env) (\<lambda>_. None) = Serving cfg dp c \<and>
     central_inv (cf_Clients cfg) dp c"
proof -
  obtain cfg where cfg: "Load sample_lib (Some sample_env) = Inr cfg" "cf_MaxSessions cfg = 10000" using sample_Load by blast
  have "newLogger ''json''" by (simp add: newLogger_def)
  from loaded_configuration_serves [OF cfg(1) this, where lib = one_jwt and listen_on = "\<lambda>_. None"]
  show ?thesis using one_jwt_documented cfg(2) by auto
qed

end
