(* ===== verification/Dispatch.thy ===== *)
theory Dispatch
  imports Startup
begin

text \<open>
  The HTTP surface as one function of a request: the multiplexer of routes in
  cmd/central/main.go, the bounded reading of a body, the token middleware and the
  handler of the route, on the state of the process. A JSON decoder is an argument; what
  it is given is what the body's bound leaves of it. The last section is who a request
  acts as, and what it can change.
\<close>

section \<open>A request as it arrives\<close>

text \<open>The path is the segments of the cleaned URL path, unescaped.\<close>

record http_request =
  hq_Method :: http_method
  hq_Path :: "string list"
  hq_Authorization :: string
  hq_Protocols :: "string list"
  hq_Body :: "byte list"

text \<open>How a body decodes: absent where decoding fails, an unknown field included.\<close>

record decoders =
  dc_Credential :: "byte list \<Rightarrow> credentialRequest option"
  dc_Open :: "byte list \<Rightarrow> openRequest option"
  dc_Report :: "byte list \<Rightarrow> reportRequest option"

text \<open>
  A decoder takes the first value of what it reads, and fails on one that is cut short;
  the bound ends what it can read.
\<close>

definition maxCredentialBody :: nat where "maxCredentialBody = 4 * 1024"
definition maxSessionBody :: nat where "maxSessionBody = 4 * 1024"

definition decode_within :: "nat \<Rightarrow> (byte list \<Rightarrow> 'b option) \<Rightarrow> byte list \<Rightarrow> 'b option" where
  "decode_within bound decode b = decode (take bound b)"

definition request_of :: "'b option \<Rightarrow> string \<Rightarrow> http_request \<Rightarrow> 'b request" where
  "request_of b path_id q =
     \<lparr>rq_Method = hq_Method q, rq_PeerID = [], rq_PathID = path_id, rq_Authorization = hq_Authorization q,
      rq_Protocols = hq_Protocols q, rq_Body = b\<rparr>"

text \<open>
  What a request reads from outside: the clock when its token is verified and when the
  component it acts on reads it, a second reading where there is one before or after
  that, the orders of ranges, random bytes, which writes to channels succeed, and the
  connection its upgrade gives, none when the WebSocket library refuses it.
\<close>

record readings =
  rd_verified :: time
  rd_before :: time
  rd_now :: time
  rd_after :: time
  rd_ord :: "string range_order"
  rd_orders :: "string \<Rightarrow> string range_order"
  rd_rand :: "byte list option"
  rd_writes :: "conn \<Rightarrow> message \<Rightarrow> bool"
  rd_conn :: "conn option"

section \<open>Answering\<close>

datatype answer =
    Answered response
  | HealthAnswer healthResponse
  | KeysAnswer "jwk list"
  | ChannelOpened conn
  | NotUpgraded
  | Asset "string list"
  | NotRouted int "http_method list"

text \<open>No pattern matches: 405 with the methods that would, or 404 when none would.\<close>

definition methods_of :: "bool \<Rightarrow> string list \<Rightarrow> http_method list" where
  "methods_of serveDemo path =
     filter (\<lambda>m. routes serveDemo m path \<noteq> None) [DELETE, GET, OtherMethod ''HEAD'', POST]"

definition not_routed :: "bool \<Rightarrow> string list \<Rightarrow> answer" where
  "not_routed serveDemo path =
     (let ms = methods_of serveDemo path in NotRouted (if ms = [] then 404 else 405) ms)"

definition answered :: "central \<times> response \<Rightarrow> (central \<times> answer) option" where
  "answered out = (case out of (c, rs) \<Rightarrow> Some (c, Answered rs))"

definition serve_Signal ::
  "deployment \<Rightarrow> readings \<Rightarrow> http_request \<Rightarrow> central \<Rightarrow> central \<times> answer" where
  "serve_Signal dp rd q c =
     (let r = request_of (None :: unit option) [] q
      in case signal_authenticate (dp_lib dp) (rd_verified rd) (dp_verifier dp) r of
           Inl rs \<Rightarrow> (c, Answered rs)
         | Inr _ \<Rightarrow>
             (case rd_conn rd of
                None \<Rightarrow> (c, NotUpgraded)
              | Some cn \<Rightarrow>
                  (fst (signal_open dp (rd_verified rd) (rd_ord rd) (rd_before rd) (rd_now rd) (rd_after rd) cn r c),
                   ChannelOpened cn)))"

definition serve_endpoint ::
  "string \<Rightarrow> config \<Rightarrow> time \<Rightarrow> deployment \<Rightarrow> decoders \<Rightarrow> readings \<Rightarrow> http_request \<Rightarrow> endpoint \<Rightarrow>
   central \<Rightarrow> (central \<times> answer) option"
where
  "serve_endpoint build cfg started dp dc rd q e c =
     (case e of
        Healthz \<Rightarrow> Some (c, HealthAnswer (serve_Health build cfg started (rd_now rd) c))
      | AuthRoute \<Rightarrow>
          map_option (\<lambda>(c', rs). (c', Answered rs))
            (serve_Auth dp (rd_ord rd) (rd_rand rd) (rd_now rd) (rd_after rd)
              (request_of (decode_within maxCredentialBody (dc_Credential dc) (hq_Body q)) [] q) c)
      | Jwks \<Rightarrow> Some (c, KeysAnswer (JWKS (issuer_PublicKey (dp_issuer dp))))
      | PeersRoute \<Rightarrow>
          answered (serve_Peers dp (rd_verified rd) (rd_ord rd) (rd_now rd) (request_of None [] q) c)
      | HeartbeatRoute \<Rightarrow>
          answered (serve_Heartbeat dp (rd_verified rd) (rd_now rd) (request_of None [] q) c)
      | PeerRoute pid \<Rightarrow>
          answered (serve_PeerLookup dp (rd_verified rd) (rd_now rd) (request_of None pid q) c)
      | IceRoute \<Rightarrow>
          answered (serve_ICEConfig dp (rd_verified rd) (rd_now rd) (request_of None [] q) c)
      | SessionsRoute \<Rightarrow>
          answered (serve_OpenSession dp (rd_verified rd) (rd_orders rd) (rd_rand rd) (rd_before rd) (rd_now rd)
            (request_of (decode_within maxSessionBody (dc_Open dc) (hq_Body q)) [] q) c)
      | SessionRoute sid \<Rightarrow>
          answered (serve_GetSession dp (rd_verified rd) (rd_writes rd) (rd_now rd) (request_of None sid q) c)
      | StateRoute sid \<Rightarrow>
          answered (serve_ReportSession dp (rd_verified rd) (rd_writes rd) (rd_now rd)
            (request_of (decode_within maxSessionBody (dc_Report dc) (hq_Body q)) sid q) c)
      | SignalRoute \<Rightarrow> Some (serve_Signal dp rd q c)
      | AssetsRoute \<Rightarrow> Some (c, Asset (hq_Path q)))"

text \<open>None is a request that is never answered.\<close>

definition dispatch ::
  "string \<Rightarrow> config \<Rightarrow> time \<Rightarrow> deployment \<Rightarrow> decoders \<Rightarrow> readings \<Rightarrow> http_request \<Rightarrow>
   central \<Rightarrow> (central \<times> answer) option"
where
  "dispatch build cfg started dp dc rd q c =
     (case routes (cf_ServeDemo cfg) (hq_Method q) (hq_Path q) of
        None \<Rightarrow> Some (c, not_routed (cf_ServeDemo cfg) (hq_Path q))
      | Some e \<Rightarrow> serve_endpoint build cfg started dp dc rd q e c)"

section \<open>Who a request acts as\<close>

text \<open>The peer a verified bearer token names, and the peer a channel's token names.\<close>

definition bearer_caller :: "deployment \<Rightarrow> time \<Rightarrow> http_request \<Rightarrow> string option" where
  "bearer_caller dp now q =
     (case bearerToken (hq_Authorization q) of
        None \<Rightarrow> None
      | Some raw \<Rightarrow>
          (case verifier_Verify (dp_lib dp) now raw (dp_verifier dp) of
             Inl _ \<Rightarrow> None | Inr cl \<Rightarrow> Some (cl_PeerID cl)))"

definition signal_caller_of :: "deployment \<Rightarrow> time \<Rightarrow> http_request \<Rightarrow> string option" where
  "signal_caller_of dp now q =
     (case signal_authenticate (dp_lib dp) now (dp_verifier dp) (request_of (None :: unit option) [] q) of
        Inl _ \<Rightarrow> None | Inr p \<Rightarrow> Some p)"

definition public_route :: "endpoint \<Rightarrow> bool" where
  "public_route e \<longleftrightarrow> e = Healthz \<or> e = AuthRoute \<or> e = Jwks \<or> e = AssetsRoute"

definition caller_of :: "bool \<Rightarrow> deployment \<Rightarrow> readings \<Rightarrow> http_request \<Rightarrow> string option" where
  "caller_of serveDemo dp rd q =
     (case routes serveDemo (hq_Method q) (hq_Path q) of
        None \<Rightarrow> None
      | Some e \<Rightarrow>
          if public_route e then None
          else if e = SignalRoute then signal_caller_of dp (rd_verified rd) q
          else bearer_caller dp (rd_verified rd) q)"

text \<open>
  The readings a request can make: a range visits each key once, an identifier drawn is
  not one in use, and an upgrade gives a connection that is not open yet.
\<close>

definition readings_ok :: "readings \<Rightarrow> central \<Rightarrow> bool" where
  "readings_ok rd c \<longleftrightarrow> range_ok (rd_ord rd) \<and> open_inputs (rd_orders rd) (rd_rand rd) (ce_sessions c) \<and>
     (\<forall>cn. rd_conn rd = Some cn \<longrightarrow> cn \<notin> fst ` set (ce_channels c))"

lemma request_of_simps [simp]:
  "rq_Method (request_of b i q) = hq_Method q" "rq_PathID (request_of b i q) = i" "rq_Body (request_of b i q) = b"
  "rq_Authorization (request_of b i q) = hq_Authorization q" "rq_Protocols (request_of b i q) = hq_Protocols q"
  by (simp_all add: request_of_def)

lemma only_issued_request: "only_issued dp c (request_of b i q) \<longleftrightarrow> only_issued dp c (request_of (None :: unit option) [] q)"
  by (simp add: only_issued_def tokenFromSubprotocols_def)

lemma guard_accepts:
  "bearer_caller dp now q = Some p \<Longrightarrow>
     guard dp now handler (request_of b i q) c = handler ((request_of b i q)\<lparr>rq_PeerID := p\<rparr>) c"
  by (auto simp: guard_def RequireToken_def bearer_caller_def split: option.splits sum.splits)

lemma guard_refuses:
  "bearer_caller dp now q = None \<Longrightarrow>
     \<exists>rs. guard dp now handler (request_of b i q) c = (c, rs) \<and> rs_Status rs = 401"
  by (auto simp: guard_def RequireToken_def bearer_caller_def writeTokenError_def writeError_def Let_def
      split: option.splits sum.splits)

section \<open>Every request is answered\<close>

text \<open>The request is a step of the system, or changes nothing.\<close>

lemma serve_Auth_total:
  assumes "limiter_bounded (ce_limiter c)" and "range_ok ord"
  shows "\<exists>c' rs. serve_Auth dp ord rand now issued r c = Some (c', rs)"
  using h_Auth_outcome [OF assms, of "dp_lib dp" rand now issued "dp_clients dp" "dp_issuer dp" r]
  by (auto simp: serve_Auth_def)

lemma serve_Signal_step:
  assumes "readings_ok rd c" and "only_issued dp c (request_of (None :: unit option) [] q)"
  shows "fst (serve_Signal dp rd q c) = c \<or> central_step dp c (fst (serve_Signal dp rd q c))"
  using assms step_SignalOpen [of "rd_ord rd" dp c "request_of None [] q"]
  by (auto simp: serve_Signal_def readings_ok_def Let_def split: sum.split option.split)

lemma serve_endpoint_step:
  assumes "limiter_bounded (ce_limiter c)" and "readings_ok rd c"
    and "only_issued dp c (request_of (None :: unit option) [] q)"
  shows "\<exists>c' a. serve_endpoint build cfg started dp dc rd q e c = Some (c', a) \<and> (c' = c \<or> central_step dp c c')"
proof -
  have ord: "range_ok (rd_ord rd)" and open_in: "open_inputs (rd_orders rd) (rd_rand rd) (ce_sessions c)"
    using assms(2) by (simp_all add: readings_ok_def)
  have only: "only_issued dp c (request_of b i q)" for b :: "'x option" and i
    using assms(3) only_issued_request by blast
  note steps = step_Peers [OF ord only] step_Heartbeat [OF only] step_PeerLookup step_ICEConfig
    step_OpenSession [OF open_in only] step_GetSession step_ReportSession
  show ?thesis
  proof (cases e)
    case AuthRoute
    from serve_Auth_total [OF assms(1) ord] obtain c' rs where
      run: "serve_Auth dp (rd_ord rd) (rd_rand rd) (rd_now rd) (rd_after rd)
        (request_of (decode_within maxCredentialBody (dc_Credential dc) (hq_Body q)) [] q) c = Some (c', rs)"
      by blast
    then have "central_step dp c c'" by (rule step_Auth [OF ord])
    with AuthRoute run show ?thesis by (simp add: serve_endpoint_def)
  next
    case SignalRoute
    with serve_Signal_step [OF assms(2,3)] show ?thesis
      by (cases "serve_Signal dp rd q c") (simp add: serve_endpoint_def)
  qed (use steps in \<open>simp_all add: serve_endpoint_def answered_def split_beta\<close>)
qed

text \<open>Every status an answer can carry.\<close>

definition statuses :: "int set" where
  "statuses = {200, 201, 204, 400, 401, 404, 405, 409, 429, 500, 503}"

lemmas status_defs = writeError_def writeTokenError_def writeJSONStatus_def statuses_def Let_def

lemma guard_status:
  assumes "\<And>r c. rs_Status (snd (handler r c)) \<in> statuses"
  shows "rs_Status (snd (guard dp now handler r c)) \<in> statuses"
  using assms by (auto simp: guard_def RequireToken_def status_defs split: option.split sum.split)

lemma handler_statuses:
  "rs_Status (snd (h_Peers ord now r reg)) \<in> statuses"
  "rs_Status (snd (h_Heartbeat now r reg)) \<in> statuses"
  "rs_Status (h_PeerLookup now r reg) \<in> statuses"
  "rs_Status (h_ICEConfig now r pv) \<in> statuses"
  "rs_Status (snd (h_OpenSession orders rand now peers ro st)) \<in> statuses"
  "rs_Status (fst (snd (h_GetSession writes now ended r st))) \<in> statuses"
  "rs_Status (fst (snd (h_ReportSession writes now ended rr st))) \<in> statuses"
  "h_Auth lib ord rand now issued clients issuer rc l = Some (l', rs) \<Longrightarrow> rs_Status rs \<in> statuses"
proof -
  show "rs_Status (snd (h_Peers ord now r reg)) \<in> statuses"
    by (simp add: h_Peers_def status_defs split: http_method.split sum.split prod.split)
  show "rs_Status (snd (h_Heartbeat now r reg)) \<in> statuses"
    by (simp add: h_Heartbeat_def status_defs split: sum.split prod.split)
  show "rs_Status (h_PeerLookup now r reg) \<in> statuses"
    by (simp add: h_PeerLookup_def status_defs split: option.split)
  show "rs_Status (h_ICEConfig now r pv) \<in> statuses"
    by (simp add: h_ICEConfig_def status_defs split: sum.split)
  show "rs_Status (snd (h_OpenSession orders rand now peers ro st)) \<in> statuses"
    by (simp add: h_OpenSession_def status_defs split: option.split sum.split prod.split)
  have rep: "rs_Status (fst (snd (report_answer writes now ended sid p state path st))) \<in> statuses" for sid p state path
    by (simp add: report_answer_def status_defs split: sum.split prod.split)
  show "rs_Status (fst (snd (h_ReportSession writes now ended rr st))) \<in> statuses"
    using rep by (auto simp: h_ReportSession_answer status_defs split: option.split)
  show "rs_Status (fst (snd (h_GetSession writes now ended r st))) \<in> statuses"
  proof (cases "rq_Method r = DELETE")
    case True
    then show ?thesis using rep by (auto simp: h_GetSession_delete status_defs)
  next
    case False
    then show ?thesis
      by (simp add: h_GetSession_def status_defs split: http_method.split sum.split prod.split)
  qed
  assume "h_Auth lib ord rand now issued clients issuer rc l = Some (l', rs)"
  then show "rs_Status rs \<in> statuses"
    by (auto simp: h_Auth_steps status_defs split: option.splits sum.splits if_splits)
qed

lemmas serve_defs = serve_Peers_def serve_Heartbeat_def serve_PeerLookup_def serve_ICEConfig_def
  serve_OpenSession_def serve_GetSession_def serve_ReportSession_def

lemma served_statuses:
  "rs_Status (snd (serve_Peers dp verified ord now r c)) \<in> statuses"
  "rs_Status (snd (serve_Heartbeat dp verified now r c)) \<in> statuses"
  "rs_Status (snd (serve_PeerLookup dp verified now r c)) \<in> statuses"
  "rs_Status (snd (serve_ICEConfig dp verified now r c)) \<in> statuses"
  "rs_Status (snd (serve_OpenSession dp verified orders rand looked now ro c)) \<in> statuses"
  "rs_Status (snd (serve_GetSession dp verified writes now r c)) \<in> statuses"
  "rs_Status (snd (serve_ReportSession dp verified writes now rr c)) \<in> statuses"
  unfolding serve_defs by (rule guard_status, simp add: handler_statuses split_beta)+

lemma answered_status:
  "rs_Status (snd out) \<in> statuses \<Longrightarrow> answered out = Some (c', Answered rs) \<Longrightarrow> rs_Status rs \<in> statuses"
  by (auto simp: answered_def split: prod.splits)

lemma serve_Signal_status:
  "serve_Signal dp rd q c = (c', Answered rs) \<Longrightarrow> rs_Status rs = 401"
  by (auto simp: serve_Signal_def signal_authenticate_def writeTokenError_def writeError_def Let_def
      split: option.splits sum.splits)

lemma serve_endpoint_status:
  assumes "serve_endpoint build cfg started dp dc rd q e c = Some (c', Answered rs)"
  shows "rs_Status rs \<in> statuses"
proof (cases e)
  case AuthRoute
  with assms show ?thesis by (auto simp: serve_endpoint_def serve_Auth_def intro: handler_statuses(8))
next
  case SignalRoute
  with assms show ?thesis by (auto simp: serve_endpoint_def statuses_def dest: serve_Signal_status)
qed (use assms in \<open>auto simp: serve_endpoint_def intro: answered_status [OF served_statuses(1)]
    answered_status [OF served_statuses(2)] answered_status [OF served_statuses(3)] answered_status [OF served_statuses(4)]
    answered_status [OF served_statuses(5)] answered_status [OF served_statuses(6)] answered_status [OF served_statuses(7)]\<close>)


text \<open>For the witnesses: a state reached by one exchange at POST /auth, and POST /peers with the token it gave.\<close>

definition sample_readings :: readings where
  "sample_readings =
     \<lparr>rd_verified = 5, rd_before = 1, rd_now = 1, rd_after = 1, rd_ord = rev, rd_orders = (\<lambda>_. rev), rd_rand = None,
      rd_writes = (\<lambda>_ _. True), rd_conn = None\<rparr>"

definition sample_decoders :: decoders where
  "sample_decoders = \<lparr>dc_Credential = (\<lambda>_. None), dc_Open = (\<lambda>_. None), dc_Report = (\<lambda>_. None)\<rparr>"

definition sample_http :: "string list \<Rightarrow> http_request" where
  "sample_http path =
     \<lparr>hq_Method = POST, hq_Path = path, hq_Authorization = ''Bearer t'', hq_Protocols = [], hq_Body = []\<rparr>"

abbreviation sample_cfg :: config where
  "sample_cfg \<equiv> read_config sample_lib sample_env"

abbreviation sample_authed :: central where
  "sample_authed \<equiv> sample_central\<lparr>ce_tokens := [''t'']\<rparr>"

lemma sample_authed_reachable:
  assumes "NewClientStore sample_clients = Inr s"
  shows "central_reachable (sample_deployment s) sample_authed"
proof -
  have "central_reachable (sample_deployment s) sample_central"
    by (rule central_reachable.start [OF sample_start]) (simp add: sample_session_options_def)
  then show ?thesis by (rule central_reachable.step [OF _ step_Auth [OF range_ok_rev sample_exchange [OF assms]]])
qed

lemma sample_readings_ok: "readings_ok sample_readings c"
  by (simp add: readings_ok_def sample_readings_def open_inputs_def)

lemma sample_http_bearer: "bearerToken (hq_Authorization (sample_http path)) = Some ''t''"
  using sample_bearer by (simp add: sample_http_def sample_request_def)

lemma sample_http_issued: "only_issued dp sample_authed (request_of (None :: unit option) [] (sample_http path))"
proof -
  have "tokenFromSubprotocols (request_of (None :: unit option) [] (sample_http path)) = None"
    by (simp add: tokenFromSubprotocols_def sample_http_def)
  then show ?thesis by (simp add: only_issued_def sample_http_bearer)
qed


section \<open>What a request can change\<close>

text \<open>
  What one peer may change: nothing about authentication; of the registry, from an
  instant on, its own record; of the hub, its own channel; of the live sessions, those
  it is in.
\<close>

definition changes_only :: "string \<Rightarrow> time \<Rightarrow> time \<Rightarrow> central \<Rightarrow> central \<Rightarrow> bool" where
  "changes_only p now seen c c' \<longleftrightarrow>
     ce_limiter c' = ce_limiter c \<and> ce_tokens c' = ce_tokens c \<and>
     (\<forall>k t. k \<noteq> p \<and> seen \<le> t \<longrightarrow> live_peers (ce_peers c') t k = live_peers (ce_peers c) t k) \<and>
     (\<forall>k. k \<noteq> p \<longrightarrow> hub_conn (ce_hub c') k = hub_conn (ce_hub c) k) \<and>
     (\<forall>sid. live_view (ce_sessions c') now sid \<noteq> live_view (ce_sessions c) now sid \<longrightarrow>
        (\<exists>h. session_Has h p \<and>
           (live_view (ce_sessions c') now sid = Some h \<or> live_view (ce_sessions c) now sid = Some h)))"

lemma changes_only_refl [simp]: "changes_only p now seen c c"
  by (simp add: changes_only_def)

text \<open>The registry: a registration or a report leaves every other peer as it was, then and later.\<close>

lemma Heartbeat_others_later: "k \<noteq> p \<Longrightarrow> live_peers (fst (registry_Heartbeat now p r)) t k = live_peers r t k"
  by (auto simp: live_peers_def registry_Heartbeat_def split: option.splits)

lemma Register_others_later:
  assumes "registry_wf r" and "range_ok ord" and "now \<le> t" and "k \<noteq> TrimSpace p"
  shows "live_peers (fst (registry_Register ord now p r)) t k = live_peers r t k"
proof -
  have m: "mwf (reg_peers r)" using assms(1) by (simp add: registry_wf_def)
  note late = live_peers_Expire [OF assms(2) m assms(3), unfolded registry_Expire_def]
  have put: "live_peers (r'\<lparr>reg_peers := mput (TrimSpace p) h (reg_peers r')\<rparr>) t k = live_peers r' t k" for r' h
    using assms(4) by (simp add: live_peers_def split: option.split)
  show ?thesis using late by (simp add: registry_Register_def Let_def put)
qed

lemma Connected_others_later:
  assumes "registry_wf r" and "range_ok ord" and "now' \<le> t" and "k \<noteq> p" and "TrimSpace p = p"
  shows "live_peers (presence_Connected ord now now' p r) t k = live_peers r t k"
  using Register_others_later [OF registry_Heartbeat_wf [OF assms(1)] assms(2,3), of k p now p]
    Heartbeat_others_later [OF assms(4)] assms(4,5)
  by (simp add: presence_Connected_def split_beta split: sum.split)

lemma h_Peers_others_later:
  assumes "registry_wf reg" and "range_ok ord" and "now \<le> t" and "k \<noteq> p" and "TrimSpace p = p"
  shows "live_peers (fst (h_Peers ord now (r\<lparr>rq_PeerID := p\<rparr>) reg)) t k = live_peers reg t k"
proof -
  have "fst (h_Peers ord now (r\<lparr>rq_PeerID := p\<rparr>) reg) \<in>
      {reg, fst (registry_Register ord now p reg), registry_Deregister p reg}"
    by (auto simp: h_Peers_def PeerIDFrom_def Let_def split: http_method.split sum.split prod.split)
  with Register_others_later [OF assms(1-3), of k p] assms(4,5) show ?thesis by (auto simp: live_peers_Deregister)
qed

lemma h_Heartbeat_others_later:
  assumes "k \<noteq> p"
  shows "live_peers (fst (h_Heartbeat now (r\<lparr>rq_PeerID := p\<rparr>) reg)) t k = live_peers reg t k"
proof -
  have "fst (h_Heartbeat now (r\<lparr>rq_PeerID := p\<rparr>) reg) \<in> {reg, fst (registry_Heartbeat now p reg)}"
    by (auto simp: h_Heartbeat_def PeerIDFrom_def Let_def split: sum.split prod.split)
  with Heartbeat_others_later [OF assms] show ?thesis by auto
qed

text \<open>The store: a live session that a request adds, moves or ends is one of the caller's.\<close>

definition views_only :: "string \<Rightarrow> time \<Rightarrow> store \<Rightarrow> store \<Rightarrow> bool" where
  "views_only p now st st' \<longleftrightarrow> (\<forall>sid. live_view st' now sid \<noteq> live_view st now sid \<longrightarrow>
     (\<exists>h. session_Has h p \<and> (live_view st' now sid = Some h \<or> live_view st now sid = Some h)))"

lemma views_only_same: "live_view st' now = live_view st now \<Longrightarrow> views_only p now st st'"
  by (simp add: views_only_def)

lemma Report_views:
  assumes "store_wf st"
  shows "views_only p now st (fst (store_Report now sid p state path st))"
proof (cases "store_Report now sid p state path st")
  case (Pair st' r)
  show ?thesis
  proof (cases r)
    case (Inl e)
    with Report_refusal_view [OF assms] Pair show ?thesis by (intro views_only_same) auto
  next
    case (Inr g)
    then obtain h where h: "st_sess st sid = Some h" "session_Has h p" "g = reported now state path h"
        "st_sess st' = (st_sess st)(sid \<mapsto> g)"
      using Report_answer [OF assms] Pair by blast
    have "st_timeout st' = st_timeout st"
      using settings_fields(1) [OF store_Report_settings [OF assms, of now sid p state path]] by (simp add: Pair)
    moreover have "session_Has g p" using h(2,3) by (simp add: session_Has_def reported_def Let_def)
    ultimately show ?thesis
      using h by (auto simp: views_only_def Pair live_view_def split: if_splits option.splits)
  qed
qed

lemma Open_views:
  assumes "store_wf st" and "open_inputs ord rand st" and "TrimSpace p = p"
  shows "views_only p now st (fst (store_Open ord rand now p callee st))"
proof (cases "store_Open ord rand now p callee st")
  case (Pair st' r)
  note promise = store_Open_promise [OF assms(1,2) Pair, unfolded open_promise_def assms(3)]
  show ?thesis
  proof (cases "\<exists>h. r = Inr h \<and> \<not> pair_live st now p (TrimSpace callee)")
    case False
    with promise show ?thesis by (intro views_only_same) (auto simp: Pair split: sum.splits if_splits)
  next
    case True
    with promise obtain h buf where h: "live_view st' now = (live_view st now)(sess_ID h \<mapsto> h)"
        "h = new_session now (RawURLEncoding_EncodeToString buf) p (TrimSpace callee)" by auto
    have "session_Has h p" by (simp add: h(2) new_session_def session_Has_def)
    with h(1) show ?thesis by (auto simp: views_only_def Pair)
  qed
qed

lemma h_OpenSession_views:
  assumes "store_wf st" and "open_inputs ord rand st" and "TrimSpace p = p"
  shows "views_only p now st (fst (h_OpenSession ord rand now peers (r\<lparr>rq_PeerID := p\<rparr>) st))"
proof -
  have "fst (h_OpenSession ord rand now peers (r\<lparr>rq_PeerID := p\<rparr>) st) \<in>
      {st, fst (store_Open ord rand now p (or_PeerID (the (rq_Body r))) st)}"
    by (auto simp: h_OpenSession_def PeerIDFrom_def Let_def split: option.split sum.split prod.split)
  with Open_views [OF assms] views_only_same [of st now st] show ?thesis by auto
qed

lemma h_ReportSession_views:
  assumes "store_wf st"
  shows "views_only p now st (fst (h_ReportSession writes now ended (r\<lparr>rq_PeerID := p\<rparr>) st))"
  using Report_views [OF assms] views_only_same [of st now st]
  by (auto simp: h_ReportSession_answer report_answer_store split: option.split)

lemma h_GetSession_views:
  assumes "store_wf st"
  shows "views_only p now st (fst (h_GetSession writes now ended (r\<lparr>rq_PeerID := p\<rparr>) st))"
proof (cases "rq_Method r = DELETE")
  case True
  with Report_views [OF assms] views_only_same [of st now st] show ?thesis
    by (simp add: h_GetSession_delete report_answer_store)
next
  case False
  have "fst (h_GetSession writes now ended (r\<lparr>rq_PeerID := p\<rparr>) st) \<in> {st, fst (store_Get now (rq_PathID r) p st)}"
    using False by (auto simp: h_GetSession_def PeerIDFrom_def Let_def split: http_method.split sum.split prod.split)
  with store_Get_view [OF assms] show ?thesis by (auto intro!: views_only_same)
qed

text \<open>Each route behind the guard, as its caller.\<close>

lemma changes_peers:
  "(\<And>k t. k \<noteq> p \<Longrightarrow> seen \<le> t \<Longrightarrow> live_peers reg t k = live_peers (ce_peers c) t k) \<Longrightarrow>
     changes_only p now seen c (c\<lparr>ce_peers := reg\<rparr>)"
  by (simp add: changes_only_def)

lemma changes_sessions:
  "views_only p now (ce_sessions c) st \<Longrightarrow> changes_only p now seen c (c\<lparr>ce_sessions := st\<rparr>)"
  "views_only p now (ce_sessions c) st \<Longrightarrow> changes_only p now seen c (c\<lparr>ce_sessions := st, ce_wrote := w\<rparr>)"
  by (simp_all add: changes_only_def views_only_def)

lemma signal_open_changes:
  assumes "registry_wf (ce_peers c)" and "range_ok ord" and "now' \<le> seen" and "TrimSpace p = p"
    and "signal_authenticate (dp_lib dp) verified (dp_verifier dp) r = Inr p"
  shows "changes_only p t0 seen c (fst (signal_open dp verified ord registered now now' cn r c))"
proof -
  obtain h eff where reg: "hub_Register registered p cn (ce_hub c) = (h, eff)" by fastforce
  have conn: "hub_conn h k = (if k = p then Some cn else hub_conn (ce_hub c) k)" for k
    using hub_Register_conn [of registered p cn "ce_hub c" k] by (simp add: reg)
  have "run_presence ord now now' eff (ce_peers c) \<in> {ce_peers c, presence_Connected ord now now' p (ce_peers c)}"
    using reg by (auto simp: hub_Register_def run_presence_def Let_def split: option.splits if_splits)
  moreover have "live_peers (presence_Connected ord now now' p (ce_peers c)) t k = live_peers (ce_peers c) t k"
    if "k \<noteq> p" "seen \<le> t" for t k
    using that assms(3) by (intro Connected_others_later [OF assms(1,2) _ _ assms(4)]) simp_all
  ultimately show ?thesis
    by (auto simp: signal_open_def assms(5) reg changes_only_def conn)
qed

lemma serve_Signal_changes:
  assumes "registry_wf (ce_peers c)" and "readings_ok rd c" and "rd_after rd \<le> seen"
  shows "(case signal_caller_of dp (rd_verified rd) q of
     None \<Rightarrow> fst (serve_Signal dp rd q c) = c \<and> (\<exists>rs. snd (serve_Signal dp rd q c) = Answered rs \<and> rs_Status rs = 401)
   | Some p \<Rightarrow> TrimSpace p = p \<longrightarrow> changes_only p now seen c (fst (serve_Signal dp rd q c)))"
proof (cases "signal_authenticate (dp_lib dp) (rd_verified rd) (dp_verifier dp) (request_of (None :: unit option) [] q)")
  case (Inl rs)
  have "serve_Signal dp rd q c = (c, Answered rs)" by (simp add: serve_Signal_def Inl)
  with serve_Signal_status [OF this] show ?thesis by (simp add: signal_caller_of_def Inl)
next
  case (Inr p)
  have "changes_only p now seen c (fst (signal_open dp (rd_verified rd) (rd_ord rd) (rd_before rd) (rd_now rd)
      (rd_after rd) cn (request_of (None :: unit option) [] q) c))" if "TrimSpace p = p" for cn
    using assms(2) by (intro signal_open_changes [OF assms(1) _ assms(3) that Inr]) (simp add: readings_ok_def)
  then show ?thesis by (simp add: signal_caller_of_def Inr serve_Signal_def Let_def split: option.split)
qed

lemma answered_refused:
  "bearer_caller dp now q = None \<Longrightarrow> answered (guard dp now handler (request_of b i q) c) = Some (c', a) \<Longrightarrow>
     c' = c \<and> (\<exists>rs. a = Answered rs \<and> rs_Status rs = 401)"
  using guard_refuses [of dp now q handler b i c] by (auto simp: answered_def)

lemma endpoint_unauthenticated:
  assumes "registry_wf (ce_peers c)" and "readings_ok rd c" and "\<not> public_route e"
    and "(if e = SignalRoute then signal_caller_of dp (rd_verified rd) q else bearer_caller dp (rd_verified rd) q) = None"
    and "serve_endpoint build cfg started dp dc rd q e c = Some (c', a)"
  shows "c' = c \<and> (\<exists>rs. a = Answered rs \<and> rs_Status rs = 401)"
proof (cases "e = SignalRoute")
  case True
  with serve_Signal_changes [OF assms(1,2) order_refl, of dp q] assms(4,5) show ?thesis
    by (simp add: serve_endpoint_def)
next
  case False
  with assms(4) have none: "bearer_caller dp (rd_verified rd) q = None" by simp
  note refused = answered_refused [OF none]
  show ?thesis
    using assms(3,5) False
    by (cases e) (simp_all add: serve_endpoint_def serve_defs public_route_def refused)
qed

lemma endpoint_authenticated:
  assumes "registry_wf (ce_peers c)" and "store_wf (ce_sessions c)" and "readings_ok rd c" and "\<not> public_route e"
    and "(if e = SignalRoute then signal_caller_of dp (rd_verified rd) q else bearer_caller dp (rd_verified rd) q) = Some p"
    and "TrimSpace p = p" and "rd_now rd \<le> seen" and "rd_after rd \<le> seen"
    and "serve_endpoint build cfg started dp dc rd q e c = Some (c', a)"
  shows "changes_only p (rd_now rd) seen c c'"
proof (cases "e = SignalRoute")
  case True
  with serve_Signal_changes [OF assms(1,3,8), of dp q "rd_now rd"] assms(5,6,9) show ?thesis
    by (simp add: serve_endpoint_def)
next
  case False
  with assms(5) have "bearer_caller dp (rd_verified rd) q = Some p" by simp
  note acc = guard_accepts [OF this]
  have ord: "range_ok (rd_ord rd)" and open_in: "open_inputs (rd_orders rd) (rd_rand rd) (ce_sessions c)"
    using assms(3) by (simp_all add: readings_ok_def)
  have "live_peers (fst (h_Peers (rd_ord rd) (rd_now rd) (r\<lparr>rq_PeerID := p\<rparr>) (ce_peers c))) t k = live_peers (ce_peers c) t k"
    if "k \<noteq> p" "seen \<le> t" for k t and r :: "unit request"
    using assms(7) that by (intro h_Peers_others_later [OF assms(1) ord _ _ assms(6)]) simp_all
  note changes = changes_peers [of p seen, OF this] changes_peers [of p seen, OF h_Heartbeat_others_later]
    changes_sessions(1) [OF h_OpenSession_views [OF assms(2) open_in assms(6)]]
    changes_sessions(2) [OF h_GetSession_views [OF assms(2)]] changes_sessions(2) [OF h_ReportSession_views [OF assms(2)]]
  show ?thesis
    using assms(4,9) False changes
    by (cases e) (auto simp: serve_endpoint_def serve_defs public_route_def acc answered_def split_beta)
qed

lemma caller_configured:
  assumes "central_inv configs dp c" and "only_issued dp c (request_of (None :: unit option) [] q)"
    and "bearer_caller dp now q = Some p \<or> signal_caller_of dp now q = Some p"
  shows "configured configs p"
proof -
  obtain raw cl where "bearerToken (hq_Authorization q) = Some raw \<or>
        tokenFromSubprotocols (request_of (None :: unit option) [] q) = Some raw"
      "verifier_Verify (dp_lib dp) now raw (dp_verifier dp) = Inr cl" "p = cl_PeerID cl"
    using assms(3) by (auto simp: bearer_caller_def signal_caller_of_def signal_authenticate_def
        split: option.splits sum.splits)
  moreover from this have "raw \<in> set (ce_tokens c)"
    using assms(2) unfolding only_issued_def by auto
  ultimately show ?thesis using inv_parts(5) [OF assms(1)] unfolding names_configured_def by blast
qed



end
