(* ===== verification/Go_Json.thy ===== *)
theory Go_Json
  imports Go_Parse
begin

text \<open>
  encoding/json, as far as the program uses it: reading a JSON text into a value,
  decoding a value into a struct of strings, and writing strings, on byte strings. A
  string of a text may hold any bytes; what is not UTF-8 is read as the replacement
  character, one for each byte, and written as one.
\<close>

section \<open>UTF-8\<close>

abbreviation chr_code :: "char \<Rightarrow> nat" where
  "chr_code \<equiv> of_char"

definition byte_in :: "nat \<Rightarrow> nat \<Rightarrow> char \<Rightarrow> bool" where
  "byte_in lo hi c \<longleftrightarrow> lo \<le> chr_code c \<and> chr_code c \<le> hi"

abbreviation continuation :: "char \<Rightarrow> bool" where
  "continuation \<equiv> byte_in 0x80 0xBF"

text \<open>
  utf8.DecodeRune, by the shape of a first byte: how many bytes the rune takes, 0 where
  none starts so, and the range its second byte is in.
\<close>

definition lead_shape :: "char \<Rightarrow> nat \<times> nat \<times> nat" where
  "lead_shape a =
     (let x = chr_code a
      in if x < 0x80 then (1, 0x80, 0xBF)
         else if x < 0xC2 then (0, 0x80, 0xBF)
         else if x < 0xE0 then (2, 0x80, 0xBF)
         else if x < 0xF0 then (3, if x = 0xE0 then 0xA0 else 0x80, if x = 0xED then 0x9F else 0xBF)
         else if x < 0xF5 then (4, if x = 0xF0 then 0x90 else 0x80, if x = 0xF4 then 0x8F else 0xBF)
         else (0, 0x80, 0xBF))"

definition tail_fits :: "nat \<times> nat \<times> nat \<Rightarrow> string \<Rightarrow> bool" where
  "tail_fits shape cs =
     (case shape of (n, lo, hi) \<Rightarrow> n = Suc (length cs) \<and>
        (case cs of [] \<Rightarrow> True | b # bs \<Rightarrow> byte_in lo hi b \<and> list_all continuation bs))"

text \<open>How many bytes the rune a string starts with takes, 0 when it starts with none.\<close>

fun utf8_len :: "string \<Rightarrow> nat" where
  "utf8_len [] = 0"
| "utf8_len (a # s) =
     (let n = fst (lead_shape a) in if tail_fits (lead_shape a) (take (n - 1) s) then n else 0)"

definition replacement :: string where
  "replacement = [CHR 0xEF, CHR 0xBF, CHR 0xBD]"

text \<open>utf8.EncodeRune.\<close>

definition EncodeRune :: "nat \<Rightarrow> string" where
  "EncodeRune r =
     (if r < 0x80 then [char_of r]
      else if r < 0x800 then [char_of (0xC0 + r div 64), char_of (0x80 + r mod 64)]
      else if 0xD800 \<le> r \<and> r < 0xE000 \<or> 0x110000 \<le> r then replacement
      else if r < 0x10000 then
        [char_of (0xE0 + r div 4096), char_of (0x80 + r div 64 mod 64), char_of (0x80 + r mod 64)]
      else
        [char_of (0xF0 + r div 262144), char_of (0x80 + r div 4096 mod 64), char_of (0x80 + r div 64 mod 64),
         char_of (0x80 + r mod 64)])"

lemma tail_fits_len: "tail_fits shape cs \<Longrightarrow> fst shape = Suc (length cs)"
  by (cases shape) (simp add: tail_fits_def)

lemma utf8_len_le: "utf8_len s \<le> length s"
proof (cases s)
  case (Cons a u)
  then show ?thesis by (cases "lead_shape a") (auto simp: tail_fits_def Let_def)
qed simp

lemma utf8_len_ascii: "chr_code c < 128 \<Longrightarrow> utf8_len (c # s) = 1"
  by (simp add: lead_shape_def tail_fits_def Let_def)

text \<open>The rune depends on its own bytes only, and all but the first continue it.\<close>

lemma utf8_len_take:
  assumes "0 < utf8_len s"
  shows "utf8_len (take (utf8_len s) s @ t) = utf8_len s"
proof (cases s)
  case (Cons a u)
  let ?n = "fst (lead_shape a)"
  have k: "utf8_len s = ?n" "tail_fits (lead_shape a) (take (?n - 1) u)"
    using assms Cons by (auto simp: Let_def split: if_splits)
  have "?n = Suc (length (take (?n - 1) u))" using tail_fits_len [OF k(2)] .
  then have len: "length (take (?n - 1) u) = ?n - 1" "0 < ?n" by linarith+
  have whole: "take ?n (a # u) @ t = a # take (?n - 1) u @ t" using len(2) by (cases ?n) simp_all
  have "take (?n - 1) (take (?n - 1) u @ t) = take (?n - 1) u" using len(1) by simp
  then have "utf8_len (a # take (?n - 1) u @ t) = ?n" using k(2) by (simp only: utf8_len.simps Let_def if_True)
  then show ?thesis unfolding k(1) unfolding Cons whole .
qed (use assms in simp)

lemma lead_shape_range:
  "lead_shape a = (n, lo, hi) \<Longrightarrow> 128 \<le> lo \<and> hi \<le> 191 \<and> n \<le> 4"
  by (auto simp: lead_shape_def Let_def split: if_splits)

lemma utf8_len_continues:
  assumes "c \<in> set (take (utf8_len (a # s) - 1) s)"
  shows "128 \<le> chr_code c \<and> chr_code c < 192"
proof -
  obtain n lo hi where sh: "lead_shape a = (n, lo, hi)" by (metis prod_cases3)
  with assms have "tail_fits (n, lo, hi) (take (n - 1) s)" "c \<in> set (take (n - 1) s)"
    by (auto simp: Let_def split: if_splits)
  then show ?thesis
    using lead_shape_range [OF sh]
    by (cases "take (n - 1) s") (auto simp: tail_fits_def byte_in_def list_all_iff)
qed

function to_valid :: "string \<Rightarrow> string" where
  "to_valid [] = []"
| "to_valid (c # s) =
     (let k = utf8_len (c # s)
      in if k = 0 then replacement @ to_valid s else take k (c # s) @ to_valid (drop (k - 1) s))"
  by pat_completeness auto
termination by (relation "measure length") auto

definition valid_utf8 :: "string \<Rightarrow> bool" where
  "valid_utf8 s \<longleftrightarrow> to_valid s = s"

lemma to_valid_take:
  assumes "0 < utf8_len s"
  shows "to_valid (take (utf8_len s) s @ t) = take (utf8_len s) s @ to_valid t"
proof (cases s)
  case (Cons c u)
  let ?k = "utf8_len s"
  have "utf8_len (take ?k s @ t) = ?k" by (rule utf8_len_take [OF assms])
  moreover have "take ?k s @ t = c # take (?k - 1) u @ t" using assms Cons by (cases ?k) simp_all
  moreover have "length (take (?k - 1) u) = ?k - 1" using utf8_len_le [of s] Cons by simp
  moreover have "take ?k (c # take (?k - 1) u @ t) = c # take (?k - 1) u"
    using assms calculation(3) by (cases ?k) simp_all
  ultimately show ?thesis using assms by (simp del: utf8_len.simps add: Let_def)
qed (use assms in simp)

lemma replacement_len: "utf8_len (replacement @ t) = 3"
  by (simp add: replacement_def byte_in_def lead_shape_def tail_fits_def Let_def)

lemma to_valid_replacement: "to_valid (replacement @ t) = replacement @ to_valid t"
  using to_valid_take [of "replacement @ []" t] replacement_len [of "[]"] by (simp add: replacement_def)

lemma to_valid_idem [simp]: "to_valid (to_valid s) = to_valid s"
proof (induction s rule: to_valid.induct)
  case (2 c s)
  let ?k = "utf8_len (c # s)"
  have "to_valid (take ?k (c # s) @ to_valid (drop (?k - 1) s)) =
      take ?k (c # s) @ to_valid (to_valid (drop (?k - 1) s))" if "0 < ?k"
    by (rule to_valid_take [OF that])
  with 2 show ?case by (auto simp: Let_def to_valid_replacement simp del: utf8_len.simps)
qed simp

lemma valid_utf8_to_valid [simp]: "valid_utf8 (to_valid s)"
  by (simp add: valid_utf8_def)

lemma ascii_valid: "\<forall>c \<in> set s. chr_code c < 128 \<Longrightarrow> valid_utf8 s"
  unfolding valid_utf8_def by (induction s) (simp_all add: utf8_len_ascii Let_def del: utf8_len.simps)

section \<open>Strings in a text\<close>

abbreviation quote_mark :: char where "quote_mark \<equiv> CHR 0x22"
abbreviation backslash :: char where "backslash \<equiv> CHR 0x5C"

definition hex_digit :: "nat \<Rightarrow> char" where
  "hex_digit n = (if n < 10 then char_of (48 + n) else char_of (87 + n))"

definition hex_value :: "char \<Rightarrow> nat option" where
  "hex_value c =
     (if byte_in 48 57 c then Some (chr_code c - 48)
      else if byte_in 97 102 c then Some (chr_code c - 87)
      else if byte_in 65 70 c then Some (chr_code c - 55)
      else None)"

text \<open>Four hexadecimal digits.\<close>

fun getu4 :: "string \<Rightarrow> (nat \<times> string) option" where
  "getu4 (a # b # c # d # s) =
     (case (hex_value a, hex_value b, hex_value c, hex_value d) of
        (Some w, Some x, Some y, Some z) \<Rightarrow> Some (((w * 16 + x) * 16 + y) * 16 + z, s)
      | _ \<Rightarrow> None)"
| "getu4 _ = None"

definition is_surrogate :: "nat \<Rightarrow> bool" where
  "is_surrogate r \<longleftrightarrow> 0xD800 \<le> r \<and> r < 0xE000"

text \<open>utf16.DecodeRune on two halves of a pair.\<close>

definition surrogate_pair :: "nat \<Rightarrow> nat \<Rightarrow> nat option" where
  "surrogate_pair x y =
     (if 0xD800 \<le> x \<and> x < 0xDC00 \<and> 0xDC00 \<le> y \<and> y < 0xE000
      then Some ((x - 0xD800) * 1024 + (y - 0xDC00) + 0x10000) else None)"

text \<open>After \<open>\u\<close>: a rune, a pair of surrogates, or half a pair, which is replaced.\<close>

definition unicode_escape :: "string \<Rightarrow> (string \<times> string) option" where
  "unicode_escape s =
     (case getu4 s of
        None \<Rightarrow> None
      | Some (x, r) \<Rightarrow>
          if \<not> is_surrogate x then Some (EncodeRune x, r)
          else
            (case (if take 2 r = [backslash, CHR ''u''] then getu4 (drop 2 r) else None) of
               None \<Rightarrow> Some (replacement, r)
             | Some (y, r') \<Rightarrow>
                 (case surrogate_pair x y of
                    None \<Rightarrow> Some (replacement, r)
                  | Some rune \<Rightarrow> Some (EncodeRune rune, r'))))"

definition unescape :: "string \<Rightarrow> (string \<times> string) option" where
  "unescape s =
     (case s of
        [] \<Rightarrow> None
      | e # r \<Rightarrow>
          if e = quote_mark \<or> e = backslash \<or> e = CHR ''/'' then Some ([e], r)
          else if e = CHR ''b'' then Some ([CHR 0x08], r)
          else if e = CHR ''f'' then Some ([CHR 0x0C], r)
          else if e = CHR ''n'' then Some ([CHR 0x0A], r)
          else if e = CHR ''r'' then Some ([CHR 0x0D], r)
          else if e = CHR ''t'' then Some ([CHR 0x09], r)
          else if e = CHR ''u'' then unicode_escape r
          else None)"

lemma getu4_length: "getu4 s = Some (x, r) \<Longrightarrow> length r < length s"
  by (cases s rule: getu4.cases) (auto split: option.splits)

lemma unicode_escape_length: "unicode_escape s = Some (x, r) \<Longrightarrow> length r < length s"
  by (auto simp: unicode_escape_def split: option.splits if_splits dest!: getu4_length)

lemma unescape_length: "unescape s = Some (x, r) \<Longrightarrow> length r < length s"
  by (auto simp: unescape_def split: list.splits if_splits dest!: unicode_escape_length)

definition prepend :: "string \<Rightarrow> (string \<times> string) option \<Rightarrow> (string \<times> string) option" where
  "prepend x res = map_option (\<lambda>(y, r). (x @ y, r)) res"

lemma prepend_Some [simp]: "prepend x (Some (y, r)) = Some (x @ y, r)"
  by (simp add: prepend_def)

lemma prepend_eq_Some: "prepend x res = Some (y, r) \<longleftrightarrow> (\<exists>z. res = Some (z, r) \<and> y = x @ z)"
  by (auto simp: prepend_def)

text \<open>The rest of a string after its opening mark: its bytes, and what follows its closing mark.\<close>

function json_str :: "string \<Rightarrow> (string \<times> string) option" where
  "json_str [] = None"
| "json_str (c # s) =
     (if c = quote_mark then Some ([], s)
      else if c = backslash then
        (case unescape s of None \<Rightarrow> None | Some (x, r) \<Rightarrow> prepend x (json_str r))
      else if chr_code c < 0x20 then None
      else
        let k = utf8_len (c # s)
        in if k = 0 then prepend replacement (json_str s)
           else prepend (take k (c # s)) (json_str (drop (k - 1) s)))"
  by pat_completeness auto
termination by (relation "measure length") (auto dest: unescape_length)

text \<open>Writing a string: what HTML or JavaScript would read is escaped, and what is not UTF-8 is replaced.\<close>

definition plain_in_text :: "char \<Rightarrow> bool" where
  "plain_in_text c \<longleftrightarrow> 0x20 \<le> chr_code c \<and> chr_code c < 0x80 \<and> c \<notin> set [quote_mark, backslash, CHR ''<'', CHR ''>'', CHR ''&'']"

definition u00 :: "char \<Rightarrow> string" where
  "u00 c = [backslash, CHR ''u'', CHR ''0'', CHR ''0'', hex_digit (chr_code c div 16), hex_digit (chr_code c mod 16)]"

definition escape_char :: "char \<Rightarrow> string" where
  "escape_char c =
     (if c = quote_mark \<or> c = backslash then [backslash, c]
      else if c = CHR 0x08 then [backslash, CHR ''b'']
      else if c = CHR 0x0C then [backslash, CHR ''f'']
      else if c = CHR 0x0A then [backslash, CHR ''n'']
      else if c = CHR 0x0D then [backslash, CHR ''r'']
      else if c = CHR 0x09 then [backslash, CHR ''t'']
      else u00 c)"

text \<open>The two line separators of Unicode.\<close>

definition line_separator :: "string \<Rightarrow> bool" where
  "line_separator s \<longleftrightarrow> take 3 s = [CHR 0xE2, CHR 0x80, CHR 0xA8] \<or> take 3 s = [CHR 0xE2, CHR 0x80, CHR 0xA9]"

definition u202 :: "string \<Rightarrow> string" where
  "u202 s = [backslash, CHR ''u'', CHR ''2'', CHR ''0'', CHR ''2'', hex_digit (chr_code (s ! 2) mod 16)]"

function json_escape :: "string \<Rightarrow> string" where
  "json_escape [] = []"
| "json_escape (c # s) =
     (if chr_code c < 0x80 then (if plain_in_text c then [c] else escape_char c) @ json_escape s
      else
        let k = utf8_len (c # s)
        in if k = 0 then [backslash] @ ''ufffd'' @ json_escape s
           else if line_separator (c # s) then u202 (c # s) @ json_escape (drop (k - 1) s)
           else take k (c # s) @ json_escape (drop (k - 1) s))"
  by pat_completeness auto
termination by (relation "measure length") auto

definition json_quote :: "string \<Rightarrow> string" where
  "json_quote s = quote_mark # json_escape s @ [quote_mark]"

text \<open>What is written is read back, with what was not UTF-8 replaced.\<close>

lemma hex_value_digit: "n < 16 \<Longrightarrow> hex_value (hex_digit n) = Some n"
  by (auto simp: hex_value_def hex_digit_def byte_in_def)

lemma json_str_u00:
  assumes "chr_code c < 0x80"
  shows "json_str (u00 c @ t) = prepend [c] (json_str t)"
proof -
  have "chr_code c div 16 * 16 + chr_code c mod 16 = chr_code c" by simp
  moreover have "hex_value (CHR ''0'') = Some 0" by (simp add: hex_value_def byte_in_def)
  ultimately have "getu4 (tl (tl (u00 c)) @ t) = Some (chr_code c, t)"
    using assms by (simp add: u00_def hex_value_digit)
  moreover have "\<not> is_surrogate (chr_code c)" using assms by (simp add: is_surrogate_def)
  ultimately have "unicode_escape (tl (tl (u00 c)) @ t) = Some ([c], t)"
    using assms by (simp add: unicode_escape_def EncodeRune_def)
  then show ?thesis by (simp add: u00_def unescape_def)
qed

lemma json_str_escape_char:
  assumes "chr_code c < 0x80"
  shows "json_str (escape_char c @ t) = prepend [c] (json_str t)"
  using json_str_u00 [OF assms] by (auto simp: escape_char_def unescape_def)

lemma json_str_plain: "plain_in_text c \<Longrightarrow> json_str (c # t) = prepend [c] (json_str t)"
  by (auto simp: plain_in_text_def utf8_len_ascii Let_def simp del: utf8_len.simps)

lemma EncodeRune_specials:
  "EncodeRune 0xFFFD = replacement"
  "EncodeRune 0x2028 = [CHR 0xE2, CHR 0x80, CHR 0xA8]"
  "EncodeRune 0x2029 = [CHR 0xE2, CHR 0x80, CHR 0xA9]"
  by (simp_all add: EncodeRune_def replacement_def char_of_eq_iff)

lemma json_str_replaced: "json_str ([backslash] @ ''ufffd'' @ t) = prepend replacement (json_str t)"
proof -
  have "getu4 (''fffd'' @ t) = Some (0xFFFD, t)" by (simp add: hex_value_def byte_in_def)
  then have "unicode_escape (''fffd'' @ t) = Some (replacement, t)"
    by (simp add: unicode_escape_def is_surrogate_def EncodeRune_specials)
  then show ?thesis by (simp add: unescape_def)
qed

lemma json_str_u202:
  assumes "line_separator s"
  shows "json_str (u202 s @ t) = prepend (take 3 s) (json_str t)"
proof -
  let ?d = "hex_digit (chr_code (s ! 2) mod 16)"
  have "s ! 2 = z" if "take 3 s = [x, y, z]" for x y z using arg_cong [OF that, of "\<lambda>l. l ! 2"] by simp
  with assms have "chr_code (s ! 2) mod 16 = 8 \<and> take 3 s = EncodeRune 0x2028 \<or>
      chr_code (s ! 2) mod 16 = 9 \<and> take 3 s = EncodeRune 0x2029"
    by (auto simp: line_separator_def EncodeRune_specials)
  then have rune: "EncodeRune (0x2020 + chr_code (s ! 2) mod 16) = take 3 s" by auto
  have "getu4 ([CHR ''2'', CHR ''0'', CHR ''2'', ?d] @ t) = Some (0x2020 + chr_code (s ! 2) mod 16, t)"
    by (simp add: hex_value_digit) (simp add: hex_value_def byte_in_def)
  moreover have "\<not> is_surrogate (0x2020 + chr_code (s ! 2) mod 16)" by (simp add: is_surrogate_def)
  ultimately have "unicode_escape ([CHR ''2'', CHR ''0'', CHR ''2'', ?d] @ t) = Some (take 3 s, t)"
    by (simp only: unicode_escape_def rune option.case prod.case) simp
  then show ?thesis by (simp add: u202_def unescape_def)
qed

lemma json_str_rune:
  assumes "128 \<le> chr_code (hd s)" and "0 < utf8_len s"
  shows "json_str (take (utf8_len s) s @ t) = prepend (take (utf8_len s) s) (json_str t)"
proof (cases s)
  case (Cons c u)
  let ?k = "utf8_len s"
  have k: "utf8_len (take ?k s @ t) = ?k" by (rule utf8_len_take [OF assms(2)])
  have split: "take ?k s @ t = c # take (?k - 1) u @ t" using assms Cons by (cases ?k) simp_all
  have len: "length (take (?k - 1) u) = ?k - 1" using utf8_len_le [of s] Cons by simp
  have "c \<noteq> quote_mark" "c \<noteq> backslash" "\<not> chr_code c < 0x20" using assms(1) Cons by auto
  moreover have "take ?k (c # take (?k - 1) u @ t) = take ?k s" using len assms(2) Cons by (cases ?k) simp_all
  moreover have "drop (?k - 1) (take (?k - 1) u @ t) = t" using len by simp
  ultimately show ?thesis
    using k assms(2) unfolding split by (simp only: json_str.simps Let_def if_False less_numeral_extra) simp
qed (use assms in simp)

lemma json_str_escape: "json_str (json_escape s @ quote_mark # t) = Some (to_valid s, t)"
proof (induction s rule: json_escape.induct)
  case (2 c s)
  let ?k = "utf8_len (c # s)"
  show ?case
  proof (cases "chr_code c < 0x80")
    case True
    then have "json_str ((if plain_in_text c then [c] else escape_char c) @ u) = prepend [c] (json_str u)" for u
      using json_str_plain [of c u] json_str_escape_char [OF True, of u] by simp
    moreover have "to_valid (c # s) = c # to_valid s" using True by (simp add: utf8_len_ascii Let_def del: utf8_len.simps)
    ultimately show ?thesis using True 2(1) by (simp del: to_valid.simps)
  next
    case False
    show ?thesis
    proof (cases "?k = 0")
      case True
      with False 2(2) json_str_replaced [of "json_escape s @ quote_mark # t"] show ?thesis
        by (simp add: Let_def del: utf8_len.simps json_str.simps)
    next
      case pos: False
      have valid: "to_valid (c # s) = take ?k (c # s) @ to_valid (drop (?k - 1) s)" using pos by (simp add: Let_def del: utf8_len.simps)
      show ?thesis
      proof (cases "line_separator (c # s)")
        case True
        then have "?k = 3"
          by (cases s; cases "tl s") (auto simp: line_separator_def lead_shape_def tail_fits_def byte_in_def Let_def)
        with True False pos 2(3) json_str_u202 [OF True, of "json_escape (drop (?k - 1) s) @ quote_mark # t"] valid show ?thesis
          by (simp add: Let_def del: utf8_len.simps json_str.simps to_valid.simps)
      next
        case plain: False
        from False pos have "json_str (take ?k (c # s) @ u) = prepend (take ?k (c # s)) (json_str u)" for u
          by (intro json_str_rune) simp_all
        with plain False pos 2(4) valid show ?thesis
          by (simp add: Let_def del: utf8_len.simps json_str.simps to_valid.simps)
      qed
    qed
  qed
qed simp

section \<open>What is read is UTF-8\<close>

lemma valid_append: "valid_utf8 x \<Longrightarrow> to_valid (x @ y) = x @ to_valid y"
proof (induction x rule: to_valid.induct)
  case (2 c s)
  let ?k = "utf8_len (c # s)"
  have pos: "?k \<noteq> 0"
  proof
    assume zero: "?k = 0"
    with 2(3) have "replacement @ to_valid s = c # s" by (simp add: valid_utf8_def Let_def del: utf8_len.simps)
    with replacement_len [of "to_valid s"] zero show False by simp
  qed
  have split: "c # s = take ?k (c # s) @ drop (?k - 1) s" using pos by (cases ?k) simp_all
  have "take ?k (c # s) @ to_valid (drop (?k - 1) s) = c # s"
    using 2(3) pos by (simp only: valid_utf8_def to_valid.simps Let_def if_False)
  then have rest: "valid_utf8 (drop (?k - 1) s)" unfolding valid_utf8_def using split same_append_eq by metis
  have "to_valid ((c # s) @ y) = to_valid (take ?k (c # s) @ drop (?k - 1) s @ y)"
    using split by (metis append_assoc)
  also have "\<dots> = take ?k (c # s) @ to_valid (drop (?k - 1) s @ y)" by (rule to_valid_take) (use pos in simp)
  also have "\<dots> = take ?k (c # s) @ drop (?k - 1) s @ to_valid y" using 2(2) [OF refl pos] rest by simp
  finally show ?case using split by (metis append_assoc)
qed simp

lemma valid_utf8_append: "valid_utf8 x \<Longrightarrow> valid_utf8 y \<Longrightarrow> valid_utf8 (x @ y)"
  by (simp add: valid_utf8_def valid_append)

lemma valid_rune:
  assumes "utf8_len s = length s" and "s \<noteq> []"
  shows "valid_utf8 s"
  using to_valid_take [of s "[]"] assms by (simp add: valid_utf8_def del: utf8_len.simps)

lemma code_char: "n < 256 \<Longrightarrow> chr_code (char_of n) = n"
  by simp

lemma EncodeRune_len2:
  fixes a c :: nat
  assumes "2 \<le> a" and "a < 32" and "c < 64"
  shows "utf8_len [char_of (0xC0 + a), char_of (0x80 + c)] = 2"
proof -
  have "chr_code (char_of (0xC0 + a)) = 0xC0 + a" "chr_code (char_of (0x80 + c)) = 0x80 + c"
    using assms by (simp_all only: code_char)
  then show ?thesis using assms by (simp only: utf8_len.simps lead_shape_def tail_fits_def byte_in_def Let_def) simp
qed

lemma EncodeRune_len3:
  fixes a b c :: nat
  assumes "a < 16" and "b < 64" and "c < 64" and "a = 0 \<Longrightarrow> 32 \<le> b" and "a = 13 \<Longrightarrow> b < 32"
  shows "utf8_len [char_of (0xE0 + a), char_of (0x80 + b), char_of (0x80 + c)] = 3"
proof -
  have "chr_code (char_of (0xE0 + a)) = 0xE0 + a" "chr_code (char_of (0x80 + b)) = 0x80 + b"
      "chr_code (char_of (0x80 + c)) = 0x80 + c"
    using assms(1-3) by (simp_all only: code_char)
  then show ?thesis using assms by (simp only: utf8_len.simps lead_shape_def tail_fits_def byte_in_def Let_def) (auto simp: byte_in_def)
qed

lemma EncodeRune_len4:
  fixes a b c d :: nat
  assumes "a < 5" and "b < 64" and "c < 64" and "d < 64" and "a = 0 \<Longrightarrow> 16 \<le> b" and "a = 4 \<Longrightarrow> b < 16"
  shows "utf8_len [char_of (0xF0 + a), char_of (0x80 + b), char_of (0x80 + c), char_of (0x80 + d)] = 4"
proof -
  have "chr_code (char_of (0xF0 + a)) = 0xF0 + a" "chr_code (char_of (0x80 + b)) = 0x80 + b"
      "chr_code (char_of (0x80 + c)) = 0x80 + c" "chr_code (char_of (0x80 + d)) = 0x80 + d"
    using assms(1-4) by (simp_all only: code_char)
  then show ?thesis using assms by (simp only: utf8_len.simps lead_shape_def tail_fits_def byte_in_def Let_def) (auto simp: byte_in_def)
qed

text \<open>The six bits of each byte of a rune.\<close>

lemma six_bits: "(r :: nat) div 64 mod 64 + 64 * (r div 4096) = r div 64" "r div 4096 mod 64 + 64 * (r div 262144) = r div 4096"
proof -
  have "r div 4096 = r div 64 div 64" "r div 262144 = r div 4096 div 64" by (simp_all add: div_mult2_eq [symmetric])
  then show "r div 64 mod 64 + 64 * (r div 4096) = r div 64" "r div 4096 mod 64 + 64 * (r div 262144) = r div 4096" by simp_all
qed

lemma EncodeRune_valid: "valid_utf8 (EncodeRune r)"
proof -
  consider "r < 0x80" | "0x80 \<le> r" "r < 0x800" | "0x800 \<le> r" "0xD800 \<le> r \<and> r < 0xE000 \<or> 0x110000 \<le> r"
    | (three) "0x800 \<le> r" "r < 0x10000" "\<not> (0xD800 \<le> r \<and> r < 0xE000)" | (four) "0x10000 \<le> r" "r < 0x110000" by linarith
  then have "utf8_len (EncodeRune r) = length (EncodeRune r)"
  proof cases
    case 1
    then show ?thesis by (simp add: EncodeRune_def utf8_len_ascii del: utf8_len.simps)
  next
    case 2
    then have "2 \<le> r div 64" "r div 64 < 32" by simp_all
    with EncodeRune_len2 [of "r div 64" "r mod 64"] 2 show ?thesis by (simp add: EncodeRune_def del: utf8_len.simps)
  next
    case 3
    then show ?thesis using replacement_len [of "[]"] by (auto simp: EncodeRune_def replacement_def simp del: utf8_len.simps)
  next
    case three
    have "r div 64 < 864" if "r div 4096 = 13"
      using three that by (intro less_mult_imp_div_less) linarith
    then have "r div 4096 < 16" "r div 4096 = 0 \<Longrightarrow> 32 \<le> r div 64 mod 64" "r div 4096 = 13 \<Longrightarrow> r div 64 mod 64 < 32"
      using three six_bits(1) [of r] by simp_all
    with EncodeRune_len3 [of "r div 4096" "r div 64 mod 64" "r mod 64"] three show ?thesis
      by (auto simp: EncodeRune_def simp del: utf8_len.simps)
  next
    case four
    have "r div 262144 < 5" "r div 262144 = 0 \<Longrightarrow> 16 \<le> r div 4096 mod 64" "r div 262144 = 4 \<Longrightarrow> r div 4096 mod 64 < 16"
      using four six_bits(2) [of r] by simp_all
    with EncodeRune_len4 [of "r div 262144" "r div 4096 mod 64" "r div 64 mod 64" "r mod 64"] four show ?thesis
      by (simp add: EncodeRune_def del: utf8_len.simps)
  qed
  moreover have "EncodeRune r \<noteq> []" by (simp add: EncodeRune_def replacement_def)
  ultimately show ?thesis by (rule valid_rune)
qed

end
