(* ===== verification/Go_Json_Text.thy ===== *)
theory Go_Json_Text
  imports Go_Json
begin

text \<open>
  encoding/json on whole texts: the values of a text, which the scanner accepts up to
  10000 levels of nesting; the compaction every value written raw goes through; and that
  compacting a value does not change it.
\<close>

section \<open>Values\<close>

datatype json =
    JNull
  | JBool bool
  | JNum string
  | JStr string
  | JArr "json list"
  | JObj "(string \<times> json) list"

definition is_ws :: "char \<Rightarrow> bool" where
  "is_ws c \<longleftrightarrow> c \<in> set [CHR '' '', CHR 0x09, CHR 0x0A, CHR 0x0D]"

abbreviation skip_ws :: "string \<Rightarrow> string" where
  "skip_ws \<equiv> dropWhile is_ws"

definition scan_digits :: "string \<Rightarrow> string option" where
  "scan_digits s = (case s of [] \<Rightarrow> None | c # r \<Rightarrow> if is_digit c then Some (dropWhile is_digit r) else None)"

definition scan_int :: "string \<Rightarrow> string option" where
  "scan_int s = (case s of [] \<Rightarrow> None | c # r \<Rightarrow> if c = CHR ''0'' then Some r else scan_digits s)"

definition scan_frac :: "string \<Rightarrow> string option" where
  "scan_frac s = (case s of [] \<Rightarrow> Some [] | c # r \<Rightarrow> if c = CHR ''.'' then scan_digits r else Some s)"

definition scan_exp :: "string \<Rightarrow> string option" where
  "scan_exp s =
     (case s of
        [] \<Rightarrow> Some []
      | c # r \<Rightarrow>
          if c \<noteq> CHR ''e'' \<and> c \<noteq> CHR ''E'' then Some s
          else (case r of
                  [] \<Rightarrow> None
                | d # r' \<Rightarrow> if d = CHR ''+'' \<or> d = CHR ''-'' then scan_digits r' else scan_digits r))"

text \<open>What follows a number.\<close>

definition scan_number :: "string \<Rightarrow> string option" where
  "scan_number s =
     (case scan_int (if s \<noteq> [] \<and> hd s = CHR ''-'' then tl s else s) of
        None \<Rightarrow> None
      | Some r \<Rightarrow> (case scan_frac r of None \<Rightarrow> None | Some r' \<Rightarrow> scan_exp r'))"

definition scan_word :: "string \<Rightarrow> json \<Rightarrow> string \<Rightarrow> (json \<times> string) option" where
  "scan_word w v s = (if take (length w) s = w then Some (v, drop (length w) s) else None)"

text \<open>
  The loops over the items of an array and the members of an object, on the parser of
  one value; the comparison of lengths only says that a value takes some of the text. A
  member comes with the text of its value as well.
\<close>

function array_items :: "(string \<Rightarrow> (json \<times> string) option) \<Rightarrow> string \<Rightarrow> (json list \<times> string) option" where
  "array_items p s =
     (case p s of
        None \<Rightarrow> None
      | Some (v, r) \<Rightarrow>
          (case skip_ws r of
             [] \<Rightarrow> None
           | c # r' \<Rightarrow>
               if c = CHR '']'' then Some ([v], r')
               else if c = CHR '','' \<and> length r' < length s
               then map_option (\<lambda>(vs, r''). (v # vs, r'')) (array_items p r')
               else None))"
  by pat_completeness auto
termination by (relation "measure (\<lambda>(p, s). length s)") auto

definition object_member ::
  "(string \<Rightarrow> (json \<times> string) option) \<Rightarrow> string \<Rightarrow> ((string \<times> string \<times> json) \<times> string) option" where
  "object_member p s =
     (case skip_ws s of
        [] \<Rightarrow> None
      | c # r \<Rightarrow>
          if c \<noteq> quote_mark then None
          else (case json_str r of
                  None \<Rightarrow> None
                | Some (k, r1) \<Rightarrow>
                    (case skip_ws r1 of
                       [] \<Rightarrow> None
                     | c1 # r2 \<Rightarrow>
                         if c1 \<noteq> CHR '':'' then None
                         else
                           let v_text = skip_ws r2
                           in (case p v_text of
                                 None \<Rightarrow> None
                               | Some (v, r3) \<Rightarrow> Some ((k, take (length v_text - length r3) v_text, v), r3)))))"

function object_members ::
  "(string \<Rightarrow> (json \<times> string) option) \<Rightarrow> string \<Rightarrow> ((string \<times> string \<times> json) list \<times> string) option" where
  "object_members p s =
     (case object_member p s of
        None \<Rightarrow> None
      | Some (m, r) \<Rightarrow>
          (case skip_ws r of
             [] \<Rightarrow> None
           | c # r' \<Rightarrow>
               if c = CHR ''}'' then Some ([m], r')
               else if c = CHR '','' \<and> length r' < length s
               then map_option (\<lambda>(ms, r''). (m # ms, r'')) (object_members p r')
               else None))"
  by pat_completeness auto
termination by (relation "measure (\<lambda>(p, s). length s)") auto

definition member_value :: "string \<times> string \<times> json \<Rightarrow> string \<times> json" where
  "member_value m = (fst m, snd (snd m))"

definition bracketed :: "char \<Rightarrow> (string \<Rightarrow> ('a list \<times> string) option) \<Rightarrow> string \<Rightarrow> ('a list \<times> string) option" where
  "bracketed close_c items r =
     (if skip_ws r \<noteq> [] \<and> hd (skip_ws r) = close_c then Some ([], tl (skip_ws r)) else items r)"

text \<open>The first value of a text, with at most \<open>d\<close> levels of arrays and objects, and what follows it.\<close>

fun parse_value :: "nat \<Rightarrow> string \<Rightarrow> (json \<times> string) option" where
  "parse_value d s =
     (case skip_ws s of
        [] \<Rightarrow> None
      | c # r \<Rightarrow>
          if c = CHR ''{'' then
            (if d = 0 then None
             else map_option (\<lambda>(ms, r'). (JObj (map member_value ms), r'))
                    (bracketed (CHR ''}'') (object_members (\<lambda>t. parse_value (d - 1) t)) r))
          else if c = CHR ''['' then
            (if d = 0 then None
             else map_option (\<lambda>(vs, r'). (JArr vs, r'))
                    (bracketed (CHR '']'') (array_items (\<lambda>t. parse_value (d - 1) t)) r))
          else if c = quote_mark then map_option (\<lambda>(x, r'). (JStr x, r')) (json_str r)
          else if c = CHR ''t'' then scan_word ''true'' (JBool True) (c # r)
          else if c = CHR ''f'' then scan_word ''false'' (JBool False) (c # r)
          else if c = CHR ''n'' then scan_word ''null'' JNull (c # r)
          else map_option (\<lambda>r'. (JNum (take (length (c # r) - length r') (c # r)), r')) (scan_number (c # r)))"

declare parse_value.simps [simp del] array_items.simps [simp del] object_members.simps [simp del]

definition maxNestingDepth :: nat where
  "maxNestingDepth = 10000"

text \<open>The members of a text that is an object.\<close>

definition parse_members :: "string \<Rightarrow> ((string \<times> string \<times> json) list \<times> string) option" where
  "parse_members s =
     (case skip_ws s of
        [] \<Rightarrow> None
      | c # r \<Rightarrow>
          if c = CHR ''{'' then bracketed (CHR ''}'') (object_members (parse_value (maxNestingDepth - 1))) r
          else None)"

section \<open>Compaction\<close>

text \<open>
  What a raw value goes through when it is written: white space between tokens goes, and
  inside its strings what HTML or JavaScript would read is escaped. The flag is whether
  the position is inside a string; the text is one the scanner has accepted, so a
  backslash is followed by the character it escapes.
\<close>

function compact :: "bool \<Rightarrow> string \<Rightarrow> string" where
  "compact in_str [] = []"
| "compact False (c # s) =
     (if is_ws c then compact False s
      else if c = quote_mark then c # compact True s
      else c # compact False s)"
| "compact True (c # s) =
     (if c = quote_mark then c # compact False s
      else if c = backslash then (case s of [] \<Rightarrow> [c] | e # r \<Rightarrow> c # e # compact True r)
      else if c \<in> set [CHR ''<'', CHR ''>'', CHR ''&''] then u00 c @ compact True s
      else if line_separator (c # s) then u202 (c # s) @ compact True (drop 2 s)
      else c # compact True s)"
  by pat_completeness auto
termination by (relation "measure (\<lambda>(b, s). length s)") auto

section \<open>Compacting a string\<close>

declare utf8_len.simps [simp del] json_str.simps [simp del] compact.simps [simp del]

lemmas compact_start = compact.simps(2,3)

lemma compact_Nil [simp]: "compact b [] = []"
  by (simp add: compact.simps)

lemma line_separator_lead: "line_separator (c # s) \<Longrightarrow> c = CHR 0xE2"
  by (auto simp: line_separator_def)

text \<open>A byte that is copied: none of those that end, escape or are escaped.\<close>

definition copied :: "char \<Rightarrow> bool" where
  "copied c \<longleftrightarrow> c \<notin> set [quote_mark, backslash, CHR ''<'', CHR ''>'', CHR ''&'', CHR 0xE2]"

lemma compact_copied:
  assumes "copied c"
  shows "compact True (c # s) = c # compact True s"
proof -
  have "c \<noteq> quote_mark" "c \<noteq> backslash" "c \<notin> set [CHR ''<'', CHR ''>'', CHR ''&'']" "\<not> line_separator (c # s)"
    using assms line_separator_lead [of c s] by (auto simp: copied_def)
  then show ?thesis by (simp only: compact_start if_False)
qed

lemma compact_copied_all: "list_all copied cs \<Longrightarrow> compact True (cs @ u) = cs @ compact True u"
  by (induction cs) (simp_all add: compact_copied)

lemma continuation_copied: "continuation c \<Longrightarrow> copied c"
  by (auto simp: byte_in_def copied_def)

text \<open>The first bytes of a compacted string that continue a rune are those of the string.\<close>

lemma compact_prefix:
  assumes "list_all continuation (take m (compact True s @ t))" and "\<exists>c \<in> set s. \<not> continuation c"
  shows "take m (compact True s @ t) = take m s"
  using assms
proof (induction m arbitrary: s)
  case (Suc m)
  then obtain c u where s: "s = c # u" by (cases s) auto
  show ?case
  proof (cases "continuation c")
    case True
    then have "compact True s = c # compact True u" by (simp add: s compact_copied continuation_copied)
    with Suc s True show ?thesis by simp
  next
    case False
    have "\<not> continuation (hd (compact True s @ t)) \<and> compact True s \<noteq> []"
      using False by (auto simp: s compact_start u00_def u202_def byte_in_def split: list.split)
    with Suc.prems(1) have False by (cases "compact True s") auto
    then show ?thesis ..
  qed
qed simp

lemma utf8_len_0_compact:
  assumes "utf8_len (c # s) = 0" and "\<exists>x \<in> set s. \<not> continuation x"
  shows "utf8_len (c # compact True s @ t) = 0"
proof (rule ccontr)
  let ?n = "fst (lead_shape c)"
  assume "utf8_len (c # compact True s @ t) \<noteq> 0"
  then have fits: "tail_fits (lead_shape c) (take (?n - 1) (compact True s @ t))" "?n \<noteq> 0"
    by (auto simp: utf8_len.simps Let_def split: if_splits)
  obtain n lo hi where sh: "lead_shape c = (n, lo, hi)" by (metis prod_cases3)
  have "list_all continuation (take (?n - 1) (compact True s @ t))"
    using fits lead_shape_range [OF sh] unfolding sh
    by (cases "take (n - 1) (compact True s @ t)") (auto simp: tail_fits_def byte_in_def)
  from compact_prefix [OF this assms(2)] fits have "tail_fits (lead_shape c) (take (?n - 1) s)" by simp
  with fits(2) assms(1) show False by (simp add: utf8_len.simps Let_def)
qed

lemma line_separator_len: "line_separator s \<Longrightarrow> utf8_len s = 3"
proof -
  assume "line_separator s"
  then obtain z u where "s = [CHR 0xE2, CHR 0x80, z] @ u" "z = CHR 0xA8 \<or> z = CHR 0xA9"
    by (metis append_take_drop_id line_separator_def)
  then show ?thesis by (auto simp: utf8_len.simps lead_shape_def tail_fits_def byte_in_def Let_def)
qed

text \<open>What is read of a string is a piece that ends with its closing mark and reads the same once compacted.\<close>

definition str_piece :: "string \<Rightarrow> string \<Rightarrow> bool" where
  "str_piece w x \<longleftrightarrow> (\<exists>c \<in> set w. \<not> continuation c) \<and>
     (\<forall>u. compact True (w @ u) = compact True w @ compact False u) \<and>
     (\<forall>t. json_str (compact True w @ t) = Some (x, t))"

lemma line_separator_append:
  "3 \<le> length s \<Longrightarrow> line_separator (s @ u) = line_separator s"
  by (simp add: line_separator_def)

lemma getu4_same: "getu4 s = Some (x, r) \<Longrightarrow> \<exists>w. s = w @ r \<and> length w = 4 \<and> (\<forall>t. getu4 (w @ t) = Some (x, t)) \<and>
    (\<forall>c \<in> set w. hex_value c \<noteq> None)"
proof (cases s rule: getu4.cases)
  case (1 a b c d s')
  assume "getu4 s = Some (x, r)"
  with 1 show ?thesis by (intro exI [of _ "[a, b, c, d]"]) (auto split: option.splits)
qed simp_all

lemma hex_char_copied: "hex_value c \<noteq> None \<Longrightarrow> copied c"
  by (auto simp: hex_value_def byte_in_def copied_def split: if_splits)

text \<open>Whether a text goes on with the second half of a pair of surrogates.\<close>

definition low_next :: "string \<Rightarrow> bool" where
  "low_next r \<longleftrightarrow> take 2 r = [backslash, CHR ''u''] \<and>
     (\<exists>y r'. getu4 (drop 2 r) = Some (y, r') \<and> 0xDC00 \<le> y \<and> y < 0xE000)"

lemma low_next_head: "low_next (c # s) \<Longrightarrow> c = backslash"
  by (simp add: low_next_def)

lemma compact_escape: "compact True (backslash # e # u) = backslash # e # compact True u"
  by (simp add: compact_start)

text \<open>An escape is a piece that compacts to itself; half a pair asks what follows it.\<close>

definition esc_piece :: "string \<Rightarrow> string \<Rightarrow> string \<Rightarrow> bool" where
  "esc_piece e y r \<longleftrightarrow> e \<noteq> [] \<and>
     (\<forall>u. compact True (backslash # e @ u) = backslash # e @ compact True u) \<and>
     (\<forall>t t'. low_next (backslash # e @ t) = low_next (backslash # e @ t')) \<and>
     (\<forall>t. (low_next t \<longrightarrow> low_next r) \<longrightarrow> unescape (e @ t) = Some (y, t))"

lemma hex4_copied: "\<forall>c \<in> set w. hex_value c \<noteq> None \<Longrightarrow> compact True (w @ u) = w @ compact True u"
  by (rule compact_copied_all) (auto simp: list_all_iff intro: hex_char_copied)

lemma unicode_escape_piece:
  assumes "unicode_escape s = Some (y, r)"
  shows "\<exists>e. s = e @ r \<and> esc_piece (CHR ''u'' # e) y r"
proof -
  obtain x r1 where x: "getu4 s = Some (x, r1)" using assms by (auto simp: unicode_escape_def split: option.splits)
  obtain w where w: "s = w @ r1" "\<And>t. getu4 (w @ t) = Some (x, t)" "\<forall>c \<in> set w. hex_value c \<noteq> None"
    using getu4_same [OF x] by blast
  have low: "low_next (backslash # CHR ''u'' # w @ t) = low_next (backslash # CHR ''u'' # w @ t')" for t t'
    by (simp add: low_next_def w(2))
  have comp: "compact True (backslash # CHR ''u'' # w @ u) = backslash # CHR ''u'' # w @ compact True u" for u
    by (simp add: compact_escape hex4_copied [OF w(3)])
  have un: "unescape ((CHR ''u'' # w) @ t) = unicode_escape (w @ t)" for t by (simp add: unescape_def)
  show ?thesis
  proof (cases "is_surrogate x \<and> take 2 r1 = [backslash, CHR ''u''] \<and> (\<exists>z r2. getu4 (drop 2 r1) = Some (z, r2) \<and> surrogate_pair x z \<noteq> None)")
    case True
    then obtain z r2 rune where z: "getu4 (drop 2 r1) = Some (z, r2)" "surrogate_pair x z = Some rune" by blast
    obtain v where v: "drop 2 r1 = v @ r2" "\<And>t. getu4 (v @ t) = Some (z, t)" "\<forall>c \<in> set v. hex_value c \<noteq> None"
      using getu4_same [OF z(1)] by blast
    have r1: "r1 = backslash # CHR ''u'' # v @ r2" using True v(1) append_take_drop_id [of 2 r1] by simp
    have res: "unicode_escape (w @ backslash # CHR ''u'' # v @ t) = Some (EncodeRune rune, t)" for t
      using True z(2) by (simp add: unicode_escape_def w(2) v(2))
    from res [of r2] assms have y: "y = EncodeRune rune" "r = r2" by (simp_all add: w(1) r1)
    have "compact True (backslash # CHR ''u'' # (w @ backslash # CHR ''u'' # v) @ u) =
        backslash # CHR ''u'' # (w @ backslash # CHR ''u'' # v) @ compact True u" for u
      using comp [of "backslash # CHR ''u'' # v @ u"] by (simp add: compact_escape hex4_copied [OF v(3)])
    then have "esc_piece (CHR ''u'' # w @ backslash # CHR ''u'' # v) y r"
      using res un low by (simp add: esc_piece_def y unescape_def)
    then show ?thesis by (intro exI [of _ "w @ backslash # CHR ''u'' # v"]) (simp add: w(1) r1 y(2))
  next
    case False
    have pair: "surrogate_pair x z \<noteq> None \<longleftrightarrow> x < 0xDC00 \<and> 0xDC00 \<le> z \<and> z < 0xE000" if "is_surrogate x" for z
      using that by (auto simp: surrogate_pair_def is_surrogate_def)
    have out: "unicode_escape (w @ t) = Some (if is_surrogate x then replacement else EncodeRune x, t)"
      if t: "low_next t \<longrightarrow> low_next r1" for t
    proof (cases "is_surrogate x \<and> low_next t")
      case True
      then have "0xDC00 \<le> x" using False t pair unfolding low_next_def by (metis not_le)
      then have "surrogate_pair x z = None" for z by (simp add: surrogate_pair_def)
      then show ?thesis using True by (auto simp: unicode_escape_def w(2) split: option.split)
    next
      case no_low: False
      have "surrogate_pair x z = None" if "is_surrogate x" "take 2 t = [backslash, CHR ''u'']" "getu4 (drop 2 t) = Some (z, t')" for z t'
        using no_low that pair [OF that(1), of z] by (auto simp: low_next_def)
      then show ?thesis by (auto simp: unicode_escape_def w(2) split: option.split)
    qed
    from out [of r1] assms have y: "y = (if is_surrogate x then replacement else EncodeRune x)" "r = r1" by (simp_all add: w(1))
    have "esc_piece (CHR ''u'' # w) y r" using out un low comp by (simp add: esc_piece_def y unescape_def)
    then show ?thesis using w(1) y(2) by blast
  qed
qed

lemma unescape_piece:
  assumes "unescape s = Some (y, r)"
  shows "\<exists>e. s = e @ r \<and> esc_piece e y r"
proof -
  obtain e0 s' where s: "s = e0 # s'" using assms by (cases s) (simp_all add: unescape_def)
  show ?thesis
  proof (cases "e0 = CHR ''u''")
    case True
    with assms have "unicode_escape s' = Some (y, r)" by (simp add: s unescape_def)
    from unicode_escape_piece [OF this] obtain e where e: "s' = e @ r" "esc_piece (CHR ''u'' # e) y r" by blast
    then show ?thesis using s True by (intro exI [of _ "CHR ''u'' # e"]) simp
  next
    case False
    with assms have "unescape (e0 # t) = Some (y, t)" for t by (auto simp: s unescape_def split: if_splits)
    moreover from False assms have "r = s'" by (auto simp: s unescape_def split: if_splits)
    moreover have "\<not> low_next (backslash # e0 # t)" for t using False by (simp add: low_next_def)
    ultimately have "esc_piece [e0] y r" by (simp add: esc_piece_def compact_escape)
    then show ?thesis using s \<open>r = s'\<close> by (intro exI [of _ "[e0]"]) simp
  qed
qed

lemma low_next_u00:
  assumes "chr_code c < 0x80"
  shows "\<not> low_next (u00 c @ t)"
proof -
  have "chr_code c div 16 * 16 + chr_code c mod 16 = chr_code c" by simp
  moreover have "hex_value (CHR ''0'') = Some 0" by (simp add: hex_value_def byte_in_def)
  ultimately have "getu4 (drop 2 (u00 c @ t)) = Some (chr_code c, t)"
    using assms by (simp add: u00_def hex_value_digit)
  with assms show ?thesis by (auto simp: low_next_def)
qed

lemma low_next_u202: "\<not> low_next (u202 s @ t)"
proof -
  have "getu4 (drop 2 (u202 s @ t)) = Some (0x2020 + chr_code (s ! 2) mod 16, t)"
    by (simp add: u202_def hex_value_digit) (simp add: hex_value_def byte_in_def)
  moreover have "\<not> 0xDC00 \<le> 0x2020 + chr_code (s ! 2) mod 16" using mod_less_divisor [of 16 "chr_code (s ! 2)"] by simp
  ultimately show ?thesis by (simp only: low_next_def option.inject prod.inject) blast
qed

definition str_reads :: "string \<Rightarrow> string \<Rightarrow> string \<Rightarrow> bool" where
  "str_reads s x r \<longleftrightarrow> (\<exists>w. s = w @ r \<and> str_piece w x \<and> (\<forall>t. low_next (compact True w @ t) \<longrightarrow> low_next s))"

lemma str_reads_plain:
  assumes "str_reads s x r" and "w0 \<noteq> []" and "hd w0 \<noteq> backslash"
    and comp: "\<And>u. compact True (w0 @ u) = out @ compact True u"
    and read: "\<And>w t. s = w @ r \<Longrightarrow> str_piece w x \<Longrightarrow> json_str (out @ compact True w @ t) = Some (x0 @ x, t)"
    and low: "\<And>t. \<not> low_next (out @ t)"
  shows "str_reads (w0 @ s) (x0 @ x) r"
proof -
  obtain w where w: "s = w @ r" "str_piece w x" using assms(1) by (auto simp: str_reads_def)
  have "str_piece (w0 @ w) (x0 @ x)"
    using w(2) comp read [OF w] by (auto simp: str_piece_def)
  moreover have "\<not> low_next (compact True (w0 @ w) @ t)" for t using comp low by simp
  ultimately show ?thesis unfolding str_reads_def by (intro exI [of _ "w0 @ w"]) (simp add: w(1))
qed

lemma str_reads_copied:
  assumes "str_reads s x r" and "w0 \<noteq> []" and "list_all copied w0"
    and "\<And>t. json_str (w0 @ t) = prepend x0 (json_str t)"
  shows "str_reads (w0 @ s) (x0 @ x) r"
proof (rule str_reads_plain [where out = w0, OF assms(1,2)])
  show "compact True (w0 @ u) = w0 @ compact True u" for u by (rule compact_copied_all [OF assms(3)])
  have "hd w0 \<noteq> backslash" using assms(2,3) by (cases w0) (auto simp: copied_def)
  then show "hd w0 \<noteq> backslash" .
  with assms(2) low_next_head show "\<not> low_next (w0 @ t)" for t by (cases w0) auto
  show "json_str (w0 @ compact True w @ t) = Some (x0 @ x, t)" if "str_piece w x" for w t
    using that assms(4) by (simp add: str_piece_def)
qed

lemma str_reads_escape:
  assumes "str_reads r1 x r" and "esc_piece e y r1"
  shows "str_reads (backslash # e @ r1) (y @ x) r"
proof -
  obtain w where w: "r1 = w @ r" "str_piece w x" "\<And>t. low_next (compact True w @ t) \<Longrightarrow> low_next r1"
    using assms(1) by (auto simp: str_reads_def)
  note esc = assms(2) [unfolded esc_piece_def]
  have "unescape (e @ compact True w @ t) = Some (y, compact True w @ t)" for t using esc w(3) by blast
  then have read: "json_str (backslash # e @ compact True w @ t) = Some (y @ x, t)" for t
    using w(2) by (simp add: json_str.simps(2) str_piece_def)
  have comp: "compact True (backslash # e @ u) = backslash # e @ compact True u" for u using esc by blast
  have "\<not> continuation backslash" by (simp add: byte_in_def)
  then have "str_piece (backslash # e @ w) (y @ x)" using w(2) read comp by (auto simp: str_piece_def)
  moreover have "low_next (compact True (backslash # e @ w) @ t) \<Longrightarrow> low_next (backslash # e @ r1)" for t
    using esc unfolding comp append_Cons append_assoc by blast
  ultimately show ?thesis unfolding str_reads_def w(1) by (intro exI [of _ "backslash # e @ w"]) simp
qed

lemma str_reads_special:
  assumes "str_reads s x r" and "c \<in> set [CHR ''<'', CHR ''>'', CHR ''&'']"
  shows "str_reads (c # s) (c # x) r"
proof -
  have c: "chr_code c < 0x80" "c \<noteq> backslash" "c \<noteq> quote_mark" using assms(2) by auto
  have "compact True ([c] @ u) = u00 c @ compact True u" for u
    using assms(2) c(2,3) by (simp only: append_Cons append_Nil compact_start if_True if_False)
  from str_reads_plain [OF assms(1) _ _ this, of "[c]"] c low_next_u00 [OF c(1)] json_str_u00 [OF c(1)]
  show ?thesis by (simp add: str_piece_def)
qed

lemma str_reads_separator:
  assumes "str_reads (drop 3 s) x r" and "line_separator s"
  shows "str_reads s (take 3 s @ x) r"
proof -
  obtain z v where s: "s = [CHR 0xE2, CHR 0x80, z] @ v" "z = CHR 0xA8 \<or> z = CHR 0xA9"
    using assms(2) by (metis append_take_drop_id line_separator_def)
  let ?w = "[CHR 0xE2, CHR 0x80, z]"
  have "compact True (?w @ u) = u202 s @ compact True u" for u
    using s(2) by (auto simp: compact_start s(1) line_separator_def u202_def)
  moreover have "json_str (u202 s @ compact True w @ t) = Some (take 3 s @ x, t)" if "str_piece w x" for w t
    using that json_str_u202 [OF assms(2)] by (simp add: str_piece_def)
  ultimately have "str_reads (?w @ v) (take 3 s @ x) r"
    using assms(1) low_next_u202 by (intro str_reads_plain [where out = "u202 s"]) (simp_all add: s(1))
  then show ?thesis by (simp add: s(1))
qed

lemma separator_within:
  assumes "line_separator (c # w @ u)" and "\<exists>x \<in> set w. \<not> continuation x"
  shows "line_separator (c # w @ r)"
proof (cases w)
  case (Cons a w')
  with assms show ?thesis by (cases w') (auto simp: line_separator_def byte_in_def)
qed (use assms in simp)

lemma compact_high:
  assumes "128 \<le> chr_code c" and "\<not> line_separator (c # s)"
  shows "compact True (c # s) = c # compact True s"
proof -
  have "c \<noteq> quote_mark" "c \<noteq> backslash" "c \<notin> set [CHR ''<'', CHR ''>'', CHR ''&'']" using assms(1) by auto
  with assms(2) show ?thesis by (simp only: compact_start if_False)
qed

lemma compact_rune:
  assumes "128 \<le> chr_code c" and "0 < utf8_len (c # s)" and "\<not> line_separator (c # s)"
  shows "compact True (take (utf8_len (c # s)) (c # s) @ u) = take (utf8_len (c # s)) (c # s) @ compact True u"
proof -
  let ?k = "utf8_len (c # s)"
  let ?cs = "take (?k - 1) s"
  have split: "take ?k (c # s) = c # ?cs" using assms(2) by (cases ?k) simp_all
  have "\<not> line_separator (c # ?cs @ u)"
  proof
    assume sep: "line_separator (c # ?cs @ u)"
    have "utf8_len (c # ?cs @ u) = ?k" using utf8_len_take [OF assms(2), of u] unfolding split by simp
    with line_separator_len [OF sep] have "?k = 3" by simp
    with sep assms(3) utf8_len_le [of "c # s"] show False by (simp add: line_separator_def) blast
  qed
  then have "compact True (c # ?cs @ u) = c # compact True (?cs @ u)" by (rule compact_high [OF assms(1)])
  moreover have "list_all copied ?cs"
    using utf8_len_continues by (force simp: list_all_iff copied_def)
  ultimately show ?thesis unfolding split by (simp add: compact_copied_all)
qed

lemma str_reads_invalid:
  assumes "str_reads s x r" and "utf8_len (c # s) = 0"
  shows "str_reads (c # s) (replacement @ x) r"
proof -
  obtain w where w: "s = w @ r" "str_piece w x" using assms(1) by (auto simp: str_reads_def)
  have high: "128 \<le> chr_code c" using assms(2) utf8_len_ascii [of c s] by (cases "chr_code c < 128") auto
  have nc: "\<exists>y \<in> set w. \<not> continuation y" using w(2) by (simp add: str_piece_def)
  have "\<not> line_separator (c # w @ u)" for u
    using separator_within [OF _ nc, of c u r] line_separator_len [of "c # w @ r"] assms(2) w(1) by auto
  then have comp: "compact True (c # w @ u) = c # compact True (w @ u)" for u by (rule compact_high [OF high])
  have "utf8_len (c # w) = 0"
  proof (rule ccontr)
    assume "utf8_len (c # w) \<noteq> 0"
    then have pos: "0 < utf8_len (c # w)" by simp
    have "take (utf8_len (c # w)) (c # w) @ drop (utf8_len (c # w)) (c # w) @ r = c # s" using w(1) by simp
    with utf8_len_take [OF pos, of "drop (utf8_len (c # w)) (c # w) @ r"] pos assms(2) show False by simp
  qed
  from utf8_len_0_compact [OF this nc] have "utf8_len (c # compact True w @ t) = 0" for t .
  moreover have "c \<noteq> quote_mark" "c \<noteq> backslash" "\<not> chr_code c < 0x20" using high by auto
  ultimately have "json_str (c # compact True w @ t) = Some (replacement @ x, t)" for t
    using w(2) by (simp add: json_str.simps(2) Let_def str_piece_def)
  moreover have "compact True (c # w) = c # compact True w" using comp [of "[]"] by simp
  ultimately have "str_piece (c # w) (replacement @ x)" using w(2) nc comp by (simp add: str_piece_def)
  moreover have "\<not> low_next (compact True (c # w) @ t)" for t
    using comp [of "[]"] low_next_head \<open>c \<noteq> backslash\<close> by auto
  ultimately show ?thesis unfolding str_reads_def by (intro exI [of _ "c # w"]) (simp add: w(1))
qed

lemma str_reads_rune:
  assumes "str_reads (drop (utf8_len s) s) x r" and "128 \<le> chr_code (hd s)" and "0 < utf8_len s" and "\<not> line_separator s"
  shows "str_reads s (take (utf8_len s) s @ x) r"
proof -
  let ?w = "take (utf8_len s) s"
  obtain c u where s: "s = c # u" using assms(3) by (cases s) (simp_all add: utf8_len.simps)
  have w: "?w \<noteq> []" "hd ?w = c" "c \<noteq> backslash" using assms(2,3) s by (auto simp: hd_take)
  have comp: "compact True (?w @ v) = ?w @ compact True v" for v
    using compact_rune [of c u v] assms(2-4) s by simp
  have "json_str (?w @ compact True v @ t) = Some (?w @ x, t)" if "str_piece v x" for v t
    using that json_str_rune [OF assms(2,3)] by (simp add: str_piece_def)
  moreover have "\<not> low_next (?w @ t)" for t using w low_next_head by (cases ?w) auto
  ultimately have "str_reads (?w @ drop (utf8_len s) s) (?w @ x) r"
    using assms(1) w comp by (intro str_reads_plain [where out = ?w]) simp_all
  then show ?thesis by simp
qed

lemma json_str_reads:
  assumes "json_str s = Some (x, r)"
  shows "str_reads s x r"
  using assms
proof (induction s arbitrary: x rule: json_str.induct)
  case 1
  then show ?case by (simp add: json_str.simps)
next
  case (2 c s)
  note IH_escape = 2(1) and IH_invalid = 2(2) and IH_rune = 2(3) and read = 2(4)
  let ?k = "utf8_len (c # s)"
  consider "c = quote_mark" | "c = backslash" | "c \<noteq> quote_mark" "c \<noteq> backslash" by blast
  then show ?case
  proof cases
    case 1
    with read have "x = []" "r = s" by (simp_all add: json_str.simps)
    moreover have "str_piece [quote_mark] []"
      by (simp add: str_piece_def compact_start json_str.simps byte_in_def)
    moreover have "\<not> low_next (compact True [quote_mark] @ t)" for t by (simp add: compact_start low_next_def)
    ultimately show ?thesis unfolding str_reads_def using 1 by (intro exI [of _ "[quote_mark]"]) simp
  next
    case 2
    with read obtain y r1 x1 where
      u: "unescape s = Some (y, r1)" "json_str r1 = Some (x1, r)" "x = y @ x1"
      by (auto simp: json_str.simps(2) prepend_eq_Some split: option.splits)
    have "str_reads r1 x1 r" using IH_escape 2 u(1,2) by simp
    moreover obtain e where "s = e @ r1" "esc_piece e y r1" using unescape_piece [OF u(1)] by blast
    ultimately show ?thesis using str_reads_escape [of r1 x1 r e y] 2 u(3) by simp
  next
    case 3
    with read have ctrl: "\<not> chr_code c < 0x20" by (simp add: json_str.simps(2) split: if_splits)
    show ?thesis
    proof (cases "?k = 0")
      case True
      with read 3 ctrl obtain x1 where x1: "json_str s = Some (x1, r)" "x = replacement @ x1"
        by (auto simp: json_str.simps(2) prepend_eq_Some Let_def)
      have IH: "str_reads s x1 r" using IH_invalid 3 ctrl True x1(1) by simp
      from str_reads_invalid [OF IH True] show ?thesis by (simp only: x1(2))
    next
      case False
      with read 3 ctrl obtain x1 where x1: "json_str (drop (?k - 1) s) = Some (x1, r)" "x = take ?k (c # s) @ x1"
        by (auto simp: json_str.simps(2) prepend_eq_Some Let_def)
      have IH: "str_reads (drop (?k - 1) s) x1 r" using IH_rune 3 ctrl False x1(1) by simp
      have rest: "drop (?k - 1) s = drop ?k (c # s)" using False by (cases ?k) simp_all
      show ?thesis
      proof (cases "chr_code c < 128")
        case True
        then have one: "?k = 1" by (rule utf8_len_ascii)
        show ?thesis
        proof (cases "c \<in> set [CHR ''<'', CHR ''>'', CHR ''&'']")
          case True
          from str_reads_special [OF _ this] IH one x1(2) show ?thesis by simp
        next
          case plain: False
          have "c \<noteq> CHR 0xE2" using True by auto
          with plain 3 have "copied c" by (simp add: copied_def)
          moreover have "json_str ([c] @ t) = prepend [c] (json_str t)" for t
            using 3 ctrl True by (simp add: json_str.simps(2) utf8_len_ascii Let_def)
          ultimately show ?thesis using str_reads_copied [of s x1 r "[c]" "[c]"] IH one x1(2) by simp
        qed
      next
        case high: False
        show ?thesis
        proof (cases "line_separator (c # s)")
          case True
          from str_reads_separator [OF _ this] IH line_separator_len [OF True] x1(2) rest show ?thesis by simp
        next
          case plain: False
          from str_reads_rune [of "c # s" x1 r] high plain False IH rest x1(2) show ?thesis by simp
        qed
      qed
    qed
  qed
qed

end
