(* ===== verification/Go_Json_Compact.thy ===== *)
theory Go_Json_Compact
  imports Go_Json_Text
begin

text \<open>
  Compacting a value does not change it: a text the scanner accepts is made of pieces,
  each of which reads the same once it is compacted, whatever follows it.
\<close>

section \<open>Pieces of a text\<close>

text \<open>A piece that ends outside its strings compacts on its own.\<close>

definition closed_piece :: "string \<Rightarrow> bool" where
  "closed_piece w \<longleftrightarrow> (\<forall>u. compact False (w @ u) = compact False w @ compact False u)"

lemma closed_append:
  "closed_piece v \<Longrightarrow> closed_piece w \<Longrightarrow> closed_piece (v @ w) \<and> compact False (v @ w) = compact False v @ compact False w"
  by (simp add: closed_piece_def)

lemma compact_ws: "\<forall>c \<in> set w. is_ws c \<Longrightarrow> compact False (w @ u) = compact False u"
  by (induction w) (simp_all add: compact_start)

lemma closed_ws: "\<forall>c \<in> set w. is_ws c \<Longrightarrow> closed_piece w \<and> compact False w = []"
  using compact_ws [of w "[]"] by (simp add: closed_piece_def compact_ws)

lemma compact_plain: "\<forall>c \<in> set w. \<not> is_ws c \<and> c \<noteq> quote_mark \<Longrightarrow> compact False (w @ u) = w @ compact False u"
  by (induction w) (simp_all add: compact_start)

lemma closed_plain: "\<forall>c \<in> set w. \<not> is_ws c \<and> c \<noteq> quote_mark \<Longrightarrow> closed_piece w \<and> compact False w = w"
  using compact_plain [of w "[]"] by (simp add: closed_piece_def compact_plain)

lemma closed_string:
  assumes "str_piece w x"
  shows "closed_piece (quote_mark # w) \<and> compact False (quote_mark # w) = quote_mark # compact True w"
  using assms by (simp add: closed_piece_def str_piece_def compact_start is_ws_def)

lemma skip_ws_split: "\<exists>w. s = w @ skip_ws s \<and> (\<forall>c \<in> set w. is_ws c)"
  by (intro exI [of _ "takeWhile is_ws s"]) (auto dest: set_takeWhileD)

lemma skip_ws_head: "skip_ws s = c # r \<Longrightarrow> \<not> is_ws c"
  using hd_dropWhile [of is_ws s] by simp

lemma skip_ws_ok: "\<not> is_ws c \<Longrightarrow> skip_ws (c # r) = c # r"
  by simp

section \<open>Numbers\<close>

definition number_char :: "char \<Rightarrow> bool" where
  "number_char c \<longleftrightarrow> is_digit c \<or> c \<in> set ''.eE+-''"

definition ends_value :: "string \<Rightarrow> bool" where
  "ends_value t \<longleftrightarrow> t = [] \<or> \<not> number_char (hd t)"

abbreviation starts_digit :: "string \<Rightarrow> bool" where
  "starts_digit t \<equiv> t \<noteq> [] \<and> is_digit (hd t)"

lemma number_char_plain: "number_char c \<Longrightarrow> \<not> is_ws c \<and> c \<noteq> quote_mark"
  by (auto simp: number_char_def is_ws_def is_digit_def less_eq_char_def)

lemma scan_digits_piece:
  assumes "scan_digits s = Some r"
  shows "\<exists>w. s = w @ r \<and> starts_digit w \<and> list_all is_digit w \<and> (\<forall>t. \<not> starts_digit t \<longrightarrow> scan_digits (w @ t) = Some t)"
proof -
  obtain c u where s: "s = c # u" "is_digit c" "r = dropWhile is_digit u"
    using assms by (auto simp: scan_digits_def split: list.splits if_splits)
  let ?w = "c # takeWhile is_digit u"
  have all: "list_all is_digit ?w" using s(2) by (auto simp: list_all_iff dest: set_takeWhileD)
  have "dropWhile is_digit (takeWhile is_digit u @ t) = t" if "\<not> starts_digit t" for t
    using that by (subst dropWhile_append2) (auto dest: set_takeWhileD simp: dropWhile_eq_self_iff)
  with all s show ?thesis by (intro exI [of _ ?w]) (simp add: scan_digits_def)
qed

lemma digits_chars: "list_all is_digit w \<Longrightarrow> list_all number_char w"
  by (auto simp: list_all_iff number_char_def)

lemma scan_int_piece:
  assumes "scan_int s = Some r"
  shows "\<exists>w. s = w @ r \<and> starts_digit w \<and> list_all number_char w \<and> (\<forall>t. \<not> starts_digit t \<longrightarrow> scan_int (w @ t) = Some t)"
proof (cases "\<exists>u. s = CHR ''0'' # u")
  case True
  with assms show ?thesis
    by (intro exI [of _ "''0''"]) (auto simp: scan_int_def number_char_def is_digit_def)
next
  case False
  with assms have digits: "scan_digits s = Some r" by (auto simp: scan_int_def split: list.splits if_splits)
  from scan_digits_piece [OF this] obtain w where w: "s = w @ r" "starts_digit w" "list_all is_digit w"
      "\<forall>t. \<not> starts_digit t \<longrightarrow> scan_digits (w @ t) = Some t" by blast
  then obtain c w' where "w = c # w'" by (cases w) auto
  with w False have "scan_int (w @ t) = scan_digits (w @ t)" for t by (auto simp: scan_int_def)
  then have "\<forall>t. \<not> starts_digit t \<longrightarrow> scan_int (w @ t) = Some t" using w(4) by simp
  with w(1-3) digits_chars show ?thesis by blast
qed

lemma scan_frac_piece:
  assumes "scan_frac s = Some r"
  shows "\<exists>w. s = w @ r \<and> (w = [] \<or> hd w = CHR ''.'') \<and> list_all number_char w \<and>
     (\<forall>t. t = [] \<or> \<not> is_digit (hd t) \<and> hd t \<noteq> CHR ''.'' \<longrightarrow> scan_frac (w @ t) = Some t)"
proof (cases "\<exists>u. s = CHR ''.'' # u")
  case True
  then obtain u where u: "s = CHR ''.'' # u" "scan_digits u = Some r" using assms by (auto simp: scan_frac_def)
  from scan_digits_piece [OF u(2)] obtain w where w: "u = w @ r" "list_all is_digit w"
      "\<forall>t. \<not> starts_digit t \<longrightarrow> scan_digits (w @ t) = Some t" by blast
  with u digits_chars show ?thesis
    by (intro exI [of _ "CHR ''.'' # w"]) (auto simp: scan_frac_def number_char_def)
next
  case False
  with assms have "r = s" by (auto simp: scan_frac_def split: list.splits)
  moreover have "scan_frac t = Some t" if "t = [] \<or> \<not> is_digit (hd t) \<and> hd t \<noteq> CHR ''.''" for t
    using that by (cases t) (auto simp: scan_frac_def)
  ultimately show ?thesis by (intro exI [of _ "[]"]) simp
qed

lemma scan_exp_piece:
  assumes "scan_exp s = Some r"
  shows "\<exists>w. s = w @ r \<and> (w = [] \<or> hd w \<in> set ''eE'') \<and> list_all number_char w \<and>
     (\<forall>t. ends_value t \<longrightarrow> scan_exp (w @ t) = Some t)"
proof (cases "\<exists>c u. s = c # u \<and> c \<in> set ''eE''")
  case True
  then obtain c u where s: "s = c # u" "c \<in> set ''eE''" by blast
  then obtain sg v where u: "u = sg @ v" "scan_digits v = Some r" "sg = [] \<or> sg = ''+'' \<or> sg = ''-''"
    using assms that [of "[hd u]" "tl u"] that [of "[]" u]
    by (cases u) (auto simp: scan_exp_def split: if_splits)
  from scan_digits_piece [OF u(2)] obtain w where w: "v = w @ r" "starts_digit w" "list_all is_digit w"
      "\<forall>t. \<not> starts_digit t \<longrightarrow> scan_digits (w @ t) = Some t" by blast
  have "scan_exp (c # sg @ w @ t) = Some t" if "ends_value t" for t
  proof -
    have "scan_digits (w @ t) = Some t" using w(4) that by (auto simp: ends_value_def number_char_def)
    moreover obtain d w' where "w = d # w'" "is_digit d" using w(2) by (cases w) auto
    moreover from this have "d \<noteq> CHR ''+''" "d \<noteq> CHR ''-''" by (auto simp: is_digit_def less_eq_char_def)
    ultimately show ?thesis using s(2) u(3) by (auto simp: scan_exp_def)
  qed
  moreover have "list_all number_char (c # sg @ w)"
    using s(2) u(3) digits_chars [OF w(3)] by (auto simp: number_char_def)
  ultimately show ?thesis using s u w by (intro exI [of _ "c # sg @ w"]) auto
next
  case False
  with assms have "r = s" by (auto simp: scan_exp_def split: list.splits if_splits)
  moreover have "scan_exp t = Some t" if "ends_value t" for t
    using that by (cases t) (auto simp: scan_exp_def ends_value_def number_char_def)
  ultimately show ?thesis by (intro exI [of _ "[]"]) simp
qed

lemma scan_number_piece:
  assumes "scan_number s = Some r"
  shows "\<exists>w. s = w @ r \<and> w \<noteq> [] \<and> list_all number_char w \<and> (\<forall>t. ends_value t \<longrightarrow> scan_number (w @ t) = Some t)"
proof -
  obtain sg v where s: "s = sg @ v" "sg = [] \<and> (v = [] \<or> hd v \<noteq> CHR ''-'') \<or> sg = ''-''" "scan_number s = (case scan_int v of None \<Rightarrow> None
        | Some r \<Rightarrow> (case scan_frac r of None \<Rightarrow> None | Some r' \<Rightarrow> scan_exp r'))"
    using that [of "[]" s] that [of "''-''" "tl s"] by (cases s) (auto simp: scan_number_def)
  with assms obtain r1 r2 where r: "scan_int v = Some r1" "scan_frac r1 = Some r2" "scan_exp r2 = Some r"
    by (auto split: option.splits)
  obtain w1 where w1: "v = w1 @ r1" "starts_digit w1" "list_all number_char w1"
      "\<And>t. \<not> starts_digit t \<Longrightarrow> scan_int (w1 @ t) = Some t" using scan_int_piece [OF r(1)] by blast
  obtain w2 where w2: "r1 = w2 @ r2" "w2 = [] \<or> hd w2 = CHR ''.''" "list_all number_char w2"
      "\<And>t. t = [] \<or> \<not> is_digit (hd t) \<and> hd t \<noteq> CHR ''.'' \<Longrightarrow> scan_frac (w2 @ t) = Some t"
    using scan_frac_piece [OF r(2)] by blast
  obtain w3 where w3: "r2 = w3 @ r" "w3 = [] \<or> hd w3 \<in> set ''eE''" "list_all number_char w3"
      "\<And>t. ends_value t \<Longrightarrow> scan_exp (w3 @ t) = Some t" using scan_exp_piece [OF r(3)] by blast
  have "scan_number (sg @ w1 @ w2 @ w3 @ t) = Some t" if t: "ends_value t" for t
  proof -
    have e: "w3 @ t = [] \<or> \<not> is_digit (hd (w3 @ t)) \<and> hd (w3 @ t) \<noteq> CHR ''.''"
      using w3(2) t by (cases w3) (auto simp: ends_value_def number_char_def is_digit_def less_eq_char_def)
    then have "\<not> starts_digit (w2 @ w3 @ t)"
      using w2(2) by (cases w2) (auto simp: is_digit_def less_eq_char_def)
    then have "scan_int (w1 @ w2 @ w3 @ t) = Some (w2 @ w3 @ t)" by (rule w1(4))
    moreover obtain d w' where d: "w1 = d # w'" "is_digit d" using w1(2) by (cases w1) auto
    moreover from d(2) have "d \<noteq> CHR ''-''" by (auto simp: is_digit_def less_eq_char_def)
    ultimately show ?thesis using s(2) w2(4) [OF e] w3(4) [OF t] by (auto simp: scan_number_def)
  qed
  moreover have "list_all number_char (sg @ w1 @ w2 @ w3)"
    using s(2) w1(3) w2(3) w3(3) by (auto simp: number_char_def)
  ultimately show ?thesis
    using s(1) w1(1,2) w2(1) w3(1) by (intro exI [of _ "sg @ w1 @ w2 @ w3"]) auto
qed

section \<open>Values\<close>

text \<open>
  A parser all of whose results are pieces: the value is a closed piece of the text, and
  that piece, compacted, reads as the same value.
\<close>

definition value_piece :: "(string \<Rightarrow> (json \<times> string) option) \<Rightarrow> string \<Rightarrow> json \<Rightarrow> bool" where
  "value_piece p w v \<longleftrightarrow> closed_piece w \<and> compact False w \<noteq> [] \<and>
     (\<forall>t. ends_value t \<longrightarrow> p (compact False w @ t) = Some (v, t))"

definition reads_pieces :: "(string \<Rightarrow> (json \<times> string) option) \<Rightarrow> bool" where
  "reads_pieces p \<longleftrightarrow> (\<forall>s v r. p s = Some (v, r) \<longrightarrow> (\<exists>w. s = w @ r \<and> value_piece p w v))"

lemma reads_piecesD:
  assumes "reads_pieces p" and "p s = Some (v, r)"
  shows "\<exists>w. s = w @ r \<and> closed_piece w \<and> compact False w \<noteq> [] \<and>
     (\<forall>t. ends_value t \<longrightarrow> p (compact False w @ t) = Some (v, t))"
  using assms unfolding reads_pieces_def value_piece_def by blast

lemma compact_no_ws: "compact False w = c # x \<Longrightarrow> \<not> is_ws c"
  by (induction w) (auto simp: compact_start split: if_splits)

lemma skip_ws_compact: "compact False w \<noteq> [] \<Longrightarrow> skip_ws (compact False w @ t) = compact False w @ t"
  using compact_no_ws [of w] by (cases "compact False w") auto

text \<open>The marks that end or separate items.\<close>

definition mark :: "char \<Rightarrow> bool" where
  "mark c \<longleftrightarrow> c \<in> set '']},:[{''"

lemma mark_plain: "mark c \<Longrightarrow> \<not> is_ws c \<and> c \<noteq> quote_mark \<and> \<not> number_char c"
  by (auto simp: mark_def is_ws_def number_char_def is_digit_def less_eq_char_def)

lemma ends_mark: "mark c \<Longrightarrow> ends_value (c # t)"
  by (simp add: ends_value_def mark_plain)

lemma closed_mark: "mark c \<Longrightarrow> closed_piece [c] \<and> compact False [c] = [c]"
  by (rule closed_plain) (simp add: mark_plain)

text \<open>White space and a mark after a piece.\<close>

lemma skip_to_mark:
  assumes "skip_ws r = c # r'" and "mark c"
  obtains ws where "r = ws @ c # r'" "closed_piece (ws @ [c])" "compact False (ws @ [c]) = [c]"
proof -
  obtain ws where "r = ws @ c # r'" "\<forall>x \<in> set ws. is_ws x" using skip_ws_split [of r] assms(1) by auto
  moreover from this have "closed_piece (ws @ [c]) \<and> compact False (ws @ [c]) = [c]"
    using closed_append [of ws "[c]"] closed_ws [of ws] closed_mark [OF assms(2)] by simp
  ultimately show thesis using that by blast
qed

text \<open>Two pieces and a mark between them.\<close>

lemma closed_join:
  assumes "closed_piece a" and "closed_piece m" and "closed_piece b"
  shows "closed_piece (a @ m @ b) \<and> compact False (a @ m @ b) = compact False a @ compact False m @ compact False b"
  using closed_append [OF assms(2,3)] closed_append [OF assms(1), of "m @ b"] by simp

lemma mark_in: "c \<in> set '']},:[{'' \<Longrightarrow> mark c"
  by (simp add: mark_def)

lemma array_items_piece:
  assumes "reads_pieces p" and "array_items p s = Some (vs, r)"
  shows "\<exists>w. s = w @ r \<and> closed_piece w \<and> compact False w \<noteq> [] \<and>
     (\<forall>t. array_items p (compact False w @ t) = Some (vs, t))"
  using assms
proof (induction p s arbitrary: vs rule: array_items.induct)
  case (1 p s)
  note IH = 1(1) and pieces = 1(2) and run = 1(3)
  obtain v r1 c r' where v: "p s = Some (v, r1)" "skip_ws r1 = c # r'"
    using run by (auto simp: array_items.simps split: option.splits list.splits)
  obtain w where w: "s = w @ r1" "closed_piece w" "compact False w \<noteq> []"
      "\<And>t. ends_value t \<Longrightarrow> p (compact False w @ t) = Some (v, t)" using reads_piecesD [OF pieces v(1)] by blast
  have c: "mark c" using run v by (auto simp: array_items.simps mark_def split: if_splits)
  obtain ws where ws: "r1 = ws @ c # r'" "closed_piece (ws @ [c])" "compact False (ws @ [c]) = [c]"
    using skip_to_mark [OF v(2) c] .
  have read: "p (compact False w @ c # t) = Some (v, c # t)" for t by (rule w(4) [OF ends_mark [OF c]])
  have skip: "skip_ws (c # t) = c # t" for t using mark_plain [OF c] by simp
  show ?case
  proof (cases "c = CHR '']''")
    case True
    with run v have "vs = [v]" "r = r'" by (simp_all add: array_items.simps)
    moreover note closed_append [OF w(2) ws(2)]
    moreover have "array_items p ((compact False w @ [c]) @ t) = Some ([v], t)" for t
      using read skip True by (simp add: array_items.simps)
    ultimately show ?thesis using w(1,3) ws(1,3) by (intro exI [of _ "w @ ws @ [c]"]) simp
  next
    case False
    with run v have cm: "c = CHR '',''" "length r' < length s" by (auto simp: array_items.simps split: if_splits)
    obtain vs' where vs': "array_items p r' = Some (vs', r)" "vs = v # vs'"
      using run v False cm by (auto simp: array_items.simps [of p s])
    from IH [OF v(1) refl v(2) False] cm pieces vs'(1) obtain w2 where w2: "r' = w2 @ r" "closed_piece w2"
        "\<And>t. array_items p (compact False w2 @ t) = Some (vs', t)" by auto
    note join = closed_join [OF w(2) ws(2) w2(2)]
    have "array_items p ((compact False w @ [c] @ compact False w2) @ t) = Some (vs, t)" for t
    proof -
      have "length (compact False w2 @ t) < length (compact False w @ c # compact False w2 @ t)" by simp
      with read [of "compact False w2 @ t"] skip [of "compact False w2 @ t"] False cm(1) w2(3) [of t] show ?thesis
        by (simp add: vs'(2)) (subst array_items.simps, simp)
    qed
    then show ?thesis using join w(1,3) ws(1,3) w2(1) by (intro exI [of _ "w @ (ws @ [c]) @ w2"]) simp
  qed
qed

lemma object_member_piece:
  assumes "reads_pieces p" and "object_member p s = Some (m, r)"
  shows "\<exists>w. s = w @ r \<and> closed_piece w \<and> compact False w \<noteq> [] \<and>
     (\<forall>t. ends_value t \<longrightarrow> (\<exists>m'. object_member p (compact False w @ t) = Some (m', t) \<and> member_value m' = member_value m))"
proof -
  obtain c0 r0 k r1 c1 r2 v where s: "skip_ws s = quote_mark # r0" "json_str r0 = Some (k, r1)"
      "skip_ws r1 = CHR '':'' # r2" "p (skip_ws r2) = Some (v, r)" "member_value m = (k, v)"
    using assms(2) by (auto simp: object_member_def member_value_def Let_def split: list.splits option.splits if_splits)
  obtain w0 where w0: "s = w0 @ quote_mark # r0" "\<forall>c \<in> set w0. is_ws c" using skip_ws_split [of s] s(1) by auto
  obtain wk where wk: "r0 = wk @ r1" "str_piece wk k" using json_str_reads [OF s(2)] by (auto simp: str_reads_def)
  have colon: "mark (CHR '':'')" by (simp add: mark_def)
  obtain w1 where w1: "r1 = w1 @ CHR '':'' # r2" "closed_piece (w1 @ '':'')" "compact False (w1 @ '':'') = '':''"
    using skip_to_mark [OF s(3) colon] .
  obtain w2 where w2: "r2 = w2 @ skip_ws r2" "\<forall>c \<in> set w2. is_ws c" using skip_ws_split [of r2] by auto
  obtain wv where wv: "skip_ws r2 = wv @ r" "closed_piece wv" "compact False wv \<noteq> []"
      "\<And>t. ends_value t \<Longrightarrow> p (compact False wv @ t) = Some (v, t)" using reads_piecesD [OF assms(1) s(4)] by blast
  note ck = closed_string [OF wk(2)] and c0 = closed_ws [OF w0(2)] and c2 = closed_ws [OF w2(2)]
  let ?w = "w0 @ (quote_mark # wk) @ (w1 @ '':'') @ w2 @ wv"
  have closed: "closed_piece ?w" "compact False ?w = quote_mark # compact True wk @ '':'' @ compact False wv"
    using closed_append [of w2 wv] closed_append [of "w1 @ '':''" "w2 @ wv"]
      closed_append [of "quote_mark # wk" "(w1 @ '':'') @ w2 @ wv"] closed_append [of w0 "(quote_mark # wk) @ (w1 @ '':'') @ w2 @ wv"]
      c0 ck c2 w1(2,3) wv(2) by simp_all
  have "object_member p (compact False ?w @ t) = Some ((k, compact False wv, v), t)" if "ends_value t" for t
  proof -
    have "json_str (compact True wk @ u) = Some (k, u)" for u using wk(2) by (simp add: str_piece_def)
    moreover have "\<not> is_ws quote_mark" "\<not> is_ws (CHR '':'')" by (simp_all add: is_ws_def)
    ultimately show ?thesis
      unfolding closed(2) using skip_ws_compact [OF wv(3), of t] wv(4) [OF that] by (simp add: object_member_def Let_def)
  qed
  moreover have "s = ?w @ r" using w0(1) wk(1) w1(1) w2(1) wv(1) by simp
  ultimately show ?thesis
    using closed s(5) by (intro exI [of _ ?w]) (simp add: member_value_def)
qed

lemma object_members_piece:
  assumes "reads_pieces p" and "object_members p s = Some (ms, r)"
  shows "\<exists>w. s = w @ r \<and> closed_piece w \<and> compact False w \<noteq> [] \<and>
     (\<forall>t. \<exists>ms'. object_members p (compact False w @ t) = Some (ms', t) \<and> map member_value ms' = map member_value ms)"
  using assms
proof (induction p s arbitrary: ms rule: object_members.induct)
  case (1 p s)
  note IH = 1(1) and pieces = 1(2) and run = 1(3)
  obtain m r1 c r' where m: "object_member p s = Some (m, r1)" "skip_ws r1 = c # r'"
    using run by (auto simp: object_members.simps split: option.splits list.splits)
  obtain w where w: "s = w @ r1" "closed_piece w" "compact False w \<noteq> []"
      "\<And>t. ends_value t \<Longrightarrow> \<exists>m'. object_member p (compact False w @ t) = Some (m', t) \<and> member_value m' = member_value m"
    using object_member_piece [OF pieces m(1)] by blast
  have c: "mark c" using run m by (auto simp: object_members.simps mark_def split: if_splits)
  obtain ws where ws: "r1 = ws @ c # r'" "closed_piece (ws @ [c])" "compact False (ws @ [c]) = [c]"
    using skip_to_mark [OF m(2) c] .
  have read: "\<exists>m'. object_member p (compact False w @ c # t) = Some (m', c # t) \<and> member_value m' = member_value m" for t
    by (rule w(4) [OF ends_mark [OF c]])
  have skip: "skip_ws (c # t) = c # t" for t using mark_plain [OF c] by simp
  show ?case
  proof (cases "c = CHR ''}''")
    case True
    with run m have "ms = [m]" "r = r'" by (simp_all add: object_members.simps)
    moreover note closed_append [OF w(2) ws(2)]
    moreover have "\<exists>ms'. object_members p ((compact False w @ [c]) @ t) = Some (ms', t) \<and> map member_value ms' = [member_value m]" for t
      using read [of t] skip [of t] True by (simp, subst object_members.simps) auto
    ultimately show ?thesis using w(1,3) ws(1,3) by (intro exI [of _ "w @ ws @ [c]"]) simp
  next
    case False
    with run m have cm: "c = CHR '',''" "length r' < length s" by (auto simp: object_members.simps split: if_splits)
    obtain ms1 where ms1: "object_members p r' = Some (ms1, r)" "ms = m # ms1"
      using run m False cm by (auto simp: object_members.simps [of p s])
    from IH [OF m(1) refl m(2) False] cm pieces ms1(1) obtain w2 where w2: "r' = w2 @ r" "closed_piece w2"
        "\<And>t. \<exists>ms'. object_members p (compact False w2 @ t) = Some (ms', t) \<and> map member_value ms' = map member_value ms1" by auto
    note join = closed_join [OF w(2) ws(2) w2(2)]
    have "\<exists>ms'. object_members p ((compact False w @ [c] @ compact False w2) @ t) = Some (ms', t) \<and>
        map member_value ms' = map member_value ms" for t
    proof -
      have "length (compact False w2 @ t) < length (compact False w @ c # compact False w2 @ t)" by simp
      with read [of "compact False w2 @ t"] skip [of "compact False w2 @ t"] False cm(1) w2(3) [of t] show ?thesis
        by (simp add: ms1(2), subst object_members.simps) auto
    qed
    then show ?thesis using join w(1,3) ws(1,3) w2(1) by (intro exI [of _ "w @ (ws @ [c]) @ w2"]) simp
  qed
qed

lemma bracketed_piece:
  assumes "bracketed c items s = Some (xs, r)" and "mark c"
    and items: "\<And>xs r. items s = Some (xs, r) \<Longrightarrow> \<exists>w. s = w @ r \<and> closed_piece w \<and> compact False w \<noteq> [] \<and>
       (\<forall>t. hd (compact False w) \<noteq> c \<and> (\<exists>xs'. items (compact False w @ t) = Some (xs', t) \<and> map f xs' = map f xs))"
  shows "\<exists>w. s = w @ r \<and> closed_piece w \<and>
     (\<forall>t. \<exists>xs'. bracketed c items (compact False w @ t) = Some (xs', t) \<and> map f xs' = map f xs)"
proof (cases "skip_ws s \<noteq> [] \<and> hd (skip_ws s) = c")
  case True
  then obtain r' where r': "skip_ws s = c # r'" by (cases "skip_ws s") auto
  obtain ws where ws: "s = ws @ c # r'" "closed_piece (ws @ [c])" "compact False (ws @ [c]) = [c]"
    using skip_to_mark [OF r' assms(2)] .
  have "xs = []" "r = r'" using assms(1) r' by (simp_all add: bracketed_def)
  with ws mark_plain [OF assms(2)] show ?thesis
    by (intro exI [of _ "ws @ [c]"]) (simp add: bracketed_def)
next
  case False
  with assms(1) have "items s = Some (xs, r)" by (auto simp: bracketed_def split: if_splits)
  from items [OF this] obtain w where w: "s = w @ r" "closed_piece w" "compact False w \<noteq> []"
      "\<And>t. hd (compact False w) \<noteq> c \<and> (\<exists>xs'. items (compact False w @ t) = Some (xs', t) \<and> map f xs' = map f xs)" by blast
  have "bracketed c items (compact False w @ t) = items (compact False w @ t)" for t
    using w(3,4) skip_ws_compact [OF w(3), of t] by (auto simp: bracketed_def)
  with w show ?thesis by (intro exI [of _ w]) auto
qed

lemma array_bracketed_piece:
  assumes "reads_pieces p" and "\<And>t. p (CHR '']'' # t) = None" and "bracketed (CHR '']'') (array_items p) s = Some (vs, r)"
  shows "\<exists>w. s = w @ r \<and> closed_piece w \<and> (\<forall>t. bracketed (CHR '']'') (array_items p) (compact False w @ t) = Some (vs, t))"
proof -
  have "\<exists>w. s = w @ r \<and> closed_piece w \<and> compact False w \<noteq> [] \<and>
      (\<forall>t. hd (compact False w) \<noteq> CHR '']'' \<and> (\<exists>xs'. array_items p (compact False w @ t) = Some (xs', t) \<and> map id xs' = map id xs))"
    if run: "array_items p s = Some (xs, r)" for xs r
  proof -
    obtain w where w: "s = w @ r" "closed_piece w" "compact False w \<noteq> []"
        "\<And>t. array_items p (compact False w @ t) = Some (xs, t)" using array_items_piece [OF assms(1) run] by blast
    have "hd (compact False w) \<noteq> CHR '']''"
    proof
      assume "hd (compact False w) = CHR '']''"
      with w(3) have "p (compact False w @ []) = None" using assms(2) by (cases "compact False w") auto
      then have "array_items p (compact False w @ []) = None" by (subst array_items.simps) simp
      with w(4) [of "[]"] show False by simp
    qed
    with w show ?thesis by auto
  qed
  from bracketed_piece [OF assms(3) mark_in this] show ?thesis by simp
qed

lemma object_bracketed_piece:
  assumes "reads_pieces p" and "bracketed (CHR ''}'') (object_members p) s = Some (ms, r)"
  shows "\<exists>w. s = w @ r \<and> closed_piece w \<and>
     (\<forall>t. \<exists>ms'. bracketed (CHR ''}'') (object_members p) (compact False w @ t) = Some (ms', t) \<and>
        map member_value ms' = map member_value ms)"
proof -
  have "\<exists>w. s = w @ r \<and> closed_piece w \<and> compact False w \<noteq> [] \<and>
      (\<forall>t. hd (compact False w) \<noteq> CHR ''}'' \<and> (\<exists>xs'. object_members p (compact False w @ t) = Some (xs', t) \<and>
         map member_value xs' = map member_value xs))"
    if run: "object_members p s = Some (xs, r)" for xs r
  proof -
    obtain w where w: "s = w @ r" "closed_piece w" "compact False w \<noteq> []"
        "\<And>t. \<exists>ms'. object_members p (compact False w @ t) = Some (ms', t) \<and> map member_value ms' = map member_value xs"
      using object_members_piece [OF assms(1) run] by blast
    have "hd (compact False w) \<noteq> CHR ''}''"
    proof
      assume "hd (compact False w) = CHR ''}''"
      with w(3) have "object_member p (compact False w @ []) = None"
        by (cases "compact False w") (auto simp: object_member_def is_ws_def)
      then have "object_members p (compact False w @ []) = None" by (subst object_members.simps) simp
      with w(4) [of "[]"] show False by auto
    qed
    with w show ?thesis by blast
  qed
  from bracketed_piece [OF assms(2) mark_in this] show ?thesis by simp
qed

lemma word_piece:
  assumes "scan_word x v s = Some (v', r)" and "\<forall>c \<in> set x. \<not> is_ws c \<and> c \<noteq> quote_mark"
  shows "s = x @ r \<and> v' = v \<and> closed_piece x \<and> compact False x = x"
proof -
  have "take (length x) s = x" "v' = v" "r = drop (length x) s"
    using assms(1) by (simp_all add: scan_word_def split: if_splits)
  then have "s = x @ r" using append_take_drop_id [of "length x" s] by metis
  with \<open>v' = v\<close> closed_plain [OF assms(2)] show ?thesis by blast
qed

lemma parse_value_skip:
  assumes "\<forall>c \<in> set w. is_ws c"
  shows "parse_value d (w @ s) = parse_value d s"
proof -
  have "skip_ws (w @ s) = skip_ws s" using assms by (simp add: dropWhile_append2)
  then show ?thesis by (simp only: parse_value.simps [of d "w @ s"] parse_value.simps [of d s])
qed

text \<open>The value at the head of a text, by its first byte.\<close>

lemma parse_value_head:
  assumes "\<not> is_ws c"
  shows "parse_value d (c # r) =
     (if c = CHR ''{'' then
        (if d = 0 then None else map_option (\<lambda>(ms, r'). (JObj (map member_value ms), r'))
           (bracketed (CHR ''}'') (object_members (parse_value (d - 1))) r))
      else if c = CHR ''['' then
        (if d = 0 then None else map_option (\<lambda>(vs, r'). (JArr vs, r')) (bracketed (CHR '']'') (array_items (parse_value (d - 1))) r))
      else if c = quote_mark then map_option (\<lambda>(x, r'). (JStr x, r')) (json_str r)
      else if c = CHR ''t'' then scan_word ''true'' (JBool True) (c # r)
      else if c = CHR ''f'' then scan_word ''false'' (JBool False) (c # r)
      else if c = CHR ''n'' then scan_word ''null'' JNull (c # r)
      else map_option (\<lambda>r'. (JNum (take (length (c # r) - length r') (c # r)), r')) (scan_number (c # r)))"
  using assms by (subst parse_value.simps) simp

lemma parse_value_close: "parse_value d (CHR '']'' # t) = None"
  by (simp add: parse_value_head is_ws_def scan_number_def scan_int_def scan_digits_def is_digit_def less_eq_char_def)

lemma value_piece_mark:
  assumes c: "mark c" and w: "closed_piece w" and r: "\<And>t. p (c # compact False w @ t) = Some (v, t)"
  shows "value_piece p (c # w) v"
  using closed_append [of "[c]" w] closed_mark [OF c] w r by (simp add: value_piece_def)

lemma parse_value_word_piece:
  assumes "scan_word x v s = Some (v', r)" and "\<And>t. parse_value d (x @ t) = scan_word x v (x @ t)"
    and "\<forall>c \<in> set x. \<not> is_ws c \<and> c \<noteq> quote_mark" and "x \<noteq> []"
  shows "\<exists>w. s = w @ r \<and> value_piece (parse_value d) w v'"
proof -
  have "scan_word x v (x @ t) = Some (v, t)" for t by (simp add: scan_word_def)
  with word_piece [OF assms(1,3)] assms(2,4) show ?thesis
    by (intro exI [of _ x]) (simp add: value_piece_def)
qed

lemma parse_value_number_piece:
  assumes run: "scan_number (c # s) = Some r"
    and num: "\<And>t. parse_value d (c # t) = map_option (\<lambda>r'. (JNum (take (length (c # t) - length r') (c # t)), r')) (scan_number (c # t))"
  shows "\<exists>w. c # s = w @ r \<and> value_piece (parse_value d) w (JNum (take (length (c # s) - length r) (c # s)))"
proof -
  obtain w where w: "c # s = w @ r" "w \<noteq> []" "list_all number_char w" "\<And>t. ends_value t \<Longrightarrow> scan_number (w @ t) = Some t"
    using scan_number_piece [OF run] by blast
  then obtain w' where w': "w = c # w'" by (cases w) auto
  have "\<forall>c \<in> set w. \<not> is_ws c \<and> c \<noteq> quote_mark"
    using w(3) number_char_plain by (auto simp: list_all_iff)
  note cl = closed_plain [OF this]
  have "parse_value d (w @ t) = Some (JNum w, t)" if "ends_value t" for t
    using num [of "w' @ t"] w(4) [OF that] by (simp add: w')
  moreover have "take (length (c # s) - length r) (c # s) = w" unfolding w(1) by simp
  ultimately show ?thesis using w(1,2) cl by (intro exI [of _ w]) (simp add: value_piece_def)
qed

text \<open>A value at the head of a text is a piece of it.\<close>

lemma parse_value_piece_head:
  assumes IH: "d \<noteq> 0 \<Longrightarrow> reads_pieces (parse_value (d - 1))" and ws: "\<not> is_ws c" and run: "parse_value d (c # s) = Some (v, r)"
  shows "\<exists>w. c # s = w @ r \<and> value_piece (parse_value d) w v"
proof -
  note head = parse_value_head [OF ws, of d]
  consider "c = CHR ''{''" | "c = CHR ''[''" | "c = quote_mark" | "c = CHR ''t''" | "c = CHR ''f''" | "c = CHR ''n''"
    | (num) "c \<notin> set [CHR ''{'', CHR ''['', quote_mark, CHR ''t'', CHR ''f'', CHR ''n'']" by auto
  then show ?thesis
  proof cases
    case 1
    obtain ms where ms: "d \<noteq> 0" "bracketed (CHR ''}'') (object_members (parse_value (d - 1))) s = Some (ms, r)"
        "v = JObj (map member_value ms)" using run [unfolded head] 1 by (auto split: if_splits)
    from object_bracketed_piece [OF IH [OF ms(1)] ms(2)] obtain w where w: "s = w @ r" "closed_piece w"
        "\<And>t. \<exists>ms'. bracketed (CHR ''}'') (object_members (parse_value (d - 1))) (compact False w @ t) = Some (ms', t) \<and>
           map member_value ms' = map member_value ms" by blast
    have "parse_value d (c # compact False w @ t) = Some (v, t)" for t
      unfolding head using w(3) [of t] 1 ms(1,3) by auto
    from value_piece_mark [OF mark_in w(2) this] 1 w(1) show ?thesis by (intro exI [of _ "c # w"]) simp
  next
    case 2
    obtain vs where vs: "d \<noteq> 0" "bracketed (CHR '']'') (array_items (parse_value (d - 1))) s = Some (vs, r)"
        "v = JArr vs" using run [unfolded head] 2 by (auto split: if_splits)
    from array_bracketed_piece [OF IH [OF vs(1)] parse_value_close vs(2)] obtain w where w: "s = w @ r" "closed_piece w"
        "\<And>t. bracketed (CHR '']'') (array_items (parse_value (d - 1))) (compact False w @ t) = Some (vs, t)" by blast
    have "parse_value d (c # compact False w @ t) = Some (v, t)" for t
      unfolding head using w(3) [of t] 2 vs(1,3) by simp
    from value_piece_mark [OF mark_in w(2) this] 2 w(1) show ?thesis by (intro exI [of _ "c # w"]) simp
  next
    case 3
    obtain x where x: "json_str s = Some (x, r)" "v = JStr x" using run [unfolded head] 3 by auto
    obtain w where w: "s = w @ r" "str_piece w x" using json_str_reads [OF x(1)] by (auto simp: str_reads_def)
    note cl = closed_string [OF w(2)]
    have "parse_value d (c # compact True w @ t) = Some (v, t)" for t
      unfolding head using w(2) 3 x(2) by (simp add: str_piece_def)
    with cl 3 w(1) show ?thesis by (intro exI [of _ "c # w"]) (simp add: value_piece_def)
  next
    case 4
    show ?thesis by (rule parse_value_word_piece [of "''true''" "JBool True"]) (use run 4 in \<open>simp_all add: parse_value_head is_ws_def\<close>)
  next
    case 5
    show ?thesis by (rule parse_value_word_piece [of "''false''" "JBool False"]) (use run 5 in \<open>simp_all add: parse_value_head is_ws_def\<close>)
  next
    case 6
    show ?thesis by (rule parse_value_word_piece [of "''null''" JNull]) (use run 6 in \<open>simp_all add: parse_value_head is_ws_def\<close>)
  next
    case num
    then have eq: "parse_value d (c # t) = map_option (\<lambda>r'. (JNum (take (length (c # t) - length r') (c # t)), r')) (scan_number (c # t))" for t
      by (simp add: head)
    with run have "scan_number (c # s) = Some r" "v = JNum (take (length (c # s) - length r) (c # s))" by auto
    with parse_value_number_piece [OF this(1) eq] show ?thesis by simp
  qed
qed

lemma parse_value_pieces_step:
  assumes IH: "d \<noteq> 0 \<Longrightarrow> reads_pieces (parse_value (d - 1))"
  shows "reads_pieces (parse_value d)"
  unfolding reads_pieces_def
proof (intro allI impI)
  fix s v r
  assume run: "parse_value d s = Some (v, r)"
  obtain ws where ws: "s = ws @ skip_ws s" "\<forall>c \<in> set ws. is_ws c" using skip_ws_split by blast
  then have run': "parse_value d (skip_ws s) = Some (v, r)" using run parse_value_skip [OF ws(2)] by metis
  have "parse_value d [] = None" by (simp add: parse_value.simps)
  with run' have "skip_ws s \<noteq> []" by (metis option.distinct(1))
  then obtain c u where c: "skip_ws s = c # u" by (cases "skip_ws s") auto
  then have "parse_value d (c # u) = Some (v, r)" using run' by simp
  from parse_value_piece_head [OF IH skip_ws_head [OF c] this]
  obtain w where w: "skip_ws s = w @ r" "value_piece (parse_value d) w v" unfolding c by blast
  have "value_piece (parse_value d) (ws @ w) v"
    using w(2) closed_append [of ws w] closed_ws [OF ws(2)] by (simp add: value_piece_def)
  moreover have "s = (ws @ w) @ r" using ws(1) w(1) by simp
  ultimately show "\<exists>w. s = w @ r \<and> value_piece (parse_value d) w v" by blast
qed

theorem parse_value_pieces: "reads_pieces (parse_value d)"
  by (induction d) (rule parse_value_pieces_step; simp)+

text \<open>
  What a raw value is worth once it is written: the text of a value, compacted, is read
  as the same value, at any place where a value may end.
\<close>

corollary compact_value:
  assumes "parse_value d s = Some (v, r)" and "ends_value t"
  shows "parse_value d (compact False (take (length s - length r) s) @ t) = Some (v, t)"
proof -
  obtain w where "s = w @ r" "value_piece (parse_value d) w v"
    using parse_value_pieces assms(1) unfolding reads_pieces_def by blast
  then show ?thesis using assms(2) by (simp add: value_piece_def)
qed

end
