(* ===== verification/Go_Json_Local.thy ===== *)
theory Go_Json_Local
  imports Go_Json_Compact
begin

text \<open>
  What reads as a value depends on its own text only: it reads the same whatever follows
  it, so a text that is cut before its value ends has no value.
\<close>

section \<open>Strings\<close>

text \<open>What has a closing mark in it decides what is read up to there.\<close>

lemma append_prefix:
  assumes "w @ a = x @ r" and "c \<in> set w" and "c \<notin> set x"
  shows "\<exists>us. w = x @ us"
proof -
  obtain us where "w @ us = x \<or> w = x @ us"
    using assms(1) by (auto simp: append_eq_append_conv2)
  with assms(2,3) show ?thesis by auto
qed

lemma low_next_within:
  assumes "quote_mark \<in> set w"
  shows "low_next (w @ t) = low_next (w @ t')"
proof -
  have one: "low_next (w @ b)" if low: "low_next (w @ a)" for a b
  proof -
    obtain y r where y: "take 2 (w @ a) = [backslash, CHR ''u'']" "getu4 (drop 2 (w @ a)) = Some (y, r)" "0xDC00 \<le> y" "y < 0xE000"
      using low by (auto simp: low_next_def)
    obtain h where h: "drop 2 (w @ a) = h @ r" "length h = 4" "\<And>u. getu4 (h @ u) = Some (y, u)" "\<forall>c \<in> set h. hex_value c \<noteq> None"
      using getu4_same [OF y(2)] by blast
    have eq: "w @ a = ([backslash, CHR ''u''] @ h) @ r" using append_take_drop_id [of 2 "w @ a"] unfolding y(1) h(1) by simp
    have "hex_value quote_mark = None" by (simp add: hex_value_def byte_in_def)
    then have no_quote: "quote_mark \<notin> set ([backslash, CHR ''u''] @ h)" using h(4) by auto
    obtain us where us: "w = [backslash, CHR ''u''] @ h @ us" using append_prefix [OF eq assms no_quote] by auto
    then show "low_next (w @ b)" using h(3) y(3,4) by (simp add: low_next_def)
  qed
  then show ?thesis by blast
qed

lemma tail_no_quote:
  assumes "tail_fits (lead_shape c) cs"
  shows "quote_mark \<notin> set cs"
proof -
  obtain n lo hi where sh: "lead_shape c = (n, lo, hi)" by (metis prod_cases3)
  have "\<not> byte_in lo hi quote_mark" "\<not> continuation quote_mark" using lead_shape_range [OF sh] by (simp_all add: byte_in_def)
  then show ?thesis using assms by (cases cs) (auto simp: sh tail_fits_def list_all_iff)
qed

lemma take_before_quote: "quote_mark \<in> set w \<Longrightarrow> quote_mark \<notin> set (take m (w @ t)) \<Longrightarrow> m < length w"
  by (rule ccontr) (simp add: not_less)

lemma utf8_len_within:
  assumes "quote_mark \<in> set w"
  shows "utf8_len (c # w @ t) = utf8_len (c # w @ t')" and "utf8_len (c # w @ t) \<le> length w"
proof -
  let ?n = "fst (lead_shape c)"
  have within: "?n - 1 < length w" if "tail_fits (lead_shape c) (take (?n - 1) (w @ u))" for u
    by (rule take_before_quote [OF assms tail_no_quote [OF that]])
  have "tail_fits (lead_shape c) (take (?n - 1) (w @ t)) = tail_fits (lead_shape c) (take (?n - 1) (w @ t'))"
    using within [of t] within [of t'] by (cases "?n - 1 < length w") auto
  then show "utf8_len (c # w @ t) = utf8_len (c # w @ t')" by (simp add: utf8_len.simps Let_def)
  show "utf8_len (c # w @ t) \<le> length w" using within [of t] by (auto simp: utf8_len.simps Let_def)
qed

lemma json_str_local: "json_str s = Some (x, r) \<Longrightarrow> \<exists>w. s = w @ r \<and> quote_mark \<in> set w \<and> (\<forall>t. json_str (w @ t) = Some (x, t))"
proof (induction s arbitrary: x rule: json_str.induct)
  case (2 c s)
  let ?k = "utf8_len (c # s)"
  consider "c = quote_mark" | (esc) "c = backslash" | (bad) "?k = 0" "c \<noteq> quote_mark" "c \<noteq> backslash" "\<not> chr_code c < 0x20"
    | (rune) "?k \<noteq> 0" "c \<noteq> quote_mark" "c \<noteq> backslash" "\<not> chr_code c < 0x20"
    using 2(4) by (auto simp: json_str.simps(2) split: if_splits)
  then show ?case
  proof cases
    case 1
    with 2(4) show ?thesis by (intro exI [of _ "[c]"]) (simp add: json_str.simps(2))
  next
    case esc
    with 2(4) obtain y r1 z where y: "unescape s = Some (y, r1)" "json_str r1 = Some (z, r)" "x = y @ z"
      by (auto simp: json_str.simps(2) prepend_eq_Some split: option.splits)
    have "c \<noteq> quote_mark" using esc by simp
    from 2(1) [OF this esc y(1) refl y(2)] obtain w where w: "r1 = w @ r" "quote_mark \<in> set w" "\<And>t. json_str (w @ t) = Some (z, t)"
      by blast
    obtain e where e: "s = e @ r1" "esc_piece e y r1" using unescape_piece [OF y(1)] by blast
    have "unescape (e @ w @ t) = Some (y, w @ t)" for t
      using e(2) low_next_within [OF w(2), of t r] unfolding esc_piece_def w(1) by blast
    with w(2,3) esc e(1) y(3) show ?thesis
      by (intro exI [of _ "c # e @ w"]) (simp add: w(1) json_str.simps(2))
  next
    case bad
    with 2(4) obtain z where z: "json_str s = Some (z, r)" "x = replacement @ z"
      by (auto simp: json_str.simps(2) prepend_eq_Some Let_def)
    from 2(2) [OF bad(2-4) refl bad(1) z(1)] obtain w where w: "s = w @ r" "quote_mark \<in> set w" "\<And>t. json_str (w @ t) = Some (z, t)"
      by blast
    have "utf8_len (c # w @ t) = 0" for t using bad(1) utf8_len_within(1) [OF w(2), of c t r] w(1) by simp
    with bad w z show ?thesis by (intro exI [of _ "c # w"]) (simp add: json_str.simps(2) Let_def)
  next
    case rune
    with 2(4) obtain z where z: "json_str (drop (?k - 1) s) = Some (z, r)" "x = take ?k (c # s) @ z"
      by (auto simp: json_str.simps(2) prepend_eq_Some Let_def)
    from 2(3) [OF rune(2-4) refl rune(1) z(1)] obtain w where
      w: "drop (?k - 1) s = w @ r" "quote_mark \<in> set w" "\<And>t. json_str (w @ t) = Some (z, t)" by blast
    let ?w = "take (?k - 1) s @ w"
    have s: "s = ?w @ r" using w(1) append_take_drop_id [of "?k - 1" s] by simp
    have "length (take (?k - 1) s) = ?k - 1" using utf8_len_le [of "c # s"] by simp
    moreover have "utf8_len (c # ?w @ t) = ?k" for t
      using utf8_len_within(1) [of ?w c t r] w(2) s by simp
    moreover have "take ?k (c # ?w @ t) = take ?k (c # s)" for t using rune(1) calculation(1) by (cases ?k) simp_all
    ultimately have "json_str (c # ?w @ t) = Some (x, t)" for t
      using rune z(2) w(3) [of t] by (simp add: json_str.simps(2) Let_def)
    then show ?thesis using s w(2) by (intro exI [of _ "c # ?w"]) simp
  qed
qed (simp add: json_str.simps)

section \<open>Values\<close>

definition local_parser :: "(string \<Rightarrow> (json \<times> string) option) \<Rightarrow> bool" where
  "local_parser p \<longleftrightarrow>
     (\<forall>s v r. p s = Some (v, r) \<longrightarrow> (\<exists>w. s = w @ r \<and> w \<noteq> [] \<and> (\<forall>t. ends_value t \<longrightarrow> p (w @ t) = Some (v, t))))"

lemma local_parserD:
  "local_parser p \<Longrightarrow> p s = Some (v, r) \<Longrightarrow> \<exists>w. s = w @ r \<and> w \<noteq> [] \<and> (\<forall>t. ends_value t \<longrightarrow> p (w @ t) = Some (v, t))"
  by (simp add: local_parser_def)

text \<open>White space up to a mark.\<close>

lemma skip_local:
  assumes "skip_ws r = c # r'"
  shows "\<exists>ws. r = ws @ c # r' \<and> (\<forall>t. skip_ws (ws @ c # t) = c # t)"
proof -
  obtain ws where ws: "r = ws @ skip_ws r" "\<forall>x \<in> set ws. is_ws x" using skip_ws_split by blast
  then have "skip_ws (ws @ c # t) = c # t" for t using skip_ws_head [OF assms] by (simp add: dropWhile_append2)
  with ws(1) assms show ?thesis by auto
qed

lemma array_items_local:
  assumes "local_parser p" and "array_items p s = Some (vs, r)"
  shows "\<exists>w. s = w @ r \<and> w \<noteq> [] \<and> (\<forall>t. array_items p (w @ t) = Some (vs, t))"
  using assms
proof (induction p s arbitrary: vs rule: array_items.induct)
  case (1 p s)
  note run = 1(3)
  obtain v r1 c r' where v: "p s = Some (v, r1)" "skip_ws r1 = c # r'"
    using run by (auto simp: array_items.simps [of p s] split: option.splits list.splits)
  obtain w where w: "s = w @ r1" "w \<noteq> []" "\<And>t. ends_value t \<Longrightarrow> p (w @ t) = Some (v, t)" using local_parserD [OF 1(2) v(1)] by blast
  obtain ws where ws: "r1 = ws @ c # r'" "\<And>t. skip_ws (ws @ c # t) = c # t" using skip_local [OF v(2)] by blast
  have "mark c" using run v by (auto simp: array_items.simps [of p s] mark_def split: if_splits)
  then have "ends_value (ws @ c # t)" for t
    using ws(2) [of t] ends_mark [of c t] by (cases ws) (auto simp: ends_value_def dest: number_char_plain split: if_splits)
  then have read: "p (w @ ws @ c # t) = Some (v, ws @ c # t)" for t by (rule w(3))
  show ?case
  proof (cases "c = CHR '']''")
    case True
    with run v have "vs = [v]" "r = r'" by (simp_all add: array_items.simps [of p s])
    moreover have "array_items p ((w @ ws @ [c]) @ t) = Some ([v], t)" for t
      using read ws(2) True by (subst array_items.simps) simp
    ultimately show ?thesis using w(1,2) ws(1) by (intro exI [of _ "w @ ws @ [c]"]) simp
  next
    case False
    with run v obtain vs' where vs': "c = CHR '','' \<and> length r' < length s" "array_items p r' = Some (vs', r)" "vs = v # vs'"
      by (auto simp: array_items.simps [of p s] split: if_splits)
    from 1(1) [OF v(1) refl v(2) False vs'(1) 1(2) vs'(2)] obtain w2 where
      w2: "r' = w2 @ r" "\<And>t. array_items p (w2 @ t) = Some (vs', t)" by blast
    have "array_items p ((w @ ws @ [c] @ w2) @ t) = Some (vs, t)" for t
      using read [of "w2 @ t"] ws(2) [of "w2 @ t"] w2(2) [of t] False vs'(1,3) by (subst array_items.simps) simp
    then show ?thesis using w(1,2) ws(1) w2(1) by (intro exI [of _ "w @ ws @ [c] @ w2"]) simp
  qed
qed

lemma object_member_local:
  assumes "local_parser p" and "object_member p s = Some (m, r)"
  shows "\<exists>w. s = w @ r \<and> w \<noteq> [] \<and> (\<forall>t. ends_value t \<longrightarrow> object_member p (w @ t) = Some (m, t))"
proof -
  obtain r0 k r1 r2 v where s: "skip_ws s = quote_mark # r0" "json_str r0 = Some (k, r1)" "skip_ws r1 = CHR '':'' # r2"
      "p (skip_ws r2) = Some (v, r)" "m = (k, take (length (skip_ws r2) - length r) (skip_ws r2), v)"
    using assms(2) by (auto simp: object_member_def Let_def split: list.splits option.splits if_splits)
  obtain w0 where w0: "s = w0 @ quote_mark # r0" "\<And>t. skip_ws (w0 @ quote_mark # t) = quote_mark # t" using skip_local [OF s(1)] by blast
  obtain wk where wk: "r0 = wk @ r1" "\<And>t. json_str (wk @ t) = Some (k, t)" using json_str_local [OF s(2)] by blast
  obtain w1 where w1: "r1 = w1 @ CHR '':'' # r2" "\<And>t. skip_ws (w1 @ CHR '':'' # t) = CHR '':'' # t" using skip_local [OF s(3)] by blast
  obtain wv where wv: "skip_ws r2 = wv @ r" "wv \<noteq> []" "\<And>t. ends_value t \<Longrightarrow> p (wv @ t) = Some (v, t)"
    using local_parserD [OF assms(1) s(4)] by blast
  then obtain c u where c: "wv = c # u" by (cases wv) auto
  with wv(1) have "skip_ws r2 = c # u @ r" by simp
  from skip_local [OF this] obtain w2 where w2: "r2 = w2 @ wv @ r" "\<And>t. skip_ws (w2 @ wv @ t) = wv @ t" using c by auto
  let ?w = "w0 @ quote_mark # wk @ w1 @ CHR '':'' # w2 @ wv"
  have "object_member p (?w @ t) = Some (m, t)" if "ends_value t" for t
    using w0(2) wk(2) w1(2) w2(2) wv(3) [OF that] s(5) wv(1) by (simp add: object_member_def Let_def)
  then show ?thesis using w0(1) wk(1) w1(1) w2(1) by (intro exI [of _ ?w]) simp
qed

lemma object_members_local:
  assumes "local_parser p" and "object_members p s = Some (ms, r)"
  shows "\<exists>w. s = w @ r \<and> w \<noteq> [] \<and> (\<forall>t. object_members p (w @ t) = Some (ms, t))"
  using assms
proof (induction p s arbitrary: ms rule: object_members.induct)
  case (1 p s)
  note run = 1(3)
  obtain m r1 c r' where m: "object_member p s = Some (m, r1)" "skip_ws r1 = c # r'"
    using run by (auto simp: object_members.simps [of p s] split: option.splits list.splits)
  obtain w where w: "s = w @ r1" "w \<noteq> []" "\<And>t. ends_value t \<Longrightarrow> object_member p (w @ t) = Some (m, t)"
    using object_member_local [OF 1(2) m(1)] by blast
  obtain ws where ws: "r1 = ws @ c # r'" "\<And>t. skip_ws (ws @ c # t) = c # t" using skip_local [OF m(2)] by blast
  have "mark c" using run m by (auto simp: object_members.simps [of p s] mark_def split: if_splits)
  then have "ends_value (ws @ c # t)" for t
    using ws(2) [of t] ends_mark [of c t] by (cases ws) (auto simp: ends_value_def dest: number_char_plain split: if_splits)
  then have read: "object_member p (w @ ws @ c # t) = Some (m, ws @ c # t)" for t by (rule w(3))
  show ?case
  proof (cases "c = CHR ''}''")
    case True
    with run m have "ms = [m]" "r = r'" by (simp_all add: object_members.simps [of p s])
    moreover have "object_members p ((w @ ws @ [c]) @ t) = Some ([m], t)" for t
      using read ws(2) True by (subst object_members.simps) simp
    ultimately show ?thesis using w(1,2) ws(1) by (intro exI [of _ "w @ ws @ [c]"]) simp
  next
    case False
    with run m obtain ms' where ms': "c = CHR '','' \<and> length r' < length s" "object_members p r' = Some (ms', r)" "ms = m # ms'"
      by (auto simp: object_members.simps [of p s] split: if_splits)
    from 1(1) [OF m(1) refl m(2) False ms'(1) 1(2) ms'(2)] obtain w2 where
      w2: "r' = w2 @ r" "\<And>t. object_members p (w2 @ t) = Some (ms', t)" by blast
    have "object_members p ((w @ ws @ [c] @ w2) @ t) = Some (ms, t)" for t
      using read [of "w2 @ t"] ws(2) [of "w2 @ t"] w2(2) [of t] False ms'(1,3) by (subst object_members.simps) simp
    then show ?thesis using w(1,2) ws(1) w2(1) by (intro exI [of _ "w @ ws @ [c] @ w2"]) simp
  qed
qed

lemma skip_ws_append: "skip_ws w \<noteq> [] \<Longrightarrow> skip_ws (w @ t) = skip_ws w @ t"
  by (induction w) auto

lemma bracketed_local:
  assumes "bracketed c items s = Some (xs, r)" and "\<not> is_ws c"
    and blank: "\<And>u. skip_ws u = [] \<Longrightarrow> items u = None"
    and items: "\<And>xs r. items s = Some (xs, r) \<Longrightarrow> \<exists>w. s = w @ r \<and> w \<noteq> [] \<and> (\<forall>t. items (w @ t) = Some (xs, t))"
  shows "\<exists>w. s = w @ r \<and> (\<forall>t. bracketed c items (w @ t) = Some (xs, t))"
proof (cases "skip_ws s \<noteq> [] \<and> hd (skip_ws s) = c")
  case True
  then obtain r' where r': "skip_ws s = c # r'" by (cases "skip_ws s") auto
  obtain ws where ws: "s = ws @ c # r'" "\<And>t. skip_ws (ws @ c # t) = c # t" using skip_local [OF r'] by blast
  have "xs = []" "r = r'" using assms(1) r' by (simp_all add: bracketed_def)
  moreover have "bracketed c items ((ws @ [c]) @ t) = Some ([], t)" for t using ws(2) [of t] by (simp add: bracketed_def)
  ultimately show ?thesis using ws(1) by (intro exI [of _ "ws @ [c]"]) simp
next
  case False
  with assms(1) have run: "items s = Some (xs, r)" by (auto simp: bracketed_def split: if_splits)
  from items [OF this] obtain w where w: "s = w @ r" "\<And>t. items (w @ t) = Some (xs, t)" by blast
  from w(2) [of "[]"] blank [of w] have "skip_ws w \<noteq> []" by fastforce
  note skip = skip_ws_append [OF this]
  from False skip [of r] \<open>skip_ws w \<noteq> []\<close> have "hd (skip_ws w) \<noteq> c" by (simp add: w(1) del: dropWhile_eq_Nil_conv)
  with \<open>skip_ws w \<noteq> []\<close> skip w(2) have "bracketed c items (w @ t) = Some (xs, t)" for t
    by (simp only: bracketed_def hd_append if_False simp_thms)
  with w(1) show ?thesis by blast
qed

lemma parse_value_blank: "skip_ws u = [] \<Longrightarrow> parse_value d u = None"
  by (subst parse_value.simps) (simp del: dropWhile_eq_Nil_conv)

lemma array_blank: "skip_ws u = [] \<Longrightarrow> array_items (parse_value d) u = None"
  by (subst array_items.simps) (simp add: parse_value_blank del: dropWhile_eq_Nil_conv)

lemma object_blank: "skip_ws u = [] \<Longrightarrow> object_members p u = None"
  by (subst object_members.simps) (simp add: object_member_def del: dropWhile_eq_Nil_conv)

lemma array_bracketed_local:
  assumes "local_parser (parse_value d)" and "bracketed (CHR '']'') (array_items (parse_value d)) s = Some (vs, r)"
  shows "\<exists>w. s = w @ r \<and> (\<forall>t. bracketed (CHR '']'') (array_items (parse_value d)) (w @ t) = Some (vs, t))"
  by (rule bracketed_local [OF assms(2) _ array_blank array_items_local [OF assms(1)]]) (simp_all add: is_ws_def)

lemma object_bracketed_local:
  assumes "local_parser p" and "bracketed (CHR ''}'') (object_members p) s = Some (ms, r)"
  shows "\<exists>w. s = w @ r \<and> (\<forall>t. bracketed (CHR ''}'') (object_members p) (w @ t) = Some (ms, t))"
  by (rule bracketed_local [OF assms(2) _ object_blank object_members_local [OF assms(1)]]) (simp_all add: is_ws_def)

lemma word_local: "scan_word x v s = Some (v', r) \<Longrightarrow> s = x @ r \<and> v' = v"
proof -
  assume "scan_word x v s = Some (v', r)"
  then have "take (length x) s = x" "v' = v" "r = drop (length x) s" by (simp_all add: scan_word_def split: if_splits)
  then show ?thesis using append_take_drop_id [of "length x" s] by metis
qed

lemma scan_word_append: "scan_word x v (x @ t) = Some (v, t)"
  by (simp add: scan_word_def)

text \<open>A value at the head of a text; after an array or an object anything may follow.\<close>

definition value_local :: "nat \<Rightarrow> string \<Rightarrow> json \<Rightarrow> string \<Rightarrow> bool" where
  "value_local d s v r \<longleftrightarrow> (\<exists>w. s = w @ r \<and> w \<noteq> [] \<and> (\<forall>t. ends_value t \<longrightarrow> parse_value d (w @ t) = Some (v, t)) \<and>
     ((\<exists>ms. v = JObj ms) \<or> v = JNull \<longrightarrow> (\<forall>t. parse_value d (w @ t) = Some (v, t))))"

lemma value_localI: "s = w @ r \<Longrightarrow> w \<noteq> [] \<Longrightarrow> (\<And>t. parse_value d (w @ t) = Some (v, t)) \<Longrightarrow> value_local d s v r"
  by (auto simp: value_local_def)

lemma parse_word_local:
  assumes "scan_word x v s = Some (v', r)" and "x \<noteq> []" and "\<And>t. parse_value d (x @ t) = scan_word x v (x @ t)"
  shows "value_local d s v' r"
  using word_local [OF assms(1)] assms(2,3) scan_word_append by (intro value_localI [of s x]) simp_all

lemma parse_value_local_head:
  assumes IH: "d \<noteq> 0 \<Longrightarrow> local_parser (parse_value (d - 1))" and ws: "\<not> is_ws c" and run: "parse_value d (c # s) = Some (v, r)"
  shows "value_local d (c # s) v r"
proof -
  note head = parse_value_head [OF ws, of d]
  consider "c = CHR ''{''" | "c = CHR ''[''" | "c = quote_mark" | "c = CHR ''t''" | "c = CHR ''f''" | "c = CHR ''n''"
    | (num) "c \<notin> set [CHR ''{'', CHR ''['', quote_mark, CHR ''t'', CHR ''f'', CHR ''n'']" by auto
  then show ?thesis
  proof cases
    case 1
    obtain ms where ms: "d \<noteq> 0" "bracketed (CHR ''}'') (object_members (parse_value (d - 1))) s = Some (ms, r)"
        "v = JObj (map member_value ms)" using run [unfolded head] 1 by (auto split: if_splits)
    from object_bracketed_local [OF IH [OF ms(1)] ms(2)] obtain w where w: "s = w @ r"
        "\<And>t. bracketed (CHR ''}'') (object_members (parse_value (d - 1))) (w @ t) = Some (ms, t)" by blast
    show ?thesis by (rule value_localI [of _ "c # w"]) (use w 1 ms in \<open>simp_all add: head [unfolded 1]\<close>)
  next
    case 2
    obtain vs where vs: "d \<noteq> 0" "bracketed (CHR '']'') (array_items (parse_value (d - 1))) s = Some (vs, r)"
        "v = JArr vs" using run [unfolded head] 2 by (auto split: if_splits)
    from array_bracketed_local [OF IH [OF vs(1)] vs(2)] obtain w where w: "s = w @ r"
        "\<And>t. bracketed (CHR '']'') (array_items (parse_value (d - 1))) (w @ t) = Some (vs, t)" by blast
    show ?thesis by (rule value_localI [of _ "c # w"]) (use w 2 vs in \<open>simp_all add: head [unfolded 2]\<close>)
  next
    case 3
    obtain x where x: "json_str s = Some (x, r)" "v = JStr x" using run [unfolded head] 3 by auto
    obtain w where w: "s = w @ r" "\<And>t. json_str (w @ t) = Some (x, t)" using json_str_local [OF x(1)] by blast
    show ?thesis by (rule value_localI [of _ "c # w"]) (use w 3 x in \<open>simp_all add: head [unfolded 3]\<close>)
  next
    case 4
    show ?thesis by (rule parse_word_local [of "''true''" "JBool True"]) (use run 4 in \<open>simp_all add: parse_value_head is_ws_def\<close>)
  next
    case 5
    show ?thesis by (rule parse_word_local [of "''false''" "JBool False"]) (use run 5 in \<open>simp_all add: parse_value_head is_ws_def\<close>)
  next
    case 6
    show ?thesis by (rule parse_word_local [of "''null''" JNull]) (use run 6 in \<open>simp_all add: parse_value_head is_ws_def\<close>)
  next
    case num
    then have eq: "parse_value d (c # t) = map_option (\<lambda>r'. (JNum (take (length (c # t) - length r') (c # t)), r')) (scan_number (c # t))" for t
      by (simp add: head)
    with run have n: "scan_number (c # s) = Some r" "v = JNum (take (length (c # s) - length r) (c # s))" by auto
    obtain w where w: "c # s = w @ r" "w \<noteq> []" "\<And>t. ends_value t \<Longrightarrow> scan_number (w @ t) = Some t" using scan_number_piece [OF n(1)] by blast
    then obtain w' where w': "w = c # w'" by (cases w) auto
    have "v = JNum w" unfolding n(2) w(1) by simp
    moreover have "parse_value d (w @ t) = Some (JNum w, t)" if "ends_value t" for t
      using w(3) [OF that] eq [of "w' @ t"] unfolding w' by simp
    ultimately show ?thesis using w(1,2) by (auto simp: value_local_def)
  qed
qed

lemma parse_value_local_step:
  assumes IH: "d \<noteq> 0 \<Longrightarrow> local_parser (parse_value (d - 1))" and run: "parse_value d s = Some (v, r)"
  shows "value_local d s v r"
proof -
  have "skip_ws s \<noteq> []" using run parse_value_blank [of s d] by (metis option.distinct(1))
  then obtain c u where c: "skip_ws s = c # u" by (cases "skip_ws s") auto
  obtain ws where ws: "s = ws @ skip_ws s" "\<forall>c \<in> set ws. is_ws c" using skip_ws_split by blast
  note skip = parse_value_skip [OF ws(2)]
  from run have "parse_value d (c # u) = Some (v, r)" using skip [of d "c # u"] ws(1) c by simp
  from parse_value_local_head [OF IH skip_ws_head [OF c] this] obtain w where w: "c # u = w @ r" "w \<noteq> []"
      "\<And>t. ends_value t \<Longrightarrow> parse_value d (w @ t) = Some (v, t)"
      "(\<exists>ms. v = JObj ms) \<or> v = JNull \<Longrightarrow> (\<forall>t. parse_value d (w @ t) = Some (v, t))" unfolding value_local_def by blast
  show ?thesis unfolding value_local_def
    using ws(1) c w skip by (intro exI [of _ "ws @ w"]) auto
qed

lemma parse_value_local_parser: "local_parser (parse_value d)"
proof (induction d)
  case 0
  show ?case using parse_value_local_step [of 0] unfolding local_parser_def value_local_def by blast
next
  case (Suc d)
  then have "Suc d \<noteq> 0 \<Longrightarrow> local_parser (parse_value (Suc d - 1))" by simp
  from parse_value_local_step [OF this] show ?case unfolding local_parser_def value_local_def by blast
qed

theorem parse_value_local: "parse_value d s = Some (v, r) \<Longrightarrow> value_local d s v r"
  by (rule parse_value_local_step [OF parse_value_local_parser])

text \<open>A text that is cut before the end of its object has no value.\<close>

corollary parse_value_cut:
  assumes "parse_value d s = Some (v0, r)" and "n < length s - length r"
    and "parse_value d (take n s) = Some (v, r')" and "(\<exists>ms. v = JObj ms) \<or> v = JNull"
  shows False
proof -
  obtain w where w: "take n s = w @ r'" "\<And>t. parse_value d (w @ t) = Some (v, t)"
    using parse_value_local [OF assms(3)] assms(4) unfolding value_local_def by blast
  then have "s = w @ r' @ drop n s" by (metis append.assoc append_take_drop_id)
  with w(2) have "parse_value d s = Some (v, r' @ drop n s)" by metis
  with assms(1) have "r = r' @ drop n s" by simp
  with assms(2) show False by simp
qed

section \<open>More levels\<close>

definition extends ::
  "(string \<Rightarrow> (json \<times> string) option) \<Rightarrow> (string \<Rightarrow> (json \<times> string) option) \<Rightarrow> bool" where
  "extends q p \<longleftrightarrow> (\<forall>s x. p s = Some x \<longrightarrow> q s = Some x)"

lemma array_items_extends: "extends q p \<Longrightarrow> array_items p s = Some (vs, r) \<Longrightarrow> array_items q s = Some (vs, r)"
proof (induction p s arbitrary: vs rule: array_items.induct)
  case (1 p s)
  obtain v r1 c r' where v: "p s = Some (v, r1)" "skip_ws r1 = c # r'"
    using 1(3) by (auto simp: array_items.simps [of p s] split: option.splits list.splits)
  then have q: "q s = Some (v, r1)" using 1(2) by (simp add: extends_def)
  show ?case
  proof (cases "c = CHR '']''")
    case False
    with 1(3) v obtain vs' where vs': "c = CHR '','' \<and> length r' < length s" "array_items p r' = Some (vs', r)" "vs = v # vs'"
      by (auto simp: array_items.simps [of p s] split: if_splits)
    from 1(1) [OF v(1) refl v(2) False vs'(1) 1(2) vs'(2)] False vs' v(2) q show ?thesis by (simp add: array_items.simps [of q s])
  qed (use 1(3) v q in \<open>simp add: array_items.simps [of p s] array_items.simps [of q s]\<close>)
qed

lemma object_member_extends: "extends q p \<Longrightarrow> object_member p s = Some x \<Longrightarrow> object_member q s = Some x"
  by (auto simp: object_member_def extends_def Let_def simp del: dropWhile_eq_Nil_conv
      split: list.splits option.splits if_splits)

lemma bracketed_extends:
  assumes "bracketed c items u = Some y" and "\<And>xs r. items u = Some (xs, r) \<Longrightarrow> items' u = Some (xs, r)"
  shows "bracketed c items' u = Some y"
  using assms(1) assms(2) [of "fst y" "snd y"]
  by (cases "skip_ws u \<noteq> [] \<and> hd (skip_ws u) = c") (simp_all only: bracketed_def simp_thms if_True if_False prod.collapse)

lemma object_members_extends: "extends q p \<Longrightarrow> object_members p s = Some (ms, r) \<Longrightarrow> object_members q s = Some (ms, r)"
proof (induction p s arbitrary: ms rule: object_members.induct)
  case (1 p s)
  obtain m r1 c r' where m: "object_member p s = Some (m, r1)" "skip_ws r1 = c # r'"
    using 1(3) by (auto simp: object_members.simps [of p s] split: option.splits list.splits)
  then have q: "object_member q s = Some (m, r1)" using 1(2) object_member_extends by blast
  show ?case
  proof (cases "c = CHR ''}''")
    case False
    with 1(3) m obtain ms' where ms': "c = CHR '','' \<and> length r' < length s" "object_members p r' = Some (ms', r)" "ms = m # ms'"
      by (auto simp: object_members.simps [of p s] split: if_splits)
    from 1(1) [OF m(1) refl m(2) False ms'(1) 1(2) ms'(2)] False ms' m(2) q show ?thesis by (simp add: object_members.simps [of q s])
  qed (use 1(3) m q in \<open>simp add: object_members.simps [of p s] object_members.simps [of q s]\<close>)
qed

lemma parse_value_extends_step:
  assumes "d \<noteq> 0 \<Longrightarrow> extends (parse_value d) (parse_value (d - 1))"
  shows "extends (parse_value (Suc d)) (parse_value d)"
  unfolding extends_def
proof (intro allI impI)
  fix s x
  assume run: "parse_value d s = Some x"
  then have "skip_ws s \<noteq> []" using parse_value_blank [of s d] by (metis option.distinct(1))
  then obtain c u where c: "skip_ws s = c # u" by (cases "skip_ws s") auto
  have "bracketed (CHR ''}'') (object_members (parse_value d)) u = Some y"
    if "bracketed (CHR ''}'') (object_members (parse_value (d - 1))) u = Some y" "d \<noteq> 0" for y
    by (rule bracketed_extends [OF that(1) object_members_extends [OF assms [OF that(2)]]])
  moreover have "bracketed (CHR '']'') (array_items (parse_value d)) u = Some y"
    if "bracketed (CHR '']'') (array_items (parse_value (d - 1))) u = Some y" "d \<noteq> 0" for y
    by (rule bracketed_extends [OF that(1) array_items_extends [OF assms [OF that(2)]]])
  ultimately show "parse_value (Suc d) s = Some x"
    using run unfolding parse_value.simps [of "Suc d" s] parse_value.simps [of d s] c
    by (auto split: if_splits)
qed

lemma parse_value_extends: "extends (parse_value (Suc d)) (parse_value d)"
  by (induction d) (rule parse_value_extends_step; simp)+

end
