(* ===== verification/Go_Json_Struct.thy ===== *)
theory Go_Json_Struct
  imports Go_Json_Local
begin

text \<open>
  encoding/json on structs whose fields are strings, raw values or types that read the
  text of their own value: decoding a text into
  the fields and encoding the fields into a text. What is encoded is decoded as the same
  fields, and every string decoded is UTF-8.
\<close>

section \<open>Decoding\<close>

text \<open>A type with an UnmarshalJSON of its own says which texts it accepts; null leaves it as it is.\<close>

datatype field_kind = StringField | RawField | TextField "string \<Rightarrow> bool"

type_synonym field = "string \<times> field_kind"

text \<open>
  A key names the field of that name, or else the field whose name is the same but for
  case; the names are ASCII, and two other runes fold to an ASCII letter.
\<close>

definition ascii_upper :: "char \<Rightarrow> char" where
  "ascii_upper c = (if byte_in 97 122 c then char_of (chr_code c - 32) else c)"

function fold_name :: "string \<Rightarrow> string" where
  "fold_name [] = []"
| "fold_name (c # s) =
     (if take 2 (c # s) = [CHR 0xC5, CHR 0xBF] then CHR ''S'' # fold_name (drop 1 s)
      else if take 3 (c # s) = [CHR 0xE2, CHR 0x84, CHR 0xAA] then CHR ''K'' # fold_name (drop 2 s)
      else ascii_upper c # fold_name s)"
  by pat_completeness auto
termination by (relation "measure length") auto

definition field_of :: "field list \<Rightarrow> string \<Rightarrow> field option" where
  "field_of fs key =
     (case find (\<lambda>f. fst f = key) fs of
        Some f \<Rightarrow> Some f
      | None \<Rightarrow> find (\<lambda>f. fold_name (fst f) = fold_name key) fs)"

text \<open>The fields set so far, the last first; a null leaves a string as it is.\<close>

definition decode_member ::
  "bool \<Rightarrow> field list \<Rightarrow> string \<times> string \<times> json \<Rightarrow> (string \<times> string) list \<Rightarrow> (string \<times> string) list option"
where
  "decode_member strict fs m vals =
     (case field_of fs (fst m) of
        None \<Rightarrow> if strict then None else Some vals
      | Some (f, kind) \<Rightarrow>
          (case kind of
             RawField \<Rightarrow> Some ((f, fst (snd m)) # vals)
           | TextField accepts \<Rightarrow>
               if snd (snd m) = JNull then Some vals
               else if accepts (fst (snd m)) then Some ((f, fst (snd m)) # vals)
               else None
           | StringField \<Rightarrow>
               (case snd (snd m) of
                  JStr x \<Rightarrow> Some ((f, x) # vals)
                | JNull \<Rightarrow> Some vals
                | _ \<Rightarrow> None)))"

fun decode_members ::
  "bool \<Rightarrow> field list \<Rightarrow> (string \<times> string \<times> json) list \<Rightarrow> (string \<times> string) list \<Rightarrow> (string \<times> string) list option"
where
  "decode_members strict fs [] vals = Some vals"
| "decode_members strict fs (m # ms) vals =
     (case decode_member strict fs m vals of None \<Rightarrow> None | Some vals' \<Rightarrow> decode_members strict fs ms vals')"

definition field_value :: "(string \<times> string) list \<Rightarrow> string \<Rightarrow> string" where
  "field_value vals f = (case map_of vals f of None \<Rightarrow> [] | Some x \<Rightarrow> x)"

text \<open>
  Decoder.Decode into a struct: the first value of the text, null leaving the struct
  empty; with the fields set it gives what follows. \<open>strict\<close> is DisallowUnknownFields.
\<close>

definition decode_struct :: "bool \<Rightarrow> field list \<Rightarrow> string \<Rightarrow> ((string \<times> string) list \<times> string) option" where
  "decode_struct strict fs s =
     (case parse_value maxNestingDepth s of
        None \<Rightarrow> None
      | Some (v, r) \<Rightarrow>
          (case v of
             JNull \<Rightarrow> Some ([], r)
           | JObj _ \<Rightarrow>
               (case parse_members s of
                  None \<Rightarrow> None
                | Some (ms, r') \<Rightarrow> map_option (\<lambda>vals. (vals, r')) (decode_members strict fs ms []))
           | _ \<Rightarrow> None))"

text \<open>Unmarshal: the text is one value and white space.\<close>

definition unmarshal_struct :: "field list \<Rightarrow> string \<Rightarrow> (string \<times> string) list option" where
  "unmarshal_struct fs s =
     (case decode_struct False fs s of
        None \<Rightarrow> None
      | Some (vals, r) \<Rightarrow> if skip_ws r = [] then Some vals else None)"

section \<open>Encoding\<close>

text \<open>The members of an object by their names and the texts of their values.\<close>

fun join_members :: "(string \<times> string) list \<Rightarrow> string" where
  "join_members [] = []"
| "join_members [m] = json_quote (fst m) @ '':'' @ snd m"
| "join_members (m # ms) = json_quote (fst m) @ '':'' @ snd m @ '','' @ join_members ms"

definition encode_object :: "(string \<times> string) list \<Rightarrow> string" where
  "encode_object ms = ''{'' @ join_members ms @ ''}''"

section \<open>What is encoded is read\<close>

text \<open>A text that reads as a value at a depth, wherever a value may end.\<close>

definition reads_at :: "nat \<Rightarrow> string \<Rightarrow> json \<Rightarrow> bool" where
  "reads_at d w v \<longleftrightarrow> w \<noteq> [] \<and> \<not> is_ws (hd w) \<and> (\<forall>t. ends_value t \<longrightarrow> parse_value d (w @ t) = Some (v, t))"

abbreviation reads_as :: "string \<Rightarrow> json \<Rightarrow> bool" where
  "reads_as \<equiv> reads_at (maxNestingDepth - 1)"

lemma quote_head: "\<not> is_ws quote_mark"
  by (simp add: is_ws_def)

lemma json_quote_reads: "reads_at d (json_quote s) (JStr (to_valid s))"
proof -
  have "parse_value d (json_quote s @ t) = Some (JStr (to_valid s), t)" for d t
    using json_str_escape [of s t] by (simp add: json_quote_def parse_value_head [OF quote_head])
  then show ?thesis by (simp add: reads_at_def json_quote_def quote_head)
qed

definition member_reads_at :: "nat \<Rightarrow> string \<times> string \<times> json \<Rightarrow> bool" where
  "member_reads_at d m \<longleftrightarrow> valid_utf8 (fst m) \<and> reads_at d (fst (snd m)) (snd (snd m))"

abbreviation member_reads :: "string \<times> string \<times> json \<Rightarrow> bool" where
  "member_reads \<equiv> member_reads_at (maxNestingDepth - 1)"

abbreviation value_parser :: "string \<Rightarrow> (json \<times> string) option" where
  "value_parser \<equiv> parse_value (maxNestingDepth - 1)"

abbreviation member_texts :: "(string \<times> string \<times> json) list \<Rightarrow> (string \<times> string) list" where
  "member_texts ms \<equiv> map (\<lambda>m. (fst m, fst (snd m))) ms"

lemma object_member_encoded:
  assumes "member_reads_at d m" and "ends_value t"
  shows "object_member (parse_value d) (json_quote (fst m) @ '':'' @ fst (snd m) @ t) = Some (m, t)"
proof -
  obtain k w v where m: "m = (k, w, v)" by (cases m)
  have w: "w \<noteq> []" "\<not> is_ws (hd w)" "parse_value d (w @ t) = Some (v, t)" "to_valid k = k"
    using assms by (auto simp: member_reads_at_def reads_at_def m valid_utf8_def)
  then have "skip_ws (w @ t) = w @ t" by (cases w) auto
  moreover have "json_str (json_escape k @ quote_mark # u) = Some (k, u)" for u
    using json_str_escape [of k u] w(4) by simp
  ultimately show ?thesis
    using w(3) by (simp add: object_member_def json_quote_def m quote_head Let_def) (simp add: is_ws_def)
qed

lemma object_members_encoded:
  assumes "list_all (member_reads_at d) ms" and "ms \<noteq> []"
  shows "object_members (parse_value d) (join_members (member_texts ms) @ ''}'' @ t) = Some (ms, t)"
  using assms
proof (induction ms)
  case (Cons m ms)
  have close: "mark (CHR ''}'')" "mark (CHR '','')" by (simp_all add: mark_def)
  note one = object_member_encoded [of d m, OF _ ends_mark [OF close(1)]]
    and more = object_member_encoded [of d m, OF _ ends_mark [OF close(2)]]
  have skip: "\<not> is_ws (CHR ''}'')" "\<not> is_ws (CHR '','')" by (simp_all add: is_ws_def)
  show ?case
  proof (cases ms)
    case Nil
    with Cons one [of t] show ?thesis by (subst object_members.simps) (simp add: skip)
  next
    case tail: (Cons m2 ms2)
    let ?rest = "join_members (member_texts ms) @ ''}'' @ t"
    have rest: "object_members (parse_value d) ?rest = Some (ms, t)" using Cons.IH Cons.prems tail by simp
    have whole: "join_members (member_texts (m # ms)) @ ''}'' @ t =
        json_quote (fst m) @ '':'' @ fst (snd m) @ CHR '','' # ?rest" by (simp add: tail)
    show ?thesis unfolding whole
      using more [of ?rest] Cons.prems rest by (subst object_members.simps) (simp add: skip)
  qed
qed simp

lemma bracket_head: "\<not> is_ws (CHR ''{'')" "\<not> is_ws (CHR ''['')"
  by (simp_all add: is_ws_def)

lemma encoded_bracketed:
  assumes "list_all (member_reads_at d) ms"
  shows "bracketed (CHR ''}'') (object_members (parse_value d)) (join_members (member_texts ms) @ ''}'' @ t) = Some (ms, t)"
proof (cases ms)
  case Nil
  then show ?thesis by (simp add: bracketed_def is_ws_def)
next
  case (Cons m ms2)
  let ?items = "join_members (member_texts ms) @ ''}'' @ t"
  have head: "hd ?items = quote_mark" "?items \<noteq> []"
    using Cons by (cases ms2; simp add: json_quote_def)+
  then have "skip_ws ?items = ?items" using quote_head by (cases ?items) auto
  moreover have "hd ?items \<noteq> CHR ''}''" using head(1) by simp
  moreover have "object_members (parse_value d) ?items = Some (ms, t)" using object_members_encoded [OF assms] Cons by blast
  ultimately show ?thesis by (simp only: bracketed_def simp_thms if_False)
qed

lemma encode_object_value:
  assumes "list_all (member_reads_at d) ms"
  shows "parse_value (Suc d) (encode_object (member_texts ms) @ t) = Some (JObj (map member_value ms), t)"
  using encoded_bracketed [OF assms] by (simp add: encode_object_def parse_value_head [OF bracket_head(1)])

lemma encode_object_members:
  assumes "list_all member_reads ms"
  shows "parse_members (encode_object (member_texts ms) @ t) = Some (ms, t)"
    and "parse_value maxNestingDepth (encode_object (member_texts ms) @ t) = Some (JObj (map member_value ms), t)"
  using encoded_bracketed [OF assms] encode_object_value [OF assms]
  by (simp_all add: encode_object_def parse_members_def bracket_head maxNestingDepth_def)

text \<open>An array of texts.\<close>

fun join_items :: "string list \<Rightarrow> string" where
  "join_items [] = []"
| "join_items [w] = w"
| "join_items (w # ws) = w @ '','' @ join_items ws"

definition encode_array :: "string list \<Rightarrow> string" where
  "encode_array ws = ''['' @ join_items ws @ '']''"

lemma array_items_encoded:
  assumes "list_all2 (reads_at d) ws vs" and "ws \<noteq> []"
  shows "array_items (parse_value d) (join_items ws @ '']'' @ t) = Some (vs, t)"
  using assms
proof (induction rule: list_all2_induct)
  case (Cons w ws v vs)
  have close: "mark (CHR '']'')" "mark (CHR '','')" by (simp_all add: mark_def)
  have read: "parse_value d (w @ c # u) = Some (v, c # u)" if "mark c" for c u
    using Cons(1) ends_mark [OF that] by (simp add: reads_at_def)
  have skip: "\<not> is_ws (CHR '']'')" "\<not> is_ws (CHR '','')" by (simp_all add: is_ws_def)
  show ?case
  proof (cases ws)
    case Nil
    with Cons(2) read [OF close(1), of t] show ?thesis by (subst array_items.simps) (simp add: skip)
  next
    case tail: (Cons w2 ws2)
    have "array_items (parse_value d) (join_items ws @ '']'' @ t) = Some (vs, t)" using Cons.IH tail by simp
    with tail read [OF close(2), of "join_items ws @ '']'' @ t"] show ?thesis by (subst array_items.simps) (simp add: skip)
  qed
qed simp

lemma encode_array_value:
  assumes "list_all2 (reads_at d) ws vs" and "\<forall>w \<in> set ws. hd w \<noteq> CHR '']''"
  shows "parse_value (Suc d) (encode_array ws @ t) = Some (JArr vs, t)"
proof -
  let ?items = "join_items ws @ '']'' @ t"
  have "bracketed (CHR '']'') (array_items (parse_value d)) ?items = Some (vs, t)"
  proof (cases ws)
    case Nil
    with assms(1) show ?thesis by (simp add: bracketed_def is_ws_def)
  next
    case (Cons w ws2)
    then have "w \<noteq> []" "\<not> is_ws (hd w)" using assms(1) by (auto simp: reads_at_def list_all2_Cons1)
    then obtain c u where c: "?items = c # u" "c = hd w" using Cons by (cases w; cases ws2) auto
    then have "skip_ws ?items = ?items" using \<open>\<not> is_ws (hd w)\<close> by simp
    moreover have "hd ?items \<noteq> CHR '']''" using c assms(2) Cons by simp
    moreover have "array_items (parse_value d) ?items = Some (vs, t)" using array_items_encoded [OF assms(1)] Cons by blast
    ultimately show ?thesis by (simp only: bracketed_def simp_thms if_False)
  qed
  then show ?thesis by (simp add: encode_array_def parse_value_head [OF bracket_head(2)])
qed

lemma decode_encoded:
  assumes "list_all member_reads ms"
  shows "decode_struct strict fs (encode_object (member_texts ms) @ t) =
     map_option (\<lambda>vals. (vals, t)) (decode_members strict fs ms [])"
  by (simp add: decode_struct_def encode_object_members [OF assms])

section \<open>What is decoded is typed\<close>

text \<open>Strings are UTF-8, and a raw value, once written, reads as the value it was read as.\<close>

lemma unescape_valid: "unescape s = Some (x, r) \<Longrightarrow> valid_utf8 x"
proof -
  have "valid_utf8 [c]" if "chr_code c < 128" for c using that by (intro ascii_valid) simp
  moreover have "valid_utf8 replacement" using EncodeRune_valid [of "0xFFFD"] by (simp add: EncodeRune_specials)
  ultimately show "unescape s = Some (x, r) \<Longrightarrow> valid_utf8 x"
    by (auto simp: unescape_def unicode_escape_def EncodeRune_valid split: list.splits if_splits option.splits)
qed

lemma json_str_valid: "json_str s = Some (x, r) \<Longrightarrow> valid_utf8 x"
proof (induction s arbitrary: x rule: json_str.induct)
  case (2 c s)
  let ?k = "utf8_len (c # s)"
  consider "c = quote_mark" | (esc) "c = backslash" | (bad) "?k = 0" "c \<noteq> quote_mark" "c \<noteq> backslash" "\<not> chr_code c < 0x20"
    | (rune) "?k \<noteq> 0" "c \<noteq> quote_mark" "c \<noteq> backslash" "\<not> chr_code c < 0x20"
    using 2(4) by (auto simp: json_str.simps(2) split: if_splits)
  then show ?case
  proof cases
    case 1
    with 2(4) show ?thesis by (simp add: json_str.simps(2) valid_utf8_def)
  next
    case esc
    with 2(4) obtain y r1 z where y: "unescape s = Some (y, r1)" "json_str r1 = Some (z, r)" "x = y @ z"
      by (auto simp: json_str.simps(2) prepend_eq_Some split: option.splits)
    then show ?thesis using 2(1) esc unescape_valid valid_utf8_append by auto
  next
    case bad
    with 2(4) obtain z where "json_str s = Some (z, r)" "x = replacement @ z"
      by (auto simp: json_str.simps(2) prepend_eq_Some Let_def)
    with 2(2) bad to_valid_replacement [of z] show ?thesis by (auto simp: valid_utf8_def)
  next
    case rune
    with 2(4) obtain z where z: "json_str (drop (?k - 1) s) = Some (z, r)" "x = take ?k (c # s) @ z"
      by (auto simp: json_str.simps(2) prepend_eq_Some Let_def)
    then have "valid_utf8 z" using 2(3) [OF _ _ _ refl] rune by blast
    with z(2) to_valid_take [of "c # s" z] rune(1) show ?thesis by (simp add: valid_utf8_def)
  qed
qed (simp add: json_str.simps)

lemma object_members_each: "object_members p s = Some (ms, r) \<Longrightarrow> m \<in> set ms \<Longrightarrow> \<exists>s0 r0. object_member p s0 = Some (m, r0)"
proof (induction p s arbitrary: ms rule: object_members.induct)
  case (1 p s)
  obtain m0 r1 c r' where first: "object_member p s = Some (m0, r1)" "skip_ws r1 = c # r'"
    using 1(2) by (auto simp: object_members.simps [of p s] split: option.splits list.splits)
  show ?case
  proof (cases "c = CHR ''}''")
    case False
    with 1(2) first obtain ms' where rest: "c = CHR '','' \<and> length r' < length s" "object_members p r' = Some (ms', r)" "ms = m0 # ms'"
      by (auto simp: object_members.simps [of p s] split: if_splits)
    with 1(1) [OF first(1) refl first(2) False rest(1) rest(2)] 1(3) first(1) show ?thesis by auto
  next
    case True
    with 1(2,3) first have "m = m0" by (auto simp: object_members.simps [of p s])
    with first(1) show ?thesis by blast
  qed
qed

text \<open>A text of one value, which reads as the value once it is written, too.\<close>

definition raw_typed :: "string \<Rightarrow> json \<Rightarrow> bool" where
  "raw_typed w v \<longleftrightarrow> w \<noteq> [] \<and> parse_value maxNestingDepth w = Some (v, []) \<and> reads_as (compact False w) v"

text \<open>A member of a text: its key and string are UTF-8, and its text, compacted, reads as its value.\<close>

definition member_typed :: "string \<times> string \<times> json \<Rightarrow> bool" where
  "member_typed m \<longleftrightarrow> valid_utf8 (fst m) \<and> (\<forall>x. snd (snd m) = JStr x \<longrightarrow> valid_utf8 x) \<and>
     raw_typed (fst (snd m)) (snd (snd m))"

lemma value_string_valid:
  assumes "parse_value d s = Some (JStr x, r)"
  shows "valid_utf8 x"
proof -
  obtain ws where ws: "s = ws @ skip_ws s" "\<forall>c \<in> set ws. is_ws c" using skip_ws_split by blast
  then have run: "parse_value d (skip_ws s) = Some (JStr x, r)" using assms parse_value_skip [OF ws(2)] by metis
  have "parse_value d [] = None" by (simp add: parse_value.simps)
  with run obtain c u where c: "skip_ws s = c # u" by (cases "skip_ws s") auto
  with run have "json_str u = Some (x, r)"
    by (auto simp: parse_value_head [OF skip_ws_head [OF c]] scan_word_def split: if_splits)
  then show ?thesis by (rule json_str_valid)
qed

lemma deeper: "value_parser s = Some x \<Longrightarrow> parse_value maxNestingDepth s = Some x"
  using parse_value_extends [of "maxNestingDepth - 1"] by (cases x) (simp add: extends_def maxNestingDepth_def)

lemma value_raw_typed:
  assumes "value_parser s = Some (v, r)"
  shows "raw_typed (take (length s - length r) s) v"
proof -
  let ?w = "take (length s - length r) s"
  obtain w where w: "s = w @ r" "closed_piece w" "compact False w \<noteq> []"
      "\<And>t. ends_value t \<Longrightarrow> value_parser (compact False w @ t) = Some (v, t)"
    using reads_piecesD [OF parse_value_pieces assms] by blast
  then have eq: "?w = w" by simp
  have "\<not> is_ws (hd (compact False w))" using w(3) compact_no_ws by (cases "compact False w") auto
  then have reads: "reads_as (compact False ?w) v" using w unfolding eq by (simp add: reads_at_def)
  obtain w' where w': "s = w' @ r" "w' \<noteq> []" "\<And>t. ends_value t \<Longrightarrow> value_parser (w' @ t) = Some (v, t)"
    using local_parserD [OF parse_value_local_parser assms] by blast
  then have "?w = w'" by simp
  with w'(2) w'(3) [of "[]"] reads show ?thesis by (simp add: raw_typed_def ends_value_def deeper)
qed

lemma object_member_typed:
  assumes "object_member value_parser s = Some (m, r)"
  shows "member_typed m"
proof -
  obtain r0 k r1 r2 v where s: "json_str r0 = Some (k, r1)" "value_parser (skip_ws r2) = Some (v, r)"
      "m = (k, take (length (skip_ws r2) - length r) (skip_ws r2), v)"
    using assms by (auto simp: object_member_def Let_def split: list.splits option.splits if_splits)
  with json_str_valid [OF s(1)] value_raw_typed [OF s(2)] value_string_valid show ?thesis
    by (auto simp: member_typed_def)
qed

lemma parse_members_typed:
  assumes "parse_members s = Some (ms, r)"
  shows "list_all member_typed ms"
proof -
  obtain u where "bracketed (CHR ''}'') (object_members value_parser) u = Some (ms, r)"
    using assms by (auto simp: parse_members_def split: list.splits if_splits)
  then consider "ms = []" | "object_members value_parser u = Some (ms, r)"
    by (auto simp: bracketed_def split: if_splits)
  then show ?thesis
  proof cases
    case 2
    then show ?thesis using object_members_each [OF 2] object_member_typed unfolding list_all_iff by blast
  qed simp
qed

section \<open>A text that is cut\<close>

lemma parse_members_rest:
  assumes "parse_value maxNestingDepth s = Some (JObj js, r)"
  shows "\<exists>ms. parse_members s = Some (ms, r) \<and> js = map member_value ms"
proof -
  have "skip_ws s \<noteq> []" using assms parse_value_blank [of s maxNestingDepth] by (metis option.distinct(1))
  then obtain c u where c: "skip_ws s = c # u" by (cases "skip_ws s") auto
  obtain ws where ws: "s = ws @ skip_ws s" "\<forall>c \<in> set ws. is_ws c" using skip_ws_split by blast
  from assms have "parse_value maxNestingDepth (c # u) = Some (JObj js, r)"
    using parse_value_skip [OF ws(2), of maxNestingDepth "c # u"] ws(1) c by simp
  then show ?thesis
    using c by (auto simp: parse_members_def parse_value_head [OF skip_ws_head [OF c]] scan_word_def split: if_splits)
qed

text \<open>What is read of a text is what it takes: a text cut before that is refused.\<close>

theorem decode_struct_cut:
  assumes "parse_value maxNestingDepth s = Some (v, r)" and "n < length s - length r"
  shows "decode_struct strict fs (take n s) = None"
proof (cases "parse_value maxNestingDepth (take n s)")
  case (Some x)
  then obtain v' r' where x: "parse_value maxNestingDepth (take n s) = Some (v', r')" by (cases x) auto
  from parse_value_cut [OF assms x] x show ?thesis by (auto simp: decode_struct_def split: json.split)
qed (simp add: decode_struct_def)

section \<open>The fields of a struct\<close>

lemma field_of_mem: "field_of fs key = Some f \<Longrightarrow> f \<in> set fs"
  by (auto simp: field_of_def find_Some_iff split: option.splits)

definition kind_typed :: "field_kind \<Rightarrow> string \<Rightarrow> bool" where
  "kind_typed k x \<longleftrightarrow>
     (case k of StringField \<Rightarrow> valid_utf8 x | RawField \<Rightarrow> \<exists>v. raw_typed x v | TextField accepts \<Rightarrow> accepts x)"

definition val_typed :: "field list \<Rightarrow> string \<times> string \<Rightarrow> bool" where
  "val_typed fs p \<longleftrightarrow> (\<exists>k. (fst p, k) \<in> set fs \<and> kind_typed k (snd p))"

abbreviation vals_typed :: "field list \<Rightarrow> (string \<times> string) list \<Rightarrow> bool" where
  "vals_typed fs \<equiv> list_all (val_typed fs)"

lemma decode_member_typed:
  assumes "member_typed m" and "vals_typed fs vals" and "decode_member strict fs m vals = Some vals'"
  shows "vals_typed fs vals'"
proof (cases "field_of fs (fst m)")
  case None
  with assms show ?thesis by (auto simp: decode_member_def split: if_splits)
next
  case (Some fk)
  obtain f k where fk: "fk = (f, k)" by (cases fk)
  have "vals' = vals \<or> (\<exists>x. vals' = (f, x) # vals \<and> kind_typed k x)"
    using assms(1,3) Some fk
    by (cases k) (auto simp: decode_member_def member_typed_def kind_typed_def split: json.splits if_splits)
  then show ?thesis using assms(2) field_of_mem [OF Some] by (auto simp: val_typed_def fk)
qed

lemma decode_members_typed:
  "list_all member_typed ms \<Longrightarrow> vals_typed fs vals \<Longrightarrow> decode_members strict fs ms vals = Some vals' \<Longrightarrow> vals_typed fs vals'"
  by (induction ms arbitrary: vals) (auto split: option.splits dest: decode_member_typed)

theorem decode_struct_typed:
  assumes "decode_struct strict fs s = Some (vals, r)"
  shows "vals_typed fs vals"
proof -
  consider "vals = []" | ms r' where "parse_members s = Some (ms, r')" "decode_members strict fs ms [] = Some vals"
    using assms by (auto simp: decode_struct_def split: option.splits json.splits)
  then show ?thesis
  proof cases
    case 2
    show ?thesis by (rule decode_members_typed [OF parse_members_typed [OF 2(1)] _ 2(2)]) simp
  qed simp
qed

lemma field_kind_typed:
  assumes "vals_typed fs vals" and "\<forall>k'. (f, k') \<in> set fs \<longrightarrow> k' = k"
  shows "field_value vals f = [] \<or> kind_typed k (field_value vals f)"
proof (cases "map_of vals f")
  case (Some x)
  then have "val_typed fs (f, x)" using assms(1) map_of_SomeD [OF Some] by (auto simp: list_all_iff)
  then show ?thesis using assms(2) Some by (auto simp: val_typed_def field_value_def)
qed (simp add: field_value_def)

lemma field_valid:
  "vals_typed fs vals \<Longrightarrow> \<forall>k. (f, k) \<in> set fs \<longrightarrow> k = StringField \<Longrightarrow> valid_utf8 (field_value vals f)"
  using field_kind_typed [of fs vals f StringField] by (auto simp: kind_typed_def valid_utf8_def)

lemma field_raw:
  "vals_typed fs vals \<Longrightarrow> \<forall>k. (f, k) \<in> set fs \<longrightarrow> k = RawField \<Longrightarrow>
     field_value vals f = [] \<or> (\<exists>v. raw_typed (field_value vals f) v)"
  using field_kind_typed [of fs vals f RawField] by (auto simp: kind_typed_def)

end
