(* ===== verification/Wire.thy ===== *)
theory Wire
  imports Dispatch Go_Json_Struct
begin

text \<open>
  The JSON the program reads and writes: the bodies of internal/transport's requests, the
  credential internal/authclient posts, the messages of a signaling channel as
  internal/signaling declares them and internal/transport/signal.go reads and writes
  them, and the configured clients of internal/config. The theorems say what the other
  end reads of what one end wrote.
\<close>

section \<open>Request bodies\<close>

text \<open>A body is bytes; the text of a JSON value is a string of them.\<close>

definition bytes_string :: "byte list \<Rightarrow> string" where
  "bytes_string b = map (\<lambda>x. char_of (unat x)) b"

lemma char_byte: "char_of (unat (of_char c :: byte)) = c"
proof -
  have "(of_char c :: byte) = of_nat (of_char c)" by (simp only: of_nat_of_char)
  then have "unat (of_char c :: byte) = take_bit 8 (of_char c)" by (simp only: unsigned_of_nat) simp
  then show ?thesis by (simp add: char_of_take_bit_eq)
qed

lemma bytes_string_bytes [simp]: "bytes_string (string_bytes s) = s"
  by (simp add: bytes_string_def string_bytes_def char_byte comp_def)

lemma bytes_string_take: "bytes_string (take n b) = take n (bytes_string b)"
  by (simp add: bytes_string_def take_map)

lemma string_bytes_append: "string_bytes (s @ t) = string_bytes s @ string_bytes t"
  by (simp add: string_bytes_def)

lemma string_bytes_length [simp]: "length (string_bytes s) = length s"
  by (simp add: string_bytes_def)

definition credential_fields :: "field list" where
  "credential_fields = [(''client_id'', StringField), (''client_secret'', StringField)]"

definition decode_credential :: "byte list \<Rightarrow> credentialRequest option" where
  "decode_credential b =
     map_option (\<lambda>(vals, _). \<lparr>cq_ClientID = field_value vals ''client_id'', cq_ClientSecret = field_value vals ''client_secret''\<rparr>)
       (decode_struct True credential_fields (bytes_string b))"

definition open_fields :: "field list" where
  "open_fields = [(''peer_id'', StringField)]"

definition decode_open :: "byte list \<Rightarrow> openRequest option" where
  "decode_open b =
     map_option (\<lambda>(vals, _). \<lparr>or_PeerID = field_value vals ''peer_id''\<rparr>) (decode_struct True open_fields (bytes_string b))"

definition report_fields :: "field list" where
  "report_fields = [(''state'', StringField), (''path'', StringField)]"

definition decode_report :: "byte list \<Rightarrow> reportRequest option" where
  "decode_report b =
     map_option (\<lambda>(vals, _). \<lparr>rr_State = field_value vals ''state'', rr_Path = field_value vals ''path''\<rparr>)
       (decode_struct True report_fields (bytes_string b))"

text \<open>The decoders the dispatcher takes.\<close>

definition wire_decoders :: decoders where
  "wire_decoders = \<lparr>dc_Credential = decode_credential, dc_Open = decode_open, dc_Report = decode_report\<rparr>"

text \<open>What the authentication client posts: a map, written in the order of its keys.\<close>

definition credential_body :: "string \<Rightarrow> string \<Rightarrow> byte list" where
  "credential_body clientID clientSecret =
     string_bytes (encode_object [(''client_id'', json_quote clientID), (''client_secret'', json_quote clientSecret)])"

lemma valid_names [simp]:
  "valid_utf8 ''client_id''" "valid_utf8 ''client_secret''" "valid_utf8 ''peer_id''" "valid_utf8 ''secret''"
  "valid_utf8 ''type''" "valid_utf8 ''session_id''" "valid_utf8 ''from''" "valid_utf8 ''payload''" "valid_utf8 ''code''"
  "valid_utf8 ''state''"
  by (rule ascii_valid; simp)+

lemma credential_struct:
  "parse_value maxNestingDepth (bytes_string (credential_body cid sec)) =
     Some (JObj [(''client_id'', JStr (to_valid cid)), (''client_secret'', JStr (to_valid sec))], [])"
  "decode_struct True credential_fields (bytes_string (credential_body cid sec)) =
     Some ([(''client_secret'', to_valid sec), (''client_id'', to_valid cid)], [])"
proof -
  let ?ms = "[(''client_id'', json_quote cid, JStr (to_valid cid)), (''client_secret'', json_quote sec, JStr (to_valid sec))]"
  have reads: "list_all member_reads ?ms" by (simp add: member_reads_at_def json_quote_reads)
  show "parse_value maxNestingDepth (bytes_string (credential_body cid sec)) =
     Some (JObj [(''client_id'', JStr (to_valid cid)), (''client_secret'', JStr (to_valid sec))], [])"
    using encode_object_members(2) [OF reads, of "[]"] by (simp add: credential_body_def member_value_def)
  show "decode_struct True credential_fields (bytes_string (credential_body cid sec)) =
     Some ([(''client_secret'', to_valid sec), (''client_id'', to_valid cid)], [])"
    using decode_encoded [OF reads, of True credential_fields "[]"]
    by (simp add: credential_body_def decode_member_def field_of_def credential_fields_def)
qed

lemma credential_read:
  "decode_within maxCredentialBody decode_credential (credential_body clientID clientSecret) =
     (if length (credential_body clientID clientSecret) \<le> 4096
      then Some \<lparr>cq_ClientID = to_valid clientID, cq_ClientSecret = to_valid clientSecret\<rparr> else None)"
proof (cases "length (credential_body clientID clientSecret) \<le> 4096")
  case True
  then show ?thesis
    by (simp add: decode_within_def maxCredentialBody_def decode_credential_def credential_struct field_value_def)
next
  case False
  let ?s = "bytes_string (credential_body clientID clientSecret)"
  have "length ?s = length (credential_body clientID clientSecret)" by (simp add: bytes_string_def)
  then have "decode_struct True credential_fields (take 4096 ?s) = None"
    using False by (intro decode_struct_cut [OF credential_struct(1)]) simp
  with False show ?thesis
    by (simp add: decode_within_def maxCredentialBody_def decode_credential_def bytes_string_take)
qed

section \<open>Messages of a channel\<close>

definition message_fields :: "field list" where
  "message_fields =
     [(''type'', StringField), (''session_id'', StringField), (''from'', StringField), (''payload'', RawField),
      (''code'', StringField), (''state'', StringField)]"

text \<open>What the reading end makes of one frame; unknown fields are ignored.\<close>

definition unmarshal_message :: "byte list \<Rightarrow> message option" where
  "unmarshal_message b =
     map_option (\<lambda>vals.
       \<lparr>msg_Type = field_value vals ''type'', msg_SessionID = field_value vals ''session_id'',
        msg_From = field_value vals ''from'', msg_Payload = string_bytes (field_value vals ''payload''),
        msg_Code = field_value vals ''code'', msg_State = field_value vals ''state''\<rparr>)
       (unmarshal_struct message_fields (bytes_string b))"

text \<open>The value of a payload, absent when it is not the text of one.\<close>

definition payload_value :: "byte list \<Rightarrow> json option" where
  "payload_value b =
     (case parse_value maxNestingDepth (bytes_string b) of
        None \<Rightarrow> None
      | Some (v, r) \<Rightarrow> if skip_ws r = [] then Some v else None)"

definition omitempty :: "string \<Rightarrow> 'a list \<Rightarrow> 'b \<Rightarrow> (string \<times> 'b) list" where
  "omitempty name v encoded = (if v = [] then [] else [(name, encoded)])"

definition message_members :: "message \<Rightarrow> (string \<times> string) list" where
  "message_members m =
     [(''type'', json_quote (msg_Type m))] @
     omitempty ''session_id'' (msg_SessionID m) (json_quote (msg_SessionID m)) @
     omitempty ''from'' (msg_From m) (json_quote (msg_From m)) @
     omitempty ''payload'' (msg_Payload m) (compact False (bytes_string (msg_Payload m))) @
     omitempty ''code'' (msg_Code m) (json_quote (msg_Code m)) @
     omitempty ''state'' (msg_State m) (json_quote (msg_State m))"

text \<open>A payload that is not JSON cannot be written.\<close>

definition marshal_message :: "message \<Rightarrow> byte list option" where
  "marshal_message m =
     (if msg_Payload m \<noteq> [] \<and> payload_value (msg_Payload m) = None then None
      else Some (string_bytes (encode_object (message_members m))))"

section \<open>What is read of what is written\<close>

definition message_typed :: "message \<Rightarrow> bool" where
  "message_typed m \<longleftrightarrow>
     valid_utf8 (msg_Type m) \<and> valid_utf8 (msg_SessionID m) \<and> valid_utf8 (msg_From m) \<and> valid_utf8 (msg_Code m) \<and>
     valid_utf8 (msg_State m) \<and> (msg_Payload m = [] \<or> (\<exists>v. raw_typed (bytes_string (msg_Payload m)) v))"

text \<open>The message as its reader has it: the payload is the same value, written without white space.\<close>

definition received :: "message \<Rightarrow> message" where
  "received m = m\<lparr>msg_Payload := string_bytes (compact False (bytes_string (msg_Payload m)))\<rparr>"

lemma bytes_string_append [simp]: "bytes_string (a @ b) = bytes_string a @ bytes_string b"
  by (simp add: bytes_string_def)

lemma bytes_string_Nil [simp]: "bytes_string [] = []" "bytes_string b = [] \<longleftrightarrow> b = []"
  by (simp_all add: bytes_string_def)

lemma string_bytes_Nil [simp]: "string_bytes [] = []" "string_bytes s = [] \<longleftrightarrow> s = []"
  by (simp_all add: string_bytes_def)

lemma decode_members_append:
  "decode_members strict fs (a @ b) vals =
     (case decode_members strict fs a vals of None \<Rightarrow> None | Some vals' \<Rightarrow> decode_members strict fs b vals')"
  by (induction a arbitrary: vals) (auto split: option.split)

definition set_field :: "string \<Rightarrow> 'a list \<Rightarrow> string \<Rightarrow> (string \<times> string) list \<Rightarrow> (string \<times> string) list" where
  "set_field f x y vals = (if x = [] then vals else (f, y) # vals)"

lemma field_value_set [simp]:
  "field_value (set_field f x y vals) g = (if f = g \<and> x \<noteq> [] then y else field_value vals g)"
  by (simp add: set_field_def field_value_def)

lemma field_value_empty [simp]: "field_value [] f = []"
  by (simp add: field_value_def)

lemma field_value_one [simp]: "field_value [(f, x)] g = (if f = g then x else [])"
  by (simp add: field_value_def)

lemma decode_omitempty:
  assumes "(f, StringField) \<in> set message_fields"
  shows "decode_members False message_fields (omitempty f x (w, JStr y)) vals = Some (set_field f x y vals)"
  using assms by (auto simp: omitempty_def set_field_def message_fields_def decode_member_def field_of_def)

lemma string_fields:
  "(''session_id'', StringField) \<in> set message_fields" "(''from'', StringField) \<in> set message_fields"
  "(''code'', StringField) \<in> set message_fields" "(''state'', StringField) \<in> set message_fields"
  by (simp_all add: message_fields_def)

lemmas decode_strings = string_fields [THEN decode_omitempty]

lemma decode_payload:
  "decode_members False message_fields (omitempty ''payload'' x (w, v)) vals = Some (set_field ''payload'' x w vals)"
  by (simp add: omitempty_def set_field_def message_fields_def decode_member_def field_of_def)

lemma decode_type:
  "decode_members False message_fields [(''type'', w, JStr y)] vals = Some ((''type'', y) # vals)"
  by (simp add: message_fields_def decode_member_def field_of_def)

definition message_values :: "message \<Rightarrow> json \<Rightarrow> (string \<times> string \<times> json) list" where
  "message_values m v =
     [(''type'', json_quote (msg_Type m), JStr (to_valid (msg_Type m)))] @
     omitempty ''session_id'' (msg_SessionID m) (json_quote (msg_SessionID m), JStr (to_valid (msg_SessionID m))) @
     omitempty ''from'' (msg_From m) (json_quote (msg_From m), JStr (to_valid (msg_From m))) @
     omitempty ''payload'' (msg_Payload m) (compact False (bytes_string (msg_Payload m)), v) @
     omitempty ''code'' (msg_Code m) (json_quote (msg_Code m), JStr (to_valid (msg_Code m))) @
     omitempty ''state'' (msg_State m) (json_quote (msg_State m), JStr (to_valid (msg_State m)))"

lemma map_omitempty: "map (\<lambda>m. (fst m, fst (snd m))) (omitempty f x (w, v)) = omitempty f x w"
  by (simp add: omitempty_def)

lemma list_all_omitempty: "list_all P (omitempty f x y) \<longleftrightarrow> x = [] \<or> P (f, y)"
  by (simp add: omitempty_def)

lemma message_decoded:
  assumes "msg_Payload m = [] \<or> raw_typed (bytes_string (msg_Payload m)) v" and "list_all is_ws ws"
    and "valid_utf8 (msg_Type m)" and "valid_utf8 (msg_SessionID m)" and "valid_utf8 (msg_From m)" and "valid_utf8 (msg_Code m)"
    and "valid_utf8 (msg_State m)"
  shows "unmarshal_message (string_bytes (encode_object (message_members m)) @ string_bytes ws) = Some (received m)"
proof -
  let ?ms = "message_values m v"
  have texts: "message_members m = map (\<lambda>m. (fst m, fst (snd m))) ?ms"
    by (simp add: message_members_def message_values_def map_omitempty)
  have reads: "list_all member_reads ?ms"
    using assms(1) by (auto simp: message_values_def list_all_omitempty member_reads_at_def json_quote_reads raw_typed_def)
  have decoded: "decode_members False message_fields ?ms [] =
      Some (set_field ''state'' (msg_State m) (msg_State m) (set_field ''code'' (msg_Code m) (msg_Code m)
        (set_field ''payload'' (msg_Payload m) (compact False (bytes_string (msg_Payload m)))
          (set_field ''from'' (msg_From m) (msg_From m) (set_field ''session_id'' (msg_SessionID m) (msg_SessionID m)
            [(''type'', msg_Type m)])))))"
    using assms(3-7) unfolding valid_utf8_def
    by (simp only: message_values_def decode_members_append decode_type decode_payload option.case
        decode_strings)
  have "skip_ws ws = []" using assms(2) by (simp add: list_all_iff)
  with decode_encoded [OF reads, of False message_fields ws, folded texts] decoded
  have "unmarshal_struct message_fields (encode_object (message_members m) @ ws) =
      decode_members False message_fields ?ms []"
    by (simp add: unmarshal_struct_def)
  then show ?thesis
    unfolding unmarshal_message_def by (auto simp: decoded received_def intro!: message.equality)
qed

lemma received_fields [simp]:
  "msg_Type (received m) = msg_Type m" "msg_SessionID (received m) = msg_SessionID m" "msg_From (received m) = msg_From m"
  "msg_Code (received m) = msg_Code m" "msg_State (received m) = msg_State m"
  by (simp_all add: received_def)

lemma raw_payload_value:
  assumes "raw_typed (bytes_string b) v"
  shows "payload_value b = Some v" and "payload_value (string_bytes (compact False (bytes_string b))) = Some v"
proof -
  have "value_parser (compact False (bytes_string b) @ []) = Some (v, [])"
    using assms by (simp add: raw_typed_def reads_at_def ends_value_def)
  then have "parse_value maxNestingDepth (compact False (bytes_string b)) = Some (v, [])" by (simp add: deeper)
  then show "payload_value (string_bytes (compact False (bytes_string b))) = Some v" by (simp add: payload_value_def)
  show "payload_value b = Some v" using assms by (simp add: raw_typed_def payload_value_def)
qed

lemma typed_message_reads:
  assumes "message_typed m"
  shows "\<exists>b. marshal_message m = Some b \<and>
     (\<forall>ws. list_all is_ws ws \<longrightarrow> unmarshal_message (b @ string_bytes ws) = Some (received m)) \<and>
     payload_value (msg_Payload (received m)) = payload_value (msg_Payload m)"
proof -
  obtain v where v: "msg_Payload m = [] \<or> raw_typed (bytes_string (msg_Payload m)) v"
    using assms by (auto simp: message_typed_def)
  have strings: "valid_utf8 (msg_Type m)" "valid_utf8 (msg_SessionID m)" "valid_utf8 (msg_From m)" "valid_utf8 (msg_Code m)"
      "valid_utf8 (msg_State m)" using assms by (simp_all add: message_typed_def)
  have "payload_value (msg_Payload (received m)) = payload_value (msg_Payload m)"
    using v raw_payload_value [of "msg_Payload m" v] by (cases "msg_Payload m = []") (simp_all add: received_def)
  moreover have "marshal_message m = Some (string_bytes (encode_object (message_members m)))"
    using v raw_payload_value(1) by (auto simp: marshal_message_def)
  ultimately show ?thesis using message_decoded [OF v _ strings] by blast
qed

lemma typed_unmarshal:
  assumes "unmarshal_message b = Some m"
  shows "message_typed m"
proof -
  obtain vals r where vals: "decode_struct False message_fields (bytes_string b) = Some (vals, r)"
      "m = \<lparr>msg_Type = field_value vals ''type'', msg_SessionID = field_value vals ''session_id'',
        msg_From = field_value vals ''from'', msg_Payload = string_bytes (field_value vals ''payload''),
        msg_Code = field_value vals ''code'', msg_State = field_value vals ''state''\<rparr>"
    using assms by (auto simp: unmarshal_message_def unmarshal_struct_def split: option.splits if_splits)
  note typed = decode_struct_typed [OF vals(1)]
  have no_raw: "\<forall>k. (f, k) \<in> set message_fields \<longrightarrow> k = StringField" if "f \<noteq> ''payload''" for f
    using that by (simp add: message_fields_def)
  have no_string: "\<forall>k. (''payload'', k) \<in> set message_fields \<longrightarrow> k = RawField" by (simp add: message_fields_def)
  show ?thesis
    using field_valid [OF typed no_raw] field_raw [OF typed no_string] by (simp add: message_typed_def vals(2))
qed

lemma carried_typed: "message_typed m \<Longrightarrow> valid_utf8 p \<Longrightarrow> message_typed (carried p m)"
  by (simp add: message_typed_def carried_def) (simp add: valid_utf8_def)

definition refusal_code :: "string \<Rightarrow> bool" where
  "refusal_code code \<longleftrightarrow> code \<in> {CodeNotInSession, CodePeerNotConnected, CodeUnknownType, CodeTooFast}"

lemma refusal_code_valid: "refusal_code code \<Longrightarrow> valid_utf8 code"
  unfolding refusal_code_def CodeNotInSession_def CodePeerNotConnected_def CodeUnknownType_def CodeTooFast_def
  by (elim insertE emptyE; hypsubst; rule ascii_valid; simp)

lemma refusal_typed: "message_typed m \<Longrightarrow> refusal_code code \<Longrightarrow> message_typed (refusal_message m code)"
  using refusal_code_valid ascii_valid [of ErrorType]
  by (simp add: message_typed_def refusal_message_def) (simp add: valid_utf8_def ErrorType_def)

lemma Route_writes:
  assumes "hub_Route other writes now sender msg (h, e) = ((h', e'), eff, err)" and "Wrote c out \<in> set eff"
  shows "out = carried sender msg \<or> (\<exists>code. refusal_code code \<and> out = refusal_message msg code)"
proof (cases "route_refusal other writes now sender msg h e")
  case None
  with hub_Route_effects [OF assms(1)] assms(2) show ?thesis by auto
next
  case (Some code)
  then have "refusal_code code" by (auto simp: route_refusal_def refusal_code_def split_beta Let_def split: if_splits)
  moreover have "Wrote c out \<in> set (fst (hub_send writes sender (refusal_message msg code) h))"
    using hub_Route_effects [OF assms(1)] Some assms(2) by auto
  ultimately show ?thesis by (auto simp: hub_send_conn split: option.splits if_splits)
qed

section \<open>A frame with a payload\<close>

definition sample_frame :: "byte list" where
  "sample_frame =
     string_bytes (encode_object [(''type'', json_quote ''offer''), (''session_id'', json_quote ''s''), (''payload'', ''[ ]'')])"

definition sample_message :: message where
  "sample_message = message_zero\<lparr>msg_Type := ''offer'', msg_SessionID := ''s'', msg_Payload := string_bytes ''[ ]''\<rparr>"

lemma sample_array: "parse_value (Suc d) (''[ ]'' @ t) = Some (JArr [], t)"
  by (simp add: parse_value_head is_ws_def bracketed_def)

lemma sample_array_reads: "reads_as ''[ ]'' (JArr [])"
  using sample_array [of 9998] by (simp add: reads_at_def maxNestingDepth_def is_ws_def)

lemma sample_payload_value: "payload_value (string_bytes ''[ ]'') = Some (JArr [])"
  using sample_array [of 9999 "[]"] by (simp add: payload_value_def maxNestingDepth_def)

lemma sample_frame_reads: "unmarshal_message sample_frame = Some sample_message"
proof -
  let ?ms = "[(''type'', json_quote ''offer'', JStr (to_valid ''offer'')), (''session_id'', json_quote ''s'', JStr (to_valid ''s'')),
    (''payload'', ''[ ]'', JArr [])]"
  have reads: "list_all member_reads ?ms" using sample_array_reads by (simp add: member_reads_at_def json_quote_reads del: to_valid.simps)
  have "valid_utf8 ''offer''" "valid_utf8 ''s''" by (rule ascii_valid; simp)+
  then have "to_valid ''offer'' = ''offer''" "to_valid ''s'' = ''s''" by (simp_all only: valid_utf8_def)
  with decode_encoded [OF reads, of False message_fields "[]"]
  have "decode_struct False message_fields (bytes_string sample_frame) =
      Some ([(''payload'', ''[ ]''), (''session_id'', ''s''), (''type'', ''offer'')], [])"
    by (simp add: sample_frame_def decode_member_def field_of_def message_fields_def)
  then show ?thesis
    by (simp add: unmarshal_message_def unmarshal_struct_def sample_message_def message_zero_def field_value_def)
qed

lemma sample_valid_a: "valid_utf8 ''a''"
  by (rule ascii_valid) simp

lemma sample_relay:
  "\<exists>he eff err. hub_Route (\<lambda>_ _ e. (e, ''b'', True)) (\<lambda>_ _. True) 5 ''a'' sample_message (sample_hub, 0 :: nat) = (he, eff, err) \<and>
     Wrote 2 (carried ''a'' sample_message) \<in> set eff"
proof -
  let ?r = "hub_Route (\<lambda>_ _ e. (e, ''b'', True)) (\<lambda>_ _. True) 5 ''a'' sample_message (sample_hub, 0 :: nat)"
  have allowed: "snd (hub_allowed 5 ''a'' sample_hub)"
    by (simp add: hub_allowed_def sample_hub_def time_Sub_def max_duration_def min_duration_def minute_def second_def)
  have target: "route_target (\<lambda>_ _. True) ''a'' sample_message ''b'' sample_hub = Some 2"
    by (simp add: route_target_def sample_hub_def)
  have ref: "route_refusal (\<lambda>_ _ e. (e, ''b'', True)) (\<lambda>_ _. True) 5 ''a'' sample_message sample_hub (0 :: nat) = None"
    using allowed target by (simp add: route_refusal_def carriable_def) (simp add: sample_message_def message_zero_def msg_types)
  obtain h' e' eff err where run: "?r = ((h', e'), eff, err)" by (metis prod.exhaust)
  show ?thesis using hub_Route_effects [OF run] ref target run by auto
qed

section \<open>The properties\<close>



text \<open>
  C12: A message on the wire. What a channel is written of a frame that decodes reads, at the
  other end and whatever white space follows it, as the message the hub wrote: for a
  message carried, the type and the session of the frame, the sender's own identifier
  whatever the frame named, a payload of the same JSON value, and no code or state; for
  a refusal, exactly the refusal. The payload's bytes may differ from the sender's: they
  are written without white space, and escaped.
\<close>

theorem relay_on_the_wire:
  assumes "unmarshal_message raw = Some msg" and "valid_utf8 sender"
    and "hub_Route other writes now sender msg (h, e) = ((h', e'), eff, err)" and "Wrote c out \<in> set eff"
  shows "\<exists>b got. marshal_message out = Some b \<and>
     (\<forall>ws. list_all is_ws ws \<longrightarrow> unmarshal_message (b @ string_bytes ws) = Some got) \<and>
     (out = carried sender msg \<and> msg_Type got = msg_Type msg \<and> msg_SessionID got = msg_SessionID msg \<and>
        msg_From got = sender \<and> payload_value (msg_Payload got) = payload_value (msg_Payload msg) \<and>
        msg_Code got = [] \<and> msg_State got = [] \<or>
      (\<exists>code. refusal_code code \<and> out = refusal_message msg code \<and> got = out))"
proof -
  note msg = typed_unmarshal [OF assms(1)]
  note written = Route_writes [OF assms(3,4)]
  then have out: "message_typed out" using msg carried_typed [OF _ assms(2)] refusal_typed by blast
  obtain b where b: "marshal_message out = Some b"
      "\<And>ws. list_all is_ws ws \<Longrightarrow> unmarshal_message (b @ string_bytes ws) = Some (received out)"
      "payload_value (msg_Payload (received out)) = payload_value (msg_Payload out)"
    using typed_message_reads [OF out] by blast
  have "received (refusal_message msg code) = refusal_message msg code" for code
    by (simp add: received_def refusal_message_def)
  moreover have "msg_Type (carried sender msg) = msg_Type msg" "msg_From (carried sender msg) = sender"
      "msg_SessionID (carried sender msg) = msg_SessionID msg" "msg_Payload (carried sender msg) = msg_Payload msg"
      "msg_Code (carried sender msg) = []" "msg_State (carried sender msg) = []" by (simp_all add: carried_def)
  ultimately show ?thesis using written b by (intro exI [of _ b] exI [of _ "received out"]) auto
qed

theorem relay_on_the_wire_witness:
  "\<exists>b got. marshal_message (carried ''a'' sample_message) = Some b \<and> unmarshal_message b = Some got \<and>
     msg_From got = ''a'' \<and> msg_SessionID got = ''s'' \<and> payload_value (msg_Payload got) = Some (JArr [])"
proof -
  obtain h e eff err where
    run: "hub_Route (\<lambda>_ _ e. (e, ''b'', True)) (\<lambda>_ _. True) 5 ''a'' sample_message (sample_hub, 0 :: nat) = ((h, e), eff, err)"
      "Wrote 2 (carried ''a'' sample_message) \<in> set eff" using sample_relay by auto
  have "carried ''a'' sample_message \<noteq> refusal_message sample_message code" for code
    by (simp add: carried_def refusal_message_def sample_message_def message_zero_def)
  moreover have "payload_value (msg_Payload sample_message) = Some (JArr [])" "msg_SessionID sample_message = ''s''"
    using sample_payload_value by (simp_all add: sample_message_def)
  ultimately obtain b got where got: "marshal_message (carried ''a'' sample_message) = Some b"
      "\<And>ws. list_all is_ws ws \<Longrightarrow> unmarshal_message (b @ string_bytes ws) = Some got"
      "msg_From got = ''a''" "msg_SessionID got = ''s''" "payload_value (msg_Payload got) = Some (JArr [])"
    using relay_on_the_wire [OF sample_frame_reads sample_valid_a run] by auto
  then show ?thesis using got(2) [of "[]"] by auto
qed

text \<open>The payload is not carried through untouched.\<close>

lemma payload_rewritten:
  "unmarshal_message sample_frame = Some sample_message \<and>
     received (carried ''a'' sample_message) \<noteq> carried ''a'' sample_message"
proof -
  have "compact False ''[ ]'' = ''[]''" by (simp add: compact_start is_ws_def)
  then have "msg_Payload (received (carried ''a'' sample_message)) = string_bytes ''[]''"
    by (simp add: received_def carried_def sample_message_def)
  moreover have "msg_Payload (carried ''a'' sample_message) = string_bytes ''[ ]''" by (simp add: carried_def sample_message_def)
  moreover have "string_bytes ''[]'' \<noteq> string_bytes ''[ ]''" by (simp add: string_bytes_def)
  ultimately show ?thesis using sample_frame_reads by metis
qed

section \<open>The configured clients\<close>

definition client_fields :: "field list" where
  "client_fields = [(''client_id'', StringField), (''peer_id'', StringField), (''secret'', StringField)]"

text \<open>One entry of the array; null leaves it empty.\<close>

definition decode_client :: "json \<Rightarrow> client_config option" where
  "decode_client v =
     map_option (\<lambda>vals.
       \<lparr>cc_ID = field_value vals ''client_id'', cc_PeerID = field_value vals ''peer_id'', cc_Secret = field_value vals ''secret''\<rparr>)
       (case v of
          JObj ms \<Rightarrow> decode_members False client_fields (map (\<lambda>(k, x). (k, [], x)) ms) []
        | JNull \<Rightarrow> Some []
        | _ \<Rightarrow> None)"

definition UnmarshalClients :: "string \<Rightarrow> client_config list option" where
  "UnmarshalClients raw =
     (case parse_value maxNestingDepth raw of
        None \<Rightarrow> None
      | Some (v, r) \<Rightarrow>
          if skip_ws r \<noteq> [] then None
          else (case v of
                  JArr vs \<Rightarrow> those (map decode_client vs)
                | JNull \<Rightarrow> Some []
                | _ \<Rightarrow> None))"

text \<open>The setting as an operator writes it.\<close>

definition client_text :: "client_config \<Rightarrow> string" where
  "client_text c =
     encode_object [(''client_id'', json_quote (cc_ID c)), (''peer_id'', json_quote (cc_PeerID c)), (''secret'', json_quote (cc_Secret c))]"

definition client_utf8 :: "client_config \<Rightarrow> bool" where
  "client_utf8 c \<longleftrightarrow> valid_utf8 (cc_ID c) \<and> valid_utf8 (cc_PeerID c) \<and> valid_utf8 (cc_Secret c)"

definition client_json :: "client_config \<Rightarrow> json" where
  "client_json c = JObj [(''client_id'', JStr (cc_ID c)), (''peer_id'', JStr (cc_PeerID c)), (''secret'', JStr (cc_Secret c))]"

lemma client_text_reads:
  assumes "client_utf8 c"
  shows "reads_at (Suc d) (client_text c) (client_json c)" and "decode_client (client_json c) = Some c"
proof -
  let ?ms = "[(''client_id'', json_quote (cc_ID c), JStr (to_valid (cc_ID c))),
    (''peer_id'', json_quote (cc_PeerID c), JStr (to_valid (cc_PeerID c))),
    (''secret'', json_quote (cc_Secret c), JStr (to_valid (cc_Secret c)))]"
  have reads: "list_all (member_reads_at d) ?ms" by (simp add: member_reads_at_def json_quote_reads)
  have valid: "to_valid (cc_ID c) = cc_ID c" "to_valid (cc_PeerID c) = cc_PeerID c" "to_valid (cc_Secret c) = cc_Secret c"
    using assms by (simp_all add: client_utf8_def valid_utf8_def)
  have "parse_value (Suc d) (client_text c @ t) = Some (client_json c, t)" for t
    using encode_object_value [OF reads, of t] by (simp add: client_text_def client_json_def member_value_def valid)
  moreover have "client_text c \<noteq> []" "\<not> is_ws (hd (client_text c))" by (simp_all add: client_text_def encode_object_def bracket_head)
  ultimately show "reads_at (Suc d) (client_text c) (client_json c)" by (simp add: reads_at_def)
  show "decode_client (client_json c) = Some c"
    by (simp add: decode_client_def client_json_def client_fields_def decode_member_def field_of_def field_value_def)
qed

text \<open>What is written of a list of clients is read as those clients.\<close>

lemma UnmarshalClients_text:
  assumes "list_all client_utf8 cs" and "list_all is_ws ws"
  shows "UnmarshalClients (encode_array (map client_text cs) @ ws) = Some cs"
proof -
  obtain d where max: "maxNestingDepth = Suc (Suc d)"
    using that [of 9998] by (simp add: maxNestingDepth_def)
  have "list_all2 (reads_at (Suc d)) (map client_text cs) (map client_json cs)"
    using assms(1) client_text_reads(1) by (auto simp: list_all2_conv_all_nth list_all_length)
  from encode_array_value [OF this, of ws]
  have "parse_value maxNestingDepth (encode_array (map client_text cs) @ ws) = Some (JArr (map client_json cs), ws)"
    by (simp only: max) (simp add: client_text_def encode_object_def)
  moreover have "skip_ws ws = []" using assms(2) by (simp add: list_all_iff)
  moreover have "those (map decode_client (map client_json cs)) = Some cs"
    using assms(1) client_text_reads(2) by (induction cs) simp_all
  ultimately show ?thesis by (simp add: UnmarshalClients_def)
qed

section \<open>Logging in\<close>

text \<open>What a configured client can present, whatever the store holds of it.\<close>

lemma configured_credential:
  assumes "NewClientStore configs = Inr s" and "cl \<in> set configs" and "client_utf8 cl"
  shows "credential_of (request_of (decode_within maxCredentialBody decode_credential (credential_body (cc_ID cl) (cc_Secret cl))) i q) =
     (if length (TrimSpace (cc_ID cl)) \<le> 128 \<and> length (credential_body (cc_ID cl) (cc_Secret cl)) \<le> 4096
      then Some (TrimSpace (cc_ID cl), cc_Secret cl) else None)"
proof -
  have "TrimSpace (cc_ID cl) \<noteq> []" "cc_Secret cl \<noteq> []"
    using assms(1,2) NewClientStore_accepted [of configs] by (auto simp: MinSecretLen_def)
  moreover have "to_valid (cc_ID cl) = cc_ID cl" "to_valid (cc_Secret cl) = cc_Secret cl"
    using assms(3) by (simp_all add: client_utf8_def valid_utf8_def)
  ultimately show ?thesis
    by (cases "length (credential_body (cc_ID cl) (cc_Secret cl)) \<le> 4096")
      (simp_all add: credential_of_def credential_read)
qed

lemma json_escape_plain: "list_all plain_in_text s \<Longrightarrow> json_escape s = s"
  by (induction s) (simp_all add: plain_in_text_def)

text \<open>An identifier of more than 128 bytes is configured, and its client never gets in.\<close>

lemma long_identifier_never_authenticates:
  assumes "NewClientStore configs = Inr s" and "cl \<in> set configs" and "client_utf8 cl" and "128 < length (TrimSpace (cc_ID cl))"
  shows "h_Auth lib ord rand now issued s issuer
     (request_of (decode_within maxCredentialBody decode_credential (credential_body (cc_ID cl) (cc_Secret cl))) i q) l =
       Some (l, writeError 400 codeInvalidRequest)"
  using configured_credential [OF assms(1-3)] assms(4) by (simp add: h_Auth_steps)

definition sample_login :: http_request where
  "sample_login =
     \<lparr>hq_Method = POST, hq_Path = [''auth''], hq_Authorization = [], hq_Protocols = [],
      hq_Body = credential_body ''c'' (replicate 32 (CHR ''k''))\<rparr>"

definition sample_login_readings :: readings where
  "sample_login_readings = sample_readings\<lparr>rd_now := 0, rd_after := 0, rd_rand := Some [0]\<rparr>"

lemma sample_body_length: "length (hq_Body sample_login) \<le> 4096"
proof -
  have "json_escape ''c'' = ''c''" "json_escape (replicate 32 (CHR ''k'')) = replicate 32 (CHR ''k'')"
      "json_escape ''client_id'' = ''client_id''" "json_escape ''client_secret'' = ''client_secret''"
    by (rule json_escape_plain; simp add: plain_in_text_def list_all_iff)+
  then show ?thesis by (simp add: sample_login_def credential_body_def encode_object_def json_quote_def)
qed

lemma sample_client_utf8: "client_utf8 sample_config"
  unfolding client_utf8_def sample_config_def by (intro conjI; rule ascii_valid; simp)

lemma sample_login_answer:
  assumes "NewClientStore sample_clients = Inr s"
  shows "\<exists>c'. dispatch build cfg started (sample_deployment s) wire_decoders sample_login_readings sample_login sample_central =
     Some (c', Answered (writeJSONStatus 200 (TokenBody \<lparr>tr_Token = ''t'', tr_PeerID = ''alice'', tr_ExpiresAt = 60 * second\<rparr>)))"
proof -
  have mem: "sample_config \<in> set sample_clients" by (simp add: sample_clients_def)
  have route: "routes d (hq_Method sample_login) (hq_Path sample_login) = Some AuthRoute" for d
    by (simp add: sample_login_def routes_def is_get_def)
  have "hq_Body sample_login = credential_body (cc_ID sample_config) (cc_Secret sample_config)"
    by (simp add: sample_login_def sample_config_def)
  then have cred: "credential_of (request_of (decode_within maxCredentialBody decode_credential (hq_Body sample_login)) [] sample_login) =
      Some (''c'', replicate 32 (CHR ''k''))"
    using configured_credential [OF assms mem sample_client_utf8, of "[]" sample_login] sample_body_length
    by (simp add: sample_config_def sample_config_trim)
  have "Authenticate (TrimSpace (cc_ID sample_config)) (cc_Secret sample_config) s = Inr (TrimSpace (cc_PeerID sample_config))"
    using Authenticate_parts [OF assms] mem by blast
  then have auth: "Authenticate ''c'' (replicate 32 (CHR ''k'')) s = Inr ''alice''"
    by (simp add: sample_config_def sample_config_trim)
  show ?thesis
    by (simp add: dispatch_def route serve_endpoint_def wire_decoders_def serve_Auth_def h_Auth_steps cred auth sample_deployment_def
        sample_login_readings_def sample_readings_def sample_central_def limiter_Allowed_def sample_limiter_def one_Issue)
qed

text \<open>
  C11: A configured client logs in over the wire. What the authentication client posts for
  a configured client whose identifier and secret are UTF-8, while its allowance is not
  spent, is answered with a token for that client's peer, unless the server has no random
  bytes or cannot sign; but it is answered as a bad request when the identifier is longer than 128 bytes
  or the body longer than 4096, lengths the configuration accepts.
\<close>

theorem configured_client_logs_in:
  assumes "deployed configs key iss ttl dp" and "limiter_bounded (ce_limiter c)" and "range_ok (rd_ord rd)"
    and "cl \<in> set configs" and "client_utf8 cl" and "limiter_Allowed (rd_now rd) (TrimSpace (cc_ID cl)) (ce_limiter c)"
    and "hq_Method q = POST" and "hq_Path q = [''auth'']" and "hq_Body q = credential_body (cc_ID cl) (cc_Secret cl)"
  shows "\<exists>c' rs. dispatch build cfg started dp wire_decoders rd q c = Some (c', Answered rs) \<and>
     (if length (TrimSpace (cc_ID cl)) \<le> 128 \<and> length (hq_Body q) \<le> 4096
      then rs_Status rs = 500 \<or> rs_Status rs = 200 \<and>
        (\<exists>tr. rs_Body rs = TokenBody tr \<and> tr_PeerID tr = TrimSpace (cc_PeerID cl) \<and> tr_Token tr \<in> set (ce_tokens c'))
      else c' = c \<and> rs_Status rs = 400)"
proof -
  let ?r = "request_of (decode_within maxCredentialBody decode_credential (hq_Body q)) [] q"
  have dp: "jwt_documented (dp_lib dp)" "NewClientStore configs = Inr (dp_clients dp)" "NewTokenIssuer key iss ttl = Inr (dp_issuer dp)"
    using assms(1) by (simp_all add: deployed_def)
  note cred = configured_credential [OF dp(2) assms(4,5), of "[]" q, folded assms(9)]
  have route: "routes s (hq_Method q) (hq_Path q) = Some AuthRoute" for s
    by (simp add: assms(7,8) routes_def is_get_def)
  have run: "dispatch build cfg started dp wire_decoders rd q c =
      map_option (\<lambda>(c', rs). (c', Answered rs)) (serve_Auth dp (rd_ord rd) (rd_rand rd) (rd_now rd) (rd_after rd) ?r c)"
    by (simp add: dispatch_def route serve_endpoint_def wire_decoders_def)
  obtain l' rs where out: "h_Auth (dp_lib dp) (rd_ord rd) (rd_rand rd) (rd_now rd) (rd_after rd) (dp_clients dp) (dp_issuer dp) ?r
        (ce_limiter c) = Some (l', rs)"
      "rs_Status rs = 200 \<longrightarrow> (\<exists>cid secret p t. credential_of ?r = Some (cid, secret) \<and>
        Authenticate cid secret (dp_clients dp) = Inr p \<and>
        issuer_Issue (dp_lib dp) (rd_rand rd) (rd_after rd) p (dp_issuer dp) = Inr t \<and>
        rs_Body rs = TokenBody \<lparr>tr_Token = tok_Value t, tr_PeerID = tok_PeerID t, tr_ExpiresAt = tok_ExpiresAt t\<rparr>)"
      "\<forall>cid secret p. credential_of ?r = Some (cid, secret) \<and> limiter_Allowed (rd_now rd) cid (ce_limiter c) \<and>
        Authenticate cid secret (dp_clients dp) = Inr p \<longrightarrow> rs_Status rs = 200 \<or> rs_Status rs = 500"
    using h_Auth_outcome [OF assms(2,3), of "dp_lib dp" "rd_rand rd" "rd_now rd" "rd_after rd" "dp_clients dp" "dp_issuer dp" ?r]
    by (elim exE conjE) (rule that; blast)
  let ?c' = "c\<lparr>ce_limiter := l', ce_tokens := ce_tokens c @ answered_tokens rs\<rparr>"
  have served: "dispatch build cfg started dp wire_decoders rd q c = Some (?c', Answered rs)"
    using run out(1) by (simp add: serve_Auth_def)
  have known: "Authenticate (TrimSpace (cc_ID cl)) (cc_Secret cl) (dp_clients dp) = Inr (TrimSpace (cc_PeerID cl))"
    using Authenticate_parts [OF dp(2)] assms(4) by blast
  show ?thesis
  proof (cases "length (TrimSpace (cc_ID cl)) \<le> 128 \<and> length (hq_Body q) \<le> 4096")
    case True
    then have mine: "credential_of ?r = Some (TrimSpace (cc_ID cl), cc_Secret cl)" using cred by simp
    with out(3) known assms(6) have "rs_Status rs = 200 \<or> rs_Status rs = 500" by blast
    moreover have "\<exists>tr. rs_Body rs = TokenBody tr \<and> tr_PeerID tr = TrimSpace (cc_PeerID cl) \<and> tr_Token tr \<in> set (ce_tokens ?c')"
      if "rs_Status rs = 200"
      using out(2) that mine known Issue_Verify_parts [OF dp(1,3)] by (fastforce simp: answered_tokens_def)
    ultimately show ?thesis using served True by (intro exI [of _ ?c'] exI [of _ rs]) auto
  next
    case False
    then have "credential_of ?r = None" using cred by auto
    with out(1) have "l' = ce_limiter c" "rs = writeError 400 codeInvalidRequest" by (simp_all add: h_Auth_steps)
    with served False show ?thesis
      by (intro exI [of _ c] exI [of _ rs]) (simp add: answered_tokens_def writeError_def)
  qed
qed

theorem configured_client_logs_in_witness:
  "\<exists>s c' rs tr. NewClientStore sample_clients = Inr s \<and>
     dispatch [] sample_cfg 0 (sample_deployment s) wire_decoders sample_login_readings sample_login sample_central =
       Some (c', Answered rs) \<and> rs_Body rs = TokenBody tr \<and> tr_PeerID tr = ''alice'' \<and> tr_Token tr \<in> set (ce_tokens c')"
proof -
  obtain s where s: "NewClientStore sample_clients = Inr s" using sample_clients_accepted by blast
  have bounded: "limiter_bounded (ce_limiter sample_central)" "range_ok (rd_ord sample_login_readings)"
      "limiter_Allowed (rd_now sample_login_readings) (TrimSpace (cc_ID sample_config)) (ce_limiter sample_central)"
    using NewAttemptLimiter_bounded [OF sample_limiter_New] range_ok_rev
    by (simp_all add: sample_central_def sample_login_readings_def sample_readings_def limiter_Allowed_def)
      (simp_all add: sample_limiter_def)
  have mem: "sample_config \<in> set sample_clients" by (simp add: sample_clients_def)
  have login: "hq_Method sample_login = POST" "hq_Path sample_login = [''auth'']"
      "hq_Body sample_login = credential_body (cc_ID sample_config) (cc_Secret sample_config)"
    by (simp_all add: sample_login_def sample_config_def)
  have short: "length (TrimSpace (cc_ID sample_config)) \<le> 128" "TrimSpace (cc_PeerID sample_config) = ''alice''"
    by (simp_all add: sample_config_def sample_config_trim)
  obtain c' where run: "dispatch [] sample_cfg 0 (sample_deployment s) wire_decoders sample_login_readings sample_login sample_central =
      Some (c', Answered (writeJSONStatus 200 (TokenBody \<lparr>tr_Token = ''t'', tr_PeerID = ''alice'', tr_ExpiresAt = 60 * second\<rparr>)))"
    using sample_login_answer [OF s] by blast
  from configured_client_logs_in [OF sample_deployed [OF s] bounded(1,2) mem sample_client_utf8 bounded(3) login,
      of "[]" sample_cfg 0] run short sample_body_length
  show ?thesis using s by (auto simp: writeJSONStatus_def)
qed

end
