(* ===== verification/Go_Time.thy ===== *)
theory Go_Time
  imports Go_Json Go_Numbers "HOL-Library.Monad_Syntax"
begin

text \<open>
  The text of a time.Time: the calendar of package time, RFC 3339 with nanoseconds, and
  the JSON of a time both ways. A time is the nanoseconds since 1 January of year 1, UTC,
  so a day is a number of days since then; the offset of a zone is in seconds east of UTC.
\<close>

section \<open>The calendar\<close>

definition is_leap :: "int \<Rightarrow> bool" where
  "is_leap y \<longleftrightarrow> y mod 4 = 0 \<and> (y mod 100 \<noteq> 0 \<or> y mod 400 = 0)"

definition days_before_year :: "int \<Rightarrow> int" where
  "days_before_year y = 365 * (y - 1) + (y - 1) div 4 - (y - 1) div 100 + (y - 1) div 400"

definition month_lengths :: "int \<Rightarrow> int list" where
  "month_lengths y = [31, if is_leap y then 29 else 28, 31, 30, 31, 30, 31, 31, 30, 31, 30, 31]"

text \<open>
  The year of a day and the day's number in it: by cycles of 400, 100, 4 and 1 years, the
  last day of a leap year belonging to the fourth year and the last of 400 years to the
  fourth century.
\<close>

definition year_day :: "int \<Rightarrow> int \<times> int" where
  "year_day d =
     (let n400 = d div 146097; d400 = d mod 146097;
          n100 = min (d400 div 36524) 3; d100 = d400 - 36524 * n100;
          n4 = d100 div 1461; d4 = d100 mod 1461;
          n1 = min (d4 div 365) 3
      in (400 * n400 + 100 * n100 + 4 * n4 + n1 + 1, d4 - 365 * n1))"

fun month_day :: "int list \<Rightarrow> int \<Rightarrow> nat \<times> int" where
  "month_day [] n = (1, n + 1)"
| "month_day (l # ls) n = (if n < l then (1, n + 1) else let (m, d) = month_day ls (n - l) in (Suc m, d))"

definition civil :: "int \<Rightarrow> int \<times> nat \<times> int" where
  "civil d = (let (y, n) = year_day d in (y, month_day (month_lengths y) n))"

text \<open>The day of a date.\<close>

definition day_of :: "int \<Rightarrow> nat \<Rightarrow> int \<Rightarrow> int" where
  "day_of y m d = days_before_year y + sum_list (take (m - 1) (month_lengths y)) + (d - 1)"

lemma year_day_parts:
  assumes "year_day d = (y, n)"
  shows "\<exists>a b c e. y - 1 = 400 * a + 100 * b + 4 * c + e \<and> 0 \<le> b \<and> b \<le> 3 \<and> 0 \<le> c \<and> c \<le> 24 \<and> 0 \<le> e \<and> e \<le> 3 \<and>
     d = 146097 * a + 36524 * b + 1461 * c + 365 * e + n \<and> 0 \<le> n \<and>
     n < 365 + (if e = 3 \<and> (c = 24 \<longrightarrow> b = 3) then 1 else 0)"
proof -
  define a d400 where "a = d div 146097" and "d400 = d mod 146097"
  define b where "b = min (d400 div 36524) 3"
  define d100 where "d100 = d400 - 36524 * b"
  define c d4 where "c = d100 div 1461" and "d4 = d100 mod 1461"
  define e where "e = min (d4 div 365) 3"
  have yn: "y = 400 * a + 100 * b + 4 * c + e + 1" "n = d4 - 365 * e"
    using assms by (auto simp: year_day_def Let_def a_def d400_def b_def d100_def c_def d4_def e_def)
  have split: "x = k * (x div k) + x mod k \<and> 0 \<le> x mod k \<and> x mod k < k" if "0 < k" for x k :: int
    using that by simp
  have d400: "0 \<le> d400" "d400 < 146097" "d = 146097 * a + d400"
    using split [of 146097 d] by (simp_all add: d400_def a_def)
  define q r where "q = d400 div 36524" and "r = d400 mod 36524"
  have q: "d400 = 36524 * q + r" "0 \<le> r" "r < 36524" using split [of 36524 d400] by (simp_all add: q_def r_def)
  have "0 \<le> q" "q \<le> 4" using q d400(1,2) by linarith+
  moreover have "b = min q 3" by (simp add: b_def q_def)
  ultimately have b: "0 \<le> b" "b \<le> 3" "b = q \<or> b = 3 \<and> q = 4" by (auto simp: min_def)
  then have d100: "0 \<le> d100" "d100 \<le> 36524" "d100 = 36524 \<Longrightarrow> b = 3" "d400 = 36524 * b + d100"
    using q d400(2) unfolding d100_def by linarith+
  have c: "0 \<le> d4" "d4 < 1461" "d100 = 1461 * c + d4" using split [of 1461 d100] by (simp_all add: c_def d4_def)
  then have c': "0 \<le> c" "c \<le> 24" using d100(1,2) by linarith+
  define u v where "u = d4 div 365" and "v = d4 mod 365"
  have u: "d4 = 365 * u + v" "0 \<le> v" "v < 365" using split [of 365 d4] by (simp_all add: u_def v_def)
  have "0 \<le> u" "u \<le> 4" using u c(1,2) by linarith+
  moreover have "e = min u 3" by (simp add: e_def u_def)
  ultimately have "0 \<le> e" "e \<le> 3" "e = u \<or> e = 3 \<and> u = 4" by (auto simp: min_def)
  then have e: "0 \<le> e" "e \<le> 3" "365 * e \<le> d4" "d4 \<le> 365 * e + 365" "d4 = 365 * e + 365 \<Longrightarrow> e = 3"
    using u c(2) by linarith+
  have "n < 365 + (if e = 3 \<and> (c = 24 \<longrightarrow> b = 3) then 1 else 0)"
  proof (cases "d4 = 365 * e + 365")
    case True
    then have "d4 = 1460" using e(5) by simp
    then have "c = 24 \<Longrightarrow> b = 3" using c(3) d100(3) by simp
    with True e(5) yn(2) show ?thesis by simp
  qed (use e(4) yn(2) in simp)
  moreover have "d = 146097 * a + 36524 * b + 1461 * c + 365 * e + n" using d400(3) d100(4) c(3) yn(2) by linarith
  moreover have "y - 1 = 400 * a + 100 * b + 4 * c + e" "0 \<le> n" using yn e(3) by simp_all
  ultimately show ?thesis using b(1,2) c' e(1,2) by blast
qed

text \<open>The cycles of a year give the days before it, and whether it is a leap year.\<close>

lemma days_before_year_parts:
  assumes "y - 1 = 400 * a + 100 * b + 4 * c + e" and "0 \<le> b" and "b \<le> 3" and "0 \<le> c" and "c \<le> 24" and "0 \<le> e" and "e \<le> 3"
  shows "days_before_year y = 146097 * a + 36524 * b + 1461 * c + 365 * e"
    and "is_leap y \<longleftrightarrow> e = 3 \<and> (c = 24 \<longrightarrow> b = 3)"
proof -
  have div_by: "x div k = q" if "x = k * q + r" "0 \<le> r" "r < k" for x k q r :: int
    using that by (simp add: div_pos_pos_trivial)
  have "(y - 1) div 4 = 100 * a + 25 * b + c" "(y - 1) div 100 = 4 * a + b" "(y - 1) div 400 = a"
    using assms div_by [of "y - 1" 4 "100 * a + 25 * b + c" e] div_by [of "y - 1" 100 "4 * a + b" "4 * c + e"]
      div_by [of "y - 1" 400 a "100 * b + 4 * c + e"] by linarith+
  then show "days_before_year y = 146097 * a + 36524 * b + 1461 * c + 365 * e"
    using assms(1) by (simp add: days_before_year_def)
  have mod_by: "x mod k = 0 \<longleftrightarrow> r = k" if "x = k * q + r" "0 < r" "r \<le> k" for x k q r :: int
    using that by (cases "r = k") simp_all
  have "y mod 4 = 0 \<longleftrightarrow> e + 1 = 4"
    using assms by (intro mod_by [of y 4 "100 * a + 25 * b + c" "e + 1"]) simp_all
  moreover have "y mod 100 = 0 \<longleftrightarrow> 4 * c + (e + 1) = 100"
    using assms by (intro mod_by [of y 100 "4 * a + b" "4 * c + (e + 1)"]) simp_all
  moreover have "y mod 400 = 0 \<longleftrightarrow> 100 * b + 4 * c + (e + 1) = 400"
    using assms by (intro mod_by [of y 400 a "100 * b + 4 * c + (e + 1)"]) simp_all
  moreover have "4 * c + (e + 1) = 100 \<longleftrightarrow> c = 24 \<and> e = 3" "100 * b + 4 * c + (e + 1) = 400 \<longleftrightarrow> b = 3 \<and> c = 24 \<and> e = 3"
    using assms(2-7) by presburger+
  ultimately show "is_leap y \<longleftrightarrow> e = 3 \<and> (c = 24 \<longrightarrow> b = 3)" by (auto simp: is_leap_def)
qed

lemma month_day_back:
  assumes "month_day ls n = (m, d)" and "0 \<le> n" and "n < sum_list ls"
  shows "1 \<le> m \<and> m \<le> length ls \<and> 1 \<le> d \<and> d \<le> ls ! (m - 1) \<and> sum_list (take (m - 1) ls) + (d - 1) = n"
  using assms
proof (induction ls arbitrary: n m d)
  case (Cons l ls)
  show ?case
  proof (cases "n < l")
    case False
    obtain m' d' where md: "month_day ls (n - l) = (m', d')" by fastforce
    with False Cons.prems have "m = Suc m'" "d = d'" by auto
    moreover have "1 \<le> m' \<and> m' \<le> length ls \<and> 1 \<le> d' \<and> d' \<le> ls ! (m' - 1) \<and> sum_list (take (m' - 1) ls) + (d' - 1) = n - l"
      using Cons.IH [OF md] False Cons.prems by simp
    ultimately show ?thesis by (cases m') auto
  qed (use Cons.prems in auto)
qed simp

lemma sum_month_lengths: "sum_list (month_lengths y) = (if is_leap y then 366 else 365)"
  by (simp add: month_lengths_def)

text \<open>The date of a day is a date, and of that day only; the years it can be in.\<close>

lemma civil_date:
  assumes "civil d = (y, m, dd)"
  shows "1 \<le> m \<and> m \<le> 12 \<and> 1 \<le> dd \<and> dd \<le> month_lengths y ! (m - 1) \<and> day_of y m dd = d"
proof -
  obtain n where yn: "year_day d = (y, n)" and md: "month_day (month_lengths y) n = (m, dd)"
    using assms by (auto simp: civil_def split: prod.splits)
  obtain a b c e where p: "y - 1 = 400 * a + 100 * b + 4 * c + e" "0 \<le> b" "b \<le> 3" "0 \<le> c" "c \<le> 24" "0 \<le> e" "e \<le> 3"
      "d = 146097 * a + 36524 * b + 1461 * c + 365 * e + n" "0 \<le> n" "n < 365 + (if e = 3 \<and> (c = 24 \<longrightarrow> b = 3) then 1 else 0)"
    using year_day_parts [OF yn] by blast
  note parts = days_before_year_parts [OF p(1-7)]
  have "n < sum_list (month_lengths y)" using p(10) unfolding sum_month_lengths parts(2) by (simp only: if_distrib) auto
  note month_day_back [OF md p(9) this]
  moreover have "length (month_lengths y) = 12" by (simp add: month_lengths_def)
  ultimately show ?thesis using parts(1) p(8) by (auto simp: day_of_def)
qed

lemma civil_year:
  assumes "civil d = (y, m, dd)"
  shows "0 \<le> d \<Longrightarrow> 1 \<le> y" and "d < 3652059 \<Longrightarrow> y \<le> 9999"
proof -
  obtain n where "year_day d = (y, n)" using assms by (auto simp: civil_def split: prod.splits)
  from year_day_parts [OF this] obtain a b c e where
    p: "y - 1 = 400 * a + 100 * b + 4 * c + e" "0 \<le> b" "b \<le> 3" "0 \<le> c" "c \<le> 24" "0 \<le> e" "e \<le> 3"
      "d = 146097 * a + 36524 * b + 1461 * c + 365 * e + n" "0 \<le> n" "n < 365 + (if e = 3 \<and> (c = 24 \<longrightarrow> b = 3) then 1 else 0)"
    by blast
  show "1 \<le> y" if "0 \<le> d"
  proof -
    have "n \<le> 365" using p(10) by (simp split: if_splits)
    then have "a \<ge> 0 \<or> d < 0" using p by (smt (verit))
    then show ?thesis using p(1-7) that by linarith
  qed
  show "y \<le> 9999" if "d < 3652059"
  proof (rule ccontr)
    assume "\<not> y \<le> 9999"
    then have "a \<ge> 25 \<or> a = 24 \<and> b = 3 \<and> c = 24 \<and> e = 3" using p(1-7) by linarith
    then show False using that p by linarith
  qed
qed

section \<open>RFC 3339\<close>

text \<open>
  Time.MarshalJSON: the local date and time, the fraction of the second, and the zone in
  minutes, cut toward zero; refused where the year does not take four digits or the zone
  is a day or more. A time reaches JSON between quotes, which none of its characters
  needs escaping in.
\<close>

definition format_zone :: "int \<Rightarrow> string" where
  "format_zone off =
     (if off = 0 then ''Z''
      else
        let zone = nat (abs off) div 60
        in (if off < 0 \<and> 0 < zone then ''-'' else ''+'') @ padded 2 (zone div 60) @ '':'' @ padded 2 (zone mod 60))"

definition format_clock :: "nat \<Rightarrow> string" where
  "format_clock s = padded 2 (s div 3600) @ '':'' @ padded 2 (s div 60 mod 60) @ '':'' @ padded 2 (s mod 60)"

definition format_date :: "int \<Rightarrow> string" where
  "format_date days =
     (case civil days of (y, m, dd) \<Rightarrow> padded 4 (nat y) @ ''-'' @ padded 2 m @ ''-'' @ padded 2 (nat dd))"

definition local_seconds :: "int \<Rightarrow> time \<Rightarrow> int" where
  "local_seconds off t = t div second + off"

definition format_RFC3339 :: "int \<Rightarrow> time \<Rightarrow> string" where
  "format_RFC3339 off t =
     (let s = local_seconds off t
      in format_date (s div 86400) @ ''T'' @ format_clock (nat (s mod 86400)) @ fraction 9 (nat (t mod second)) @ format_zone off)"

definition marshal_time :: "int \<Rightarrow> time \<Rightarrow> string option" where
  "marshal_time off t =
     (let y = fst (civil (local_seconds off t div 86400))
      in if y < 0 \<or> 9999 < y \<or> 24 \<le> nat (abs off) div 3600 then None else Some (format_RFC3339 off t))"

text \<open>
  Parsing: the digits of a field within its range; the date and time at their places; a
  fraction of any number of digits, of which nine count; and a zone.
\<close>

definition parseUint :: "nat \<Rightarrow> nat \<Rightarrow> string \<Rightarrow> nat option" where
  "parseUint lo hi s =
     (if list_all is_digit s \<and> lo \<le> read_decimal s \<and> read_decimal s \<le> hi then Some (read_decimal s) else None)"

definition parse_date_time :: "string \<Rightarrow> int option" where
  "parse_date_time s =
     (if length s < 19 \<or> s ! 4 \<noteq> CHR ''-'' \<or> s ! 7 \<noteq> CHR ''-'' \<or> s ! 10 \<noteq> CHR ''T'' \<or> s ! 13 \<noteq> CHR '':'' \<or> s ! 16 \<noteq> CHR '':''
      then None
      else do {
        y \<leftarrow> parseUint 0 9999 (take 4 s);
        m \<leftarrow> parseUint 1 12 (take 2 (drop 5 s));
        dd \<leftarrow> parseUint 1 (nat (month_lengths (int y) ! (m - 1))) (take 2 (drop 8 s));
        h \<leftarrow> parseUint 0 23 (take 2 (drop 11 s));
        mi \<leftarrow> parseUint 0 59 (take 2 (drop 14 s));
        sec \<leftarrow> parseUint 0 59 (take 2 (drop 17 s));
        Some (86400 * day_of (int y) m (int dd) + int (3600 * h + 60 * mi + sec))
      })"

definition parse_fraction :: "string \<Rightarrow> nat \<times> string" where
  "parse_fraction s =
     (if 2 \<le> length s \<and> hd s = CHR ''.'' \<and> is_digit (s ! 1)
      then (let ds = take 9 (takeWhile is_digit (tl s)) in (read_decimal ds * 10 ^ (9 - length ds), dropWhile is_digit (tl s)))
      else (0, s))"

definition parse_zone :: "string \<Rightarrow> int option" where
  "parse_zone s =
     (if s = ''Z'' then Some 0
      else if length s \<noteq> 6 \<or> s ! 3 \<noteq> CHR '':'' \<or> hd s \<noteq> CHR ''-'' \<and> hd s \<noteq> CHR ''+'' then None
      else do {
        hr \<leftarrow> parseUint 0 23 (take 2 (drop 1 s));
        mm \<leftarrow> parseUint 0 59 (take 2 (drop 4 s));
        Some ((if hd s = CHR ''-'' then -1 else 1) * int ((hr * 60 + mm) * 60))
      })"

definition parse_RFC3339 :: "string \<Rightarrow> time option" where
  "parse_RFC3339 s = do {
     secs \<leftarrow> parse_date_time s;
     (nanos, r) \<leftarrow> Some (parse_fraction (drop 19 s));
     off \<leftarrow> parse_zone r;
     Some ((secs - off) * second + int nanos)
   }"

text \<open>
  Time.UnmarshalJSON on the text of a value; \<open>lenient\<close> is what the general time.Parse makes
  of a text that is not strictly RFC 3339.
\<close>

definition unmarshal_time :: "(string \<Rightarrow> time option) \<Rightarrow> string \<Rightarrow> time option" where
  "unmarshal_time lenient w =
     (if length w < 2 \<or> hd w \<noteq> quote_mark \<or> last w \<noteq> quote_mark then None
      else
        let s = butlast (tl w)
        in case parse_RFC3339 s of Some t \<Rightarrow> Some t | None \<Rightarrow> lenient s)"

section \<open>What is formatted is parsed\<close>

lemma parseUint_padded: "lo \<le> n \<Longrightarrow> n \<le> hi \<Longrightarrow> n < 10 ^ w \<Longrightarrow> parseUint lo hi (padded w n) = Some n"
  by (simp add: parseUint_def padded_digits read_decimal_padded)

lemma format_date_time_parts:
  assumes "civil (s div 86400) = (y, m, dd)"
  shows "format_date (s div 86400) @ ''T'' @ format_clock c @ u =
     padded 4 (nat y) @ CHR ''-'' # padded 2 m @ CHR ''-'' # padded 2 (nat dd) @ CHR ''T'' # padded 2 (c div 3600) @
       CHR '':'' # padded 2 (c div 60 mod 60) @ CHR '':'' # padded 2 (c mod 60) @ u"
  by (simp add: format_date_def format_clock_def assms)

lemma month_length_range: "1 \<le> m \<Longrightarrow> m \<le> 12 \<Longrightarrow> month_lengths y ! (m - 1) \<le> 31"
proof -
  assume "1 \<le> m" "m \<le> 12"
  moreover have "\<forall>l \<in> set (month_lengths y). l \<le> 31" "length (month_lengths y) = 12" by (simp_all add: month_lengths_def)
  ultimately show ?thesis using nth_mem [of "m - 1" "month_lengths y"] by simp
qed

lemma clock_parts:
  fixes c :: nat
  assumes "c < 86400"
  shows "c div 3600 \<le> 23 \<and> c div 60 mod 60 \<le> 59 \<and> c mod 60 \<le> 59 \<and> 3600 * (c div 3600) + 60 * (c div 60 mod 60) + c mod 60 = c"
proof -
  have "c div 3600 = c div 60 div 60" by (simp add: div_mult2_eq [symmetric])
  moreover have "60 * (c div 60) + c mod 60 = c" "60 * (c div 60 div 60) + c div 60 mod 60 = c div 60"
      "c mod 60 < 60" "c div 60 mod 60 < 60" by simp_all
  ultimately show ?thesis using assms by linarith
qed

lemma parse_formatted_date_time:
  assumes "civil (s div 86400) = (y, m, dd)" and "0 \<le> y" and "y \<le> 9999"
  shows "parse_date_time (format_date (s div 86400) @ ''T'' @ format_clock (nat (s mod 86400)) @ u) = Some s"
proof -
  let ?c = "nat (s mod 86400)"
  note date = civil_date [OF assms(1)]
  then have range: "1 \<le> m" "m \<le> 12" "1 \<le> dd" "dd \<le> month_lengths y ! (m - 1)" "dd \<le> 31" "day_of y m dd = s div 86400"
    using month_length_range [of m y] by auto
  have c: "?c < 86400" by simp
  note clock = clock_parts [OF c]
  have fields: "parseUint 0 9999 (padded 4 (nat y)) = Some (nat y)" "parseUint 1 12 (padded 2 m) = Some m"
      "parseUint 1 (nat (month_lengths y ! (m - 1))) (padded 2 (nat dd)) = Some (nat dd)"
      "parseUint 0 23 (padded 2 (?c div 3600)) = Some (?c div 3600)"
      "parseUint 0 59 (padded 2 (?c div 60 mod 60)) = Some (?c div 60 mod 60)"
      "parseUint 0 59 (padded 2 (?c mod 60)) = Some (?c mod 60)"
    using assms(2,3) range clock by (simp_all add: parseUint_padded)
  have "int (3600 * (?c div 3600) + 60 * (?c div 60 mod 60) + ?c mod 60) = int ?c" using clock by presburger
  then have total: "3600 * int (?c div 3600) + 60 * int (?c div 60 mod 60) + int (?c mod 60) = s mod 86400" by simp
  show ?thesis
    unfolding format_date_time_parts [OF assms(1)] parse_date_time_def
    using fields range(3,6) assms(2) by (simp add: nth_append total)
qed

lemma takeWhile_digits: "list_all is_digit ds \<Longrightarrow> (r = [] \<or> \<not> is_digit (hd r)) \<Longrightarrow>
    takeWhile is_digit (ds @ r) = ds \<and> dropWhile is_digit (ds @ r) = r"
  by (induction ds) (cases r; simp)+

lemma parse_formatted_fraction:
  assumes "r \<noteq> []" and "hd r \<noteq> CHR ''.''" and "\<not> is_digit (hd r)" and "n < 10 ^ 9"
  shows "parse_fraction (fraction 9 n @ r) = (n, r)"
proof (cases "trim_zeros (padded 9 n) = []")
  case True
  have "read_decimal (padded 9 n) = 0"
    using trim_zeros_value [of "padded 9 n" 9] True by (simp add: read_decimal_def)
  then have "n = 0" using assms(4) by (simp add: read_decimal_padded)
  with True assms(2) show ?thesis by (simp add: parse_fraction_def fraction_def)
next
  case False
  let ?ds = "trim_zeros (padded 9 n)"
  have digits: "list_all is_digit ?ds" by (rule trim_zeros_digits [OF padded_digits])
  have "length ?ds \<le> 9" using trim_zeros_length [of "padded 9 n"] by simp
  moreover have "read_decimal ?ds * 10 ^ (9 - length ?ds) = n"
    using trim_zeros_value [of "padded 9 n" 9] assms(4) by (simp add: read_decimal_padded)
  moreover have "is_digit (hd ?ds)" using False digits by (cases ?ds) auto
  moreover have "takeWhile is_digit (?ds @ r) = ?ds" "dropWhile is_digit (?ds @ r) = r"
    using takeWhile_digits [OF digits] assms(3) by blast+
  ultimately show ?thesis
    using False by (cases ?ds) (simp_all add: parse_fraction_def fraction_def Let_def)
qed

lemma parse_formatted_zone:
  assumes "60 dvd off" and "nat (abs off) div 3600 < 24"
  shows "parse_zone (format_zone off) = Some off"
proof (cases "off = 0")
  case True
  then show ?thesis by (simp add: parse_zone_def format_zone_def)
next
  case False
  define zone where "zone = nat (abs off) div 60"
  obtain k where k: "off = 60 * k" using assms(1) by blast
  then have zone: "60 * int zone = abs off" "zone \<noteq> 0" "zone div 60 < 24"
    using False assms(2) by (simp_all add: zone_def abs_mult nat_mult_distrib div_mult2_eq [symmetric])
  have "zone div 60 * 60 + zone mod 60 = zone" by simp
  then have minutes: "3600 * int (zone div 60) + int (zone mod 60) * 60 = int zone * 60" by linarith
  have fields: "parseUint 0 23 (padded 2 (zone div 60)) = Some (zone div 60)"
      "parseUint 0 59 (padded 2 (zone mod 60)) = Some (zone mod 60)"
    using zone(3) by (simp_all add: parseUint_padded)
  have format: "format_zone off = (if off < 0 then CHR ''-'' else CHR ''+'') # padded 2 (zone div 60) @ CHR '':'' # padded 2 (zone mod 60)"
    using False zone(2) by (simp add: format_zone_def zone_def [symmetric] Let_def)
  have "(if off < 0 then -1 else 1) * (int zone * 60) = off" using zone(1) by auto
  then show ?thesis
    unfolding format parse_zone_def using fields minutes by (auto simp: nth_append)
qed

lemma format_zone_head: "format_zone off \<noteq> [] \<and> hd (format_zone off) \<in> set [CHR ''Z'', CHR ''+'', CHR ''-'']"
  by (auto simp: format_zone_def Let_def)

text \<open>What is written of a time is read as that time, when its zone is of whole minutes.\<close>

theorem parse_format_RFC3339:
  assumes "marshal_time off t = Some s" and "60 dvd off"
  shows "parse_RFC3339 s = Some t"
proof -
  let ?s = "local_seconds off t"
  obtain y m dd where civ: "civil (?s div 86400) = (y, m, dd)" by (metis prod_cases3)
  have range: "0 \<le> y" "y \<le> 9999" "nat (abs off) div 3600 < 24" "s = format_RFC3339 off t"
    using assms(1) civ by (auto simp: marshal_time_def Let_def split: if_splits)
  let ?head = "format_date (?s div 86400) @ ''T'' @ format_clock (nat (?s mod 86400))"
  let ?tail = "fraction 9 (nat (t mod second)) @ format_zone off"
  have s: "s = ?head @ ?tail" by (simp add: range(4) format_RFC3339_def Let_def)
  have "length ?head = 19" using civ by (simp add: format_date_def format_clock_def)
  then have rest: "drop 19 s = ?tail" using s append_eq_conv_conj [of ?head ?tail s] by simp
  have "parse_date_time s = Some ?s"
    using parse_formatted_date_time [OF civ range(1,2), of ?tail] unfolding s by simp
  moreover have "nat (t mod second) < 10 ^ 9" by (simp add: second_def nat_less_iff)
  then have "parse_fraction ?tail = (nat (t mod second), format_zone off)"
    using format_zone_head [of off] by (intro parse_formatted_fraction) (auto simp: is_digit_def less_eq_char_def)
  moreover have "(?s - off) * second + int (nat (t mod second)) = t"
    by (simp add: local_seconds_def second_def)
  ultimately show ?thesis
    using parse_formatted_zone [OF assms(2) range(3)] by (simp add: parse_RFC3339_def rest)
qed

text \<open>The times that are written: those of the years 1 to 9998, whatever the zone.\<close>

lemma marshal_time_range:
  assumes "86400 * second \<le> t" and "t < (3652059 - 1) * 86400 * second" and "abs off < 86400"
  shows "marshal_time off t \<noteq> None"
proof -
  let ?d = "local_seconds off t div 86400"
  have "86400 \<le> t div second" "t div second < 3652058 * 86400"
    using assms(1,2) by (simp_all add: second_def)
  then have "0 \<le> local_seconds off t" "local_seconds off t < 3652059 * 86400"
    using assms(3) by (simp_all add: local_seconds_def abs_less_iff)
  then have "0 \<le> ?d" "?d < 3652059" by simp_all
  moreover obtain y m dd where civ: "civil ?d = (y, m, dd)" by (metis prod_cases3)
  ultimately have "1 \<le> y" "y \<le> 9999" using civil_year [OF civ] by blast+
  moreover have "nat (abs off) div 3600 < 24" using assms(3) by (simp add: nat_less_iff)
  ultimately show ?thesis by (simp add: marshal_time_def civ)
qed

end
