(* ===== verification/Go_Json_Encode.thy ===== *)
theory Go_Json_Encode
  imports Go_Json_Struct Go_Numbers
begin

text \<open>
  encoding/json's Marshal on a value: what a struct of strings, numbers, booleans, arrays
  and structs comes to as a JSON value, and the text of one. The text reads as the value,
  with what was not UTF-8 in its strings replaced.
\<close>

section \<open>The text of a value\<close>

primrec json_text :: "json \<Rightarrow> string" where
  "json_text JNull = ''null''"
| "json_text (JBool b) = (if b then ''true'' else ''false'')"
| "json_text (JNum n) = n"
| "json_text (JStr s) = json_quote s"
| "json_text (JArr vs) = encode_array (map json_text vs)"
| "json_text (JObj ms) = encode_object (map (map_prod id json_text) ms)"

text \<open>Encoder.Encode ends the text with a newline.\<close>

definition encode_line :: "json \<Rightarrow> string" where
  "encode_line v = json_text v @ [CHR 0x0A]"

text \<open>The value as a reader has it.\<close>

primrec json_valid :: "json \<Rightarrow> json" where
  "json_valid JNull = JNull"
| "json_valid (JBool b) = JBool b"
| "json_valid (JNum n) = JNum n"
| "json_valid (JStr s) = JStr (to_valid s)"
| "json_valid (JArr vs) = JArr (map json_valid vs)"
| "json_valid (JObj ms) = JObj (map (map_prod id json_valid) ms)"

text \<open>Values a program writes: numbers that are numbers, names that are UTF-8, and no deeper than a reader goes.\<close>

definition number_text :: "string \<Rightarrow> bool" where
  "number_text n \<longleftrightarrow> n \<noteq> [] \<and> number_char (hd n) \<and> (\<forall>t. ends_value t \<longrightarrow> scan_number (n @ t) = Some t)"

primrec encodable :: "json \<Rightarrow> nat \<Rightarrow> bool" where
  "encodable JNull d \<longleftrightarrow> True"
| "encodable (JBool b) d \<longleftrightarrow> True"
| "encodable (JNum n) d \<longleftrightarrow> number_text n"
| "encodable (JStr s) d \<longleftrightarrow> True"
| "encodable (JArr vs) d \<longleftrightarrow> 0 < d \<and> list_all (\<lambda>f. f (d - 1)) (map encodable vs)"
| "encodable (JObj ms) d \<longleftrightarrow> 0 < d \<and> list_all (\<lambda>(k, f). valid_utf8 k \<and> f (d - 1)) (map (map_prod id encodable) ms)"

lemma encodable_more: "encodable v d \<Longrightarrow> d \<le> e \<Longrightarrow> encodable v e"
proof (induction v arbitrary: d e)
  case (JArr vs)
  then have "d - 1 \<le> e - 1" by simp
  with JArr show ?case by (auto simp: list_all_iff)
next
  case (JObj ms)
  then have "d - 1 \<le> e - 1" by simp
  with JObj show ?case by (fastforce simp: list_all_iff)
qed simp_all

section \<open>The text reads as the value\<close>

lemma number_head: "number_char c \<Longrightarrow> \<not> is_ws c \<and> c \<notin> set [CHR ''{'', CHR ''['', quote_mark, CHR ''t'', CHR ''f'', CHR ''n'', CHR '']'']"
  by (auto simp: number_char_def is_ws_def is_digit_def less_eq_char_def)

lemma number_reads:
  assumes "number_text n"
  shows "reads_at d n (JNum n)"
proof -
  obtain c r where n: "n = c # r" using assms by (cases n) (auto simp: number_text_def)
  have c: "\<not> is_ws c" "c \<notin> set [CHR ''{'', CHR ''['', quote_mark, CHR ''t'', CHR ''f'', CHR ''n'', CHR '']'']"
    using assms number_head [of c] by (simp_all add: n number_text_def)
  have "parse_value d (n @ t) = Some (JNum n, t)" if "ends_value t" for t
  proof -
    have "scan_number (c # r @ t) = Some t" using assms that by (simp add: number_text_def n)
    then show ?thesis using c by (simp add: n parse_value_head)
  qed
  then show ?thesis using c by (simp add: reads_at_def n)
qed

lemma word_reads: "reads_at d ''null'' JNull" "reads_at d ''true'' (JBool True)" "reads_at d ''false'' (JBool False)"
  by (simp_all add: reads_at_def parse_value_head is_ws_def scan_word_def)

lemma text_head: "encodable v d \<Longrightarrow> json_text v \<noteq> [] \<and> \<not> is_ws (hd (json_text v)) \<and> hd (json_text v) \<noteq> CHR '']''"
  by (cases v) (auto simp: json_quote_def encode_array_def encode_object_def bracket_head quote_head number_text_def is_ws_def
      dest: number_head)

text \<open>The members of an object with their texts, and the values those read as.\<close>

definition written :: "(string \<times> json) list \<Rightarrow> (string \<times> string \<times> json) list" where
  "written ms = map (\<lambda>m. (fst m, json_text (snd m), json_valid (snd m))) ms"

lemma written_members:
  "member_texts (written ms) = map (map_prod id json_text) ms"
  "map member_value (written ms) = map (map_prod id json_valid) ms"
  by (auto simp: written_def member_value_def)

theorem json_text_reads: "encodable v d \<Longrightarrow> reads_at d (json_text v) (json_valid v)"
proof (induction v arbitrary: d)
  case (JArr vs)
  then obtain e where d: "d = Suc e" by (cases d) auto
  have each: "reads_at e (json_text v) (json_valid v)" "hd (json_text v) \<noteq> CHR '']''" if "v \<in> set vs" for v
    using JArr that text_head [of v e] by (auto simp: d list_all_iff)
  have "list_all2 (reads_at e) (map json_text vs) (map json_valid vs)"
    using each(1) by (simp add: list_all2_conv_all_nth)
  then have "parse_value d (encode_array (map json_text vs) @ t) = Some (JArr (map json_valid vs), t)" for t
    using encode_array_value [of e "map json_text vs" "map json_valid vs" t] each(2) by (simp add: d)
  then show ?case using text_head [OF JArr.prems] by (simp add: reads_at_def)
next
  case (JObj ms)
  then obtain e where d: "d = Suc e" by (cases d) auto
  have "member_reads_at e (k, json_text v, json_valid v)" if "(k, v) \<in> set ms" for k v
    using JObj that by (fastforce simp: d list_all_iff member_reads_at_def)
  then have reads: "list_all (member_reads_at e) (written ms)" by (auto simp: list_all_iff written_def)
  have "parse_value d (encode_object (map (map_prod id json_text) ms) @ t) = Some (JObj (map (map_prod id json_valid) ms), t)" for t
    using encode_object_value [OF reads, of t] by (simp only: d written_members)
  then show ?case using text_head [OF JObj.prems] by (simp add: reads_at_def)
qed (auto simp: word_reads json_quote_reads intro: number_reads)

text \<open>A line an encoder wrote, as a decoder of values or of a struct reads it.\<close>

lemma encode_line_reads:
  assumes "encodable v maxNestingDepth"
  shows "parse_value maxNestingDepth (encode_line v) = Some (json_valid v, [CHR 0x0A])"
proof -
  have "ends_value [CHR 0x0A]" by (simp add: ends_value_def number_char_def is_digit_def less_eq_char_def)
  with json_text_reads [OF assms] show ?thesis by (simp add: encode_line_def reads_at_def)
qed

lemma encode_line_decodes:
  assumes "encodable (JObj ms) maxNestingDepth"
  shows "decode_struct strict fs (encode_line (JObj ms)) =
     map_option (\<lambda>vals. (vals, [CHR 0x0A])) (decode_members strict fs (written ms) [])"
proof -
  have "member_reads (k, json_text v, json_valid v)" if "(k, v) \<in> set ms" for k v
    using assms that json_text_reads by (fastforce simp: list_all_iff member_reads_at_def)
  then have reads: "list_all member_reads (written ms)" by (auto simp: list_all_iff written_def)
  from decode_encoded [OF reads, of strict fs "[CHR 0x0A]"] show ?thesis
    by (simp only: encode_line_def json_text.simps written_members)
qed

section \<open>Numbers\<close>

lemma digits_dropWhile: "list_all is_digit ds \<Longrightarrow> ends_value t \<Longrightarrow> dropWhile is_digit (ds @ t) = t"
  by (induction ds) (auto simp: ends_value_def number_char_def dropWhile_eq_self_iff)

lemma decimal_head: "decimal n = c # r \<Longrightarrow> is_digit c \<and> (c = CHR ''0'' \<longrightarrow> r = [])"
proof (induction n arbitrary: c r rule: decimal.induct)
  case (1 n)
  show ?case
  proof (cases "n < 10")
    case True
    with 1(2) show ?thesis by (subst (asm) decimal.simps) (auto simp: digit_char_is_digit)
  next
    case False
    obtain c' r' where d: "decimal (n div 10) = c' # r'" using decimal_nonempty by (cases "decimal (n div 10)") auto
    with False 1(2) have cr: "c = c'" "r = r' @ [digit_char (n mod 10)]" by (simp_all add: decimal.simps [of n])
    note head = 1(1) [OF False d]
    moreover have "c' \<noteq> CHR ''0''"
    proof
      assume "c' = CHR ''0''"
      then have "decimal (n div 10) = ''0''" using head d by simp
      then have "read_decimal (decimal (n div 10)) = 0" by (simp add: read_decimal_def digit_value_def)
      then show False using False by (simp add: read_decimal_decimal)
    qed
    ultimately show ?thesis using cr by simp
  qed
qed

lemma scan_decimal:
  assumes "ends_value t"
  shows "scan_int (decimal n @ t) = Some t"
proof -
  obtain c r where d: "decimal n = c # r" using decimal_nonempty by (cases "decimal n") auto
  moreover have "list_all is_digit r" using decimal_digits [of n] d by simp
  ultimately show ?thesis
    using decimal_head [OF d] digits_dropWhile [OF _ assms, of r] by (auto simp: scan_int_def scan_digits_def)
qed

lemma scan_end: "ends_value t \<Longrightarrow> scan_frac t = Some t \<and> scan_exp t = Some t"
  by (cases t) (auto simp: ends_value_def number_char_def scan_frac_def scan_exp_def)

lemma FormatInt_number: "number_text (FormatInt i)"
proof -
  obtain c r where d: "decimal (nat (abs i)) = c # r" using decimal_nonempty by (cases "decimal (nat (abs i))") auto
  have c: "is_digit c" using decimal_head [OF d] by simp
  then have "c \<noteq> CHR ''-''" by (auto simp: is_digit_def less_eq_char_def)
  moreover have "FormatInt i = (if i < 0 then ''-'' else []) @ decimal (nat (abs i))" by (simp add: FormatInt_def)
  ultimately have "scan_number (FormatInt i @ t) = Some t" if "ends_value t" for t
    using scan_decimal [OF that, of "nat (abs i)"] scan_end [OF that] d by (auto simp: scan_number_def)
  moreover have "number_char (hd (FormatInt i))" "FormatInt i \<noteq> []"
    using c d by (auto simp: FormatInt_def number_char_def)
  ultimately show ?thesis by (simp add: number_text_def)
qed

end
