(* ===== verification/Stamps.thy ===== *)
theory Stamps
  imports Dispatch
begin

text \<open>
  The instants the control plane holds: when each peer was last heard of, and when each
  session was opened and last changed. Every operation writes readings of its clock, or
  the moment a session timed out, which lies before its clock.
\<close>

section \<open>The registry\<close>

definition stamp_in :: "time \<Rightarrow> time \<Rightarrow> time \<Rightarrow> bool" where
  "stamp_in lo hi t \<longleftrightarrow> lo \<le> t \<and> t \<le> hi"

definition peers_stamped :: "time \<Rightarrow> time \<Rightarrow> registry \<Rightarrow> bool" where
  "peers_stamped lo hi r \<longleftrightarrow> (\<forall>(k, held) \<in> set (reg_peers r). stamp_in lo hi (rec_lastSeen held))"

lemma mput_set: "set (mput k v m) \<subseteq> insert (k, v) (set m)"
  unfolding mput_def by (induction m) auto

lemma mdel_set: "set (mdel k m) \<subseteq> set m"
  by (auto simp: mdel_def AList.delete_eq)

lemma peers_stamped_put:
  "peers_stamped lo hi r \<Longrightarrow> stamp_in lo hi (rec_lastSeen held) \<Longrightarrow> peers_stamped lo hi (r\<lparr>reg_peers := mput k held (reg_peers r)\<rparr>)"
  using mput_set [of k held "reg_peers r"] by (auto simp: peers_stamped_def)

lemma peers_stamped_del: "peers_stamped lo hi r \<Longrightarrow> peers_stamped lo hi (r\<lparr>reg_peers := mdel k (reg_peers r)\<rparr>)"
  using mdel_set [of k "reg_peers r"] by (auto simp: peers_stamped_def)

lemma map_prune_set: "set (fst (map_prune P ks m)) \<subseteq> set m"
proof (induction P ks m rule: map_prune.induct)
  case (2 P k ks m)
  then show ?case using mdel_set [of k m] by (auto split: option.split prod.splits) (use subsetD in fastforce)+
qed simp

lemma peers_stamped_expire: "peers_stamped lo hi r \<Longrightarrow> peers_stamped lo hi (fst (expireLocked ord now r))"
  using map_prune_set [of "\<lambda>_ held. stateOf r held now = Gone" "ord (mkeys (reg_peers r))" "reg_peers r"]
  by (fastforce simp: expireLocked_def peers_stamped_def split: prod.split)

lemma Register_stamped:
  assumes "peers_stamped lo hi r" and "stamp_in lo hi now" and "registry_Register ord now p r = (r', res)"
  shows "peers_stamped lo hi r' \<and> (\<forall>q. res = Inr q \<longrightarrow> stamp_in lo hi (peer_LastSeen q))"
  using assms peers_stamped_expire [OF assms(1), of ord now]
  by (auto simp: registry_Register_def Let_def intro: peers_stamped_put split: if_splits)

lemma Heartbeat_stamped:
  assumes "peers_stamped lo hi r" and "stamp_in lo hi now" and "registry_Heartbeat now p r = (r', res)"
  shows "peers_stamped lo hi r' \<and> (\<forall>q. res = Inr q \<longrightarrow> stamp_in lo hi (peer_LastSeen q))"
  using assms by (auto simp: registry_Heartbeat_def intro: peers_stamped_put peers_stamped_del split: option.splits if_splits)

lemma Lookup_stamped:
  "peers_stamped lo hi r \<Longrightarrow> registry_Lookup now p r = Some q \<Longrightarrow> stamp_in lo hi (peer_LastSeen q)"
  by (auto simp: registry_Lookup_def peers_stamped_def Let_def split: option.splits if_splits dest!: map_of_SomeD)

section \<open>The session store\<close>

definition session_stamped :: "time \<Rightarrow> time \<Rightarrow> session \<Rightarrow> bool" where
  "session_stamped lo hi h \<longleftrightarrow> stamp_in lo hi (sess_OpenedAt h) \<and> stamp_in lo hi (sess_ChangedAt h)"

definition sessions_stamped :: "time \<Rightarrow> time \<Rightarrow> store \<Rightarrow> bool" where
  "sessions_stamped lo hi st \<longleftrightarrow> 0 \<le> st_timeout st \<and> (\<forall>(k, h) \<in> set (st_sessions st). session_stamped lo hi h)"

lemma helpers_keep [simp]:
  "st_sessions (untrackLocked p sid st) = st_sessions st" "st_timeout (untrackLocked p sid st) = st_timeout st"
  "st_sessions (trackLocked p sid st) = st_sessions st" "st_timeout (trackLocked p sid st) = st_timeout st"
  "st_sessions (endedLocked h st) = st_sessions st" "st_timeout (endedLocked h st) = st_timeout st"
  by (simp_all add: untrackLocked_def trackLocked_def endedLocked_def Let_def split: option.split)

lemma sessions_stamped_cong:
  "st_sessions st' = st_sessions st \<Longrightarrow> st_timeout st' = st_timeout st \<Longrightarrow> sessions_stamped lo hi st' = sessions_stamped lo hi st"
  by (simp add: sessions_stamped_def)

lemma sessions_stamped_found: "sessions_stamped lo hi st \<Longrightarrow> map_of (st_sessions st) sid = Some h \<Longrightarrow> session_stamped lo hi h"
  by (auto simp: sessions_stamped_def dest!: map_of_SomeD)

lemma sessions_stamped_put:
  "sessions_stamped lo hi st \<Longrightarrow> session_stamped lo hi h \<Longrightarrow> sessions_stamped lo hi (st\<lparr>st_sessions := mput sid h (st_sessions st)\<rparr>)"
  using mput_set [of sid h "st_sessions st"] by (auto simp: sessions_stamped_def)

lemma sessions_stamped_ended: "sessions_stamped lo hi (endedLocked h st) = sessions_stamped lo hi st"
  by (rule sessions_stamped_cong) simp_all

lemma sessions_stamped_forget: "sessions_stamped lo hi st \<Longrightarrow> sessions_stamped lo hi (forgetLocked sid h st)"
  using mdel_set [of sid "st_sessions st"] by (auto simp: forgetLocked_def sessions_stamped_def Let_def)

text \<open>Settling writes the moment the timeout passed, before the clock.\<close>

lemma settle_stamped:
  assumes "sessions_stamped lo hi st" and "session_stamped lo hi h" and "stamp_in lo hi now"
    and "settleLocked now h st = (st', h')"
  shows "sessions_stamped lo hi st' \<and> session_stamped lo hi h'"
proof (cases "sess_State h \<noteq> Negotiating \<or> time_Sub now (sess_OpenedAt h) \<le> st_timeout st")
  case True
  with assms show ?thesis by (auto simp: settleLocked_def)
next
  case False
  have "0 \<le> st_timeout st" using assms(1) by (simp add: sessions_stamped_def)
  then have "st_timeout st < now - sess_OpenedAt h"
    using False time_Sub_gtD [of "st_timeout st" now "sess_OpenedAt h"] by (simp add: min_duration_def)
  then have "session_stamped lo hi (h\<lparr>sess_State := Failed, sess_ChangedAt := time_Add (sess_OpenedAt h) (st_timeout st)\<rparr>)"
    using assms(2,3) \<open>0 \<le> st_timeout st\<close> by (simp add: session_stamped_def stamp_in_def time_Add_def)
  with False assms(1,4) sessions_stamped_put show ?thesis
    by (auto simp: settleLocked_def Let_def sessions_stamped_ended)
qed

lemma Get_stamped:
  assumes "sessions_stamped lo hi st" and "stamp_in lo hi now" and "store_Get now sid p st = (st', res)"
  shows "sessions_stamped lo hi st' \<and> (\<forall>h. res = Inr h \<longrightarrow> session_stamped lo hi h)"
  using assms settle_stamped [OF assms(1) sessions_stamped_found [OF assms(1), of sid] assms(2)]
  by (auto simp: store_Get_def split: option.splits if_splits prod.splits)

lemma Report_stamped:
  assumes "sessions_stamped lo hi st" and "stamp_in lo hi now" and "store_Report now sid p state path st = (st', res)"
  shows "sessions_stamped lo hi st' \<and> (\<forall>h. res = Inr h \<longrightarrow> session_stamped lo hi h)"
proof (cases "map_of (st_sessions st) sid")
  case (Some found)
  obtain st1 h1 where s: "settleLocked now found st = (st1, h1)" by fastforce
  have ok: "sessions_stamped lo hi st1" "session_stamped lo hi h1"
    using settle_stamped [OF assms(1) sessions_stamped_found [OF assms(1) Some] assms(2) s] by simp_all
  have "session_stamped lo hi (h1\<lparr>sess_State := state, sess_ChangedAt := now\<rparr>)"
      "session_stamped lo hi (h1\<lparr>sess_State := state, sess_ChangedAt := now, sess_Path := path\<rparr>)"
    using ok(2) assms(2) by (simp_all add: session_stamped_def)
  with Some s ok assms show ?thesis
    by (auto simp: store_Report_def Let_def sessions_stamped_ended sessions_stamped_put split: if_splits)
qed (use assms in \<open>auto simp: store_Report_def\<close>)

lemma settle_ids_stamped:
  assumes "sessions_stamped lo hi st" and "stamp_in lo hi now"
  shows "sessions_stamped lo hi (settle_ids now p sids st)"
  using assms(1)
proof (induction sids arbitrary: st)
  case (Cons sid sids)
  show ?case
  proof (cases "map_of (st_sessions st) sid")
    case None
    have "sessions_stamped lo hi (untrackLocked p sid st)"
      using Cons.prems sessions_stamped_cong [of "untrackLocked p sid st" st] by simp
    with Cons.IH None show ?thesis by simp
  next
    case (Some h)
    obtain st1 h1 where s: "settleLocked now h st = (st1, h1)" by fastforce
    with settle_stamped [OF Cons.prems sessions_stamped_found [OF Cons.prems Some] assms(2) s] Cons.IH Some show ?thesis by simp
  qed
qed simp

lemma cap_check_stamped:
  assumes "sessions_stamped lo hi st" and "stamp_in lo hi now" and "cap_check ord now ps st = (st', ok)"
  shows "sessions_stamped lo hi st'"
  using assms(1,3)
proof (induction ps arbitrary: st)
  case (Cons p ps)
  have "sessions_stamped lo hi (settlePeerLocked (ord p) p now st)"
    using settle_ids_stamped [OF Cons.prems(1) assms(2)] by (simp add: settlePeerLocked_def Let_def)
  with Cons show ?case by (auto simp: Let_def split: if_splits)
qed simp

lemma trim_loop_stamped: "sessions_stamped lo hi st \<Longrightarrow> sessions_stamped lo hi (trim_loop bound ids st)"
proof (induction bound ids st rule: trim_loop.induct)
  case (1 bound st)
  then show ?case using sessions_stamped_cong [of "st\<lparr>st_ended := []\<rparr>" st] by simp
next
  case (2 bound oldest rest st)
  have "sessions_stamped lo hi (st\<lparr>st_ended := e\<rparr>)" for e
    using 2(4) sessions_stamped_cong [of "st\<lparr>st_ended := e\<rparr>" st] by simp
  with 2(1-3) sessions_stamped_forget show ?case by (simp add: Let_def split: option.split)
qed

lemma Open_stamped:
  assumes "sessions_stamped lo hi st" and "stamp_in lo hi now" and "store_Open ord rand now a b st = (st', res)"
  shows "sessions_stamped lo hi st' \<and> (\<forall>h. res = Inr h \<longrightarrow> session_stamped lo hi h)"
proof -
  have opened: "sessions_stamped lo hi u' \<and> (\<forall>h. r = Inr h \<longrightarrow> session_stamped lo hi h)"
    if u: "sessions_stamped lo hi u" "open_new ord rand now a' b' u = (u', r)" for u u' r a' b'
  proof -
    obtain u1 ok where c: "cap_check ord now [a', b'] u = (u1, ok)" by fastforce
    have u1: "sessions_stamped lo hi u1" "sessions_stamped lo hi (trimLocked u1)"
      using cap_check_stamped [OF u(1) assms(2) c] by (simp_all add: trimLocked_def trim_loop_stamped)
    have new: "session_stamped lo hi (new_session now sid a' b')" for sid
      using assms(2) by (simp add: new_session_def session_stamped_def)
    have put: "sessions_stamped lo hi (with_session sid (new_session now sid a' b') (trimLocked u1))" for sid
      using sessions_stamped_put [OF u1(2) new, of sid sid]
      by (simp add: with_session_def sessions_stamped_def)
    show ?thesis
    proof (cases "st_ceiling u \<le> st_live u \<or> \<not> ok")
      case True
      with u c u1 show ?thesis by (auto simp: open_new_def Let_def split: if_splits)
    next
      case False
      with u(2) c open_new_run [of u ord now a' b' u1 rand] new put u1 show ?thesis
        by (auto simp: Let_def split: option.splits)
    qed
  qed
  have pair: "sessions_stamped lo hi u' \<and> (\<forall>h. r = Some h \<longrightarrow> session_stamped lo hi h)"
    if "pairLocked a' b' now st = (u', r)" for u' r a' b'
  proof -
    have "sessions_stamped lo hi (st\<lparr>st_pairs := m\<rparr>)" for m using assms(1) sessions_stamped_cong [of "st\<lparr>st_pairs := m\<rparr>" st] by simp
    then show ?thesis
      using that assms(1) settle_stamped [OF assms(1) sessions_stamped_found [OF assms(1)] assms(2)]
      by (auto simp: pairLocked_def Let_def split: option.splits prod.splits if_splits)
  qed
  obtain u x where p: "pairLocked (TrimSpace a) (TrimSpace b) now st = (u, x)" by fastforce
  note found = pair [OF p]
  show ?thesis
    using assms(1,3) found opened [OF conjunct1 [OF found]]
    by (auto simp: store_Open_def Let_def p split: if_splits option.splits)
qed

section \<open>The process\<close>

definition stamped :: "time \<Rightarrow> time \<Rightarrow> central \<Rightarrow> bool" where
  "stamped lo hi c \<longleftrightarrow> peers_stamped lo hi (ce_peers c) \<and> sessions_stamped lo hi (ce_sessions c)"

text \<open>The instants an answer carries; a credential's lies its lifetime ahead.\<close>

definition body_stamped :: "time \<Rightarrow> time \<Rightarrow> body \<Rightarrow> bool" where
  "body_stamped lo hi b =
     (case b of
        PeerBody p \<Rightarrow> stamp_in lo hi (pr_LastSeen p)
      | SessionBody s \<Rightarrow> stamp_in lo hi (sr_OpenedAt s) \<and> stamp_in lo hi (sr_ChangedAt s)
      | IceBody i \<Rightarrow> (\<forall>t. ir_ExpiresAt i = Some t \<longrightarrow> stamp_in lo (hi + max_duration) t)
      | TokenBody t \<Rightarrow> stamp_in lo (hi + max_duration) (tr_ExpiresAt t)
      | _ \<Rightarrow> True)"

definition outcome_stamped :: "time \<Rightarrow> time \<Rightarrow> central \<times> response \<Rightarrow> bool" where
  "outcome_stamped lo hi out \<longleftrightarrow> stamped lo hi (fst out) \<and> body_stamped lo hi (rs_Body (snd out))"

lemma bodies_stamped [simp]:
  "body_stamped lo hi (PeerBody p) \<longleftrightarrow> stamp_in lo hi (pr_LastSeen p)"
  "body_stamped lo hi (SessionBody s) \<longleftrightarrow> stamp_in lo hi (sr_OpenedAt s) \<and> stamp_in lo hi (sr_ChangedAt s)"
  "body_stamped lo hi (IceBody i) \<longleftrightarrow> (\<forall>t. ir_ExpiresAt i = Some t \<longrightarrow> stamp_in lo (hi + max_duration) t)"
  "body_stamped lo hi (TokenBody t) \<longleftrightarrow> stamp_in lo (hi + max_duration) (tr_ExpiresAt t)"
  by (simp_all add: body_stamped_def)

lemma refusals_stamped [simp]:
  "body_stamped lo hi (rs_Body (writeError status code))" "body_stamped lo hi (rs_Body (writeTokenError status code))"
  "body_stamped lo hi NoBody" "body_stamped lo hi (ErrorBody code)"
  by (simp_all add: body_stamped_def writeError_def writeTokenError_def Let_def)

lemma body_of_status [simp]: "rs_Body (writeJSONStatus status b) = b"
  by (simp add: writeJSONStatus_def)

lemma guard_stamped:
  assumes "stamped lo hi c" and "\<And>r. outcome_stamped lo hi (handler r c)"
  shows "outcome_stamped lo hi (guard dp now handler r c)"
  using assms by (auto simp: guard_def RequireToken_def outcome_stamped_def split: option.split sum.split)

lemma presence_stamped:
  assumes "peers_stamped lo hi r" and "stamp_in lo hi now" and "stamp_in lo hi now'"
  shows "peers_stamped lo hi (presence_Connected ord now now' p r)"
  using Heartbeat_stamped [OF assms(1,2), of p] Register_stamped [of lo hi _ now' ord p] assms(3)
  by (auto simp: presence_Connected_def split: prod.split sum.split) (metis fst_conv prod.collapse)

lemma served_stamped:
  assumes "stamped lo hi c" and "stamp_in lo hi now"
  shows "outcome_stamped lo hi (serve_Peers dp verified ord now r c)"
    and "outcome_stamped lo hi (serve_Heartbeat dp verified now r c)"
    and "outcome_stamped lo hi (serve_PeerLookup dp verified now r c)"
    and "outcome_stamped lo hi (serve_OpenSession dp verified orders rand looked now ro c)"
    and "outcome_stamped lo hi (serve_GetSession dp verified writes now r c)"
    and "outcome_stamped lo hi (serve_ReportSession dp verified writes now rr c)"
proof -
  have reg: "peers_stamped lo hi (ce_peers c)" and st: "sessions_stamped lo hi (ce_sessions c)"
    using assms(1) by (simp_all add: stamped_def)
  note keep = reg st assms(2)
  show "outcome_stamped lo hi (serve_Peers dp verified ord now r c)"
    unfolding serve_Peers_def using keep Register_stamped [OF reg assms(2)] peers_stamped_del [OF reg]
    by (intro guard_stamped [OF assms(1)])
      (auto simp: h_Peers_def outcome_stamped_def stamped_def as_peerResponse_def registry_Deregister_def Let_def
        split: http_method.split sum.split prod.split)
  show "outcome_stamped lo hi (serve_Heartbeat dp verified now r c)"
    unfolding serve_Heartbeat_def using keep Heartbeat_stamped [OF reg assms(2)]
    by (intro guard_stamped [OF assms(1)])
      (auto simp: h_Heartbeat_def outcome_stamped_def stamped_def as_peerResponse_def Let_def
        split: sum.split prod.split)
  show "outcome_stamped lo hi (serve_PeerLookup dp verified now r c)"
    unfolding serve_PeerLookup_def using assms(1) Lookup_stamped [OF reg]
    by (intro guard_stamped [OF assms(1)])
      (auto simp: h_PeerLookup_def outcome_stamped_def as_peerResponse_def split: option.split)
  show "outcome_stamped lo hi (serve_OpenSession dp verified orders rand looked now ro c)"
    unfolding serve_OpenSession_def using keep Open_stamped [OF st assms(2)]
    by (intro guard_stamped [OF assms(1)])
      (auto simp: h_OpenSession_def outcome_stamped_def stamped_def asResponse_def session_stamped_def Let_def
        split: option.split sum.split prod.split)
  show "outcome_stamped lo hi (serve_GetSession dp verified writes now r c)"
    unfolding serve_GetSession_def using keep Get_stamped [OF st assms(2)] Report_stamped [OF st assms(2)]
    by (intro guard_stamped [OF assms(1)])
      (auto simp: h_GetSession_def outcome_stamped_def stamped_def asResponse_def session_stamped_def
        Let_def split: http_method.split sum.split prod.split)
  show "outcome_stamped lo hi (serve_ReportSession dp verified writes now rr c)"
    unfolding serve_ReportSession_def using keep Report_stamped [OF st assms(2)]
    by (intro guard_stamped [OF assms(1)])
      (auto simp: h_ReportSession_def outcome_stamped_def stamped_def asResponse_def session_stamped_def Let_def
        split: option.split sum.split prod.split)
qed

lemma run_presence_stamped:
  assumes "peers_stamped lo hi r" and "stamp_in lo hi now" and "stamp_in lo hi now'"
  shows "peers_stamped lo hi (run_presence ord now now' eff r)"
  using assms(1)
proof (induction eff arbitrary: r)
  case (Cons e eff)
  have "peers_stamped lo hi (presence_Connected ord now now' p r)" for p
    by (rule presence_stamped [OF Cons.prems assms(2,3)])
  with Cons show ?case by (cases e) (simp_all add: run_presence_def presence_Disconnected_def)
qed (simp add: run_presence_def)

lemma ICE_stamped:
  assumes "stamped lo hi c" and "stamp_in lo hi now" and "pv_credentialTTL (dp_ice dp) \<le> max_duration"
  shows "outcome_stamped lo hi (serve_ICEConfig dp verified now r c)"
  unfolding serve_ICEConfig_def using assms
  by (intro guard_stamped [OF assms(1)])
    (auto simp: h_ICEConfig_def outcome_stamped_def provider_For_def NewCredential_def stamp_in_def time_Add_def Let_def
      split: sum.split if_splits)

lemma Auth_stamped:
  assumes "stamped lo hi c" and "stamp_in lo hi issued"
    and "0 < ti_ttl (dp_issuer dp)" and "ti_ttl (dp_issuer dp) \<le> max_duration"
    and "serve_Auth dp ord rand now issued r c = Some (c', rs)"
  shows "outcome_stamped lo hi (c', rs)"
  using assms
  by (auto simp: serve_Auth_def h_Auth_steps outcome_stamped_def stamped_def issuer_Issue_def stamp_in_def time_Add_def Let_def
      split: option.splits sum.splits if_splits)

lemma answered_stamped:
  "outcome_stamped lo hi out \<Longrightarrow> answered out = Some (c', a) \<Longrightarrow>
     stamped lo hi c' \<and> (\<forall>rs. a = Answered rs \<longrightarrow> body_stamped lo hi (rs_Body rs))"
  by (auto simp: answered_def outcome_stamped_def split: prod.splits)

theorem dispatch_stamped:
  assumes "stamped lo hi c" and "list_all (stamp_in lo hi) [rd_before rd, rd_now rd, rd_after rd]"
    and "0 < ti_ttl (dp_issuer dp)" and "ti_ttl (dp_issuer dp) \<le> max_duration" and "pv_credentialTTL (dp_ice dp) \<le> max_duration"
    and "dispatch build cfg started dp dc rd q c = Some (c', a)"
  shows "stamped lo hi c' \<and> (\<forall>rs. a = Answered rs \<longrightarrow> body_stamped lo hi (rs_Body rs))"
proof (cases "routes (cf_ServeDemo cfg) (hq_Method q) (hq_Path q)")
  case None
  with assms(1,6) show ?thesis by (auto simp: dispatch_def not_routed_def Let_def)
next
  case (Some e)
  have clock: "stamp_in lo hi (rd_before rd)" "stamp_in lo hi (rd_now rd)" "stamp_in lo hi (rd_after rd)"
    using assms(2) by simp_all
  have run: "serve_endpoint build cfg started dp dc rd q e c = Some (c', a)" using assms(6) Some by (simp add: dispatch_def)
  have "stamped lo hi (fst (serve_Signal dp rd q c)) \<and> (\<forall>rs. snd (serve_Signal dp rd q c) = Answered rs \<longrightarrow> body_stamped lo hi (rs_Body rs))"
    using assms(1) run_presence_stamped [OF _ clock(2,3)]
    by (auto simp: serve_Signal_def signal_open_def signal_authenticate_def stamped_def Let_def
        split: option.split sum.split prod.split)
  moreover have "stamped lo hi c' \<and> body_stamped lo hi (rs_Body rs)"
    if "serve_Auth dp (rd_ord rd) (rd_rand rd) (rd_now rd) (rd_after rd) r c = Some (c', rs)" for r rs
    using Auth_stamped [OF assms(1) clock(3) assms(3,4) that] by (simp add: outcome_stamped_def)
  moreover note served = served_stamped [OF assms(1) clock(2), THEN answered_stamped]
    ICE_stamped [OF assms(1) clock(2) assms(5), THEN answered_stamped]
  ultimately show ?thesis
    using run assms(1) by (cases e) (auto simp: serve_endpoint_def dest: served)
qed

section \<open>Messages, closings and ticks\<close>

lemma close_ids_stamped:
  assumes "sessions_stamped lo hi st" and "stamp_in lo hi now"
  shows "sessions_stamped lo hi (fst (close_ids now p sids st))"
  using assms(1)
proof (induction sids arbitrary: st)
  case (Cons sid sids)
  show ?case
  proof (cases "map_of (st_sessions st) sid")
    case None
    with Cons show ?thesis by simp
  next
    case (Some h)
    obtain st1 h1 where s: "settleLocked now h st = (st1, h1)" by fastforce
    have ok: "sessions_stamped lo hi st1" "session_stamped lo hi h1"
      using settle_stamped [OF Cons.prems sessions_stamped_found [OF Cons.prems Some] assms(2) s] by simp_all
    have "session_stamped lo hi (h1\<lparr>sess_State := Closed, sess_ChangedAt := now\<rparr>)"
      using ok(2) assms(2) by (simp add: session_stamped_def)
    then have "sessions_stamped lo hi (endedLocked h2 (st1\<lparr>st_sessions :=
        mput sid (h1\<lparr>sess_State := Closed, sess_ChangedAt := now\<rparr>) (st_sessions st1)\<rparr>))" for h2
      using ok(1) by (simp add: sessions_stamped_ended sessions_stamped_put)
    with Cons Some s ok show ?thesis by (simp add: Let_def split_beta)
  qed
qed simp

lemma reap_ids_stamped:
  assumes "sessions_stamped lo hi (fst acc)" and "stamp_in lo hi now"
  shows "sessions_stamped lo hi (fst (reap_ids now sids acc))"
  using assms(1)
proof (induction sids arbitrary: acc)
  case Nil
  then show ?case by (cases acc) simp
next
  case (Cons sid sids)
  obtain st failed forgotten where acc: "acc = (st, failed, forgotten)" by (cases acc)
  show ?case
  proof (cases "map_of (st_sessions st) sid")
    case None
    with Cons acc show ?thesis by simp
  next
    case (Some h)
    obtain st1 h1 where s: "settleLocked now h st = (st1, h1)" by fastforce
    have "sessions_stamped lo hi st1"
      using Cons.prems acc settle_stamped [OF _ sessions_stamped_found [OF _ Some] assms(2) s] by simp
    with Cons.IH Some s acc sessions_stamped_forget show ?thesis by (simp add: Let_def)
  qed
qed

lemma Reap_stamped:
  assumes "stamped lo hi c" and "stamp_in lo hi now"
  shows "stamped lo hi (fst (reap_tick ord now c))"
proof -
  have "sessions_stamped lo hi (compactEndedLocked st) = sessions_stamped lo hi st" for st
    by (rule sessions_stamped_cong) (simp_all add: compactEndedLocked_def Let_def)
  with assms reap_ids_stamped [of lo hi "(ce_sessions c, 0, 0)" now] show ?thesis
    by (simp add: reap_tick_def store_Reap_def stamped_def split_beta Let_def)
qed

lemma close_expired_stamped:
  assumes "sessions_stamped lo hi (fst acc)" and "\<And>p. stamp_in lo hi (clock p)"
  shows "sessions_stamped lo hi (fst (close_expired ord clock writes h ps acc))"
  using assms(1)
proof (induction ps arbitrary: acc)
  case Nil
  then show ?case by (cases acc) simp
next
  case (Cons p ps)
  then show ?case
    using close_ids_stamped [OF _ assms(2)] by (cases acc) (simp add: store_ClosePeer_def split_beta Let_def)
qed

lemma Sweep_stamped:
  assumes "stamped lo hi c" and "\<And>p. stamp_in lo hi (clock p)"
  shows "stamped lo hi (sweep_tick ord now orders clock writes c)"
  using assms peers_stamped_expire close_expired_stamped [of lo hi "(ce_sessions c, [])" clock]
  by (auto simp: sweep_tick_def stamped_def registry_Expire_def split_beta Let_def)

lemma Refresh_stamped:
  assumes "stamped lo hi c" and "\<And>p. stamp_in lo hi (fst (reads p)) \<and> stamp_in lo hi (snd (reads p))"
  shows "stamped lo hi (refresh_tick ord orders reads c)"
proof -
  have "peers_stamped lo hi r \<Longrightarrow> peers_stamped lo hi (refresh_peers orders reads ps r)" for ps r
  proof (induction ps arbitrary: r)
    case (Cons p ps)
    have "peers_stamped lo hi (presence_Connected (orders p) (fst (reads p)) (snd (reads p)) p r)"
      using assms(2) by (intro presence_stamped [OF Cons.prems]) simp_all
    with Cons.IH show ?case by (simp add: presence_Connected_def)
  qed simp
  with assms(1) show ?thesis by (simp add: refresh_tick_def stamped_def)
qed

lemma Message_stamped:
  assumes "stamped lo hi c" and "stamp_in lo hi looked"
  shows "stamped lo hi (signal_message writes now looked p msg c)"
proof -
  have "sessions_stamped lo hi (fst (store_Get looked sid q (ce_sessions c)))" for sid q
    using assms Get_stamped [of lo hi "ce_sessions c" looked sid q] by (cases "store_Get looked sid q (ce_sessions c)") (simp add: stamped_def)
  then have "sessions_stamped lo hi (fst (sessionsAsPairs_Other looked sid q (ce_sessions c)))" for sid q
    by (simp add: Other_store)
  moreover have "snd (fst (hub_Route (sessionsAsPairs_Other looked) writes now p msg (ce_hub c, ce_sessions c)))
      \<in> {ce_sessions c, fst (sessionsAsPairs_Other looked (msg_SessionID msg) p (ce_sessions c))}"
    by (auto simp: hub_Route_def split_beta Let_def split: option.split)
  ultimately show ?thesis using assms(1) by (auto simp: signal_message_def stamped_def split_beta Let_def)
qed

lemma Close_stamped:
  "stamped lo hi c \<Longrightarrow> stamp_in lo hi now \<Longrightarrow> stamp_in lo hi now' \<Longrightarrow> stamped lo hi (signal_close ord now now' cn p c)"
  using run_presence_stamped by (simp add: signal_close_def stamped_def split_beta Let_def)

section \<open>A process while its clock lies in a range\<close>

text \<open>
  What a process has been through since it started: requests, messages and closings on
  channels, and ticks, the clock read between \<open>lo\<close> and \<open>hi\<close> each time an instant can be kept.
\<close>

inductive served_within ::
  "time \<Rightarrow> time \<Rightarrow> string \<Rightarrow> config \<Rightarrow> time \<Rightarrow> deployment \<Rightarrow> decoders \<Rightarrow> central \<Rightarrow> bool"
  for lo hi build cfg started dp dc where
  within_start: "central_start ro so ho failures window c \<Longrightarrow> served_within lo hi build cfg started dp dc c"
| within_request: "served_within lo hi build cfg started dp dc c \<Longrightarrow>
     list_all (stamp_in lo hi) [rd_before rd, rd_now rd, rd_after rd] \<Longrightarrow>
     dispatch build cfg started dp dc rd q c = Some (c', a) \<Longrightarrow> served_within lo hi build cfg started dp dc c'"
| within_message: "served_within lo hi build cfg started dp dc c \<Longrightarrow> stamp_in lo hi looked \<Longrightarrow>
     served_within lo hi build cfg started dp dc (signal_message writes now looked p msg c)"
| within_close: "served_within lo hi build cfg started dp dc c \<Longrightarrow> stamp_in lo hi now \<Longrightarrow> stamp_in lo hi now' \<Longrightarrow>
     served_within lo hi build cfg started dp dc (signal_close ord now now' cn p c)"
| within_sweep: "served_within lo hi build cfg started dp dc c \<Longrightarrow> (\<And>p. stamp_in lo hi (clock p)) \<Longrightarrow>
     served_within lo hi build cfg started dp dc (sweep_tick ord now orders clock writes c)"
| within_reap: "served_within lo hi build cfg started dp dc c \<Longrightarrow> stamp_in lo hi now \<Longrightarrow>
     served_within lo hi build cfg started dp dc (fst (reap_tick ord now c))"
| within_refresh: "served_within lo hi build cfg started dp dc c \<Longrightarrow>
     (\<And>p. stamp_in lo hi (fst (reads p)) \<and> stamp_in lo hi (snd (reads p))) \<Longrightarrow>
     served_within lo hi build cfg started dp dc (refresh_tick ord orders reads c)"

lemma start_stamped:
  assumes "central_start ro so ho failures window c"
  shows "stamped lo hi c"
proof -
  have new: "registry_New ro = Inr (ce_peers c)" "store_New so = Inr (ce_sessions c)"
    using assms by (simp_all add: central_start_def)
  have "reg_peers r = []" if "registry_New ro = Inr r" for r
    using that by (auto simp: registry_New_def Let_def split: if_splits)
  moreover have "st_sessions st = [] \<and> 0 \<le> st_timeout st" if "store_New so = Inr st" for st
    using that by (auto simp: store_New_def split: if_splits)
  moreover note new
  ultimately show ?thesis by (simp add: stamped_def peers_stamped_def sessions_stamped_def)
qed

lemma served_stamped_always:
  assumes "served_within lo hi build cfg started dp dc c"
    and "0 < ti_ttl (dp_issuer dp)" and "ti_ttl (dp_issuer dp) \<le> max_duration" and "pv_credentialTTL (dp_ice dp) \<le> max_duration"
  shows "stamped lo hi c"
  using assms(1)
proof (induction rule: served_within.induct)
  case (within_request c rd q c' a)
  then show ?case using dispatch_stamped [OF _ _ assms(2-4)] by blast
qed (simp_all add: start_stamped Message_stamped Close_stamped Sweep_stamped Reap_stamped Refresh_stamped)

end
