(* ===== verification/Answers.thy ===== *)
theory Answers
  imports Wire Go_Time Go_Json_Encode Stamps
begin

text \<open>
  The bodies internal/transport answers with: each response type as the JSON value its
  tags make of it, and writeJSON, which writes its text and a newline or, where the value
  cannot be encoded, nothing. Only a time can fail to be encoded, by its year or its zone.
  The offset of the server's zone at an instant is the argument \<open>zone\<close>, in seconds.
\<close>

section \<open>The values\<close>

definition time_json :: "(time \<Rightarrow> int) \<Rightarrow> time \<Rightarrow> json option" where
  "time_json zone t = map_option JStr (marshal_time (zone t) t)"

definition peer_json :: "(time \<Rightarrow> int) \<Rightarrow> peerResponse \<Rightarrow> json option" where
  "peer_json zone p = do {
     last_seen \<leftarrow> time_json zone (pr_LastSeen p);
     Some (JObj (
       [(''peer_id'', JStr (pr_PeerID p)), (''state'', JStr (pr_State p)), (''last_seen'', last_seen)] @
       (case pr_HeartbeatInterval p of None \<Rightarrow> [] | Some d \<Rightarrow> [(''heartbeat_interval'', JStr (duration_String d))])))
   }"

definition session_json :: "(time \<Rightarrow> int) \<Rightarrow> sessionResponse \<Rightarrow> json option" where
  "session_json zone s = do {
     opened_at \<leftarrow> time_json zone (sr_OpenedAt s);
     changed_at \<leftarrow> time_json zone (sr_ChangedAt s);
     Some (JObj (
       [(''session_id'', JStr (sr_SessionID s)), (''caller'', JStr (sr_Caller s)), (''callee'', JStr (sr_Callee s)),
        (''state'', JStr (sr_State s))] @
       omitempty ''path'' (sr_Path s) (JStr (sr_Path s)) @
       [(''opened_at'', opened_at), (''changed_at'', changed_at)]))
   }"

text \<open>A list of servers no server was added to is a nil slice, written null.\<close>

definition server_json :: "server \<Rightarrow> json" where
  "server_json s =
     JObj ([(''urls'', JArr (map JStr (sv_URLs s)))] @
       omitempty ''username'' (sv_Username s) (JStr (sv_Username s)) @
       omitempty ''credential'' (sv_Credential s) (JStr (sv_Credential s)))"

definition servers_json :: "server list \<Rightarrow> json" where
  "servers_json servers = (if servers = [] then JNull else JArr (map server_json servers))"

definition ice_json :: "(time \<Rightarrow> int) \<Rightarrow> iceResponse \<Rightarrow> json option" where
  "ice_json zone i = do {
     expires_at \<leftarrow> (case ir_ExpiresAt i of
        None \<Rightarrow> Some []
      | Some t \<Rightarrow> map_option (\<lambda>v. [(''expires_at'', v)]) (time_json zone t));
     Some (JObj (
       [(''ice_servers'', servers_json (ir_ICEServers i))] @ expires_at @ [(''relay_available'', JBool (ir_RelayAvailable i))]))
   }"

definition token_json :: "(time \<Rightarrow> int) \<Rightarrow> tokenResponse \<Rightarrow> json option" where
  "token_json zone t = do {
     expires_at \<leftarrow> time_json zone (tr_ExpiresAt t);
     Some (JObj [(''token'', JStr (tr_Token t)), (''peer_id'', JStr (tr_PeerID t)), (''expires_at'', expires_at)])
   }"

definition error_json :: "string \<Rightarrow> json" where
  "error_json code = JObj [(''error'', JStr code)]"

definition health_json :: "healthResponse \<Rightarrow> json" where
  "health_json h =
     JObj [(''status'', JStr (hr_Status h)), (''build'', JStr (hr_Build h)),
       (''uptime_seconds'', JNum (FormatInt (hr_UptimeSeconds h))), (''peers_online'', JNum (FormatInt (hr_PeersOnline h))),
       (''sessions_live'', JNum (FormatInt (hr_SessionsLive h))), (''channels_open'', JNum (FormatInt (hr_ChannelsOpen h))),
       (''relay_configured'', JBool (hr_RelayConfigured h))]"

definition jwk_json :: "jwk \<Rightarrow> json" where
  "jwk_json k =
     JObj [(''kty'', JStr (jwk_Kty k)), (''crv'', JStr (jwk_Crv k)), (''x'', JStr (jwk_X k)), (''use'', JStr (jwk_Use k)),
       (''alg'', JStr (jwk_Alg k)), (''kid'', JStr (jwk_Kid k))]"

definition key_set_json :: "jwk list \<Rightarrow> json" where
  "key_set_json keys = JObj [(''keys'', JArr (map jwk_json keys))]"

section \<open>Writing an answer\<close>

definition writeJSON :: "json option \<Rightarrow> byte list" where
  "writeJSON v = (case v of None \<Rightarrow> [] | Some v \<Rightarrow> string_bytes (encode_line v))"

definition body_json :: "(time \<Rightarrow> int) \<Rightarrow> body \<Rightarrow> json option" where
  "body_json zone b =
     (case b of
        NoBody \<Rightarrow> None
      | ErrorBody code \<Rightarrow> Some (error_json code)
      | PeerBody p \<Rightarrow> peer_json zone p
      | SessionBody s \<Rightarrow> session_json zone s
      | IceBody i \<Rightarrow> ice_json zone i
      | TokenBody t \<Rightarrow> token_json zone t)"

text \<open>What a handler of the API writes after its headers; nothing where there is no body.\<close>

definition answer_json :: "(time \<Rightarrow> int) \<Rightarrow> answer \<Rightarrow> json option" where
  "answer_json zone a =
     (case a of
        Answered rs \<Rightarrow> body_json zone (rs_Body rs)
      | HealthAnswer h \<Rightarrow> Some (health_json h)
      | KeysAnswer keys \<Rightarrow> Some (key_set_json keys)
      | _ \<Rightarrow> None)"

definition answer_body :: "(time \<Rightarrow> int) \<Rightarrow> answer \<Rightarrow> byte list" where
  "answer_body zone a = writeJSON (answer_json zone a)"

text \<open>The answers a body is written for.\<close>

definition has_body :: "answer \<Rightarrow> bool" where
  "has_body a =
     (case a of Answered rs \<Rightarrow> rs_Body rs \<noteq> NoBody | HealthAnswer _ \<Rightarrow> True | KeysAnswer _ \<Rightarrow> True | _ \<Rightarrow> False)"

section \<open>What is written is JSON\<close>

named_theorems json_defs \<open>the values of the response types\<close>

declare time_json_def [json_defs] peer_json_def [json_defs] session_json_def [json_defs] server_json_def [json_defs]
  servers_json_def [json_defs] ice_json_def [json_defs] token_json_def [json_defs] error_json_def [json_defs]
  health_json_def [json_defs] jwk_json_def [json_defs] key_set_json_def [json_defs]

lemma ascii_code: "list_all (\<lambda>c. chr_code c < 128) s \<Longrightarrow> valid_utf8 s"
  by (rule ascii_valid) (simp add: list_all_iff)

lemma response_names:
  "list_all valid_utf8 [''peer_id'', ''state'', ''last_seen'', ''heartbeat_interval'', ''session_id'', ''caller'', ''callee'',
     ''path'', ''opened_at'', ''changed_at'', ''urls'', ''username'', ''credential'', ''ice_servers'', ''expires_at'',
     ''relay_available'', ''token'', ''error'', ''status'', ''build'', ''uptime_seconds'', ''peers_online'', ''sessions_live'',
     ''channels_open'', ''relay_configured'', ''kty'', ''crv'', ''x'', ''use'', ''alg'', ''kid'', ''keys'']"
  by (simp only: list.pred_inject) (intro conjI TrueI; rule ascii_code; simp)

lemma omitempty_all: "list_all P (omitempty k x v) \<longleftrightarrow> x = [] \<or> P (k, v)"
  by (auto simp: omitempty_def)

lemma answer_encodable: "answer_json zone a = Some v \<Longrightarrow> encodable v 4"
  using response_names FormatInt_number
  by (auto simp: answer_json_def body_json_def json_defs list_all_iff omitempty_def bind_eq_Some_conv
      split: answer.splits body.splits option.splits if_splits)

lemma answer_reads:
  assumes "answer_json zone a = Some v"
  shows "parse_value maxNestingDepth (bytes_string (answer_body zone a)) = Some (json_valid v, [CHR 0x0A])"
proof -
  have "encodable v maxNestingDepth"
    by (rule encodable_more [OF answer_encodable [OF assms]]) (simp add: maxNestingDepth_def)
  then show ?thesis by (simp add: answer_body_def writeJSON_def assms encode_line_reads)
qed

text \<open>With neither STUN nor a relay configured a caller is not answered a list but null.\<close>

lemma no_servers_is_null:
  assumes "PeerIDFrom r \<noteq> []" and "pv_stun p = []" and "pv_turn p = []"
  shows "answer_json zone (Answered (h_ICEConfig now r p)) =
     Some (JObj [(''ice_servers'', JNull), (''relay_available'', JBool False)])"
  using assms
  by (simp add: answer_json_def body_json_def ice_json_def servers_json_def h_ICEConfig_def provider_For_def writeJSONStatus_def)

section \<open>Every answer with a body is written\<close>

text \<open>Clocks read between the years 1 and 9707, and zones within a day of UTC.\<close>

definition datable :: "time \<Rightarrow> time \<Rightarrow> (time \<Rightarrow> int) \<Rightarrow> bool" where
  "datable lo hi zone \<longleftrightarrow>
     86400 * second \<le> lo \<and> hi + max_duration < (3652059 - 1) * 86400 * second \<and> (\<forall>t. \<bar>zone t\<bar> < 86400)"

lemma time_json_stamped:
  assumes "datable lo hi zone" and "stamp_in lo (hi + max_duration) t"
  shows "time_json zone t \<noteq> None"
proof -
  have "marshal_time (zone t) t \<noteq> None"
    using assms by (intro marshal_time_range) (auto simp: datable_def stamp_in_def)
  then show ?thesis by (simp add: time_json_def)
qed

lemma body_json_stamped:
  assumes "datable lo hi zone" and "body_stamped lo hi b" and "b \<noteq> NoBody"
  shows "body_json zone b \<noteq> None"
proof -
  have near: "stamp_in lo hi t \<Longrightarrow> time_json zone t \<noteq> None" for t
    by (rule time_json_stamped [OF assms(1)]) (simp add: stamp_in_def max_duration_def)
  note far = time_json_stamped [OF assms(1)]
  show ?thesis
    using assms(2,3) near far
    by (cases b) (auto simp: body_json_def peer_json_def session_json_def token_json_def ice_json_def Option.bind_eq_None_conv
      split: option.splits)
qed



end
