(* ===== verification/Bodies.thy ===== *)
theory Bodies
  imports Wire
begin

text \<open>
  The bound on a body and the decoders it stands before. A decoder reads the first value
  of what it is given and nothing after it, the contract \<open>value_decoder\<close>; so a bound either
  leaves the whole of that value or refuses the body.
\<close>

section \<open>A decoder of the first value\<close>

text \<open>Where the first value of a body ends, if it has one.\<close>

definition value_end :: "byte list \<Rightarrow> nat option" where
  "value_end b = map_option (\<lambda>(v, r). length b - length r) (parse_value maxNestingDepth (bytes_string b))"

locale value_decoder =
  fixes decode :: "byte list \<Rightarrow> 'a option"
  assumes cut: "value_end b = Some k \<Longrightarrow> n < k \<Longrightarrow> decode (take n b) = None"
    and enough: "value_end b = Some k \<Longrightarrow> k \<le> n \<Longrightarrow> decode (take n b) = decode b"
    and no_value: "value_end b = None \<Longrightarrow> decode (take n b) = None"
begin

lemma first_only: "decode b = (case value_end b of None \<Rightarrow> None | Some k \<Rightarrow> decode (take k b))"
  using enough [of b _ "length b"] enough [of b] no_value [of b "length b"] by (simp split: option.split)

lemma within:
  "decode_within bound decode b =
     (case value_end b of None \<Rightarrow> None | Some k \<Rightarrow> if k \<le> bound then decode (take k b) else None)"
  using cut [of b] enough [of b] no_value [of b] by (auto simp: decode_within_def split: option.split)

text \<open>What follows the value, up to the bound or past it, does not matter.\<close>

lemma within_first:
  "value_end b = Some k \<Longrightarrow> k \<le> bound \<Longrightarrow> decode_within bound decode (take k b) = decode_within bound decode b"
  using enough [of b k k] enough [of b k bound] by (simp add: decode_within_def min_def)

end

section \<open>Structs\<close>

lemma struct_prefix:
  assumes "parse_value d (take n s) = Some (v, r)" and "(\<exists>ms. v = JObj ms) \<or> v = JNull"
  shows "parse_value d s = Some (v, r @ drop n s)"
proof -
  obtain w where w: "take n s = w @ r" "\<And>t. parse_value d (w @ t) = Some (v, t)"
    using parse_value_local [OF assms(1)] assms(2) unfolding value_local_def by blast
  then have "s = w @ r @ drop n s" by (metis append.assoc append_take_drop_id)
  with w(2) show ?thesis by metis
qed

lemma parse_members_local:
  assumes "parse_members s = Some (ms, r)"
  shows "\<exists>w. s = w @ r \<and> (\<forall>t. parse_members (w @ t) = Some (ms, t))"
proof -
  obtain u where u: "skip_ws s = CHR ''{'' # u" "bracketed (CHR ''}'') (object_members value_parser) u = Some (ms, r)"
    using assms by (auto simp: parse_members_def split: list.splits if_splits)
  obtain ws where ws: "s = ws @ CHR ''{'' # u" "\<And>t. skip_ws (ws @ CHR ''{'' # t) = CHR ''{'' # t" using skip_local [OF u(1)] by blast
  obtain w where w: "u = w @ r" "\<And>t. bracketed (CHR ''}'') (object_members value_parser) (w @ t) = Some (ms, t)"
    using object_bracketed_local [OF parse_value_local_parser u(2)] by blast
  have "parse_members ((ws @ CHR ''{'' # w) @ t) = Some (ms, t)" for t
    using ws(2) [of "w @ t"] w(2) by (simp add: parse_members_def)
  then show ?thesis using ws(1) w(1) by (intro exI [of _ "ws @ CHR ''{'' # w"]) simp
qed

lemma decode_struct_prefix:
  assumes "decode_struct strict fs (take n s) = Some (vals, r)"
  shows "decode_struct strict fs s = Some (vals, r @ drop n s)"
proof -
  obtain v r' where v: "parse_value maxNestingDepth (take n s) = Some (v, r')"
    using assms by (auto simp: decode_struct_def split: option.splits)
  have kind: "(\<exists>ms. v = JObj ms) \<or> v = JNull"
    using assms v by (auto simp: decode_struct_def split: json.splits)
  note whole = struct_prefix [OF v kind]
  show ?thesis
  proof (cases "v = JNull")
    case True
    with assms v whole show ?thesis by (simp add: decode_struct_def)
  next
    case False
    with kind obtain js where js: "v = JObj js" by blast
    then obtain ms where ms: "parse_members (take n s) = Some (ms, r')" using parse_members_rest v by blast
    from parse_members_local [OF this] obtain w where "take n s = w @ r'" "\<And>t. parse_members (w @ t) = Some (ms, t)" by blast
    moreover from this have "s = w @ r' @ drop n s" by (metis append.assoc append_take_drop_id)
    ultimately have "parse_members s = Some (ms, r' @ drop n s)" by metis
    with assms v whole js ms show ?thesis by (auto simp: decode_struct_def)
  qed
qed

lemma decode_struct_kept:
  assumes "parse_value maxNestingDepth s = Some (v, r)" and "length s - length r \<le> n"
    and "decode_struct strict fs s = Some (vals, r0)"
  shows "\<exists>r1. decode_struct strict fs (take n s) = Some (vals, r1)"
proof -
  have kind: "(\<exists>ms. v = JObj ms) \<or> v = JNull"
    using assms(1,3) by (auto simp: decode_struct_def split: json.splits)
  obtain w where w: "s = w @ r" "\<And>t. parse_value maxNestingDepth (w @ t) = Some (v, t)"
    using parse_value_local [OF assms(1)] kind unfolding value_local_def by blast
  then have cut: "take n s = w @ take (n - length w) r" using assms(2) by simp
  show ?thesis
  proof (cases "v = JNull")
    case True
    with assms(1,3) w(2) show ?thesis unfolding cut by (simp add: decode_struct_def)
  next
    case False
    with kind obtain js where js: "v = JObj js" by blast
    then obtain ms where ms: "parse_members s = Some (ms, r)" using parse_members_rest assms(1) by blast
    from parse_members_local [OF this] w(1) have "parse_members (w @ t) = Some (ms, t)" for t by auto
    with assms(1,3) w(2) js ms show ?thesis unfolding cut by (auto simp: decode_struct_def)
  qed
qed

lemma value_end_eq:
  "value_end b = Some k \<longleftrightarrow>
     (\<exists>v r. parse_value maxNestingDepth (bytes_string b) = Some (v, r) \<and> k = length (bytes_string b) - length r)"
  "value_end b = None \<longleftrightarrow> parse_value maxNestingDepth (bytes_string b) = None"
  by (auto simp: value_end_def bytes_string_def)

text \<open>Every decoder of a struct keeps the contract, whatever it makes of the fields.\<close>

lemma struct_decoder: "value_decoder (\<lambda>b. map_option (\<lambda>(vals, _). f vals) (decode_struct strict fs (bytes_string b)))"
proof unfold_locales
  fix b k n
  let ?s = "bytes_string b"
  let ?decode = "\<lambda>b. map_option (\<lambda>(vals, _). f vals) (decode_struct strict fs (bytes_string b))"
  {
    assume "value_end b = Some k" "n < k"
    then show "?decode (take n b) = None" using decode_struct_cut by (auto simp: value_end_eq bytes_string_take)
  next
    assume "value_end b = Some k" "k \<le> n"
    then obtain v r where v: "parse_value maxNestingDepth ?s = Some (v, r)" "length ?s - length r \<le> n" by (auto simp: value_end_eq)
    show "?decode (take n b) = ?decode b"
    proof (cases "decode_struct strict fs ?s")
      case None
      then have "decode_struct strict fs (take n ?s) = None"
        using decode_struct_prefix [of strict fs n ?s] by (cases "decode_struct strict fs (take n ?s)") auto
      with None show ?thesis by (simp add: bytes_string_take)
    next
      case (Some x)
      then obtain vals r0 where x: "decode_struct strict fs ?s = Some (vals, r0)" by (cases x) simp
      with decode_struct_kept [OF v x] show ?thesis by (auto simp: bytes_string_take)
    qed
  next
    assume none: "value_end b = None"
    then have "decode_struct strict fs ?s = None" by (simp add: value_end_eq decode_struct_def)
    then have "decode_struct strict fs (take n ?s) = None"
      using decode_struct_prefix [of strict fs n ?s] by (cases "decode_struct strict fs (take n ?s)") auto
    then show "?decode (take n b) = None" by (simp add: bytes_string_take)
  }
qed

text \<open>So does a decoder of values that takes objects and null alone.\<close>

lemma object_decoder:
  assumes "\<And>v. f v \<noteq> None \<Longrightarrow> (\<exists>ms. v = JObj ms) \<or> v = JNull"
  shows "value_decoder (\<lambda>b. case parse_value maxNestingDepth (bytes_string b) of None \<Rightarrow> None | Some (v, _) \<Rightarrow> f v)"
proof unfold_locales
  fix b k n
  let ?s = "bytes_string b"
  let ?decode = "\<lambda>b. case parse_value maxNestingDepth (bytes_string b) of None \<Rightarrow> None | Some (v, _) \<Rightarrow> f v"
  have prefix: "\<exists>v r. parse_value maxNestingDepth ?s = Some (v, r @ drop n ?s) \<and> f v = Some x" if "?decode (take n b) = Some x" for x
    using that struct_prefix [of maxNestingDepth n ?s] assms by (fastforce simp: bytes_string_take split: option.splits)
  show "?decode (take n b) = None" if "value_end b = Some k" "n < k"
  proof (rule ccontr)
    assume "?decode (take n b) \<noteq> None"
    then obtain v r where "parse_value maxNestingDepth ?s = Some (v, r @ drop n ?s)" using prefix by blast
    with that show False by (auto simp: value_end_eq)
  qed
  show "?decode (take n b) = ?decode b" if kept: "value_end b = Some k" "k \<le> n"
  proof (cases "?decode b")
    case None
    with prefix show ?thesis by (cases "?decode (take n b)") (fastforce split: option.splits)+
  next
    case (Some x)
    then obtain v r where v: "parse_value maxNestingDepth ?s = Some (v, r)" "f v = Some x" by (auto split: option.splits)
    with assms have "(\<exists>ms. v = JObj ms) \<or> v = JNull" by blast
    then obtain w where w: "?s = w @ r" "\<And>t. parse_value maxNestingDepth (w @ t) = Some (v, t)"
      using parse_value_local [OF v(1)] unfolding value_local_def by blast
    have "length ?s - length r \<le> n" using kept v(1) by (auto simp: value_end_eq)
    then have "take n ?s = w @ take (n - length w) r" by (simp add: w(1))
    with v(2) w(2) Some show ?thesis by (simp add: bytes_string_take)
  qed
  show "?decode (take n b) = None" if "value_end b = None"
    using prefix that by (cases "?decode (take n b)") (fastforce simp: value_end_eq)+
qed

interpretation credential_reader: value_decoder decode_credential
  unfolding decode_credential_def [abs_def] by (rule struct_decoder)

interpretation open_reader: value_decoder decode_open
  unfolding decode_open_def [abs_def] by (rule struct_decoder)

interpretation report_reader: value_decoder decode_report
  unfolding decode_report_def [abs_def] by (rule struct_decoder)

section \<open>The routes that read a body\<close>

definition reads_body :: "endpoint \<Rightarrow> bool" where
  "reads_body e \<longleftrightarrow> e = AuthRoute \<or> e = SessionsRoute \<or> (\<exists>sid. e = StateRoute sid)"

lemma bearer_named: "bearer_caller dp now q = Some p \<Longrightarrow> p \<noteq> []"
  by (auto simp: bearer_caller_def verifier_Verify_def split: option.splits sum.splits if_splits)

text \<open>A route whose body cannot be decoded.\<close>

lemma undecoded_refused:
  assumes "reads_body e" and "decode_within maxCredentialBody decode_credential (hq_Body q) = None"
    and "decode_within maxSessionBody decode_open (hq_Body q) = None" and "decode_within maxSessionBody decode_report (hq_Body q) = None"
    and "serve_endpoint build cfg started dp wire_decoders rd q e c = Some (c', a)"
  shows "c' = c \<and> (\<exists>rs. a = Answered rs \<and>
     rs_Status rs = (if e \<noteq> AuthRoute \<and> bearer_caller dp (rd_verified rd) q = None then 401 else 400))"
proof (cases "e = AuthRoute")
  case True
  with assms show ?thesis
    by (auto simp: serve_endpoint_def wire_decoders_def serve_Auth_def h_Auth_steps credential_of_def request_of_def answered_tokens_def
        writeError_def)
next
  case False
  then have e: "e = SessionsRoute \<or> (\<exists>sid. e = StateRoute sid)" using assms(1) by (simp add: reads_body_def)
  show ?thesis
  proof (cases "bearer_caller dp (rd_verified rd) q")
    case None
    with e assms(5) False show ?thesis
      by (auto simp: serve_endpoint_def wire_decoders_def serve_OpenSession_def serve_ReportSession_def
          dest!: answered_refused [OF None])
  next
    case (Some p)
    with e assms(3-5) bearer_named [OF Some] show ?thesis
      by (auto simp: serve_endpoint_def wire_decoders_def serve_OpenSession_def serve_ReportSession_def guard_accepts [OF Some]
          h_OpenSession_def h_ReportSession_def PeerIDFrom_def answered_def writeError_def)
  qed
qed

text \<open>
  C10: The bound on a body. On the three routes that read one, what counts is the first JSON
  value of the body: when it ends within 4096 bytes the request is answered, and changes
  the process, exactly as if nothing followed that value; when it does not, or the body
  has no value, the request is refused with a 400 and changes nothing, or with a 401 where
  it carries no token that verifies and the route wants one. A body cut by the bound is never
  taken for a shorter one.
\<close>

theorem bodies_bounded:
  assumes "routes (cf_ServeDemo cfg) (hq_Method q) (hq_Path q) = Some e" and "reads_body e"
    and "dispatch build cfg started dp wire_decoders rd q c = Some (c', a)"
  shows "case value_end (hq_Body q) of
       Some k \<Rightarrow>
         if k \<le> 4096 then dispatch build cfg started dp wire_decoders rd (q\<lparr>hq_Body := take k (hq_Body q)\<rparr>) c = Some (c', a)
         else c' = c \<and> (\<exists>rs. a = Answered rs \<and>
           rs_Status rs = (if e \<noteq> AuthRoute \<and> bearer_caller dp (rd_verified rd) q = None then 401 else 400))
     | None \<Rightarrow> c' = c \<and> (\<exists>rs. a = Answered rs \<and>
         rs_Status rs = (if e \<noteq> AuthRoute \<and> bearer_caller dp (rd_verified rd) q = None then 401 else 400))"
proof -
  have run: "serve_endpoint build cfg started dp wire_decoders rd q e c = Some (c', a)"
    using assms(1,3) by (simp add: dispatch_def)
  note within = credential_reader.within [of maxCredentialBody "hq_Body q"] open_reader.within [of maxSessionBody "hq_Body q"]
    report_reader.within [of maxSessionBody "hq_Body q"]
  show ?thesis
  proof (cases "\<exists>k. value_end (hq_Body q) = Some k \<and> k \<le> 4096")
    case True
    then obtain k where k: "value_end (hq_Body q) = Some k" "k \<le> maxCredentialBody" "k \<le> maxSessionBody"
      by (auto simp: maxCredentialBody_def maxSessionBody_def)
    have "request_of b i (q\<lparr>hq_Body := x\<rparr>) = request_of b i q" for b :: "'b option" and i x by (simp add: request_of_def)
    with k assms(2) run have "serve_endpoint build cfg started dp wire_decoders rd (q\<lparr>hq_Body := take k (hq_Body q)\<rparr>) e c = Some (c', a)"
      by (auto simp: reads_body_def serve_endpoint_def wire_decoders_def credential_reader.within_first open_reader.within_first
          report_reader.within_first request_of_def)
    with assms(1) k show ?thesis by (simp add: dispatch_def maxCredentialBody_def)
  next
    case False
    then have "value_end (hq_Body q) = None \<or> (\<exists>k. value_end (hq_Body q) = Some k \<and> 4096 < k)"
      by (cases "value_end (hq_Body q)") auto
    with undecoded_refused [OF assms(2) _ _ _ run] within show ?thesis
      by (auto simp: maxCredentialBody_def maxSessionBody_def)
  qed
qed

text \<open>The body of the sample login behind 4096 spaces.\<close>

definition sample_padded :: http_request where
  "sample_padded = sample_login\<lparr>hq_Body := replicate 4096 32 @ hq_Body sample_login\<rparr>"

lemma sample_padded_end: "\<exists>k. value_end (hq_Body sample_padded) = Some k \<and> 4096 < k"
proof -
  let ?body = "hq_Body sample_login"
  have "char_of (32 :: nat) = CHR '' ''" by code_simp
  then have "bytes_string (replicate 4096 32) = replicate 4096 (CHR '' '')" by (simp add: bytes_string_def)
  moreover have "\<forall>c \<in> set (replicate 4096 (CHR '' '')). is_ws c" by (simp add: is_ws_def)
  ultimately have "parse_value maxNestingDepth (bytes_string (hq_Body sample_padded)) = parse_value maxNestingDepth (bytes_string ?body)"
    using parse_value_skip [of "replicate 4096 (CHR '' '')" maxNestingDepth "bytes_string ?body"]
    by (simp add: sample_padded_def)
  also have "\<dots> = Some (JObj [(''client_id'', JStr (to_valid ''c'')), (''client_secret'', JStr (to_valid (replicate 32 (CHR ''k''))))], [])"
    by (simp only: sample_login_def http_request.simps credential_struct)
  finally have "value_end (hq_Body sample_padded) = Some (length (hq_Body sample_padded))" by (simp add: value_end_def)
  moreover have "?body \<noteq> []" by (simp add: sample_login_def credential_body_def encode_object_def)
  ultimately show ?thesis by (simp add: sample_padded_def)
qed

theorem bodies_bounded_witness:
  "\<exists>s rs. NewClientStore sample_clients = Inr s \<and>
     dispatch [] sample_cfg 0 (sample_deployment s) wire_decoders sample_login_readings sample_padded sample_central =
       Some (sample_central, Answered rs) \<and> rs_Status rs = 400"
proof -
  obtain s where s: "NewClientStore sample_clients = Inr s" using sample_clients_accepted by blast
  obtain k where k: "value_end (hq_Body sample_padded) = Some k" "4096 < k" using sample_padded_end by blast
  have route: "routes d (hq_Method sample_padded) (hq_Path sample_padded) = Some AuthRoute" for d
    by (simp add: sample_padded_def sample_login_def routes_def is_get_def)
  have "decode_within maxCredentialBody decode_credential (hq_Body sample_padded) = None"
    using credential_reader.within [of maxCredentialBody "hq_Body sample_padded"] k by (simp add: maxCredentialBody_def)
  then obtain c' a where run: "dispatch [] sample_cfg 0 (sample_deployment s) wire_decoders sample_login_readings sample_padded
      sample_central = Some (c', a)"
    by (simp add: dispatch_def route serve_endpoint_def wire_decoders_def serve_Auth_def h_Auth_steps credential_of_def request_of_def)
  from bodies_bounded [OF route _ run] k have "c' = sample_central" "\<exists>rs. a = Answered rs \<and> rs_Status rs = 400"
    by (auto simp: reads_body_def)
  with s run show ?thesis by auto
qed

end
