(* ===== verification/Login_Wire.thy ===== *)
theory Login_Wire
  imports Answers Authclient Bodies
begin

text \<open>
  The two answers internal/authclient reads, as bytes: the key set and the token, each
  within the bound the client puts on a body. Last, a login from the bytes of one side to
  the bytes of the other.
\<close>

section \<open>What the client decodes\<close>

definition maxKeySetBody :: nat where "maxKeySetBody = 64 * 1024"

text \<open>\<open>lenient\<close> is what time.Parse makes of a time that is not strictly RFC 3339.\<close>

definition token_fields :: "(string \<Rightarrow> time option) \<Rightarrow> field list" where
  "token_fields lenient =
     [(''token'', StringField), (''peer_id'', StringField),
      (''expires_at'', TextField (\<lambda>w. unmarshal_time lenient w \<noteq> None))]"

definition decode_token :: "(string \<Rightarrow> time option) \<Rightarrow> byte list \<Rightarrow> client_token option" where
  "decode_token lenient b =
     map_option (\<lambda>(vals, _).
       \<lparr>ct_Value = field_value vals ''token'', ct_PeerID = field_value vals ''peer_id'',
        ct_ExpiresAt =
          (case map_of vals ''expires_at'' of None \<Rightarrow> 0 | Some w \<Rightarrow> (case unmarshal_time lenient w of None \<Rightarrow> 0 | Some t \<Rightarrow> t))\<rparr>)
       (decode_struct False (token_fields lenient) (bytes_string b))"

text \<open>
  An array is decoded into the slice its field holds: the elements of the array behind it
  are written over, those past the new length left where they are. Null empties the slice,
  and so does an empty array. The state is the elements of the array and the length.
\<close>

definition key_fields :: "field list" where
  "key_fields = [(''kty'', StringField), (''crv'', StringField), (''x'', StringField)]"

definition decode_key :: "(string \<times> string) list \<Rightarrow> json \<Rightarrow> (string \<times> string) list option" where
  "decode_key held v =
     (case v of
        JObj ms \<Rightarrow> decode_members False key_fields (map (\<lambda>(k, x). (k, [], x)) ms) held
      | JNull \<Rightarrow> Some held
      | _ \<Rightarrow> None)"

fun decode_keys :: "(string \<times> string) list list \<Rightarrow> json list \<Rightarrow> (string \<times> string) list list option" where
  "decode_keys slots [] = Some []"
| "decode_keys slots (v # vs) = do {
     k \<leftarrow> decode_key (case slots of [] \<Rightarrow> [] | held # _ \<Rightarrow> held) v;
     ks \<leftarrow> decode_keys (tl slots) vs;
     Some (k # ks)
   }"

fun decode_set_members ::
  "(string \<times> json) list \<Rightarrow> (string \<times> string) list list \<times> nat \<Rightarrow> ((string \<times> string) list list \<times> nat) option"
where
  "decode_set_members [] held = Some held"
| "decode_set_members ((k, v) # ms) held =
     (if field_of [(''keys'', RawField)] k = None then decode_set_members ms held
      else case v of
        JNull \<Rightarrow> decode_set_members ms ([], 0)
      | JArr [] \<Rightarrow> decode_set_members ms ([], 0)
      | JArr vs \<Rightarrow> do {
          ks \<leftarrow> decode_keys (fst held) vs;
          decode_set_members ms (ks @ drop (length vs) (fst held), length vs)
        }
      | _ \<Rightarrow> None)"

definition key_of :: "(string \<times> string) list \<Rightarrow> key_entry" where
  "key_of vals = \<lparr>ke_Kty = field_value vals ''kty'', ke_Crv = field_value vals ''crv'', ke_X = field_value vals ''x''\<rparr>"

definition decode_key_set :: "byte list \<Rightarrow> key_entry list option" where
  "decode_key_set b =
     (case parse_value maxNestingDepth (bytes_string b) of
        None \<Rightarrow> None
      | Some (v, _) \<Rightarrow>
          (case v of
             JNull \<Rightarrow> Some []
           | JObj ms \<Rightarrow> map_option (\<lambda>(slots, n). map key_of (take n slots)) (decode_set_members ms ([], 0))
           | _ \<Rightarrow> None))"

text \<open>The exchanges the client makes of a status and the bytes of a body.\<close>

definition keys_reply :: "int \<Rightarrow> byte list \<Rightarrow> key_entry list exchange" where
  "keys_reply status b = Replied status (decode_within maxKeySetBody decode_key_set b)"

definition token_reply :: "(string \<Rightarrow> time option) \<Rightarrow> int \<Rightarrow> byte list \<Rightarrow> client_token exchange" where
  "token_reply lenient status b = Replied status (decode_within maxKeySetBody (decode_token lenient) b)"

text \<open>Both keep the contract of a decoder of the first value.\<close>

interpretation token_reader: value_decoder "decode_token lenient" for lenient
  unfolding decode_token_def [abs_def] by (rule struct_decoder)

interpretation keys_reader: value_decoder decode_key_set
  unfolding decode_key_set_def [abs_def] by (rule object_decoder) (simp split: json.splits)

section \<open>The text of the two answers\<close>

lemma plain_valid: "list_all plain_in_text s \<Longrightarrow> valid_utf8 s"
  by (rule ascii_valid) (auto simp: plain_in_text_def list_all_iff)

lemma plain_to_valid: "list_all plain_in_text s \<Longrightarrow> to_valid s = s"
  using plain_valid by (simp add: valid_utf8_def)

lemma plain_quote: "list_all plain_in_text s \<Longrightarrow> json_quote s = quote_mark # s @ [quote_mark]"
  by (simp add: json_quote_def json_escape_plain)

lemma url_alphabet_plain: "list_all plain_in_text b64_url"
  by (simp add: b64_url_def plain_in_text_def)

lemma RawURL_plain: "list_all plain_in_text (RawURLEncoding_EncodeToString bs)"
  using url_alphabet_plain b64_groups_bound b64_url_distinct(2)
  by (fastforce simp: RawURLEncoding_EncodeToString_def list_all_iff)

lemma RawURL_length: "length (RawURLEncoding_EncodeToString bs) \<le> 2 * length bs"
proof -
  have "length (b64_groups bs) \<le> 2 * length bs" by (induction bs rule: b64_groups.induct) simp_all
  then show ?thesis by (simp add: RawURLEncoding_EncodeToString_def)
qed

lemma Sum256_length: "length (Sum256 bs) \<le> 32"
proof -
  have "length (foldl sha256_block hs blocks) \<le> length hs" for hs blocks
  proof (induction blocks arbitrary: hs)
    case (Cons b blocks)
    have "length (sha256_block hs b) \<le> length hs" by (simp add: sha256_block_def)
    with Cons [of "sha256_block hs b"] show ?case by simp
  qed simp
  from this [of sha256_H "sha_blocks bs"] have "length (foldl sha256_block sha256_H (sha_blocks bs)) \<le> 8"
    by (simp add: sha256_H_def)
  moreover have "length (concat (map word_bytes ws)) = 4 * length ws" for ws
    by (induction ws) (simp_all add: word_bytes_def)
  ultimately show ?thesis by (simp add: Sum256_def)
qed

lemma digit_plain: "is_digit c \<Longrightarrow> plain_in_text c"
  by (auto simp: is_digit_def plain_in_text_def less_eq_char_def)

lemma digits_plain: "list_all is_digit s \<Longrightarrow> list_all plain_in_text s"
  using digit_plain by (auto simp: list_all_iff)

lemma padded_plain: "list_all plain_in_text (padded w n)"
  by (rule digits_plain [OF padded_digits])

lemma marks_plain: "plain_in_text (CHR ''-'')" "plain_in_text (CHR ''+'')" "plain_in_text (CHR '':'')" "plain_in_text (CHR ''T'')"
  "plain_in_text (CHR ''Z'')" "plain_in_text (CHR ''.'')"
  by (simp_all add: plain_in_text_def)

lemma marshal_time_plain:
  assumes "marshal_time off t = Some s"
  shows "list_all plain_in_text s"
proof -
  have "list_all plain_in_text (fraction w n)" for w n
    using digits_plain [OF trim_zeros_digits [OF padded_digits]] marks_plain by (simp add: fraction_def Let_def)
  moreover have "s = format_RFC3339 off t" using assms by (auto simp: marshal_time_def Let_def split: if_splits)
  ultimately show ?thesis
    by (simp add: format_RFC3339_def format_date_def format_clock_def format_zone_def marks_plain padded_plain Let_def
        split: prod.split)
qed

section \<open>What is answered is read\<close>

lemma jwk_words_quoted:
  "json_quote ''kty'' = quote_mark # ''kty'' @ [quote_mark]" "json_quote ''crv'' = quote_mark # ''crv'' @ [quote_mark]"
  "json_quote ''x'' = quote_mark # ''x'' @ [quote_mark]" "json_quote ''use'' = quote_mark # ''use'' @ [quote_mark]"
  "json_quote ''alg'' = quote_mark # ''alg'' @ [quote_mark]" "json_quote ''kid'' = quote_mark # ''kid'' @ [quote_mark]"
  "json_quote ''keys'' = quote_mark # ''keys'' @ [quote_mark]" "json_quote ''OKP'' = quote_mark # ''OKP'' @ [quote_mark]"
  "json_quote ''Ed25519'' = quote_mark # ''Ed25519'' @ [quote_mark]" "json_quote ''sig'' = quote_mark # ''sig'' @ [quote_mark]"
  "json_quote ''EdDSA'' = quote_mark # ''EdDSA'' @ [quote_mark]"
  by (rule plain_quote; simp add: plain_in_text_def)+

lemma jwk_words_valid: "to_valid ''OKP'' = ''OKP''" "to_valid ''Ed25519'' = ''Ed25519''"
  by (rule plain_to_valid; simp add: plain_in_text_def)+

lemma key_set_length:
  assumes "length public = 32"
  shows "length (encode_line (key_set_json (JWKS public))) \<le> 65536"
proof -
  have "length (json_quote (RawURLEncoding_EncodeToString bs)) \<le> 2 * length bs + 2" for bs
    using RawURL_length [of bs] plain_quote [OF RawURL_plain, of bs] by simp
  from this [of public] this [of "Sum256 public"]
  have "length (json_quote (RawURLEncoding_EncodeToString public)) \<le> 66"
      "length (json_quote (RawURLEncoding_EncodeToString (Sum256 public))) \<le> 66"
    using Sum256_length [of public] assms by simp_all
  then show ?thesis
    by (simp add: encode_line_def key_set_json_def jwk_json_def JWKS_def KeyID_def encode_object_def encode_array_def
        SigningMethod_Alg_def jwk_words_quoted)
qed

text \<open>The client has no field for what else a key says.\<close>

lemma key_fields_found:
  "field_of key_fields ''kty'' = Some (''kty'', StringField)" "field_of key_fields ''crv'' = Some (''crv'', StringField)"
  "field_of key_fields ''x'' = Some (''x'', StringField)" "field_of key_fields ''use'' = None" "field_of key_fields ''alg'' = None"
  "field_of key_fields ''kid'' = None" "field_of [(''keys'', RawField)] ''keys'' = Some (''keys'', RawField)"
  by (simp_all add: field_of_def key_fields_def ascii_upper_def byte_in_def)

lemma key_set_read:
  assumes "length public = 32"
  shows "keys_reply 200 (answer_body zone (KeysAnswer (JWKS public))) = Replied 200 (Some (map read_key (JWKS public)))"
proof -
  let ?v = "key_set_json (JWKS public)"
  have v: "answer_json zone (KeysAnswer (JWKS public)) = Some ?v" by (simp add: answer_json_def)
  have "length (answer_body zone (KeysAnswer (JWKS public))) \<le> maxKeySetBody"
    using key_set_length [OF assms] by (simp add: answer_body_def writeJSON_def v string_bytes_def maxKeySetBody_def)
  then have "decode_within maxKeySetBody decode_key_set (answer_body zone (KeysAnswer (JWKS public))) =
      map_option (\<lambda>(slots, n). map key_of (take n slots)) (decode_set_members [(''keys'', JArr (map (json_valid \<circ> jwk_json) (JWKS public)))] ([], 0))"
    using answer_reads [OF v] by (simp add: decode_within_def decode_key_set_def key_set_json_def)
  also have "\<dots> = Some (map read_key (JWKS public))"
    by (simp add: JWKS_def jwk_json_def decode_key_def decode_member_def key_of_def read_key_def
        field_value_def key_fields_found jwk_words_valid plain_to_valid [OF RawURL_plain]
        del: to_valid.simps)
  finally show ?thesis by (simp add: keys_reply_def)
qed

lemma token_read:
  assumes "valid_utf8 (tr_Token tr)" and "valid_utf8 (tr_PeerID tr)" and "\<And>t. 60 dvd zone t"
    and "rs = writeJSONStatus 200 (TokenBody tr)"
  shows "token_reply lenient 200 (answer_body zone (Answered rs)) = Replied 200
     (if time_json zone (tr_ExpiresAt tr) = None \<or> 65537 < length (answer_body zone (Answered rs)) then None
      else Some \<lparr>ct_Value = tr_Token tr, ct_PeerID = tr_PeerID tr, ct_ExpiresAt = tr_ExpiresAt tr\<rparr>)"
proof (cases "marshal_time (zone (tr_ExpiresAt tr)) (tr_ExpiresAt tr)")
  case None
  then have "answer_body zone (Answered rs) = []"
    by (simp add: assms(4) answer_body_def answer_json_def body_json_def token_json_def time_json_def writeJSON_def)
  with None show ?thesis
    by (simp add: token_reply_def decode_within_def decode_token_def decode_struct_def time_json_def parse_value_blank)
next
  case (Some s)
  let ?ms = "[(''token'', JStr (tr_Token tr)), (''peer_id'', JStr (tr_PeerID tr)), (''expires_at'', JStr s)]"
  let ?w = "json_text (JObj ?ms)"
  have v: "answer_json zone (Answered rs) = Some (JObj ?ms)"
    using Some by (simp add: assms(4) answer_json_def body_json_def token_json_def time_json_def)
  have body: "bytes_string (answer_body zone (Answered rs)) = ?w @ [CHR 0x0A]"
    by (simp only: answer_body_def v writeJSON_def option.case bytes_string_bytes encode_line_def)
  note plain = marshal_time_plain [OF Some]
  have time: "unmarshal_time lenient (json_quote s) = Some (tr_ExpiresAt tr)"
    using parse_format_RFC3339 [OF Some assms(3)] by (simp add: plain_quote [OF plain] unmarshal_time_def)
  have valid: "to_valid (tr_Token tr) = tr_Token tr" "to_valid (tr_PeerID tr) = tr_PeerID tr"
    using assms(1,2) by (simp_all add: valid_utf8_def)
  have len: "length (answer_body zone (Answered rs)) = Suc (length ?w)"
    using arg_cong [OF body, of length] by (simp add: bytes_string_def)
  have "value_end (answer_body zone (Answered rs)) = Some (length ?w)"
    using answer_reads [OF v] by (simp add: value_end_def len)
  note within = token_reader.within [of maxKeySetBody lenient "answer_body zone (Answered rs)", unfolded this option.case]
  have "list_all member_reads (written ?ms)"
    using response_names by (simp add: written_def member_reads_at_def json_quote_reads del: to_valid.simps)
  note decoded = decode_encoded [OF this, of False "token_fields lenient" "[]", unfolded written_members(1)]
  have "decode_members False (token_fields lenient) (written ?ms) [] =
      Some [(''expires_at'', json_quote s), (''peer_id'', tr_PeerID tr), (''token'', tr_Token tr)]"
    by (simp add: written_def decode_member_def token_fields_def field_of_def valid time del: to_valid.simps)
  with decoded have "decode_struct False (token_fields lenient) ?w =
      Some ([(''expires_at'', json_quote s), (''peer_id'', tr_PeerID tr), (''token'', tr_Token tr)], [])" by simp
  then have "decode_token lenient (take (length ?w) (answer_body zone (Answered rs))) =
      Some \<lparr>ct_Value = tr_Token tr, ct_PeerID = tr_PeerID tr, ct_ExpiresAt = tr_ExpiresAt tr\<rparr>"
    using time by (simp add: decode_token_def bytes_string_take body field_value_def del: json_text.simps)
  then show ?thesis
    using Some within len by (simp add: token_reply_def maxKeySetBody_def time_json_def del: json_text.simps)
qed

section \<open>A login, byte by byte\<close>

text \<open>A library whose signed tokens are text; a token of JWT's is in base64 and dots.\<close>

definition signs_text :: "jwt \<Rightarrow> bool" where
  "signs_text lib \<longleftrightarrow> (\<forall>k c s. SignedString lib k c = Some s \<longrightarrow> s \<noteq> [] \<and> valid_utf8 s)"

lemma configured_peer_valid:
  assumes "NewClientStore configs = Inr s" and "cfg \<in> set configs"
  shows "valid_utf8 (TrimSpace (cc_PeerID cfg))"
proof (rule plain_valid)
  have "list_all peerIDAllowed (TrimSpace (cc_PeerID cfg))"
    using assms NewClientStore_accepted [of configs] by (auto simp: validPeerID_def)
  moreover have "peerIDAllowed ch \<Longrightarrow> plain_in_text ch" for ch
    by (auto simp: peerIDAllowed_def plain_in_text_def less_eq_char_def)
  ultimately show "list_all plain_in_text (TrimSpace (cc_PeerID cfg))" by (auto simp: list_all_iff)
qed

lemma issuer_key_length: "NewTokenIssuer key iss ttl = Inr i \<Longrightarrow> length (issuer_PublicKey i) = 32"
  by (auto simp: NewTokenIssuer_def issuer_PublicKey_def key_Public_def PrivateKeySize_def split: if_splits)

lemma jwks_answer:
  assumes "hq_Method qk = GET" and "hq_Path qk = [''.well-known'', ''jwks.json'']"
  shows "dispatch build cfg started dp dc rdk qk ck = Some (ck, KeysAnswer (JWKS (issuer_PublicKey (dp_issuer dp))))"
  using assms by (simp add: dispatch_def routes_def is_get_def serve_endpoint_def)

text \<open>What POST /auth answers to what the client of a configured credential posts.\<close>

lemma auth_answer:
  assumes "deployed configs key iss ttl dp" and "cfg \<in> set configs" and "client_utf8 cfg"
    and "limiter_Allowed (rd_now rd) (TrimSpace (cc_ID cfg)) (ce_limiter c)"
    and "hq_Method q = POST" and "hq_Path q = [''auth'']" and "hq_Body q = credential_body (cc_ID cfg) (cc_Secret cfg)"
    and "dispatch build conf started dp wire_decoders rd q c = Some (c', Answered rs)"
  shows "if length (TrimSpace (cc_ID cfg)) \<le> 128 \<and> length (hq_Body q) \<le> 4096
     then rs = writeError 500 codeInvalidRequest \<or>
       (\<exists>t k cl. issuer_Issue (dp_lib dp) (rd_rand rd) (rd_after rd) (TrimSpace (cc_PeerID cfg)) (dp_issuer dp) = Inr t \<and>
          SignedString (dp_lib dp) k cl = Some (tok_Value t) \<and> TrimSpace (cc_PeerID cfg) \<noteq> [] \<and> tok_Value t \<in> set (ce_tokens c') \<and>
          rs = writeJSONStatus 200 (TokenBody
            \<lparr>tr_Token = tok_Value t, tr_PeerID = tok_PeerID t, tr_ExpiresAt = tok_ExpiresAt t\<rparr>))
     else rs = writeError 400 codeInvalidRequest"
proof -
  let ?r = "request_of (decode_within maxCredentialBody decode_credential (hq_Body q)) [] q"
  have store: "NewClientStore configs = Inr (dp_clients dp)" using assms(1) by (simp add: deployed_def)
  note cred = configured_credential [OF store assms(2,3), of "[]" q, folded assms(7)]
  have "routes d (hq_Method q) (hq_Path q) = Some AuthRoute" for d
    by (simp add: assms(5,6) routes_def is_get_def)
  then obtain l' where auth: "h_Auth (dp_lib dp) (rd_ord rd) (rd_rand rd) (rd_now rd) (rd_after rd) (dp_clients dp) (dp_issuer dp) ?r
        (ce_limiter c) = Some (l', rs)" and c': "c' = c\<lparr>ce_limiter := l', ce_tokens := ce_tokens c @ answered_tokens rs\<rparr>"
    using assms(8) by (auto simp: dispatch_def serve_endpoint_def wire_decoders_def serve_Auth_def)
  show ?thesis
  proof (cases "length (TrimSpace (cc_ID cfg)) \<le> 128 \<and> length (hq_Body q) \<le> 4096")
    case True
    with cred have "credential_of ?r = Some (TrimSpace (cc_ID cfg), cc_Secret cfg)" by simp
    from Auth_answers_client [OF store assms(2) this assms(4) auth] True show ?thesis
      by (fastforce simp: c' answered_tokens_def writeJSONStatus_def)
  next
    case False
    then have "credential_of ?r = None" using cred by auto
    with auth False show ?thesis by (auto simp: h_Auth_steps)
  qed
qed

text \<open>The answer to a token issued, as the client reads it.\<close>

lemma issued_token_read:
  assumes "jwt_documented lib" and "NewTokenIssuer key iss ttl = Inr issuer" and "signs_text lib" and "\<And>t. 60 dvd zone t"
    and "issuer_Issue lib rand issued p issuer = Inr t" and "SignedString lib k who = Some (tok_Value t)" and "valid_utf8 (TrimSpace p)"
    and "rs = writeJSONStatus 200 (TokenBody \<lparr>tr_Token = tok_Value t, tr_PeerID = tok_PeerID t, tr_ExpiresAt = tok_ExpiresAt t\<rparr>)"
  shows "token_reply lenient (rs_Status rs) (answer_body zone (Answered rs)) = Replied 200
     (if time_json zone (issued + ttl) = None \<or> 65537 < length (answer_body zone (Answered rs)) then None
      else Some \<lparr>ct_Value = tok_Value t, ct_PeerID = TrimSpace p, ct_ExpiresAt = issued + ttl\<rparr>)"
    and "tok_Value t \<noteq> []"
proof -
  note ver = Issue_Verify_parts [OF assms(1,2,5)]
  show "tok_Value t \<noteq> []" using assms(3,6) by (auto simp: signs_text_def)
  have "valid_utf8 (tok_Value t)" "valid_utf8 (tok_PeerID t)" using assms(3,6,7) ver by (auto simp: signs_text_def)
  then show "token_reply lenient (rs_Status rs) (answer_body zone (Answered rs)) = Replied 200
     (if time_json zone (issued + ttl) = None \<or> 65537 < length (answer_body zone (Answered rs)) then None
      else Some \<lparr>ct_Value = tok_Value t, ct_PeerID = TrimSpace p, ct_ExpiresAt = issued + ttl\<rparr>)"
    using token_read [OF _ _ assms(4,8), of lenient] ver by (simp add: assms(8) writeJSONStatus_def)
qed

text \<open>
  C8: A login from bytes to bytes. A client configured with this server's public key reads
  the key set the server writes, posts a configured client's credential, and reads the
  token of the answer: the server's own token for that client's peer, with the expiry the
  server set to the nanosecond, whatever the zone the server writes it in, and one its
  verifier accepts until the second of that expiry begins. The refusals are a 400 when the identifier
  or the body is longer than the endpoint takes, a 500 when there is no randomness or no
  signature, and an answer it cannot read only when that is over the client's bound of 64
  KiB or the expiry cannot be written. Configured with any other key the client reads the
  key set and sends nothing more.
\<close>

theorem login_over_the_wire:
  assumes "deployed configs key iss ttl dp" and "signs_text (dp_lib dp)" and "cfg \<in> set configs" and "client_utf8 cfg"
    and "limiter_Allowed (rd_now rd) (TrimSpace (cc_ID cfg)) (ce_limiter c)" and "\<And>t. 60 dvd zone t"
    and "hq_Method qk = GET" and "hq_Path qk = [''.well-known'', ''jwks.json'']"
    and "dispatch build conf started dp wire_decoders rdk qk ck = Some (ck', KeysAnswer keys)"
    and "hq_Method q = POST" and "hq_Path q = [''auth'']" and "hq_Body q = credential_body (cc_ID cfg) (cc_Secret cfg)"
    and "dispatch build conf started dp wire_decoders rd q c = Some (c', Answered rs)"
    and "client_New url_Parse baseURL expected opts = Inr cl"
    and "client_Authenticate (keys_reply 200 (answer_body zone (KeysAnswer keys)))
           (token_reply lenient (rs_Status rs) (answer_body zone (Answered rs))) (cc_ID cfg) (cc_Secret cfg) cl = (cl', out, res)"
  shows "if expected = issuer_PublicKey (dp_issuer dp)
     then (case res of
        Inr t \<Rightarrow> ct_PeerID t = TrimSpace (cc_PeerID cfg) \<and> ct_Value t \<in> set (ce_tokens c') \<and> ct_ExpiresAt t = rd_after rd + ttl \<and>
          (\<forall>later < ct_ExpiresAt t - ct_ExpiresAt t mod second. \<exists>who.
             verifier_Verify (dp_lib dp) later (ct_Value t) (dp_verifier dp) = Inr who \<and> cl_PeerID who = ct_PeerID t)
      | Inl e \<Rightarrow>
          if length (TrimSpace (cc_ID cfg)) \<le> 128 \<and> length (hq_Body q) \<le> 4096
          then e = ErrRefused 500 \<or> e = TokenUnreadable \<and>
            (time_json zone (rd_after rd + ttl) = None \<or> 65537 < length (answer_body zone (Answered rs)))
          else e = ErrRefused 400)
     else res = Inl ErrKeyMismatch \<and> (\<forall>u i s. SendCredential u i s \<notin> set out)"
proof -
  let ?pub = "issuer_PublicKey (dp_issuer dp)"
  have dp: "jwt_documented (dp_lib dp)" "NewClientStore configs = Inr (dp_clients dp)" "NewTokenIssuer key iss ttl = Inr (dp_issuer dp)"
      "dp_verifier dp = NewTokenVerifier ?pub iss"
    using assms(1) by (simp_all add: deployed_def)
  note issuer_key_length [OF dp(3)]
  moreover have "keys = JWKS ?pub" using assms(9) jwks_answer [OF assms(7,8)] by simp
  ultimately have read: "keys_reply 200 (answer_body zone (KeysAnswer keys)) = Replied 200 (Some (map read_key (JWKS ?pub)))"
    using key_set_read by simp
  note seen = Authenticate_this_server [OF assms(14) assms(15) [unfolded read]]
  note answer = auth_answer [OF assms(1,3,4,5,10-13)]
  show ?thesis
  proof (cases "expected = ?pub")
    case False
    with seen show ?thesis by simp
  next
    case True
    note seen = seen [unfolded if_P [OF True]]
    show ?thesis
    proof (cases "length (TrimSpace (cc_ID cfg)) \<le> 128 \<and> length (hq_Body q) \<le> 4096 \<and> rs \<noteq> writeError 500 codeInvalidRequest")
      case False
      with answer have "rs = writeError 500 codeInvalidRequest \<or>
          rs = writeError 400 codeInvalidRequest \<and> \<not> (length (TrimSpace (cc_ID cfg)) \<le> 128 \<and> length (hq_Body q) \<le> 4096)"
        by (auto split: if_splits)
      with seen True answer show ?thesis by (auto simp: token_reply_def writeError_def split: if_splits)
    next
      case ok: True
      with answer obtain t k who where t: "issuer_Issue (dp_lib dp) (rd_rand rd) (rd_after rd) (TrimSpace (cc_PeerID cfg)) (dp_issuer dp) = Inr t"
          "SignedString (dp_lib dp) k who = Some (tok_Value t)" "TrimSpace (cc_PeerID cfg) \<noteq> []" "tok_Value t \<in> set (ce_tokens c')"
          "rs = writeJSONStatus 200 (TokenBody \<lparr>tr_Token = tok_Value t, tr_PeerID = tok_PeerID t, tr_ExpiresAt = tok_ExpiresAt t\<rparr>)"
        by auto
      note ver = Issue_Verify_parts [OF dp(1,3) t(1)]
      note read = issued_token_read [OF dp(1,3) assms(2,6) t(1,2) _ t(5)]
      show ?thesis
        using seen read configured_peer_valid [OF dp(2) assms(3)] t(3,4) ver ok True
        by (auto simp: dp(4) TrimSpace_idem split: if_splits)
    qed
  qed
qed

lemma sample_expiry: "marshal_time 0 (60 * second) = Some ''0001-01-01T00:01:00Z''"
  by code_simp

definition sample_fetch :: http_request where
  "sample_fetch =
     \<lparr>hq_Method = GET, hq_Path = [''.well-known'', ''jwks.json''], hq_Authorization = [], hq_Protocols = [], hq_Body = []\<rparr>"

abbreviation sample_token_answer :: answer where
  "sample_token_answer \<equiv> Answered (writeJSONStatus 200 (TokenBody \<lparr>tr_Token = ''t'', tr_PeerID = ''alice'', tr_ExpiresAt = 60 * second\<rparr>))"

lemma sample_signs_text: "signs_text one_jwt"
  by (simp add: signs_text_def one_jwt_def) (rule ascii_valid, simp)

lemma sample_token_read:
  "token_reply lenient 200 (answer_body (\<lambda>_. 0) sample_token_answer) =
     Replied 200 (Some \<lparr>ct_Value = ''t'', ct_PeerID = ''alice'', ct_ExpiresAt = 60 * second\<rparr>)"
proof -
  have texts: "valid_utf8 ''t''" "valid_utf8 ''alice''" by (rule ascii_valid; simp)+
  have "json_quote ''token'' = quote_mark # ''token'' @ [quote_mark]" "json_quote ''peer_id'' = quote_mark # ''peer_id'' @ [quote_mark]"
      "json_quote ''expires_at'' = quote_mark # ''expires_at'' @ [quote_mark]" "json_quote ''t'' = quote_mark # ''t'' @ [quote_mark]"
      "json_quote ''alice'' = quote_mark # ''alice'' @ [quote_mark]"
      "json_quote ''0001-01-01T00:01:00Z'' = quote_mark # ''0001-01-01T00:01:00Z'' @ [quote_mark]"
    by (rule plain_quote; simp add: plain_in_text_def)+
  then have "length (answer_body (\<lambda>_. 0) sample_token_answer) \<le> 65537"
    by (simp add: answer_body_def answer_json_def body_json_def token_json_def time_json_def sample_expiry writeJSONStatus_def
        writeJSON_def string_bytes_def encode_line_def encode_object_def)
  then show ?thesis
    using token_read [of "\<lparr>tr_Token = ''t'', tr_PeerID = ''alice'', tr_ExpiresAt = 60 * second\<rparr>" "\<lambda>_. 0" _ lenient] texts
    by (simp add: time_json_def sample_expiry)
qed

theorem login_over_the_wire_witness:
  "\<exists>s c' cl cl' out t who. NewClientStore sample_clients = Inr s \<and>
     dispatch [] sample_cfg 0 (sample_deployment s) wire_decoders sample_login_readings sample_login sample_central =
       Some (c', sample_token_answer) \<and>
     client_New (\<lambda>_. Some sample_url) ''https://h'' (replicate 32 1) [] = Inr cl \<and>
     client_Authenticate (keys_reply 200 (answer_body (\<lambda>_. 0) (KeysAnswer (JWKS (replicate 32 1)))))
       (token_reply (\<lambda>_. None) 200 (answer_body (\<lambda>_. 0) sample_token_answer)) ''c'' (replicate 32 (CHR ''k'')) cl = (cl', out, Inr t) \<and>
     ct_ExpiresAt t = 60 * second \<and> verifier_Verify one_jwt 5 (ct_Value t) sample_verifier = Inr who \<and> cl_PeerID who = ''alice''"
proof -
  obtain s where s: "NewClientStore sample_clients = Inr s" using sample_clients_accepted by blast
  obtain c' where run: "dispatch [] sample_cfg 0 (sample_deployment s) wire_decoders sample_login_readings sample_login sample_central =
      Some (c', sample_token_answer)" using sample_login_answer [OF s] by blast
  obtain cl where cl: "client_New (\<lambda>_. Some sample_url) ''https://h'' (replicate 32 1) [] = Inr cl"
    by (simp add: client_New_def sample_url_def PublicKeySize_def Let_def)
  have pub: "issuer_PublicKey (dp_issuer (sample_deployment s)) = replicate 32 1"
    by (simp add: sample_deployment_def issuer_PublicKey_def key_Public_def one_issuer_def one_key_def)
  have cfg: "cc_ID sample_config = ''c''" "cc_Secret sample_config = replicate 32 (CHR ''k'')" by (simp_all add: sample_config_def)
  let ?keys = "keys_reply 200 (answer_body (\<lambda>_. 0) (KeysAnswer (JWKS (replicate 32 1))))"
    and ?tok = "token_reply (\<lambda>_. None) (rs_Status (writeJSONStatus 200 (TokenBody \<lparr>tr_Token = ''t'', tr_PeerID = ''alice'', tr_ExpiresAt = 60 * second\<rparr>)))
      (answer_body (\<lambda>_. 0) sample_token_answer)"
  obtain cl' out res where auth: "client_Authenticate ?keys ?tok (cc_ID sample_config) (cc_Secret sample_config) cl = (cl', out, res)"
    by (metis prod_cases3)
  have status: "rs_Status (writeJSONStatus 200 b) = 200" for b by (simp add: writeJSONStatus_def)
  have "?keys = Replied 200 (Some (map read_key (JWKS (replicate 32 1))))" by (rule key_set_read) simp
  from Authenticate_this_server [OF cl auth [unfolded this]]
  have res: "res = Inr \<lparr>ct_Value = ''t'', ct_PeerID = ''alice'', ct_ExpiresAt = 60 * second\<rparr>"
    by (simp add: status sample_token_read)
  have q: "hq_Method sample_login = POST" "hq_Path sample_login = [''auth'']"
      "hq_Body sample_login = credential_body (cc_ID sample_config) (cc_Secret sample_config)"
      "hq_Method sample_fetch = GET" "hq_Path sample_fetch = [''.well-known'', ''jwks.json'']"
    by (simp_all add: sample_login_def sample_config_def sample_fetch_def)
  have allowed: "limiter_Allowed (rd_now sample_login_readings) (TrimSpace (cc_ID sample_config)) (ce_limiter sample_central)"
    by (simp add: sample_central_def sample_login_readings_def sample_readings_def limiter_Allowed_def) (simp add: sample_limiter_def)
  have mem: "sample_config \<in> set sample_clients" by (simp add: sample_clients_def)
  have lib: "signs_text (dp_lib (sample_deployment s))" by (simp add: sample_deployment_def sample_signs_text)
  note keys = jwks_answer [OF q(4,5), of "[]" sample_cfg 0 "sample_deployment s" wire_decoders sample_login_readings sample_central, unfolded pub]
  note login = login_over_the_wire [OF sample_deployed [OF s] lib mem sample_client_utf8 allowed dvd_0_right q(4,5) keys q(1-3) run cl auth]
  have early: "(5 :: time) < 60 * second - 60 * second mod second" by (simp add: second_def)
  note verifies = login [unfolded pub res if_P [OF refl] sum.case client_token.simps, THEN conjunct2, THEN conjunct2, THEN conjunct2]
  obtain who where "verifier_Verify (dp_lib (sample_deployment s)) 5 ''t'' (dp_verifier (sample_deployment s)) = Inr who"
      "cl_PeerID who = ''alice''" using verifies [rule_format, OF early] by blast
  then have "verifier_Verify one_jwt 5 ''t'' sample_verifier = Inr who" "cl_PeerID who = ''alice''"
    by (simp_all add: sample_deployment_def)
  with s run cl auth res show ?thesis by (fastforce simp: cfg status)
qed

end
