(* ===== verification/Server.thy ===== *)
theory Server
  imports Startup
begin

text \<open>
  internal/transport/server.go: binding, and the life of the HTTP server from there to the
  end of Run. Run's two goroutines and the connections of net/http are a step relation:
  what net/http is documented to do on Shutdown and Close, hijacked connections left
  alone, is in its steps. It ends with what \<open>server_Run\<close> says, and the theorems say what
  becomes of the connections.
\<close>

section \<open>Construction\<close>

record server_options =
  sv_Addr :: string
  sv_ShutdownTimeout :: duration
  sv_ReadHeaderTimeout :: duration
  sv_ReadTimeout :: duration
  sv_WriteTimeout :: duration
  sv_IdleTimeout :: duration

definition defaultReadHeaderTimeout :: duration where "defaultReadHeaderTimeout = 10 * second"
definition defaultReadTimeout :: duration where "defaultReadTimeout = 30 * second"
definition defaultWriteTimeout :: duration where "defaultWriteTimeout = 30 * second"
definition defaultIdleTimeout :: duration where "defaultIdleTimeout = 120 * second"

lemmas default_timeouts = defaultReadHeaderTimeout_def defaultReadTimeout_def defaultWriteTimeout_def defaultIdleTimeout_def

datatype server_error = NoHandler | ListenFailed string string

text \<open>The listener is the address it is bound to, the resolved one.\<close>

record http_server =
  hs_ReadHeaderTimeout :: duration
  hs_ReadTimeout :: duration
  hs_WriteTimeout :: duration
  hs_IdleTimeout :: duration
  hs_listener :: string
  hs_shutdown :: duration

text \<open>What binding gives: the bound address, or why it failed.\<close>

definition NewServer :: "(string \<Rightarrow> string + string) \<Rightarrow> bool \<Rightarrow> server_options \<Rightarrow> server_error + http_server" where
  "NewServer listen_tcp has_handler opts =
     (if \<not> has_handler then Inl NoHandler
      else
        let readHeader = orDefault (sv_ReadHeaderTimeout opts) defaultReadHeaderTimeout;
            read_t = orDefault (sv_ReadTimeout opts) defaultReadTimeout;
            write_t = orDefault (sv_WriteTimeout opts) defaultWriteTimeout;
            idle = orDefault (sv_IdleTimeout opts) defaultIdleTimeout
        in case listen_tcp (sv_Addr opts) of
             Inl e \<Rightarrow> Inl (ListenFailed (sv_Addr opts) e)
           | Inr addr \<Rightarrow>
               Inr \<lparr>hs_ReadHeaderTimeout = readHeader, hs_ReadTimeout = read_t, hs_WriteTimeout = write_t,
                    hs_IdleTimeout = idle, hs_listener = addr, hs_shutdown = sv_ShutdownTimeout opts\<rparr>)"

definition server_Addr :: "http_server \<Rightarrow> string" where
  "server_Addr s = hs_listener s"

text \<open>What the process asks for: the address and the drain of the configuration, the defaults of the rest.\<close>

definition server_options_of :: "config \<Rightarrow> server_options" where
  "server_options_of cfg =
     \<lparr>sv_Addr = cf_ListenAddr cfg, sv_ShutdownTimeout = cf_ShutdownTimeout cfg, sv_ReadHeaderTimeout = 0,
      sv_ReadTimeout = 0, sv_WriteTimeout = 0, sv_IdleTimeout = 0\<rparr>"

lemma NewServer_of_config:
  "NewServer listen_tcp True (server_options_of cfg) =
     (case listen_tcp (cf_ListenAddr cfg) of
        Inl e \<Rightarrow> Inl (ListenFailed (cf_ListenAddr cfg) e)
      | Inr addr \<Rightarrow>
          Inr \<lparr>hs_ReadHeaderTimeout = 10 * second, hs_ReadTimeout = 30 * second, hs_WriteTimeout = 30 * second,
               hs_IdleTimeout = 120 * second, hs_listener = addr, hs_shutdown = cf_ShutdownTimeout cfg\<rparr>)"
  by (simp add: NewServer_def server_options_of_def orDefault_def default_timeouts split: sum.split)

section \<open>Serving and stopping\<close>

text \<open>
  A connection of the server: one a request is being served on, one between requests, or
  one a handler has taken over, as the WebSocket upgrade does.
\<close>

datatype conn_state = ActiveConn | IdleConn | HijackedConn

text \<open>
  Where Run is: in its select, in Shutdown, waiting for what Serve sent with what Shutdown
  returned, or returned with the errors joined.
\<close>

datatype run_phase = Selecting | ShuttingDown | AwaitingServe shutdown_result | Returned "string list"

record server_state =
  ss_cancelled :: bool
  ss_shut :: bool
  ss_errs :: "serve_result option"
  ss_phase :: run_phase
  ss_conns :: "nat \<Rightarrow> conn_state option"

definition server_start :: server_state where
  "server_start = \<lparr>ss_cancelled = False, ss_shut = False, ss_errs = None, ss_phase = Selecting, ss_conns = Map.empty\<rparr>"

text \<open>The connections Close leaves: those it does not manage any more.\<close>

definition only_hijacked :: "(nat \<Rightarrow> conn_state option) \<Rightarrow> nat \<Rightarrow> conn_state option" where
  "only_hijacked conns = (\<lambda>i. if conns i = Some HijackedConn then Some HijackedConn else None)"

text \<open>
  The connections' own steps; Serve, in its goroutine, which sends what it returns once;
  the cancellation of the context; and Run. Shutdown closes the listener at once, so Serve
  returns, and idle connections; it returns when no connection is active, when its context
  ends, or with an error of its own; Run then takes what Serve sent, and closes what was
  left only if the drain timed out.
\<close>

inductive server_step :: "server_state \<Rightarrow> server_state \<Rightarrow> bool" where
  accept: "\<not> ss_shut s \<Longrightarrow> ss_errs s = None \<Longrightarrow> ss_conns s i = None \<Longrightarrow>
     server_step s (s\<lparr>ss_conns := (ss_conns s)(i \<mapsto> ActiveConn)\<rparr>)"
| next_request: "\<not> ss_shut s \<Longrightarrow> ss_conns s i = Some IdleConn \<Longrightarrow>
     server_step s (s\<lparr>ss_conns := (ss_conns s)(i \<mapsto> ActiveConn)\<rparr>)"
| answered_request: "ss_conns s i = Some ActiveConn \<Longrightarrow>
     server_step s (s\<lparr>ss_conns := (ss_conns s)(i := (if ss_shut s then None else Some IdleConn))\<rparr>)"
| hijack: "ss_conns s i = Some ActiveConn \<Longrightarrow>
     server_step s (s\<lparr>ss_conns := (ss_conns s)(i \<mapsto> HijackedConn)\<rparr>)"
| peer_left: "ss_conns s i \<noteq> None \<Longrightarrow> ss_conns s i \<noteq> Some ActiveConn \<Longrightarrow>
     server_step s (s\<lparr>ss_conns := (ss_conns s)(i := None)\<rparr>)"
| serve_fails: "\<not> ss_shut s \<Longrightarrow> ss_errs s = None \<Longrightarrow> server_step s (s\<lparr>ss_errs := Some (ServeFailed e)\<rparr>)"
| serve_closed: "ss_shut s \<Longrightarrow> ss_errs s = None \<Longrightarrow> server_step s (s\<lparr>ss_errs := Some ServerClosed\<rparr>)"
| cancel: "server_step s (s\<lparr>ss_cancelled := True\<rparr>)"
| run_served: "ss_phase s = Selecting \<Longrightarrow> ss_errs s = Some r \<Longrightarrow>
     server_step s (s\<lparr>ss_phase := Returned (server_Run r None)\<rparr>)"
| run_drains: "ss_phase s = Selecting \<Longrightarrow> ss_cancelled s \<Longrightarrow>
     server_step s (s\<lparr>ss_phase := ShuttingDown, ss_shut := True,
       ss_conns := (\<lambda>i. if ss_conns s i = Some IdleConn then None else ss_conns s i)\<rparr>)"
| drained: "ss_phase s = ShuttingDown \<Longrightarrow> (\<And>i. ss_conns s i \<noteq> Some ActiveConn) \<Longrightarrow>
     server_step s (s\<lparr>ss_phase := AwaitingServe Drained\<rparr>)"
| deadline: "ss_phase s = ShuttingDown \<Longrightarrow> server_step s (s\<lparr>ss_phase := AwaitingServe DeadlineExceeded\<rparr>)"
| shutdown_fails: "ss_phase s = ShuttingDown \<Longrightarrow> (\<And>i. ss_conns s i \<noteq> Some ActiveConn) \<Longrightarrow>
     server_step s (s\<lparr>ss_phase := AwaitingServe (ShutdownFailed e)\<rparr>)"
| run_returns: "ss_phase s = AwaitingServe sd \<Longrightarrow> ss_errs s = Some r \<Longrightarrow>
     server_step s (s\<lparr>ss_phase := Returned (server_Run r (Some (sd, close_error))),
       ss_conns := (if sd = DeadlineExceeded then only_hijacked (ss_conns s) else ss_conns s)\<rparr>)"

inductive server_reachable :: "server_state \<Rightarrow> bool" where
  start: "server_reachable server_start"
| step: "server_reachable s \<Longrightarrow> server_step s s' \<Longrightarrow> server_reachable s'"

section \<open>How Run ends\<close>

text \<open>
  What holds at each place of Run: the listener is closed exactly from Shutdown on, which
  only a cancelled context leads to; and once Shutdown is over without its deadline no
  request is being served.
\<close>

definition no_active :: "server_state \<Rightarrow> bool" where
  "no_active s \<longleftrightarrow> (\<forall>i. ss_conns s i \<noteq> Some ActiveConn)"

definition run_ok :: "server_state \<Rightarrow> bool" where
  "run_ok s \<longleftrightarrow>
     (ss_shut s \<longrightarrow> ss_cancelled s) \<and> (ss_errs s = Some ServerClosed \<longrightarrow> ss_shut s) \<and> ss_errs s \<noteq> Some ServeStopped \<and>
     (case ss_phase s of
        Selecting \<Rightarrow> \<not> ss_shut s
      | ShuttingDown \<Rightarrow> ss_shut s
      | AwaitingServe sd \<Rightarrow> ss_shut s \<and> (sd \<noteq> DeadlineExceeded \<longrightarrow> no_active s)
      | Returned es \<Rightarrow>
          (\<exists>r. ss_errs s = Some r \<and>
             (if ss_shut s then no_active s \<and> (\<exists>sd ce. es = server_Run r (Some (sd, ce))) else es = server_Run r None)))"

lemma run_ok_start: "run_ok server_start"
  by (simp add: run_ok_def server_start_def)

lemma run_ok_step: "server_step s s' \<Longrightarrow> run_ok s \<Longrightarrow> run_ok s'"
proof (induction rule: server_step.induct)
  case (run_returns s sd r close_error)
  then show ?case by (auto simp: run_ok_def no_active_def only_hijacked_def)
qed (auto simp: run_ok_def no_active_def split: run_phase.splits if_splits)

lemma run_ok_reachable: "server_reachable s \<Longrightarrow> run_ok s"
  by (induction rule: server_reachable.induct) (auto intro: run_ok_start run_ok_step)


text \<open>A step of Run, where Run moves on, and what it does to a connection.\<close>

lemma run_step_conns:
  assumes "server_step s s'" and "ss_phase s' \<noteq> ss_phase s"
  shows "ss_conns s' i = ss_conns s i \<or>
     ss_phase s = Selecting \<and> ss_conns s i = Some IdleConn \<and> ss_conns s' i = None \<or>
     ss_phase s = AwaitingServe DeadlineExceeded \<and> ss_conns s' i = only_hijacked (ss_conns s) i"
  using assms by (cases rule: server_step.cases) auto

text \<open>What remains of a stop: Serve's return, the drain's deadline and Run's own steps lead to the end.\<close>

definition can_return :: "server_state \<Rightarrow> bool" where
  "can_return s \<longleftrightarrow> (\<exists>s' es. server_step\<^sup>*\<^sup>* s s' \<and> ss_phase s' = Returned es)"

lemma can_return_step: "server_step s u \<Longrightarrow> can_return u \<Longrightarrow> can_return s"
  unfolding can_return_def by (meson converse_rtranclp_into_rtranclp)

lemma can_return_done: "ss_phase s = Returned es \<Longrightarrow> can_return s"
  unfolding can_return_def by blast

lemma awaiting_taken: "ss_phase s = AwaitingServe sd \<Longrightarrow> ss_errs s = Some r \<Longrightarrow> can_return s"
  by (rule can_return_step [OF server_step.run_returns can_return_done]) simp_all

lemma awaiting_returns:
  assumes "run_ok s" and "ss_phase s = AwaitingServe sd"
  shows "can_return s"
proof (cases "ss_errs s")
  case None
  have "ss_shut s" using assms by (simp add: run_ok_def)
  from server_step.serve_closed [OF this None] show ?thesis
    by (rule can_return_step) (rule awaiting_taken; simp add: assms(2))
qed (rule awaiting_taken [OF assms(2)])

lemma stop_returns:
  assumes "run_ok s" and "ss_cancelled s"
  shows "can_return s"
proof -
  have waiting: "can_return u" if u: "run_ok u" "ss_phase u = ShuttingDown" for u
    using server_step.deadline [OF u(2)] run_ok_step [OF server_step.deadline [OF u(2)] u(1)]
    by (rule can_return_step [OF _ awaiting_returns]) simp
  show ?thesis
  proof (cases "ss_phase s")
    case Selecting
    note move = server_step.run_drains [OF Selecting assms(2)]
    from move run_ok_step [OF move assms(1)] show ?thesis by (rule can_return_step [OF _ waiting]) simp
  qed (use waiting [OF assms(1)] awaiting_returns [OF assms(1)] can_return_done in auto)
qed


text \<open>What main exits with: what run returned, or what serving ended with.\<close>

definition main_exit :: "run_result \<Rightarrow> string list \<Rightarrow> int" where
  "main_exit result served =
     (case result of
        RunFailed _ \<Rightarrow> 1
      | Serving _ _ _ \<Rightarrow> if served \<noteq> [] then 1 else 0
      | _ \<Rightarrow> 0)"

section \<open>A stop with a channel open\<close>

definition sample_stopping :: server_state where
  "sample_stopping = \<lparr>ss_cancelled = True, ss_shut = True, ss_errs = Some ServerClosed, ss_phase = AwaitingServe DeadlineExceeded,
     ss_conns = [0 \<mapsto> HijackedConn, 1 \<mapsto> ActiveConn]\<rparr>"

lemma sample_stopping_reachable: "server_reachable sample_stopping"
proof -
  let ?a = "server_start\<lparr>ss_conns := [0 \<mapsto> ActiveConn]\<rparr>"
  let ?b = "server_start\<lparr>ss_conns := [0 \<mapsto> HijackedConn]\<rparr>"
  let ?c = "server_start\<lparr>ss_conns := [0 \<mapsto> HijackedConn, 1 \<mapsto> ActiveConn]\<rparr>"
  let ?d = "?c\<lparr>ss_cancelled := True\<rparr>"
  let ?e = "?d\<lparr>ss_phase := ShuttingDown, ss_shut := True\<rparr>"
  let ?f = "?e\<lparr>ss_phase := AwaitingServe DeadlineExceeded\<rparr>"
  note reach = server_reachable.step
  have "server_reachable ?a"
    by (rule reach [OF server_reachable.start]) (use server_step.accept [of server_start 0] in \<open>simp add: server_start_def\<close>)
  then have "server_reachable ?b"
    by (rule reach) (use server_step.hijack [of ?a 0] in \<open>simp add: server_start_def\<close>)
  then have "server_reachable ?c"
    by (rule reach) (use server_step.accept [of ?b 1] in \<open>simp add: server_start_def\<close>)
  then have "server_reachable ?d" by (rule reach) (rule server_step.cancel)
  moreover have "(\<lambda>i. if ss_conns ?d i = Some IdleConn then None else ss_conns ?d i) = ss_conns ?d" by auto
  then have "server_step ?d ?e" using server_step.run_drains [of ?d] by (simp add: server_start_def)
  ultimately have "server_reachable ?e" by (rule reach)
  then have "server_reachable ?f" by (rule reach) (rule server_step.deadline; simp)
  then have "server_reachable (?f\<lparr>ss_errs := Some ServerClosed\<rparr>)"
    by (rule reach) (rule server_step.serve_closed; simp add: server_start_def)
  then show ?thesis by (simp add: sample_stopping_def server_start_def)
qed


end
