(* ===== verification/Channel.thy ===== *)
theory Channel
  imports Wire
begin

text \<open>
  The life of one signaling channel in internal/transport/signal.go: the handler's
  goroutine, which registers, reads and routes until it cannot, and cleans up; the
  goroutine that pings; and the goroutines that write to the channel, this one's and those
  of other peers' channels, under the lock of wsConn. What the WebSocket library does is in
  the steps: a read fails on a connection that is closed, on a message over the limit and
  on one that does not decode; a write that is cut closes the connection.
\<close>

section \<open>The channel\<close>

record signal_deps =
  sd_AllowedOrigins :: "string list"
  sd_AllowAnyOrigin :: bool
  sd_MaxMessageBytes :: int
  sd_PingInterval :: duration
  sd_PongTimeout :: duration

definition defaultMaxMessage :: int where "defaultMaxMessage = 128 * 1024"
definition defaultPingInterval :: duration where "defaultPingInterval = 20 * second"
definition defaultPongTimeout :: duration where "defaultPongTimeout = 10 * second"

definition maxMessage :: "signal_deps \<Rightarrow> int" where
  "maxMessage deps = (if sd_MaxMessageBytes deps \<le> 0 then defaultMaxMessage else sd_MaxMessageBytes deps)"

text \<open>What the handler calls on the hub, in order.\<close>

datatype hub_call = CallRegister | CallRoute message | CallDeregister

text \<open>
  Where each goroutine is. The handler's deferred calls run in the reverse of the order
  they were deferred in: the cancellation of its context, then the deregistration and the
  closing of the connection.
\<close>

datatype handler_phase = Accepted | Reading | Routing message | Cancelling | Deregistering | Closing | Finished
datatype keeper_phase = NotStarted | Ticking | Pinging | Stopped
datatype writer_phase = Outside | Locking message | Writing "byte list" nat

record channel =
  ch_open :: bool
  ch_cancelled :: bool
  ch_handler :: handler_phase
  ch_keeper :: keeper_phase
  ch_calls :: "hub_call list"
  ch_locked :: bool
  ch_writer :: "nat \<Rightarrow> writer_phase"
  ch_wire :: "byte list"
  ch_frames :: "byte list list"

definition channel_start :: channel where
  "channel_start =
     \<lparr>ch_open = True, ch_cancelled = False, ch_handler = Accepted, ch_keeper = NotStarted, ch_calls = [], ch_locked = False,
      ch_writer = (\<lambda>_. Outside), ch_wire = [], ch_frames = []\<rparr>"

text \<open>One frame as the reading goroutine takes it: within the limit, and a message.\<close>

definition read_frame :: "signal_deps \<Rightarrow> byte list \<Rightarrow> message option" where
  "read_frame deps raw = (if int (length raw) \<le> maxMessage deps then unmarshal_message raw else None)"

text \<open>
  The handler, the pinging goroutine, and the writers by number. The connection can be
  closed at any time: by its peer, or by the hub when a newer one replaces it.
\<close>

inductive channel_step :: "signal_deps \<Rightarrow> channel \<Rightarrow> channel \<Rightarrow> bool" for deps where
  register: "ch_handler s = Accepted \<Longrightarrow>
     channel_step deps s (s\<lparr>ch_handler := Reading, ch_calls := ch_calls s @ [CallRegister], ch_keeper := Ticking\<rparr>)"
| read_message: "ch_handler s = Reading \<Longrightarrow> ch_open s \<Longrightarrow> read_frame deps raw = Some msg \<Longrightarrow>
     channel_step deps s (s\<lparr>ch_handler := Routing msg\<rparr>)"
| read_refused: "ch_handler s = Reading \<Longrightarrow> ch_open s \<Longrightarrow> read_frame deps raw = None \<Longrightarrow>
     channel_step deps s (s\<lparr>ch_handler := Cancelling, ch_open := False\<rparr>)"
| read_fails: "ch_handler s = Reading \<Longrightarrow> \<not> ch_open s \<Longrightarrow> channel_step deps s (s\<lparr>ch_handler := Cancelling\<rparr>)"
| routed: "ch_handler s = Routing msg \<Longrightarrow>
     channel_step deps s (s\<lparr>ch_handler := Reading, ch_calls := ch_calls s @ [CallRoute msg]\<rparr>)"
| not_routed: "ch_handler s = Routing msg \<Longrightarrow>
     channel_step deps s (s\<lparr>ch_handler := Cancelling, ch_calls := ch_calls s @ [CallRoute msg]\<rparr>)"
| cancel: "ch_handler s = Cancelling \<Longrightarrow> channel_step deps s (s\<lparr>ch_handler := Deregistering, ch_cancelled := True\<rparr>)"
| deregister: "ch_handler s = Deregistering \<Longrightarrow>
     channel_step deps s (s\<lparr>ch_handler := Closing, ch_calls := ch_calls s @ [CallDeregister]\<rparr>)"
| close_now: "ch_handler s = Closing \<Longrightarrow> channel_step deps s (s\<lparr>ch_handler := Finished, ch_open := False\<rparr>)"
| tick: "ch_keeper s = Ticking \<Longrightarrow> channel_step deps s (s\<lparr>ch_keeper := Pinging\<rparr>)"
| pong: "ch_keeper s = Pinging \<Longrightarrow> ch_open s \<Longrightarrow> channel_step deps s (s\<lparr>ch_keeper := Ticking\<rparr>)"
| no_pong: "ch_keeper s = Pinging \<Longrightarrow> channel_step deps s (s\<lparr>ch_keeper := Stopped, ch_open := False\<rparr>)"
| keeper_done: "ch_keeper s = Ticking \<Longrightarrow> ch_cancelled s \<Longrightarrow> channel_step deps s (s\<lparr>ch_keeper := Stopped\<rparr>)"
| cut: "channel_step deps s (s\<lparr>ch_open := False\<rparr>)"
| send: "ch_writer s w = Outside \<Longrightarrow> channel_step deps s (s\<lparr>ch_writer := (ch_writer s)(w := Locking msg)\<rparr>)"
| lock: "ch_writer s w = Locking msg \<Longrightarrow> \<not> ch_locked s \<Longrightarrow> marshal_message msg = Some b \<Longrightarrow>
     channel_step deps s (s\<lparr>ch_writer := (ch_writer s)(w := Writing b 0), ch_locked := True\<rparr>)"
| send_refused: "ch_writer s w = Locking msg \<Longrightarrow> \<not> ch_locked s \<Longrightarrow> marshal_message msg = None \<Longrightarrow>
     channel_step deps s (s\<lparr>ch_writer := (ch_writer s)(w := Outside)\<rparr>)"
| put_byte: "ch_writer s w = Writing b n \<Longrightarrow> n < length b \<Longrightarrow> ch_open s \<Longrightarrow>
     channel_step deps s (s\<lparr>ch_writer := (ch_writer s)(w := Writing b (Suc n)), ch_wire := ch_wire s @ [b ! n]\<rparr>)"
| written: "ch_writer s w = Writing b n \<Longrightarrow> n = length b \<Longrightarrow>
     channel_step deps s (s\<lparr>ch_writer := (ch_writer s)(w := Outside), ch_locked := False, ch_frames := ch_frames s @ [b]\<rparr>)"
| write_cut: "ch_writer s w = Writing b n \<Longrightarrow> n < length b \<Longrightarrow>
     channel_step deps s (s\<lparr>ch_writer := (ch_writer s)(w := Outside), ch_locked := False, ch_open := False\<rparr>)"

inductive channel_reachable :: "signal_deps \<Rightarrow> channel \<Rightarrow> bool" for deps where
  start: "channel_reachable deps channel_start"
| step: "channel_reachable deps s \<Longrightarrow> channel_step deps s s' \<Longrightarrow> channel_reachable deps s'"

section \<open>What a channel asks of the hub\<close>

text \<open>The calls made so far, by the handler's place: registered first, deregistered last.\<close>

definition routed_ok :: "signal_deps \<Rightarrow> message \<Rightarrow> bool" where
  "routed_ok deps msg \<longleftrightarrow> (\<exists>raw. read_frame deps raw = Some msg)"

definition calls_ok :: "signal_deps \<Rightarrow> channel \<Rightarrow> bool" where
  "calls_ok deps s \<longleftrightarrow>
     (if ch_handler s = Accepted then ch_calls s = []
      else \<exists>msgs. list_all (routed_ok deps) msgs \<and>
        ch_calls s = CallRegister # map CallRoute msgs @
          (if ch_handler s = Closing \<or> ch_handler s = Finished then [CallDeregister] else [])) \<and>
     (case ch_handler s of Routing msg \<Rightarrow> routed_ok deps msg | _ \<Rightarrow> True) \<and>
     (ch_cancelled s \<longleftrightarrow> ch_handler s \<in> {Deregistering, Closing, Finished}) \<and>
     (ch_handler s = Finished \<longrightarrow> \<not> ch_open s) \<and> (ch_keeper s = NotStarted \<longleftrightarrow> ch_handler s = Accepted)"

lemma calls_ok_start: "calls_ok deps channel_start"
  by (simp add: calls_ok_def channel_start_def)

lemma more_routed:
  "list_all (routed_ok deps) msgs \<Longrightarrow> routed_ok deps msg \<Longrightarrow>
     \<exists>msgs'. list_all (routed_ok deps) msgs' \<and> CallRegister # map CallRoute msgs @ [CallRoute msg] = CallRegister # map CallRoute msgs'"
  by (intro exI [of _ "msgs @ [msg]"]) simp

lemma calls_ok_step: "channel_step deps s s' \<Longrightarrow> calls_ok deps s \<Longrightarrow> calls_ok deps s'"
proof (induction rule: channel_step.induct)
  case (routed s msg)
  then show ?case using more_routed [of deps _ msg] by (auto simp: calls_ok_def)
next
  case (not_routed s msg)
  then show ?case using more_routed [of deps _ msg] by (auto simp: calls_ok_def)
next
  case (read_message s raw msg)
  then show ?case by (auto simp: calls_ok_def routed_ok_def)
qed (auto simp: calls_ok_def split: if_splits)

section \<open>What goes out on it\<close>

lemma marshal_nonempty: "marshal_message m = Some b \<Longrightarrow> b \<noteq> []"
  by (auto simp: marshal_message_def encode_object_def split: if_splits)

text \<open>One writer at most holds the lock.\<close>

definition writing :: "channel \<Rightarrow> nat \<Rightarrow> bool" where
  "writing s w \<longleftrightarrow> (\<exists>b n. ch_writer s w = Writing b n)"

definition texts_ok :: "channel \<Rightarrow> bool" where
  "texts_ok s \<longleftrightarrow> (\<forall>w b n. ch_writer s w = Writing b n \<longrightarrow> n \<le> length b \<and> (\<exists>m. marshal_message m = Some b))"

definition lock_ok :: "channel \<Rightarrow> bool" where
  "lock_ok s \<longleftrightarrow> (if ch_locked s then \<exists>w. \<forall>w'. writing s w' \<longleftrightarrow> w' = w else \<forall>w. \<not> writing s w) \<and> texts_ok s"

lemma writingI: "ch_writer s w = Writing b n \<Longrightarrow> writing s w"
  by (auto simp: writing_def)

lemma lock_ok_one: "lock_ok s \<Longrightarrow> writing s w \<Longrightarrow> ch_locked s \<and> (\<forall>w'. writing s w' \<longleftrightarrow> w' = w)"
  by (auto simp: lock_ok_def split: if_splits)

lemma texts_ok_step: "channel_step deps s s' \<Longrightarrow> texts_ok s \<Longrightarrow> texts_ok s'"
  by (induction rule: channel_step.induct) (auto simp: texts_ok_def)

lemma writing_more [simp]:
  "writing (s\<lparr>ch_handler := a\<rparr>) = writing s" "writing (s\<lparr>ch_open := op\<rparr>) = writing s" "writing (s\<lparr>ch_keeper := k\<rparr>) = writing s"
  "writing (s\<lparr>ch_calls := cs\<rparr>) = writing s" "writing (s\<lparr>ch_cancelled := ca\<rparr>) = writing s" "writing (s\<lparr>ch_locked := l\<rparr>) = writing s"
  "writing (s\<lparr>ch_wire := v\<rparr>) = writing s" "writing (s\<lparr>ch_frames := f\<rparr>) = writing s"
  by (simp_all add: writing_def fun_eq_iff)

lemma lock_ok_step:
  assumes "channel_step deps s s'" and "lock_ok s"
  shows "lock_ok s'"
proof -
  have "texts_ok s'" using assms texts_ok_step by (simp add: lock_ok_def)
  moreover have "if ch_locked s' then \<exists>w. \<forall>w'. writing s' w' \<longleftrightarrow> w' = w else \<forall>w. \<not> writing s' w"
    using assms(1)
  proof cases
    case (lock w msg b)
    then show ?thesis using assms(2) by (auto simp: lock_ok_def writing_def)
  next
    case (put_byte w b n)
    with lock_ok_one [OF assms(2) writingI] have "ch_locked s" "\<And>w'. writing s w' \<longleftrightarrow> w' = w" by blast+
    then show ?thesis unfolding put_byte(1) by (auto simp: writing_def)
  next
    case (written w b n)
    with lock_ok_one [OF assms(2) writingI] have "\<And>w'. writing s w' \<longleftrightarrow> w' = w" by blast
    then show ?thesis unfolding written(1) by (auto simp: writing_def)
  next
    case (write_cut w b n)
    with lock_ok_one [OF assms(2) writingI] have "\<And>w'. writing s w' \<longleftrightarrow> w' = w" by blast
    then show ?thesis unfolding write_cut(1) by (auto simp: writing_def)
  next
    case (send w msg)
    then have "writing s' = writing s" by (auto simp: writing_def fun_eq_iff)
    then show ?thesis using assms(2) send(1) by (simp add: lock_ok_def)
  next
    case (send_refused w msg)
    then have "writing s' = writing s" by (auto simp: writing_def fun_eq_iff)
    then show ?thesis using assms(2) send_refused(1) by (simp add: lock_ok_def)
  qed (use assms(2) in \<open>simp_all add: lock_ok_def\<close>)
  ultimately show ?thesis by (simp add: lock_ok_def)
qed

text \<open>
  The bytes on the wire are whole frames and what the one writer has written of its own; or
  the connection is closed, and nothing more goes out.
\<close>

definition whole :: "channel \<Rightarrow> bool" where
  "whole s \<longleftrightarrow> (\<forall>w b n. ch_writer s w = Writing b n \<longrightarrow> ch_wire s = concat (ch_frames s) @ take n b) \<and>
     (\<not> ch_locked s \<longrightarrow> ch_wire s = concat (ch_frames s))"

definition broken :: "channel \<Rightarrow> bool" where
  "broken s \<longleftrightarrow> \<not> ch_open s \<and> (\<exists>rest. ch_wire s = concat (ch_frames s) @ rest) \<and>
     (\<forall>w b n. ch_writer s w = Writing b n \<longrightarrow> n = 0)"

definition wire_ok :: "channel \<Rightarrow> bool" where
  "wire_ok s \<longleftrightarrow> lock_ok s \<and> (\<forall>b \<in> set (ch_frames s). \<exists>m. marshal_message m = Some b) \<and> (whole s \<or> broken s)"

lemma wire_ok_same:
  assumes "wire_ok s" and "lock_ok s'" and "ch_wire s' = ch_wire s" and "ch_frames s' = ch_frames s" and "ch_open s' \<longrightarrow> ch_open s"
    and "ch_locked s' = ch_locked s" and "\<And>w b n. ch_writer s' w = Writing b n \<Longrightarrow> ch_writer s w = Writing b n"
  shows "wire_ok s'"
proof -
  have "whole s'" if "whole s" using that assms(3,4,6,7) unfolding whole_def by metis
  moreover have "broken s'" if "broken s" using that assms(3-5,7) unfolding broken_def by metis
  ultimately show ?thesis using assms(1,2,4) unfolding wire_ok_def by metis
qed

lemma wire_ok_step:
  assumes "channel_step deps s s'" and "wire_ok s"
  shows "wire_ok s'"
proof -
  have lock: "lock_ok s" "lock_ok s'" using assms lock_ok_step [OF assms(1)] by (auto simp: wire_ok_def)
  have one: "w' = w" if "ch_writer s w' = Writing b' n'" "ch_writer s w = Writing b n" for w' b' n' w b n
    using lock_ok_one [OF lock(1) writingI [OF that(2)]] writingI [OF that(1)] by blast
  from assms(1) show ?thesis
  proof cases
    case (lock w msg b)
    have none: "ch_writer s w' \<noteq> Writing b' n'" for w' b' n' using \<open>lock_ok s\<close> lock(3) by (auto simp: lock_ok_def writing_def)
    have "whole s'" if "whole s" using that lock none by (auto simp: whole_def)
    moreover have "broken s'" if "broken s" using that lock none by (auto simp: broken_def)
    ultimately have "whole s' \<or> broken s'" using assms(2) by (auto simp: wire_ok_def)
    then show ?thesis using assms(2) \<open>lock_ok s'\<close> lock(1) by (simp add: wire_ok_def)
  next
    case (put_byte w b n)
    have "whole s" using assms(2) put_byte by (auto simp: wire_ok_def broken_def)
    then have "ch_wire s = concat (ch_frames s) @ take n b" using put_byte by (auto simp: whole_def)
    then have "whole s'" using put_byte one \<open>lock_ok s\<close> by (auto simp: whole_def take_Suc_conv_app_nth dest: lock_ok_one [OF _ writingI])
    then show ?thesis using assms(2) \<open>lock_ok s'\<close> put_byte by (simp add: wire_ok_def)
  next
    case (written w b n)
    have sent: "\<exists>m. marshal_message m = Some b" using \<open>lock_ok s\<close> written by (auto simp: lock_ok_def texts_ok_def)
    then have "n \<noteq> 0" using marshal_nonempty written by auto
    then have "whole s" using assms(2) written by (auto simp: wire_ok_def broken_def)
    then have "ch_wire s = concat (ch_frames s) @ b" using written by (auto simp: whole_def)
    then have "whole s'" using written one by (auto simp: whole_def)
    then show ?thesis using assms(2) \<open>lock_ok s'\<close> written sent by (auto simp: wire_ok_def)
  next
    case (write_cut w b n)
    then have "\<exists>rest. ch_wire s = concat (ch_frames s) @ rest" using assms(2) by (auto simp: wire_ok_def whole_def broken_def)
    then have "broken s'" using write_cut one by (auto simp: broken_def)
    then show ?thesis using assms(2) \<open>lock_ok s'\<close> write_cut by (simp add: wire_ok_def)
  qed (rule wire_ok_same [OF assms(2) lock(2)]; force split: if_splits)+
qed

lemma wire_ok_start: "wire_ok channel_start"
  by (simp add: channel_start_def wire_ok_def lock_ok_def texts_ok_def writing_def whole_def)

lemma channel_inv: "channel_reachable deps s \<Longrightarrow> calls_ok deps s \<and> wire_ok s"
  by (induction rule: channel_reachable.induct) (blast intro: calls_ok_start wire_ok_start calls_ok_step wire_ok_step)+

section \<open>A channel can always end\<close>

definition can_finish :: "signal_deps \<Rightarrow> channel \<Rightarrow> bool" where
  "can_finish deps s \<longleftrightarrow> (\<exists>s'. (channel_step deps)\<^sup>*\<^sup>* s s' \<and> ch_handler s' = Finished \<and> ch_keeper s' = Stopped)"

lemma can_finish_step: "channel_step deps s u \<Longrightarrow> can_finish deps u \<Longrightarrow> can_finish deps s"
  unfolding can_finish_def by (meson converse_rtranclp_into_rtranclp)

lemma can_finish_done: "ch_handler s = Finished \<Longrightarrow> ch_keeper s = Stopped \<Longrightarrow> can_finish deps s"
  unfolding can_finish_def by blast

lemma keeper_ends:
  assumes "ch_handler s = Finished" and "ch_cancelled s" and "ch_keeper s \<noteq> NotStarted"
  shows "can_finish deps s"
proof (cases "ch_keeper s")
  case Ticking
  show ?thesis by (rule can_finish_step [OF channel_step.keeper_done [OF Ticking assms(2)] can_finish_done]) (simp_all add: assms(1))
next
  case Pinging
  show ?thesis by (rule can_finish_step [OF channel_step.no_pong [OF Pinging] can_finish_done]) (simp_all add: assms(1))
qed (use assms can_finish_done in auto)

lemma cleanup_ends:
  assumes "ch_handler s = Cancelling" and "ch_keeper s \<noteq> NotStarted"
  shows "can_finish deps s"
  by (rule can_finish_step [OF channel_step.cancel [OF assms(1)]],
      rule can_finish_step [OF channel_step.deregister], simp,
      rule can_finish_step [OF channel_step.close_now], simp, rule keeper_ends)
    (use assms(2) in simp_all)

lemma reading_ends:
  assumes "ch_handler s = Reading" and "ch_keeper s \<noteq> NotStarted"
  shows "can_finish deps s"
  by (rule can_finish_step [OF channel_step.cut], rule can_finish_step [OF channel_step.read_fails], use assms in simp, simp,
      rule cleanup_ends) (use assms in simp_all)

lemma channel_ends:
  assumes "calls_ok deps s"
  shows "can_finish deps s"
proof -
  have keeper: "ch_keeper s = NotStarted \<longleftrightarrow> ch_handler s = Accepted" using assms by (simp add: calls_ok_def)
  show ?thesis
  proof (cases "ch_handler s")
    case Accepted
    show ?thesis by (rule can_finish_step [OF channel_step.register [OF Accepted]], rule reading_ends) simp_all
  next
    case Reading
    then show ?thesis using reading_ends keeper by simp
  next
    case (Routing msg)
    show ?thesis by (rule can_finish_step [OF channel_step.routed [OF Routing]], rule reading_ends) (use Routing keeper in simp_all)
  next
    case Cancelling
    then show ?thesis using cleanup_ends keeper by simp
  next
    case Deregistering
    show ?thesis
      by (rule can_finish_step [OF channel_step.deregister [OF Deregistering]], rule can_finish_step [OF channel_step.close_now],
          simp, rule keeper_ends) (use assms Deregistering keeper in \<open>simp_all add: calls_ok_def\<close>)
  next
    case Closing
    show ?thesis by (rule can_finish_step [OF channel_step.close_now [OF Closing]], rule keeper_ends)
        (use assms Closing keeper in \<open>simp_all add: calls_ok_def\<close>)
  next
    case Finished
    then show ?thesis using keeper_ends assms by (simp add: calls_ok_def)
  qed
qed


definition sample_signal_deps :: signal_deps where
  "sample_signal_deps =
     \<lparr>sd_AllowedOrigins = [''example.org''], sd_AllowAnyOrigin = False, sd_MaxMessageBytes = 0, sd_PingInterval = 0, sd_PongTimeout = 0\<rparr>"

lemma sample_frame_within: "read_frame sample_signal_deps sample_frame = Some sample_message"
proof -
  have "json_escape ''type'' = ''type''" "json_escape ''offer'' = ''offer''" "json_escape ''session_id'' = ''session_id''"
      "json_escape ''s'' = ''s''" "json_escape ''payload'' = ''payload''"
    by (rule json_escape_plain; simp add: plain_in_text_def list_all_iff)+
  then have "int (length sample_frame) \<le> 128 * 1024"
    by (simp add: sample_frame_def encode_object_def json_quote_def)
  then show ?thesis
    using sample_frame_reads by (simp add: read_frame_def maxMessage_def sample_signal_deps_def defaultMaxMessage_def)
qed


end
