(* ===== verification/Spec2Isabelle.thy ===== *)
theory Spec2Isabelle
  imports Login_Wire Bodies Go_Time Wire Server Channel Dispatch Startup Control_Plane Authclient Config Middleware Registry Session Signaling Limiter Clients Tokens Ice Transport Handlers Handlers_Auth
begin

text \<open>
  The control plane of dc-streaming-p2p, a Go program that lets peers find each other
  and agree on a WebRTC connection, modelled from the sources under src/cmd and
  src/internal. A peer exchanges a client credential for a signed token (POST /auth),
  registers, opens a session with another peer, and the two exchange offers, answers
  and candidates over a WebSocket the server routes between the two of a live session.

  What the theories model.

  Prelude, Go_Map, Go_Text, Go_Strings, Go_Base64, Go_Crypto, Go_Parse: the parts of
  Go and its library the program uses. A string is a list of bytes, a time.Time the
  nanoseconds since Go's zero time, a time.Duration an int with the saturation of
  Time.Sub written out; an int that can overflow is wrapped at 64 bits (int64). A map is
  an association list with one entry per key, and ranging over one visits it in the
  order an argument gives, about which only \<open>range_ok\<close> is assumed. SHA-256, SHA-1, HMAC,
  base64 both ways, TrimSpace, Split, Cut, EqualFold, Atoi and SplitHostPort are
  defined and compute. Go_Numbers has decimal digits, padded fields, the fraction of a
  second and Duration.String; Go_Time the calendar and RFC 3339, as time.Time is written
  to JSON and read from it, with the theorem that what is written is read as the same
  nanosecond.

  Go_Json, Go_Json_Text, Go_Json_Compact, Go_Json_Local, Go_Json_Struct: what the program
  uses of encoding/json, on byte strings. Go_Json has the text of a JSON value, its parser
  with the decoder's nesting limit of 10000, the repair of invalid UTF-8 and the escapes
  of the encoder; Go_Json_Text reads back what quoting wrote; Go_Json_Compact shows that
  compacting a raw value keeps its value; Go_Json_Local that what a value is read as
  depends on its own text only, so that a value cut short is refused and one followed by
  more is read the same; Go_Json_Struct the decoding of an object into the fields of a
  struct (matching names by fold, the last of two, unknown fields refused or ignored), its
  encoding, and what is read of what was written. Go_Json_Encode writes any JSON value as
  Marshal does and shows that its text reads as the value.

  Registry (internal/registry/registry.go): the peers and when each was last heard of.
  Each operation is a function of the registry and the clock readings it makes; the
  mutex of the code is that one operation is one step.

  Session_Store, Session_Inv, Session_Ops, Session_Open, Session
  (internal/session/session.go): the store of sessions with its indexes by pair and by
  peer, its live counter and its list of ended sessions. Session_Store has the data and
  operations; Session_Inv the invariant that ties the indexes together; Session_Ops and
  Session_Open what each operation does to the records; Session the properties over the
  sessions that are live at an instant (\<open>live_view\<close>), against which Open is a refinement
  of an abstract specification.

  Signaling (internal/signaling/hub.go): the hub of connections. What it asks of the
  session store is an argument with the contract \<open>sessions_answer\<close>, a locale; whether a
  write succeeds is the argument \<open>writes\<close>; what is done to connections is returned as a
  list of effects in order.

  Limiter, Clients, Tokens (internal/auth): the failed-attempt limiter with its eviction
  loop, the client store, and issuing and verifying tokens. The JWT library is the
  record \<open>jwt\<close>, a parameter, and \<open>jwt_documented\<close> the documented behaviour the proofs
  use, instantiated by a library of one token in the witnesses.

  Ice (internal/ice/ice.go): relay credentials. Transport, Handlers, Handlers_Auth
  (internal/transport: auth.go, peers.go, sessions.go, ice.go, signal.go): the handlers,
  as functions of a request with its body decoded, and what they promise. Middleware
  (middleware.go, health.go, server.go's defaults, internal/buildinfo): request
  identifiers, the status recorder and the request log.

  Authclient (internal/authclient/client.go, and the key set of auth.go): the peer side,
  with what it sends returned in order. Config (internal/config/config.go): reading and
  validating the environment.

  Wiring (cmd/central/main.go and signal.go): the adapters between the components; the
  record \<open>central\<close>, the state of the process; each route behind its guard; channels
  opening, carrying a message and closing; and one tick of each background loop.
  System and System_Steps: the invariants that span components, the relation
  \<open>central_step\<close> of any one request, message or tick happening, with any clock readings,
  and its reachable states. Control_Plane: what the system promises. Startup: from the
  environment to a serving process, whose state is a start of the system. Dispatch: the
  HTTP surface as one function, from a request as it arrives (method, path, headers and
  the bytes of its body) through the multiplexer, the bound on its body, the token
  middleware and the handler of its route to its answer; who it acts as; and what it
  can change.

  Wire: the types the program reads from and writes to JSON, with the fields their tags
  name: the request bodies, the credential a client posts, the message of a channel, the
  configured clients; \<open>wire_decoders\<close> are the decoders Dispatch takes as an argument.
  Channel (signal.go): one channel as a step relation of its three kinds of goroutine: the
  handler that reads and routes, the one that pings, and the writers, under the lock of
  wsConn. Server (server.go): construction, and serving until a stop as a step relation
  of the connections, Serve's goroutine and Run.

  Bodies: the contract of a decoder of the first value of what it is given, as the locale
  \<open>value_decoder\<close>, interpreted on the three decoders of requests and, in Login_Wire, on the
  client's two; the bound on a body is used through it. Stamps: the instants the process holds. Every operation, through requests, messages and
  ticks (\<open>served_within\<close>), writes readings of its clock or the moment a negotiation timed
  out, so what is answered lies in the range of its readings, a credential's expiry its
  lifetime past it. Answers: each response type as the value its tags make of it and
  writeJSON, which writes nothing where an instant cannot be encoded; with Stamps, that
  this never happens. Login_Wire: the key set and the token as the client decodes them from
  bytes within its bound, and a login from the bytes of one side to those of the other.

  How the components meet. The hub asks the session store through sessionsAsPairs; the
  interpretation \<open>pairs\<close> discharges the hub's contract on the model of the store, and
  what Route promises is used through it. The session routes ask the registry whether a
  peer is reachable; the sweep of the registry closes sessions and tells the hub; the hub
  tells the registry who is present, through an interface stated as the locale
  \<open>presence_answer\<close> and interpreted on the registry as \<open>online\<close>. Go_Map states finite maps as a locale, interpreted
  on association lists as \<open>gm\<close>.

  What the properties show. Of the system: only the peers of configured clients are
  anywhere in it, whatever happens; every request is answered, in every state that can
  be reached, and changes only what the peer its token names may change; a sweep ends exactly the sessions of the peers it
  removes and tells the peers left; signaling reaches the other peer of a live session
  and nobody else, and it can answer; a peer with a channel is kept online; a session
  that was answered can be signaled on until its negotiation time has passed; and a
  configuration that loads is one every component accepts. On the wire: what a configured
  client posts logs it in, whatever UTF-8 its credential is, and what the server answers is
  read by the client as the token issued, to the nanosecond of its expiry; a body is read up to its first value, which the bound leaves whole or refuses; every answer is
  one JSON value, whatever the process went through; a relayed message reads at
  the receiver as it was sent, its sender named by the server; a channel is registered and
  deregistered once, its frames whole and in turn, and it ends when its socket is lost; a
  stop ends in time and cuts no request before its deadline. Of the components: their
  invariants through any history; every operation on every branch, errors included;
  that sweeping and settling late cannot be observed; that the limiter implements an
  unbounded counter up to its ceiling and that its loop ends; that a token verifies
  until its expiry and as nobody else's; that no secret is logged and no credential sent
  before the server's key was checked.

  Assumptions about the outside, each a hypothesis: \<open>jwt_documented\<close>; that a range over a
  map visits each key once (\<open>range_ok\<close>); that a new session identifier is not one in use
  (\<open>open_inputs\<close>, 16 random bytes); that a token that verifies under this server's key is
  one it issued (\<open>only_issued\<close>, in the steps); and, for the store, a ceiling on sessions
  below 2^61, from which on the code's bound on retained records wraps.

  Bounds and fuel. The JSON parser counts the nesting that is left, from the decoder's own
  limit (\<open>maxNestingDepth\<close>), and past it refuses as the decoder does. Nothing else is fuelled: the trimming loop and the loops over lists are
  recursive functions with a measure or structural, the eviction loop is a partial
  function proved to return on every limiter that can arise.

  Not modelled. HTTP and WebSocket framing and the origin check of the WebSocket library. What the
  WebSocket library and net/http do with a connection is in the steps of Channel and
  Server, as they document it. The file system, the flag package, url.Parse and
  time.ParseDuration, ed25519's key derivation, the server's time zone, and what time.Parse
  makes of a time that is not strictly RFC 3339: parameters where a result is used.
  Logging, other than the request log and the startup line. The embedded web assets
  (web/web.go) and the JavaScript under web/: no Go logic. Each operation is atomic, as
  its mutex makes it; the steps of a request that takes two locks in turn are taken
  together, except where the readings of the clock between them are arguments.
\<close>

end
